(* ===== verification/Prelude.thy ===== *)
theory Prelude
  imports Main "HOL-Library.Word" "HOL-Library.AList" "HOL-Library.Multiset"
    "HOL-Library.Char_ord" "HOL-Library.List_Lexorder"
begin

text \<open>
  What every component shares: the result type of fallible Rust code, durations and instants,
  the two map types of the standard library, and the rule collections the component proofs
  name.

  A \<^verbatim>\<open>Result<T, E>\<close> is the sum type with \<open>Inl\<close> for \<open>Err\<close> and \<open>Inr\<close> for \<open>Ok\<close>;
  \<open>bind_r\<close> is the question-mark operator. A \<^verbatim>\<open>Duration\<close> and a monotonic \<^verbatim>\<open>Instant\<close> are
  natural numbers of nanoseconds on an unbounded clock, so the panic of an overflowing
  \<^verbatim>\<open>Instant + Duration\<close> is not modelled. A \<^verbatim>\<open>HashMap\<close> is an association list with distinct
  keys (its list order stands for the unspecified iteration order), a \<^verbatim>\<open>BTreeMap\<close> is an
  association list kept strictly sorted by key, so that equal maps are equal lists.
\<close>

named_theorems result_simps
named_theorems map_simps
named_theorems time_simps

section \<open>Results\<close>

abbreviation Ok :: "'a \<Rightarrow> 'e + 'a" where
  "Ok \<equiv> Inr"

abbreviation Err :: "'e \<Rightarrow> 'e + 'a" where
  "Err \<equiv> Inl"

definition bind_r :: "'e + 'a \<Rightarrow> ('a \<Rightarrow> 'e + 'b) \<Rightarrow> 'e + 'b" where
  "bind_r r f = (case r of Inl e \<Rightarrow> Inl e | Inr x \<Rightarrow> f x)"

definition ok_or :: "'a option \<Rightarrow> 'e \<Rightarrow> 'e + 'a" where
  "ok_or x e = (case x of None \<Rightarrow> Err e | Some v \<Rightarrow> Ok v)"

definition ensure :: "bool \<Rightarrow> 'e \<Rightarrow> 'e + unit" where
  "ensure c e = (if c then Ok () else Err e)"

definition filter_o :: "('a \<Rightarrow> bool) \<Rightarrow> 'a option \<Rightarrow> 'a option" where
  "filter_o P x = (case x of None \<Rightarrow> None | Some v \<Rightarrow> if P v then Some v else None)"

definition is_some_and :: "('a \<Rightarrow> bool) \<Rightarrow> 'a option \<Rightarrow> bool" where
  "is_some_and P x = (case x of None \<Rightarrow> False | Some v \<Rightarrow> P v)"

definition is_none_or :: "('a \<Rightarrow> bool) \<Rightarrow> 'a option \<Rightarrow> bool" where
  "is_none_or P x = (case x of None \<Rightarrow> True | Some v \<Rightarrow> P v)"

lemma bind_r_Ok [simp]: "bind_r (Ok x) f = f x"
  by (simp add: bind_r_def)

lemma bind_r_Err [simp]: "bind_r (Err e) f = Err e"
  by (simp add: bind_r_def)

lemma bind_r_eq_Ok [result_simps]:
  "bind_r r f = Ok y \<longleftrightarrow> (\<exists>x. r = Ok x \<and> f x = Ok y)"
  by (cases r) auto

lemma bind_r_eq_Err [result_simps]:
  "bind_r r f = Err e \<longleftrightarrow> r = Err e \<or> (\<exists>x. r = Ok x \<and> f x = Err e)"
  by (cases r) auto

definition map_r :: "('a \<Rightarrow> 'b) \<Rightarrow> 'e + 'a \<Rightarrow> 'e + 'b" where
  "map_r f r = bind_r r (\<lambda>x. Ok (f x))"

definition map_err :: "('e \<Rightarrow> 'f) \<Rightarrow> 'e + 'a \<Rightarrow> 'f + 'a" where
  "map_err f r = (case r of Inl e \<Rightarrow> Inl (f e) | Inr x \<Rightarrow> Inr x)"

lemma map_err_simps [simp]: "map_err f (Ok x) = Ok x" "map_err f (Err e) = Err (f e)"
  by (simp_all add: map_err_def)

lemma map_err_eq_Ok [result_simps]: "map_err f r = Ok x \<longleftrightarrow> r = Ok x"
  by (cases r) auto

lemma map_r_simps [simp]: "map_r f (Ok x) = Ok (f x)" "map_r f (Err e) = Err e"
  by (simp_all add: map_r_def)

lemma map_r_eq_Ok [result_simps]: "map_r f r = Ok y \<longleftrightarrow> (\<exists>x. r = Ok x \<and> y = f x)"
  by (cases r) auto

lemma bind_r_map_r: "bind_r (map_r f r) g = bind_r r (\<lambda>x. g (f x))"
  by (cases r) simp_all

lemma map_r_bind_r: "map_r f (bind_r r g) = bind_r r (\<lambda>x. map_r f (g x))"
  by (cases r) simp_all

lemma bind_r_assoc: "bind_r (bind_r r f) g = bind_r r (\<lambda>x. bind_r (f x) g)"
  by (cases r) simp_all

lemma map_r_if: "map_r f (if c then a else b) = (if c then map_r f a else map_r f b)"
  by simp

lemma ok_or_simps [simp]: "ok_or (Some v) e = Ok v" "ok_or None e = Err e"
  by (simp_all add: ok_or_def)

lemma ok_or_eq_Ok [result_simps]: "ok_or x e = Ok v \<longleftrightarrow> x = Some v"
  by (cases x) auto

lemma ensure_eq_Ok [result_simps]: "ensure c e = Ok u \<longleftrightarrow> c"
  by (simp add: ensure_def)

lemma ensure_eq_Err [result_simps]: "ensure c e = Err e' \<longleftrightarrow> \<not> c \<and> e' = e"
  by (auto simp: ensure_def)

lemma ensure_simps [simp]: "ensure True e = Ok ()" "ensure False e = Err e"
  by (simp_all add: ensure_def)

lemma filter_o_eq_Some [result_simps]: "filter_o P x = Some v \<longleftrightarrow> x = Some v \<and> P v"
  by (cases x) (auto simp: filter_o_def)

lemma filter_o_simps [simp]:
  "filter_o P None = None" "filter_o P (Some v) = (if P v then Some v else None)"
  by (simp_all add: filter_o_def)

lemma is_some_and_simps [simp]:
  "\<not> is_some_and P None" "is_some_and P (Some v) = P v"
  by (simp_all add: is_some_and_def)

lemma is_none_or_simps [simp]:
  "is_none_or P None" "is_none_or P (Some v) = P v"
  by (simp_all add: is_none_or_def)

section \<open>Lists\<close>

definition option_list :: "'a option \<Rightarrow> 'a list" where
  "option_list x = (case x of None \<Rightarrow> [] | Some v \<Rightarrow> [v])"

lemma option_list_simps [simp]: "option_list None = []" "option_list (Some v) = [v]"
  by (simp_all add: option_list_def)

lemma mset_last_butlast: "xs \<noteq> [] \<Longrightarrow> mset xs = add_mset (last xs) (mset (butlast xs))"
  by (induction xs rule: rev_induct) simp_all

lemma last_filter_split:
  "filter P xs \<noteq> [] \<Longrightarrow> \<exists>us vs. xs = us @ last (filter P xs) # vs \<and> P (last (filter P xs))
     \<and> (\<forall>v \<in> set vs. \<not> P v) \<and> butlast (filter P xs) = filter P us"
proof (induction xs rule: rev_induct)
  case (snoc x xs)
  show ?case
  proof (cases "P x")
    case True
    then show ?thesis by (intro exI [of _ xs] exI [of _ "[]"]) simp
  next
    case False
    with snoc obtain us vs where "xs = us @ last (filter P xs) # vs" "P (last (filter P xs))"
      "\<forall>v \<in> set vs. \<not> P v" "butlast (filter P xs) = filter P us"
      by auto
    with False show ?thesis by (intro exI [of _ us] exI [of _ "vs @ [x]"]) auto
  qed
qed simp

lemma append_longer: "a @ b = c @ d \<Longrightarrow> length a < length c \<Longrightarrow> \<exists>e. c = a @ e \<and> e \<noteq> []"
  by (auto simp: append_eq_append_conv2)

lemma append_shorter: "a @ b = c @ d \<Longrightarrow> length c \<le> length a \<Longrightarrow> \<exists>e. a = c @ e"
  by (auto simp: append_eq_append_conv2)

section \<open>Machine integers and time\<close>

type_synonym u8 = "8 word"
type_synonym u16 = "16 word"
type_synonym u32 = "32 word"
type_synonym u64 = "64 word"
type_synonym duration = nat
type_synonym instant = nat

definition secs :: "nat \<Rightarrow> duration" where
  "secs n = n * 1000000000"

lemma secs_mono [time_simps]: "secs a \<le> secs b \<longleftrightarrow> a \<le> b"
  by (simp add: secs_def)

lemma secs_less [time_simps]: "secs a < secs b \<longleftrightarrow> a < b"
  by (simp add: secs_def)

text \<open>\<^verbatim>\<open>saturating_add\<close> on \<^verbatim>\<open>u32\<close>, and its bound.\<close>

definition saturating_add32 :: "u32 \<Rightarrow> u32 \<Rightarrow> u32" where
  "saturating_add32 a b = (if unat a + unat b < 2 ^ 32 then a + b else - 1)"

lemma saturating_add32_pos: "0 < unat b \<Longrightarrow> 0 < saturating_add32 a b"
proof (cases "unat a + unat b < 2 ^ 32")
  case True
  assume "0 < unat b"
  with True have "unat (a + b) = unat a + unat b"
    by (simp add: unat_word_ariths)
  with \<open>0 < unat b\<close> have "0 < unat (a + b)" by simp
  with True show ?thesis
    by (simp add: saturating_add32_def word_greater_zero_iff unat_gt_0)
qed (simp add: saturating_add32_def word_greater_zero_iff)

section \<open>Hash maps\<close>

type_synonym ('k, 'v) hash_map = "('k \<times> 'v) list"

definition hm_contains :: "('k, 'v) hash_map \<Rightarrow> 'k \<Rightarrow> bool" where
  "hm_contains m k = (map_of m k \<noteq> None)"

definition hm_insert :: "'k \<Rightarrow> 'v \<Rightarrow> ('k, 'v) hash_map \<Rightarrow> ('k, 'v) hash_map" where
  "hm_insert k v m = AList.update k v m"

definition hm_remove :: "'k \<Rightarrow> ('k, 'v) hash_map \<Rightarrow> ('k, 'v) hash_map" where
  "hm_remove k m = filter (\<lambda>(k', _). k' \<noteq> k) m"

definition hm_retain :: "('k \<Rightarrow> 'v \<Rightarrow> bool) \<Rightarrow> ('k, 'v) hash_map \<Rightarrow> ('k, 'v) hash_map" where
  "hm_retain P m = filter (\<lambda>(k, v). P k v) m"

definition hm_wf :: "('k, 'v) hash_map \<Rightarrow> bool" where
  "hm_wf m = distinct (map fst m)"

lemma map_of_hm_insert [map_simps]: "map_of (hm_insert k v m) = (map_of m)(k \<mapsto> v)"
  by (simp add: hm_insert_def update_conv')

lemma map_of_hm_remove [map_simps]: "map_of (hm_remove k m) = (map_of m)(k := None)"
  by (induction m) (auto simp: hm_remove_def fun_eq_iff)

lemma map_of_hm_retain [map_simps]:
  "hm_wf m \<Longrightarrow> map_of (hm_retain P m) k = filter_o (P k) (map_of m k)"
proof (induction m)
  case (Cons kv m)
  then have "k \<notin> fst ` set m \<Longrightarrow> map_of m k = None" for k
    by (simp add: map_of_eq_None_iff)
  with Cons show ?case
    by (cases kv) (auto simp: hm_retain_def hm_wf_def)
qed (simp add: hm_retain_def)

lemma hm_wf_empty [simp, intro]: "hm_wf []"
  by (simp add: hm_wf_def)

lemma hm_wf_insert [simp, intro]: "hm_wf m \<Longrightarrow> hm_wf (hm_insert k v m)"
  by (simp add: hm_wf_def hm_insert_def distinct_update)

lemma hm_wf_remove [simp, intro]: "hm_wf m \<Longrightarrow> hm_wf (hm_remove k m)"
  by (induction m) (auto simp: hm_wf_def hm_remove_def)

lemma hm_wf_retain [simp, intro]: "hm_wf m \<Longrightarrow> hm_wf (hm_retain P m)"
  by (induction m) (auto simp: hm_wf_def hm_retain_def)

lemma hm_contains_insert [map_simps]:
  "hm_contains (hm_insert k v m) k' \<longleftrightarrow> k' = k \<or> hm_contains m k'"
  by (simp add: hm_contains_def map_simps)

lemma length_hm_insert [map_simps]:
  "length (hm_insert k v m) = (if hm_contains m k then length m else Suc (length m))"
  by (induction m) (auto simp: hm_insert_def hm_contains_def)

lemma length_hm_retain: "length (hm_retain P m) \<le> length m"
  by (simp add: hm_retain_def)

section \<open>Ordered maps\<close>

type_synonym ('k, 'v) btree_map = "('k \<times> 'v) list"

fun bt_insert :: "'k::linorder \<Rightarrow> 'v \<Rightarrow> ('k, 'v) btree_map \<Rightarrow> ('k, 'v) btree_map" where
  "bt_insert k v [] = [(k, v)]"
| "bt_insert k v ((k', v') # m) =
     (if k < k' then (k, v) # (k', v') # m
      else if k = k' then (k, v) # m
      else (k', v') # bt_insert k v m)"

definition bt_wf :: "('k::linorder, 'v) btree_map \<Rightarrow> bool" where
  "bt_wf m = sorted_wrt (<) (map fst m)"

lemma map_of_bt_insert [map_simps]: "map_of (bt_insert k v m) = (map_of m)(k \<mapsto> v)"
  by (induction m) (auto simp: fun_eq_iff)

lemma set_bt_insert [map_simps]:
  "set (map fst (bt_insert k v m)) = insert k (set (map fst m))"
  by (induction k v m rule: bt_insert.induct) auto

lemma bt_wf_Nil [simp, intro]: "bt_wf []"
  by (simp add: bt_wf_def)

lemma bt_wf_insert [simp, intro]: "bt_wf m \<Longrightarrow> bt_wf (bt_insert k v m)"
proof (induction k v m rule: bt_insert.induct)
  case (2 k v k' v' m)
  then have "set (map fst (bt_insert k v m)) = insert k (set (map fst m))"
    by (simp only: set_bt_insert)
  with 2 show ?case
    by (auto simp: bt_wf_def simp del: set_map)
qed (simp add: bt_wf_def)

lemma bt_wf_distinct: "bt_wf m \<Longrightarrow> distinct (map fst m)"
  by (simp add: bt_wf_def strict_sorted_iff)

text \<open>Two ordered maps with the same entries are the same list.\<close>

lemma bt_wf_ext:
  assumes "bt_wf m" and "bt_wf m'" and "map_of m = map_of m'"
  shows "m = m'"
proof -
  have keys: "map fst m = map fst m'"
  proof (rule strict_sorted_equal)
    show "sorted_wrt (<) (map fst m)" "sorted_wrt (<) (map fst m')"
      using assms(1,2) by (simp_all add: bt_wf_def)
    show "set (map fst m) = set (map fst m')"
      using assms(3) by (metis dom_map_of_conv_image_fst list.set_map)
  qed
  have snds: "map snd l = map (\<lambda>k. the (map_of l k)) (map fst l)"
    if "bt_wf l" for l :: "('a, 'b) btree_map"
    using bt_wf_distinct [OF that] by (auto simp: map_of_is_SomeI)
  from snds [OF assms(1)] snds [OF assms(2)] have "map snd m = map snd m'"
    using keys assms(3) by simp
  then show ?thesis
    using keys by (metis zip_map_fst_snd)
qed

end
