(* ===== verification/Rust_Text.thy ===== *)
theory Rust_Text
  imports Prelude
begin

text \<open>
  The string and byte operations of the Rust standard library that the sources use. A
  \<^verbatim>\<open>&str\<close> and a \<^verbatim>\<open>&[u8]\<close> are both a \<open>string\<close>: the list of their bytes, a \<^verbatim>\<open>str\<close> being
  UTF-8. Lengths and positions count bytes, as they do in Rust.
\<close>

named_theorems text_simps

section \<open>ASCII classes\<close>

definition byte_of :: "char \<Rightarrow> nat" where
  "byte_of c = of_char c"

definition is_ascii_digit :: "char \<Rightarrow> bool" where
  "is_ascii_digit c = (48 \<le> byte_of c \<and> byte_of c \<le> 57)"

definition is_ascii_lowercase :: "char \<Rightarrow> bool" where
  "is_ascii_lowercase c = (97 \<le> byte_of c \<and> byte_of c \<le> 122)"

definition is_ascii_uppercase :: "char \<Rightarrow> bool" where
  "is_ascii_uppercase c = (65 \<le> byte_of c \<and> byte_of c \<le> 90)"

definition is_ascii_alphanumeric :: "char \<Rightarrow> bool" where
  "is_ascii_alphanumeric c = (is_ascii_digit c \<or> is_ascii_lowercase c \<or> is_ascii_uppercase c)"

definition is_ascii_whitespace :: "char \<Rightarrow> bool" where
  "is_ascii_whitespace c = (byte_of c \<in> {32, 9, 10, 12, 13})"

definition to_ascii_lowercase :: "char \<Rightarrow> char" where
  "to_ascii_lowercase c = (if is_ascii_uppercase c then char_of (byte_of c + 32) else c)"

definition to_ascii_uppercase :: "char \<Rightarrow> char" where
  "to_ascii_uppercase c = (if is_ascii_lowercase c then char_of (byte_of c - 32) else c)"

definition ascii_lower :: "string \<Rightarrow> string" where
  "ascii_lower s = map to_ascii_lowercase s"

definition ascii_upper :: "string \<Rightarrow> string" where
  "ascii_upper s = map to_ascii_uppercase s"

definition eq_ignore_ascii_case :: "string \<Rightarrow> string \<Rightarrow> bool" where
  "eq_ignore_ascii_case a b = (ascii_lower a = ascii_lower b)"

lemma byte_of_less: "byte_of c < 256"
  using nat_of_char_less_256 [of c] by (simp add: byte_of_def)

lemmas ascii_class_defs = byte_of_def is_ascii_digit_def is_ascii_lowercase_def
  is_ascii_uppercase_def is_ascii_alphanumeric_def is_ascii_whitespace_def

section \<open>Splitting, prefixes, search\<close>

abbreviation LF :: char where "LF \<equiv> CHR 0x0A"
abbreviation CR :: char where "CR \<equiv> CHR 0x0D"

text \<open>\<^verbatim>\<open>split(c)\<close>: always at least one piece.\<close>

fun split_on :: "char \<Rightarrow> string \<Rightarrow> string list" where
  "split_on c [] = [[]]"
| "split_on c (x # xs) =
     (if x = c then [] # split_on c xs
      else (case split_on c xs of [] \<Rightarrow> [[x]] | p # ps \<Rightarrow> (x # p) # ps))"

definition strip_prefix :: "string \<Rightarrow> string \<Rightarrow> string option" where
  "strip_prefix p s = (if take (length p) s = p then Some (drop (length p) s) else None)"

definition strip_suffix_cr :: "string \<Rightarrow> string" where
  "strip_suffix_cr s = (if s \<noteq> [] \<and> last s = CR then butlast s else s)"

text \<open>\<^verbatim>\<open>split_once(c)\<close> and \<^verbatim>\<open>rsplit_once(c)\<close>: the text before and after the first, or the last, \<open>c\<close>.\<close>

definition split_once :: "char \<Rightarrow> string \<Rightarrow> (string \<times> string) option" where
  "split_once c s =
     (case dropWhile (\<lambda>x. x \<noteq> c) s of [] \<Rightarrow> None | _ # rest \<Rightarrow> Some (takeWhile (\<lambda>x. x \<noteq> c) s, rest))"

definition rsplit_once :: "char \<Rightarrow> string \<Rightarrow> (string \<times> string) option" where
  "rsplit_once c s = map_option (\<lambda>(a, b). (rev b, rev a)) (split_once c (rev s))"

lemma split_once_Some: "split_once c s = Some (a, b) \<longleftrightarrow> s = a @ c # b \<and> c \<notin> set a"
proof
  assume "split_once c s = Some (a, b)"
  then obtain x where d: "dropWhile (\<lambda>x. x \<noteq> c) s = x # b" "a = takeWhile (\<lambda>x. x \<noteq> c) s"
    by (auto simp: split_once_def split: list.splits)
  then have "x = c" using hd_dropWhile [of "\<lambda>x. x \<noteq> c" s] by auto
  with d takeWhile_dropWhile_id [of "\<lambda>x. x \<noteq> c" s] show "s = a @ c # b \<and> c \<notin> set a"
    using set_takeWhileD [of c "\<lambda>x. x \<noteq> c" s] by auto
next
  assume s: "s = a @ c # b \<and> c \<notin> set a"
  then have "takeWhile (\<lambda>x. x \<noteq> c) s = a" "dropWhile (\<lambda>x. x \<noteq> c) s = c # b"
    by (auto simp: takeWhile_tail dropWhile_append)
  then show "split_once c s = Some (a, b)" by (simp add: split_once_def)
qed

lemma rsplit_once_Some: "rsplit_once c s = Some (a, b) \<longleftrightarrow> s = a @ c # b \<and> c \<notin> set b"
proof -
  have "rsplit_once c s = Some (a, b) \<longleftrightarrow> split_once c (rev s) = Some (rev b, rev a)"
    by (auto simp: rsplit_once_def)
  also have "\<dots> \<longleftrightarrow> rev s = rev b @ c # rev a \<and> c \<notin> set b"
    by (simp add: split_once_Some)
  also have "rev s = rev b @ c # rev a \<longleftrightarrow> s = a @ c # b"
    by (metis append.assoc append_Cons append_Nil rev.simps(2) rev_append rev_rev_ident)
  finally show ?thesis .
qed

text \<open>\<^verbatim>\<open>join(sep)\<close>.\<close>

fun join :: "string \<Rightarrow> string list \<Rightarrow> string" where
  "join sep [] = []"
| "join sep [x] = x"
| "join sep (x # y # xs) = x @ sep @ join sep (y # xs)"

text \<open>\<^verbatim>\<open>windows(n).position(|w| w == pat)\<close> for a non-empty pattern.\<close>

fun find_sub :: "string \<Rightarrow> string \<Rightarrow> nat option" where
  "find_sub pat [] = (if pat = [] then Some 0 else None)"
| "find_sub pat (x # xs) =
     (if take (length pat) (x # xs) = pat then Some 0 else map_option Suc (find_sub pat xs))"

definition occurs_at :: "string \<Rightarrow> string \<Rightarrow> nat \<Rightarrow> bool" where
  "occurs_at pat s i = (take (length pat) (drop i s) = pat)"

definition contains_sub :: "string \<Rightarrow> string \<Rightarrow> bool" where
  "contains_sub pat s = (find_sub pat s \<noteq> None)"

text \<open>A search that compares byte by byte, for evaluation.\<close>

fun starts_with :: "string \<Rightarrow> string \<Rightarrow> bool" where
  "starts_with [] s = True"
| "starts_with (p # ps) [] = False"
| "starts_with (p # ps) (x # xs) = (p = x \<and> starts_with ps xs)"

lemma starts_with_take: "starts_with p s \<longleftrightarrow> take (length p) s = p"
  by (induction p s rule: starts_with.induct) auto

fun search :: "string \<Rightarrow> string \<Rightarrow> bool" where
  "search pat [] = (pat = [])"
| "search pat (x # xs) = (starts_with pat (x # xs) \<or> search pat xs)"

lemma contains_sub_code [code]: "contains_sub pat s = search pat s"
  by (induction s) (auto simp: contains_sub_def starts_with_take simp del: take_Suc_Cons)

lemma split_on_ne [simp]: "split_on c s \<noteq> []"
  by (induction s) (auto split: list.splits)

lemma split_on_no_sep: "p \<in> set (split_on c s) \<Longrightarrow> c \<notin> set p"
  by (induction s arbitrary: p) (auto split: if_splits list.splits)

lemma split_on_single: "c \<notin> set s \<Longrightarrow> split_on c s = [s]"
  by (induction s) auto

lemma split_on_append: "c \<notin> set l \<Longrightarrow> split_on c (l @ c # s) = l # split_on c s"
  by (induction l) auto

lemma length_split_on: "length (split_on c s) = Suc (count_list s c)"
  by (induction s) (auto split: list.splits)

lemma occurs_at_Suc: "occurs_at pat (x # xs) (Suc i) = occurs_at pat xs i"
  by (simp add: occurs_at_def)

lemma find_sub_Some:
  "find_sub pat s = Some i \<longleftrightarrow> occurs_at pat s i \<and> i \<le> length s \<and> (\<forall>j < i. \<not> occurs_at pat s j)"
proof (induction s arbitrary: i)
  case Nil
  then show ?case by (auto simp: occurs_at_def)
next
  case (Cons x xs)
  show ?case
  proof (cases "occurs_at pat (x # xs) 0")
    case True
    then show ?thesis by (cases i) (auto simp: occurs_at_def)
  next
    case False
    then have eq: "find_sub pat (x # xs) = map_option Suc (find_sub pat xs)"
      by (simp add: occurs_at_def)
    show ?thesis
    proof (cases i)
      case 0
      with False eq show ?thesis by auto
    next
      case (Suc k)
      have "(\<forall>j < i. \<not> occurs_at pat (x # xs) j) \<longleftrightarrow> (\<forall>j < k. \<not> occurs_at pat xs j)"
        using False by (auto simp: Suc less_Suc_eq_0_disj occurs_at_Suc)
      with Cons.IH [of k] eq show ?thesis
        by (auto simp: Suc occurs_at_Suc)
    qed
  qed
qed

lemma find_sub_None: "find_sub pat s = None \<longleftrightarrow> (\<forall>i \<le> length s. \<not> occurs_at pat s i)"
proof (induction s)
  case (Cons x xs)
  have "(\<forall>i \<le> length (x # xs). \<not> occurs_at pat (x # xs) i) \<longleftrightarrow>
      \<not> occurs_at pat (x # xs) 0 \<and> (\<forall>i \<le> length xs. \<not> occurs_at pat xs i)"
    by (metis Suc_le_mono bot_nat_0.extremum length_Cons not0_implies_Suc occurs_at_Suc)
  with Cons show ?case by (auto simp: occurs_at_def)
qed (auto simp: occurs_at_def)

lemma occurs_at_bound: "pat \<noteq> [] \<Longrightarrow> occurs_at pat s i \<Longrightarrow> i + length pat \<le> length s"
  unfolding occurs_at_def
  by (metis add.commute add_leD2 diff_diff_cancel drop_eq_Nil2 length_drop length_take
      linorder_not_less min.absorb_iff2 nat_le_linear ordered_cancel_comm_monoid_diff_class.le_diff_conv2
      less_imp_le_nat take_Nil)

lemma find_sub_None_iff: "pat \<noteq> [] \<Longrightarrow> find_sub pat s = None \<longleftrightarrow> (\<forall>i. \<not> occurs_at pat s i)"
  by (metis add_leD1 find_sub_None occurs_at_bound)

lemma find_sub_Some_iff:
  "pat \<noteq> [] \<Longrightarrow> find_sub pat s = Some i \<longleftrightarrow> occurs_at pat s i \<and> (\<forall>j < i. \<not> occurs_at pat s j)"
  by (metis add_leD1 find_sub_Some occurs_at_bound)

lemma strip_prefix_Some: "strip_prefix p s = Some r \<longleftrightarrow> s = p @ r"
  by (auto simp: strip_prefix_def append_eq_conv_conj) (metis append_take_drop_id)

section \<open>Unicode white space and trimming\<close>

text \<open>The UTF-8 encodings of the code points with the Unicode property \<^verbatim>\<open>White_Space\<close>.\<close>

definition white_space :: "string list" where
  "white_space = [[CHR 0x09], [CHR 0x0A], [CHR 0x0B], [CHR 0x0C], [CHR 0x0D], [CHR 0x20],
     [CHR 0xC2, CHR 0x85], [CHR 0xC2, CHR 0xA0], [CHR 0xE1, CHR 0x9A, CHR 0x80],
     [CHR 0xE2, CHR 0x80, CHR 0x80], [CHR 0xE2, CHR 0x80, CHR 0x81], [CHR 0xE2, CHR 0x80, CHR 0x82],
     [CHR 0xE2, CHR 0x80, CHR 0x83], [CHR 0xE2, CHR 0x80, CHR 0x84], [CHR 0xE2, CHR 0x80, CHR 0x85],
     [CHR 0xE2, CHR 0x80, CHR 0x86], [CHR 0xE2, CHR 0x80, CHR 0x87], [CHR 0xE2, CHR 0x80, CHR 0x88],
     [CHR 0xE2, CHR 0x80, CHR 0x89], [CHR 0xE2, CHR 0x80, CHR 0x8A], [CHR 0xE2, CHR 0x80, CHR 0xA8],
     [CHR 0xE2, CHR 0x80, CHR 0xA9], [CHR 0xE2, CHR 0x80, CHR 0xAF], [CHR 0xE2, CHR 0x81, CHR 0x9F],
     [CHR 0xE3, CHR 0x80, CHR 0x80]]"

definition ws_len :: "string list \<Rightarrow> string \<Rightarrow> nat" where
  "ws_len ws s = (case find (\<lambda>w. w \<noteq> [] \<and> take (length w) s = w) ws of None \<Rightarrow> 0 | Some w \<Rightarrow> length w)"

lemma ws_len_le: "ws_len ws s \<le> length s"
proof (cases "find (\<lambda>w. w \<noteq> [] \<and> take (length w) s = w) ws")
  case (Some w)
  then have "take (length w) s = w" by (auto simp: find_Some_iff)
  then have "length w \<le> length s" by (metis length_take min.cobounded1)
  with Some show ?thesis by (simp add: ws_len_def)
qed (simp add: ws_len_def)

function strip_ws :: "string list \<Rightarrow> string \<Rightarrow> string" where
  "strip_ws ws s = (if ws_len ws s = 0 then s else strip_ws ws (drop (ws_len ws s) s))"
  by pat_completeness auto
termination
proof (relation "measure (\<lambda>(ws, s). length s)")
  fix ws s
  assume "ws_len ws s \<noteq> 0"
  with ws_len_le [of ws s] show "((ws, drop (ws_len ws s) s), ws, s) \<in> measure (\<lambda>(ws, s). length s)"
    by simp
qed simp

declare strip_ws.simps [simp del]

definition trim_start :: "string \<Rightarrow> string" where
  "trim_start s = strip_ws white_space s"

definition trim_end :: "string \<Rightarrow> string" where
  "trim_end s = rev (strip_ws (map rev white_space) (rev s))"

definition trim :: "string \<Rightarrow> string" where
  "trim s = trim_end (trim_start s)"

lemma strip_ws_suffix: "\<exists>p. s = p @ strip_ws ws s"
proof (induction ws s rule: strip_ws.induct)
  case (1 ws s)
  show ?case
  proof (cases "ws_len ws s = 0")
    case True
    then show ?thesis by (subst strip_ws.simps) simp
  next
    case False
    with 1 obtain p where "drop (ws_len ws s) s = p @ strip_ws ws (drop (ws_len ws s) s)" by blast
    then have "s = take (ws_len ws s) s @ p @ strip_ws ws (drop (ws_len ws s) s)"
      by (metis append_take_drop_id)
    with False show ?thesis by (metis append_assoc strip_ws.simps)
  qed
qed

section \<open>Lines\<close>

text \<open>\<^verbatim>\<open>str::lines\<close>: a line feed ends a line, one carriage return before it goes with it.\<close>

function lines :: "string \<Rightarrow> string list" where
  "lines s = (if s = [] then []
     else (case dropWhile (\<lambda>c. c \<noteq> LF) s of
             [] \<Rightarrow> [s]
           | _ # rest \<Rightarrow> strip_suffix_cr (takeWhile (\<lambda>c. c \<noteq> LF) s) # lines rest))"
  by pat_completeness auto
termination
proof (relation "measure length")
  fix s x rest
  assume "dropWhile (\<lambda>c. c \<noteq> LF) s = x # rest"
  then have "length (x # rest) \<le> length s" by (metis length_dropWhile_le)
  then show "(rest, s) \<in> measure length" by simp
qed simp

declare lines.simps [simp del]

text \<open>A text is one without a line feed, or a line, its line feed and a shorter text.\<close>

lemma line_cases:
  obtains "LF \<notin> set s" | l rest where "s = l @ LF # rest" "LF \<notin> set l"
  by (metis split_list_first)

lemma line_induct [case_names tail line]:
  assumes "\<And>s. LF \<notin> set s \<Longrightarrow> P s"
    and "\<And>l rest. LF \<notin> set l \<Longrightarrow> P rest \<Longrightarrow> P (l @ LF # rest)"
  shows "P s"
proof (induction s rule: length_induct)
  case (1 s)
  then show ?case using assms by (cases s rule: line_cases) auto
qed

lemma first_line:
  assumes "LF \<notin> set l"
  shows "takeWhile (\<lambda>c. c \<noteq> LF) (l @ LF # rest) = l" and "dropWhile (\<lambda>c. c \<noteq> LF) (l @ LF # rest) = LF # rest"
  using assms by (auto simp: takeWhile_tail dropWhile_append)

lemma no_line:
  assumes "LF \<notin> set s"
  shows "takeWhile (\<lambda>c. c \<noteq> LF) s = s" and "dropWhile (\<lambda>c. c \<noteq> LF) s = []"
  using assms by auto

section \<open>Decimal numbers\<close>

definition digit_char :: "nat \<Rightarrow> char" where
  "digit_char d = char_of (48 + d)"

fun nat_to_string :: "nat \<Rightarrow> string" where
  "nat_to_string n = (if n < 10 then [digit_char n] else nat_to_string (n div 10) @ [digit_char (n mod 10)])"

declare nat_to_string.simps [simp del]

definition digits_value :: "string \<Rightarrow> nat" where
  "digits_value ds = foldl (\<lambda>v c. v * 10 + (byte_of c - 48)) 0 ds"

text \<open>
  \<^verbatim>\<open>str::parse\<close> for an unsigned integer type with the given number of bits: an optional plus
  sign, at least one digit, nothing else, and no overflow.
\<close>

definition parse_uint :: "nat \<Rightarrow> string \<Rightarrow> nat option" where
  "parse_uint bits s =
     (let ds = (case s of [] \<Rightarrow> [] | c # r \<Rightarrow> if c = CHR ''+'' then r else s)
      in if ds = [] \<or> \<not> list_all is_ascii_digit ds then None
         else if digits_value ds < 2 ^ bits then Some (digits_value ds) else None)"

definition parse_u64 :: "string \<Rightarrow> u64 option" where
  "parse_u64 s = map_option of_nat (parse_uint 64 s)"

definition parse_u32 :: "string \<Rightarrow> u32 option" where
  "parse_u32 s = map_option of_nat (parse_uint 32 s)"

definition u64_to_string :: "u64 \<Rightarrow> string" where
  "u64_to_string v = nat_to_string (unat v)"

lemma byte_of_digit_char: "d < 10 \<Longrightarrow> byte_of (digit_char d) = 48 + d"
  by (simp add: byte_of_def digit_char_def)

lemma digits_value_snoc: "digits_value (ds @ [c]) = digits_value ds * 10 + (byte_of c - 48)"
  by (simp add: digits_value_def)

lemma nat_to_string_digits:
  "nat_to_string n \<noteq> [] \<and> list_all is_ascii_digit (nat_to_string n) \<and> digits_value (nat_to_string n) = n"
proof (induction n rule: nat_to_string.induct)
  case (1 n)
  show ?case
  proof (cases "n < 10")
    case True
    then show ?thesis
      by (subst nat_to_string.simps, subst nat_to_string.simps, subst nat_to_string.simps)
        (simp add: is_ascii_digit_def byte_of_digit_char digits_value_def)
  next
    case False
    then have eq: "nat_to_string n = nat_to_string (n div 10) @ [digit_char (n mod 10)]"
      by (subst nat_to_string.simps) simp
    from 1 False show ?thesis
      by (simp add: eq digits_value_snoc byte_of_digit_char is_ascii_digit_def)
  qed
qed

lemma parse_uint_to_string: "n < 2 ^ bits \<Longrightarrow> parse_uint bits (nat_to_string n) = Some n"
proof -
  assume n: "n < 2 ^ bits"
  obtain c r where s: "nat_to_string n = c # r"
    using nat_to_string_digits [of n] by (cases "nat_to_string n") auto
  with nat_to_string_digits [of n] have "is_ascii_digit c" by simp
  then have "c \<noteq> CHR ''+''" by (auto simp: is_ascii_digit_def byte_of_def)
  with n nat_to_string_digits [of n] show ?thesis
    by (simp add: parse_uint_def s)
qed

lemma parse_u64_to_string: "parse_u64 (u64_to_string v) = Some v"
proof -
  have "unat v < 2 ^ LENGTH(64)" by (rule unsigned_less)
  then show ?thesis by (simp add: parse_u64_def u64_to_string_def parse_uint_to_string)
qed

lemma nat_to_string_inj: "nat_to_string a = nat_to_string b \<Longrightarrow> a = b"
  by (metis nat_to_string_digits)

section \<open>UTF-8 validity\<close>

text \<open>
  \<^verbatim>\<open>std::str::from_utf8\<close>: the well-formed byte sequences of the Unicode standard (no overlong
  forms, no surrogates, nothing above U+10FFFF).
\<close>

definition cont :: "nat \<Rightarrow> nat \<Rightarrow> char \<Rightarrow> bool" where
  "cont lo hi c = (lo \<le> byte_of c \<and> byte_of c \<le> hi)"

fun utf8_valid :: "string \<Rightarrow> bool" where
  "utf8_valid [] = True"
| "utf8_valid (a # s) =
     (let b = byte_of a in
      if b < 0x80 then utf8_valid s
      else if 0xC2 \<le> b \<and> b \<le> 0xDF then
        (case s of c # t \<Rightarrow> cont 0x80 0xBF c \<and> utf8_valid t | [] \<Rightarrow> False)
      else if 0xE0 \<le> b \<and> b \<le> 0xEF then
        (case s of c # d # t \<Rightarrow>
             cont (if b = 0xE0 then 0xA0 else 0x80) (if b = 0xED then 0x9F else 0xBF) c
             \<and> cont 0x80 0xBF d \<and> utf8_valid t
         | _ \<Rightarrow> False)
      else if 0xF0 \<le> b \<and> b \<le> 0xF4 then
        (case s of c # d # e # t \<Rightarrow>
             cont (if b = 0xF0 then 0x90 else 0x80) (if b = 0xF4 then 0x8F else 0xBF) c
             \<and> cont 0x80 0xBF d \<and> cont 0x80 0xBF e \<and> utf8_valid t
         | _ \<Rightarrow> False)
      else False)"

declare utf8_valid.simps(2) [simp del]

end
