(* ===== verification/Strict_Json.thy ===== *)
theory Strict_Json
  imports Rust_Text
begin

text \<open>
  JSON values and the duplicate-refusing parser (\<^verbatim>\<open>attestd/src/strict_json.rs\<close>).

  \<^verbatim>\<open>serde_json\<close> itself is not part of the repository: its deserializer is the parameter
  \<open>from_slice\<close>, which turns a complete input into the sequence of visitor calls it makes, kept
  as a \<open>raw\<close> tree in document order with duplicate names still in it, or fails. The visitor the
  repository writes, \<open>unique_value\<close>, runs over that tree. A \<^verbatim>\<open>serde_json::Map\<close> is an
  association list with distinct keys: whether it iterates in insertion order or sorted depends
  on a feature of the library, and nothing here depends on it. A finite float is its bit
  pattern.
\<close>

section \<open>Values\<close>

datatype number = PosInt u64 | NegInt int | Float u64

datatype json =
    JNull
  | JBool bool
  | JNumber number
  | JString string
  | JArray "json list"
  | JObject "(string \<times> json) list"

text \<open>The visitor calls of one document.\<close>

datatype raw =
    VBool bool
  | VI64 int
  | VU64 u64
  | VF64 u64
  | VStr string
  | VUnit
  | VSeq "raw list"
  | VMap "(string \<times> raw) list"

fun as_str :: "json \<Rightarrow> string option" where
  "as_str (JString s) = Some s"
| "as_str _ = None"

fun as_u64 :: "json \<Rightarrow> u64 option" where
  "as_u64 (JNumber (PosInt n)) = Some n"
| "as_u64 _ = None"

fun as_array :: "json \<Rightarrow> json list option" where
  "as_array (JArray xs) = Some xs"
| "as_array _ = None"

fun as_object :: "json \<Rightarrow> (string \<times> json) list option" where
  "as_object (JObject m) = Some m"
| "as_object _ = None"

text \<open>\<^verbatim>\<open>Value::get\<close> with a string index: \<^verbatim>\<open>None\<close> on anything that is not an object.\<close>

definition json_get :: "string \<Rightarrow> json \<Rightarrow> json option" where
  "json_get k v = (case v of JObject m \<Rightarrow> map_of m k | _ \<Rightarrow> None)"

fun as_bool :: "json \<Rightarrow> bool option" where
  "as_bool (JBool b) = Some b"
| "as_bool _ = None"

text \<open>
  \<^verbatim>\<open>Value::pointer\<close> for a path without escapes, given as its tokens: a member of an object, or an
  element of an array under its index in plain decimal.
\<close>

definition pointer_index :: "string \<Rightarrow> nat option" where
  "pointer_index t =
     (if starts_with ''+'' t \<or> starts_with ''0'' t \<and> length t \<noteq> 1 then None else parse_uint 64 t)"

fun json_pointer :: "string list \<Rightarrow> json \<Rightarrow> json option" where
  "json_pointer [] v = Some v"
| "json_pointer (t # ts) v =
     (case v of
        JObject m \<Rightarrow> Option.bind (map_of m t) (json_pointer ts)
      | JArray xs \<Rightarrow>
          Option.bind (pointer_index t) (\<lambda>i. if i < length xs then json_pointer ts (xs ! i) else None)
      | _ \<Rightarrow> None)"

declare json_pointer.simps(2) [simp del]

text \<open>\<^verbatim>\<open>let Ok(Value::Object(map)) = parsed else\<close>: the members of a document that is an object.\<close>

definition object_of :: "'e + json \<Rightarrow> (string \<times> json) list option" where
  "object_of r = (case r of Inl _ \<Rightarrow> None | Inr v \<Rightarrow> as_object v)"

lemma as_object_Some [result_simps]: "as_object v = Some m \<longleftrightarrow> v = JObject m"
  by (cases v) auto

lemma as_str_Some [result_simps]: "as_str v = Some s \<longleftrightarrow> v = JString s"
  by (cases v) auto

lemma object_of_Some [result_simps]: "object_of r = Some m \<longleftrightarrow> r = Ok (JObject m)"
  by (cases r) (auto simp: object_of_def as_object_Some)

section \<open>The visitor\<close>

definition number_from_i64 :: "int \<Rightarrow> number" where
  "number_from_i64 i = (if i < 0 then NegInt i else PosInt (word_of_int i))"

text \<open>\<^verbatim>\<open>Number::from_f64\<close> refuses infinities and NaN: an all-ones exponent.\<close>

definition f64_finite :: "u64 \<Rightarrow> bool" where
  "f64_finite bits = ((unat bits div 2 ^ 52) mod 2 ^ 11 \<noteq> 2 ^ 11 - 1)"

fun unique_value :: "raw \<Rightarrow> json option"
and visit_seq :: "raw list \<Rightarrow> json list option"
and visit_map :: "(string \<times> json) list \<Rightarrow> (string \<times> raw) list \<Rightarrow> (string \<times> json) list option" where
  "unique_value (VBool b) = Some (JBool b)"
| "unique_value (VI64 i) = Some (JNumber (number_from_i64 i))"
| "unique_value (VU64 n) = Some (JNumber (PosInt n))"
| "unique_value (VF64 f) = (if f64_finite f then Some (JNumber (Float f)) else None)"
| "unique_value (VStr s) = Some (JString s)"
| "unique_value VUnit = Some JNull"
| "unique_value (VSeq xs) = map_option JArray (visit_seq xs)"
| "unique_value (VMap kvs) = map_option JObject (visit_map [] kvs)"
| "visit_seq [] = Some []"
| "visit_seq (x # xs) =
     (case unique_value x of
        None \<Rightarrow> None
      | Some v \<Rightarrow> map_option (\<lambda>vs. v # vs) (visit_seq xs))"
| "visit_map values [] = Some values"
| "visit_map values ((k, x) # rest) =
     (if hm_contains values k then None
      else (case unique_value x of
              None \<Rightarrow> None
            | Some v \<Rightarrow> visit_map (hm_insert k v values) rest))"

definition parse_unique_json :: "(string \<Rightarrow> raw option) \<Rightarrow> string \<Rightarrow> json option" where
  "parse_unique_json from_slice bytes = Option.bind (from_slice bytes) unique_value"

section \<open>Laws\<close>

text \<open>No object anywhere in the value repeats a name.\<close>

fun json_unique :: "json \<Rightarrow> bool" where
  "json_unique (JArray xs) = (\<forall>x \<in> set xs. json_unique x)"
| "json_unique (JObject m) = (distinct (map fst m) \<and> (\<forall>kv \<in> set m. json_unique (snd kv)))"
| "json_unique _ = True"

text \<open>What the document must be for the parser to accept it: the same on the raw tree.\<close>

fun raw_unique :: "raw \<Rightarrow> bool" where
  "raw_unique (VSeq xs) = (\<forall>x \<in> set xs. raw_unique x)"
| "raw_unique (VMap m) = (distinct (map fst m) \<and> (\<forall>kv \<in> set m. raw_unique (snd kv)))"
| "raw_unique (VF64 f) = f64_finite f"
| "raw_unique _ = True"

text \<open>The plain reading of a document, with no check: what \<^verbatim>\<open>serde_json::Value\<close> holds.\<close>

fun raw_value :: "raw \<Rightarrow> json" where
  "raw_value (VBool b) = JBool b"
| "raw_value (VI64 i) = JNumber (number_from_i64 i)"
| "raw_value (VU64 n) = JNumber (PosInt n)"
| "raw_value (VF64 f) = JNumber (Float f)"
| "raw_value (VStr s) = JString s"
| "raw_value VUnit = JNull"
| "raw_value (VSeq xs) = JArray (map raw_value xs)"
| "raw_value (VMap m) = JObject (map (\<lambda>(k, x). (k, raw_value x)) m)"

lemma hm_insert_fresh: "\<not> hm_contains m k \<Longrightarrow> hm_insert k v m = m @ [(k, v)]"
  by (induction m) (auto simp: hm_contains_def hm_insert_def split: if_splits)

lemma unique_value_spec:
  "unique_value r = (if raw_unique r then Some (raw_value r) else None)"
  "visit_seq xs = (if (\<forall>x \<in> set xs. raw_unique x) then Some (map raw_value xs) else None)"
  "visit_map acc m =
     (if distinct (map fst m) \<and> fst ` set m \<inter> fst ` set acc = {} \<and> (\<forall>kv \<in> set m. raw_unique (snd kv))
      then Some (acc @ map (\<lambda>(k, x). (k, raw_value x)) m) else None)"
proof (induction r and xs and acc m rule: unique_value_visit_seq_visit_map.induct)
  case (12 acc k x rest)
  show ?case
  proof (cases "hm_contains acc k")
    case True
    then show ?thesis by (auto simp: hm_contains_def map_of_eq_None_iff)
  next
    case False
    then have "k \<notin> fst ` set acc" by (simp add: hm_contains_def map_of_eq_None_iff)
    with 12 False show ?thesis by (auto simp: hm_insert_fresh)
  qed
qed auto

lemma raw_value_unique: "raw_unique r \<Longrightarrow> json_unique (raw_value r)"
proof (induction r)
  case (VMap m)
  have "map fst (map (\<lambda>(k, x). (k, raw_value x)) m) = map fst m" by (induction m) auto
  moreover have "json_unique (raw_value (snd kv))" if "kv \<in> set m" for kv
    using VMap that by (cases kv) (auto intro: snds.intros)
  ultimately show ?case using VMap.prems by (auto simp: case_prod_unfold comp_def)
qed auto

text \<open>
  C4: The strict parser accepts exactly the documents in which no object, at any depth, repeats
  a decoded name (and no float is infinite or NaN), and returns the plain reading of the
  document: it never drops, reorders or overwrites a member, so the value it returns has no
  repeated name anywhere.
\<close>

theorem parse_unique_json_exact:
  "(parse_unique_json from_slice bytes = Some v \<longleftrightarrow>
      (\<exists>r. from_slice bytes = Some r \<and> raw_unique r \<and> v = raw_value r))
   \<and> (parse_unique_json from_slice bytes = Some v \<longrightarrow> json_unique v)"
  by (auto simp: parse_unique_json_def unique_value_spec(1) raw_value_unique bind_eq_Some_conv
      split: if_splits)

theorem parse_unique_json_exact_witness:
  "parse_unique_json (\<lambda>_. Some (VMap [(''a'', VUnit), (''b'', VMap [(''a'', VBool True)])])) ''x'' =
      Some (JObject [(''a'', JNull), (''b'', JObject [(''a'', JBool True)])])
   \<and> json_unique (JObject [(''a'', JNull), (''b'', JObject [(''a'', JBool True)])])
   \<and> parse_unique_json (\<lambda>_. Some (VMap [(''b'', VMap [(''a'', VUnit), (''a'', VBool True)])])) ''x'' = None"
proof -
  let ?f = "\<lambda>_. Some (VMap [(''a'', VUnit), (''b'', VMap [(''a'', VBool True)])])"
  let ?v = "JObject [(''a'', JNull), (''b'', JObject [(''a'', JBool True)])]"
  have "raw_unique (VMap [(''a'', VUnit), (''b'', VMap [(''a'', VBool True)])])"
    and "?v = raw_value (VMap [(''a'', VUnit), (''b'', VMap [(''a'', VBool True)])])"
    by simp_all
  with parse_unique_json_exact [of ?f "''x''" ?v]
  have "parse_unique_json ?f ''x'' = Some ?v \<and> json_unique ?v"
    by blast
  moreover have "parse_unique_json (\<lambda>_. Some (VMap [(''b'', VMap [(''a'', VUnit), (''a'', VBool True)])])) ''x'' = None"
    by (simp add: parse_unique_json_def hm_contains_def hm_insert_def)
  ultimately show ?thesis by simp
qed

lemma parse_unique_json_SomeD:
  "parse_unique_json from_slice bytes = Some v \<Longrightarrow> json_unique v"
  by (auto simp: parse_unique_json_def unique_value_spec(1) raw_value_unique bind_eq_Some_conv
      split: if_splits)

end
