(* ===== verification/Binding_Cache.thy ===== *)
theory Binding_Cache
  imports Strict_Json
begin

text \<open>
  The registry's model bindings as the Bedrock Mantle adapter holds them
  (\<^verbatim>\<open>attestd/src/bedrock_mantle.rs\<close>, \<^verbatim>\<open>BindingCache\<close> and \<^verbatim>\<open>parse_bindings_payload\<close>): parsing a
  binding snapshot, applying it to the cache, and looking a model up at the revision a request
  names. The static error strings are constructors.
\<close>

named_theorems cache_simps

section \<open>Data\<close>

definition MAX_MODEL_BINDINGS :: nat where "MAX_MODEL_BINDINGS = 1024"
definition MAX_MODEL_ID_BYTES :: nat where "MAX_MODEL_ID_BYTES = 256"
definition MAX_SAFE_INTEGER :: u64 where "MAX_SAFE_INTEGER = 9007199254740991"
definition BINDINGS_FRESHNESS_TTL :: duration where "BINDINGS_FRESHNESS_TTL = secs (15 * 60)"

record ModelBinding =
  provider :: string
  model :: string
  upstream_model :: string
  response_model :: string
  revision :: u64

record BindingsSnapshot =
  network :: string
  snapshot_revision :: u64
  bindings :: "(string, ModelBinding) btree_map"

record CachedBindings =
  snapshot :: BindingsSnapshot
  fetched_at :: instant

record BindingCache =
  current :: "CachedBindings option"
  highest_binding :: "(string, ModelBinding) btree_map"

definition BindingCache_default :: BindingCache where
  "BindingCache_default = \<lparr>current = None, highest_binding = []\<rparr>"

datatype Reject =
    Method
  | Path
  | Header
  | BodyTooLarge
  | InvalidBody
  | UnsupportedModel
  | BindingRevision
  | BindingsUnavailable
  | Upstream
  | UpstreamTransport
  | UpstreamHttp u16
  | UpstreamThrottled "u32 option"
  | UpstreamUnauthorized
  | UpstreamForbidden
  | UpstreamInvalidRequest bool
  | UpstreamTooLarge
  | ModelIdentityMismatch

datatype bindings_error =
    FetchFailed
  | FetchNon200
  | NotJson
  | BodyFailed
  | ExceedsSizeLimit
  | InvalidJson
  | InvalidEnvelope
  | UnsupportedSchema
  | NoNetwork
  | DifferentNetwork
  | InvalidRevision
  | InvalidBindingList
  | RowInvalidShape
  | RowInvalidProvider
  | RowInvalidModel
  | RowInvalidSelector
  | RowInvalidResponseModel
  | RowInvalidRevision
  | DuplicateModel
  | SnapshotMovedBackwards
  | PayloadChangedSameRevision
  | BindingMovedBackwards
  | BindingChangedSameRevision
  | RemovedReadded

section \<open>Parsing a snapshot\<close>

definition id_byte :: "char \<Rightarrow> bool" where
  "id_byte c = (is_ascii_alphanumeric c \<or> c \<in> {CHR ''.'', CHR ''-'', CHR ''_'', CHR '':''})"

definition valid_model_id :: "string \<Rightarrow> bool" where
  "valid_model_id v = (v \<noteq> [] \<and> length v \<le> MAX_MODEL_ID_BYTES
     \<and> is_ascii_alphanumeric (hd v) \<and> list_all id_byte v)"

definition valid_bedrock_selector :: "string \<Rightarrow> bool" where
  "valid_bedrock_selector v =
     (case strip_prefix ''anthropic.'' v of
        None \<Rightarrow> False
      | Some suffix \<Rightarrow> suffix \<noteq> [] \<and> length v \<le> MAX_MODEL_ID_BYTES
          \<and> is_ascii_alphanumeric (hd suffix) \<and> list_all id_byte suffix)"

definition object_has_only_keys :: "(string \<times> json) list \<Rightarrow> string list \<Rightarrow> bool" where
  "object_has_only_keys obj allowed =
     (list_all (\<lambda>kv. fst kv \<in> set allowed) obj \<and> list_all (hm_contains obj) allowed)"

definition get_str :: "(string \<times> json) list \<Rightarrow> string \<Rightarrow> string option" where
  "get_str obj k = Option.bind (map_of obj k) as_str"

definition get_u64 :: "(string \<times> json) list \<Rightarrow> string \<Rightarrow> u64 option" where
  "get_u64 obj k = Option.bind (map_of obj k) as_u64"

definition parse_row :: "u64 \<Rightarrow> json \<Rightarrow> bindings_error + ModelBinding" where
  "parse_row srev row =
     bind_r (ok_or (filter_o (\<lambda>r. object_has_only_keys r
         [''provider'', ''model'', ''upstream_model'', ''response_model'', ''revision'']) (as_object row))
       RowInvalidShape) (\<lambda>obj.
     bind_r (ok_or (filter_o (\<lambda>p. p = ''anthropic'') (get_str obj ''provider'')) RowInvalidProvider) (\<lambda>prov.
     bind_r (ok_or (filter_o valid_model_id (get_str obj ''model'')) RowInvalidModel) (\<lambda>mdl.
     bind_r (ok_or (filter_o valid_bedrock_selector (get_str obj ''upstream_model'')) RowInvalidSelector) (\<lambda>up.
     bind_r (ok_or (filter_o valid_model_id (get_str obj ''response_model'')) RowInvalidResponseModel) (\<lambda>resp.
     bind_r (ok_or (filter_o (\<lambda>v. 0 < v \<and> v \<le> MAX_SAFE_INTEGER \<and> v \<le> srev) (get_u64 obj ''revision''))
       RowInvalidRevision) (\<lambda>r.
     Ok \<lparr>provider = prov, model = mdl, upstream_model = up, response_model = resp, revision = r\<rparr>))))))"

fun parse_rows :: "u64 \<Rightarrow> json list \<Rightarrow> (string, ModelBinding) btree_map
    \<Rightarrow> bindings_error + (string, ModelBinding) btree_map" where
  "parse_rows srev [] acc = Ok acc"
| "parse_rows srev (row # rows) acc =
     bind_r (parse_row srev row) (\<lambda>b.
       if map_of acc (model b) \<noteq> None then Err DuplicateModel
       else parse_rows srev rows (bt_insert (model b) b acc))"

text \<open>\<open>bindings_of_value\<close> is the part of \<^verbatim>\<open>parse_bindings_payload\<close> after the JSON parse.\<close>

definition bindings_of_value :: "string \<Rightarrow> json \<Rightarrow> bindings_error + BindingsSnapshot" where
  "bindings_of_value expected_network value =
     bind_r (ok_or (filter_o (\<lambda>obj. object_has_only_keys obj
         [''schema_version'', ''network'', ''revision'', ''bindings'']) (as_object value))
       InvalidEnvelope) (\<lambda>obj.
     bind_r (ensure (get_u64 obj ''schema_version'' = Some 1) UnsupportedSchema) (\<lambda>_.
     bind_r (ok_or (get_str obj ''network'') NoNetwork) (\<lambda>net.
     bind_r (ensure (net = expected_network) DifferentNetwork) (\<lambda>_.
     bind_r (ok_or (filter_o (\<lambda>r. r \<le> MAX_SAFE_INTEGER) (get_u64 obj ''revision'')) InvalidRevision) (\<lambda>srev.
     bind_r (ok_or (filter_o (\<lambda>rows. length rows \<le> MAX_MODEL_BINDINGS)
         (Option.bind (map_of obj ''bindings'') as_array)) InvalidBindingList) (\<lambda>rows.
     bind_r (parse_rows srev rows []) (\<lambda>bs.
     Ok \<lparr>network = net, snapshot_revision = srev, bindings = bs\<rparr>)))))))"

definition parse_bindings_payload ::
    "(string \<Rightarrow> raw option) \<Rightarrow> string \<Rightarrow> string \<Rightarrow> bindings_error + BindingsSnapshot" where
  "parse_bindings_payload from_slice bytes expected_network =
     bind_r (ok_or (parse_unique_json from_slice bytes) InvalidJson) (bindings_of_value expected_network)"

section \<open>Applying a snapshot\<close>

text \<open>The loop over \<open>highest_binding\<close>, in key order: the first model that violates a rule.\<close>

fun check_highest :: "BindingsSnapshot \<Rightarrow> BindingsSnapshot \<Rightarrow> (string \<times> ModelBinding) list
    \<Rightarrow> bindings_error + unit" where
  "check_highest cur snap [] = Ok ()"
| "check_highest cur snap ((m, previous) # rest) =
     (case map_of (bindings snap) m of
        None \<Rightarrow> check_highest cur snap rest
      | Some nxt \<Rightarrow>
          if revision nxt < revision previous then Err BindingMovedBackwards
          else if revision nxt = revision previous \<and> nxt \<noteq> previous then Err BindingChangedSameRevision
          else if map_of (bindings cur) m = None \<and> revision nxt \<le> revision previous then Err RemovedReadded
          else check_highest cur snap rest)"

definition insert_all :: "(string \<times> ModelBinding) list \<Rightarrow> (string, ModelBinding) btree_map
    \<Rightarrow> (string, ModelBinding) btree_map" where
  "insert_all bs m = fold (\<lambda>(k, b). bt_insert k b) bs m"

definition store_snapshot :: "BindingCache \<Rightarrow> BindingsSnapshot \<Rightarrow> instant \<Rightarrow> BindingCache" where
  "store_snapshot c snap now =
     c\<lparr>current := Some \<lparr>snapshot = snap, fetched_at = now\<rparr>,
       highest_binding := insert_all (bindings snap) (highest_binding c)\<rparr>"

definition apply_snapshot :: "BindingCache \<Rightarrow> BindingsSnapshot \<Rightarrow> instant \<Rightarrow> bindings_error + BindingCache" where
  "apply_snapshot c snap now =
     (case current c of
        None \<Rightarrow> Ok (store_snapshot c snap now)
      | Some cur \<Rightarrow>
          if snapshot_revision snap < snapshot_revision (snapshot cur) then Err SnapshotMovedBackwards
          else if snapshot_revision snap = snapshot_revision (snapshot cur) then
            (if snap \<noteq> snapshot cur then Err PayloadChangedSameRevision
             else Ok (c\<lparr>current := Some \<lparr>snapshot = snap, fetched_at = now\<rparr>\<rparr>))
          else bind_r (check_highest (snapshot cur) snap (highest_binding c))
                 (\<lambda>_. Ok (store_snapshot c snap now)))"

section \<open>Looking a model up\<close>

datatype BindingLookup = Ready ModelBinding | Behind | Refresh Reject

definition current_binding :: "BindingCache \<Rightarrow> string \<Rightarrow> u64 \<Rightarrow> instant \<Rightarrow> BindingLookup" where
  "current_binding c mdl expected now =
     (case current c of
        None \<Rightarrow> Refresh BindingsUnavailable
      | Some cached \<Rightarrow>
          let binding = map_of (bindings (snapshot cached)) mdl in
          if is_some_and (\<lambda>b. expected < revision b) binding then Behind
          else if now - fetched_at cached > BINDINGS_FRESHNESS_TTL then Refresh BindingsUnavailable
          else (case binding of
                  None \<Rightarrow> Refresh UnsupportedModel
                | Some b \<Rightarrow> if revision b \<noteq> expected then Refresh BindingRevision else Ready b))"

fun needs_refresh :: "BindingLookup \<Rightarrow> bool" where
  "needs_refresh (Refresh _) = True"
| "needs_refresh _ = False"

fun into_result :: "BindingLookup \<Rightarrow> Reject + ModelBinding" where
  "into_result (Ready b) = Ok b"
| "into_result Behind = Err BindingRevision"
| "into_result (Refresh r) = Err r"

section \<open>Laws of parsing\<close>

definition binding_wf :: "u64 \<Rightarrow> ModelBinding \<Rightarrow> bool" where
  "binding_wf srev b \<longleftrightarrow> provider b = ''anthropic'' \<and> valid_model_id (model b)
     \<and> valid_bedrock_selector (upstream_model b) \<and> valid_model_id (response_model b)
     \<and> 0 < revision b \<and> revision b \<le> MAX_SAFE_INTEGER \<and> revision b \<le> srev"

definition snapshot_wf :: "BindingsSnapshot \<Rightarrow> bool" where
  "snapshot_wf s \<longleftrightarrow> bt_wf (bindings s) \<and> snapshot_revision s \<le> MAX_SAFE_INTEGER
     \<and> length (bindings s) \<le> MAX_MODEL_BINDINGS
     \<and> (\<forall>(k, b) \<in> set (bindings s). k = model b \<and> binding_wf (snapshot_revision s) b)"

lemma parse_row_wf: "parse_row srev row = Ok b \<Longrightarrow> binding_wf srev b"
  by (auto simp: parse_row_def binding_wf_def result_simps)

lemma length_bt_insert:
  "map_of m k = None \<Longrightarrow> length (bt_insert k v m) = Suc (length m)"
  by (induction m) (auto split: if_splits)

lemma bt_insert_subset: "kv \<in> set (bt_insert k v m) \<Longrightarrow> kv = (k, v) \<or> kv \<in> set m"
  by (induction m) (auto split: if_splits)

lemma parse_rows_wf:
  assumes "parse_rows srev rows acc = Ok bs" and "bt_wf acc"
    and "\<forall>(k, b) \<in> set acc. k = model b \<and> binding_wf srev b"
  shows "bt_wf bs \<and> length bs = length acc + length rows
    \<and> (\<forall>(k, b) \<in> set bs. k = model b \<and> binding_wf srev b)"
  using assms
proof (induction srev rows acc rule: parse_rows.induct)
  case (2 srev row rows acc)
  then obtain b where b: "parse_row srev row = Ok b" and fresh: "map_of acc (model b) = None"
    and rest: "parse_rows srev rows (bt_insert (model b) b acc) = Ok bs"
    by (auto simp: result_simps split: if_splits)
  have wf: "\<forall>(k, b) \<in> set (bt_insert (model b) b acc). k = model b \<and> binding_wf srev b"
    using "2.prems"(3) parse_row_wf [OF b] by (fastforce dest: bt_insert_subset)
  from "2.IH" [OF _ rest _ wf] fresh "2.prems"(2) show ?case
    by (simp add: length_bt_insert)
qed simp

lemma bindings_of_value_wf:
  "bindings_of_value net v = Ok s \<Longrightarrow> snapshot_wf s \<and> network s = net"
  by (auto simp: bindings_of_value_def result_simps snapshot_wf_def dest!: parse_rows_wf)

text \<open>The JSON text the registry serves for a snapshot, as a value.\<close>

definition binding_json :: "ModelBinding \<Rightarrow> json" where
  "binding_json b = JObject [(''provider'', JString (provider b)), (''model'', JString (model b)),
     (''upstream_model'', JString (upstream_model b)), (''response_model'', JString (response_model b)),
     (''revision'', JNumber (PosInt (revision b)))]"

definition snapshot_json :: "BindingsSnapshot \<Rightarrow> json" where
  "snapshot_json s = JObject [(''schema_version'', JNumber (PosInt 1)), (''network'', JString (network s)),
     (''revision'', JNumber (PosInt (snapshot_revision s))),
     (''bindings'', JArray (map (binding_json \<circ> snd) (bindings s)))]"

lemma parse_row_json: "binding_wf srev b \<Longrightarrow> parse_row srev (binding_json b) = Ok b"
  by (simp add: parse_row_def binding_json_def object_has_only_keys_def hm_contains_def
      get_str_def get_u64_def binding_wf_def)

lemma bt_insert_max: "\<forall>k' \<in> fst ` set m. k' < k \<Longrightarrow> bt_insert k v m = m @ [(k, v)]"
  by (induction m) auto

lemma parse_rows_json:
  assumes "bt_wf (acc @ bs)" and "\<forall>(k, b) \<in> set bs. k = model b \<and> binding_wf srev b"
  shows "parse_rows srev (map (binding_json \<circ> snd) bs) acc = Ok (acc @ bs)"
  using assms
proof (induction bs arbitrary: acc)
  case (Cons kb bs)
  obtain b where kb: "kb = (model b, b)" and "binding_wf srev b"
    using Cons.prems(2) by (cases kb) auto
  moreover have below: "\<forall>k' \<in> fst ` set acc. k' < model b"
    using Cons.prems(1) by (auto simp: kb bt_wf_def sorted_wrt_append)
  moreover from below have "map_of acc (model b) = None"
    by (auto simp: map_of_eq_None_iff)
  moreover have "parse_rows srev (map (binding_json \<circ> snd) bs) (acc @ [kb]) = Ok ((acc @ [kb]) @ bs)"
    using Cons.prems by (intro Cons.IH) auto
  ultimately show ?case
    by (simp add: parse_row_json bt_insert_max comp_def)
qed simp

section \<open>Versioned stores\<close>

text \<open>
  What the proxy needs of the cache: a store that serves at most one binding per key, remembers
  the last binding it ever served, and moves by steps that never lower a revision, never change
  a binding under its revision, and never bring a dropped key back under an old revision.
\<close>

locale versioned_store =
  fixes inv :: "'c \<Rightarrow> bool"
    and step :: "'c \<Rightarrow> 'c \<Rightarrow> bool"
    and serving :: "'c \<Rightarrow> 'k \<Rightarrow> 'b option"
    and known :: "'c \<Rightarrow> 'k \<Rightarrow> 'b option"
    and version :: "'b \<Rightarrow> 'r::linorder"
  assumes step_inv: "inv c \<Longrightarrow> step c c' \<Longrightarrow> inv c'"
    and serving_known: "inv c \<Longrightarrow> serving c k = Some b \<Longrightarrow> known c k = Some b"
    and known_step: "inv c \<Longrightarrow> step c c' \<Longrightarrow> known c k = Some b \<Longrightarrow>
      \<exists>b'. known c' k = Some b' \<and> (b' = b \<or> version b < version b')"
    and dropped_step: "inv c \<Longrightarrow> step c c' \<Longrightarrow> serving c k = None \<Longrightarrow> known c k = Some b \<Longrightarrow>
      serving c' k = Some b' \<Longrightarrow> version b < version b'"
    and unserved_step: "inv c \<Longrightarrow> step c c' \<Longrightarrow> serving c' k = None \<Longrightarrow> known c' k = known c k"
begin

lemma steps_inv: "step\<^sup>*\<^sup>* c c' \<Longrightarrow> inv c \<Longrightarrow> inv c'"
  by (induction rule: rtranclp_induct) (auto intro: step_inv)

lemma known_steps:
  assumes "step\<^sup>*\<^sup>* c c'" and "inv c" and "known c k = Some b"
  shows "\<exists>b'. known c' k = Some b' \<and> (b' = b \<or> version b < version b')"
  using assms
proof (induction rule: rtranclp_induct)
  case (step d d')
  then obtain b1 where "known d k = Some b1" "b1 = b \<or> version b < version b1" by blast
  with step steps_inv [OF step(1)] show ?case
    by (metis known_step order.strict_trans)
qed simp

lemma served_versions:
  assumes "step\<^sup>*\<^sup>* c c'" and "inv c" and "serving c k = Some b" and "serving c' k = Some b'"
  shows "b' = b \<or> version b < version b'"
  using known_steps [OF assms(1,2)] serving_known [OF assms(2,3)]
    serving_known [OF steps_inv [OF assms(1,2)] assms(4)] by fastforce

lemma readded_version:
  assumes "step\<^sup>*\<^sup>* c c'" and "inv c" and "serving c k = None" and "known c k = Some b"
    and "serving c' k = Some b'"
  shows "version b < version b'"
  using assms
proof (induction arbitrary: rule: converse_rtranclp_induct)
  case (step c d)
  have invd: "inv d" using step by (blast intro: step_inv)
  show ?case
  proof (cases "serving d k")
    case None
    with step invd show ?thesis using unserved_step [of c d k] by simp
  next
    case (Some b1)
    then have "version b < version b1"
      using step dropped_step [of c d k b b1] by simp
    moreover have "b' = b1 \<or> version b1 < version b'"
      using served_versions [OF step(2) invd Some step.prems(4)] .
    ultimately show ?thesis by auto
  qed
qed simp

end

section \<open>The cache is a versioned store\<close>

definition serving :: "BindingCache \<Rightarrow> string \<Rightarrow> ModelBinding option" where
  "serving c m = Option.bind (current c) (\<lambda>cb. map_of (bindings (snapshot cb)) m)"

definition cache_inv :: "BindingCache \<Rightarrow> bool" where
  "cache_inv c \<longleftrightarrow> (current c = None \<longrightarrow> highest_binding c = [])
     \<and> (\<forall>m b. serving c m = Some b \<longrightarrow> map_of (highest_binding c) m = Some b)
     \<and> bt_wf (highest_binding c)"

definition accepted :: "BindingCache \<Rightarrow> BindingCache \<Rightarrow> bool" where
  "accepted c c' \<longleftrightarrow> (\<exists>snap now. bt_wf (bindings snap) \<and> apply_snapshot c snap now = Ok c')"

lemma map_of_insert_all:
  "distinct (map fst bs) \<Longrightarrow> map_of (insert_all bs m) = map_of m ++ map_of bs"
proof (induction bs arbitrary: m)
  case (Cons kb bs)
  obtain k b where kb: "kb = (k, b)" by (cases kb)
  with Cons.prems have fresh: "k \<notin> dom (map_of bs)" and "distinct (map fst bs)"
    by (auto simp: dom_map_of_conv_image_fst)
  with Cons.IH [of "bt_insert k b m"] have "map_of (insert_all bs (bt_insert k b m)) =
      (map_of m)(k \<mapsto> b) ++ map_of bs"
    by (simp only: map_of_bt_insert)
  with fresh show ?case by (auto simp: kb insert_all_def map_add_def fun_eq_iff split: option.splits)
qed (simp add: insert_all_def)

lemma bt_wf_insert_all: "bt_wf m \<Longrightarrow> bt_wf (insert_all bs m)"
  unfolding insert_all_def
  by (induction bs arbitrary: m) auto

lemma check_highest_Ok:
  "check_highest cur snap hb = Ok () \<longleftrightarrow>
     (\<forall>(m, b) \<in> set hb. \<forall>n. map_of (bindings snap) m = Some n \<longrightarrow>
        (n = b \<or> revision b < revision n)
        \<and> (map_of (bindings cur) m = None \<longrightarrow> revision b < revision n))"
proof (induction hb)
  case (Cons mb hb)
  then show ?case
    by (cases mb) (auto split: option.splits)
qed simp

text \<open>The two ways a step succeeds: the same snapshot again, or a snapshot that passes every check.\<close>

lemma apply_snapshot_cases [consumes 1, case_names same newer]:
  assumes "apply_snapshot c snap now = Ok c'"
  obtains cb where "current c = Some cb" and "snap = snapshot cb"
      and "c' = c\<lparr>current := Some \<lparr>snapshot = snap, fetched_at = now\<rparr>\<rparr>"
  | "c' = store_snapshot c snap now"
    and "\<And>cb m b n. current c = Some cb \<Longrightarrow> (m, b) \<in> set (highest_binding c) \<Longrightarrow>
      map_of (bindings snap) m = Some n \<Longrightarrow>
      (n = b \<or> revision b < revision n) \<and> (map_of (bindings (snapshot cb)) m = None \<longrightarrow> revision b < revision n)"
    and "\<And>cb. current c = Some cb \<Longrightarrow> snapshot_revision (snapshot cb) < snapshot_revision snap"
proof (cases "current c")
  case None
  with assms that(2) show ?thesis by (simp add: apply_snapshot_def)
next
  case (Some cb)
  show ?thesis
  proof (cases "snapshot_revision snap = snapshot_revision (snapshot cb)")
    case True
    with Some assms that(1) show ?thesis
      by (auto simp: apply_snapshot_def split: if_splits)
  next
    case False
    with Some assms have ok: "check_highest (snapshot cb) snap (highest_binding c) = Ok ()"
      and "c' = store_snapshot c snap now"
      and "snapshot_revision (snapshot cb) < snapshot_revision snap"
      by (auto simp: apply_snapshot_def result_simps split: if_splits)
    with Some that(2) show ?thesis
      unfolding check_highest_Ok by fastforce
  qed
qed

lemma serving_store: "serving (store_snapshot c snap now) m = map_of (bindings snap) m"
  by (simp add: serving_def store_snapshot_def)

lemma highest_store:
  "bt_wf (bindings snap) \<Longrightarrow> map_of (highest_binding (store_snapshot c snap now)) =
     map_of (highest_binding c) ++ map_of (bindings snap)"
  by (simp add: store_snapshot_def map_of_insert_all bt_wf_distinct)

lemmas store_laws = serving_store highest_store

lemma accepted_inv: "cache_inv c \<Longrightarrow> accepted c c' \<Longrightarrow> cache_inv c'"
proof -
  assume inv: "cache_inv c" and "accepted c c'"
  then obtain snap now where wf: "bt_wf (bindings snap)" and ok: "apply_snapshot c snap now = Ok c'"
    by (auto simp: accepted_def)
  from ok show ?thesis
  proof (cases rule: apply_snapshot_cases)
    case (same cb)
    with inv show ?thesis by (auto simp: cache_inv_def serving_def)
  next
    case newer
    have "bt_wf (highest_binding c')"
      using inv by (simp add: newer(1) store_snapshot_def cache_inv_def bt_wf_insert_all)
    with wf show ?thesis
      by (auto simp: cache_inv_def newer(1) store_laws) (simp add: store_snapshot_def)
  qed
qed

lemma accepted_known:
  assumes "cache_inv c" and "accepted c c'" and "map_of (highest_binding c) m = Some b"
  shows "\<exists>b'. map_of (highest_binding c') m = Some b' \<and> (b' = b \<or> revision b < revision b')"
proof -
  obtain snap now where wf: "bt_wf (bindings snap)" and ok: "apply_snapshot c snap now = Ok c'"
    using assms(2) by (auto simp: accepted_def)
  from ok show ?thesis
  proof (cases rule: apply_snapshot_cases)
    case (same cb)
    with assms show ?thesis by simp
  next
    case newer
    obtain cb where "current c = Some cb"
      using assms(1,3) by (cases "current c") (auto simp: cache_inv_def)
    with newer(2) [of cb m b] map_of_SomeD [OF assms(3)] wf assms(3) show ?thesis
      by (cases "map_of (bindings snap) m") (auto simp: newer(1) store_laws map_add_def)
  qed
qed

lemma accepted_dropped:
  assumes "cache_inv c" and "accepted c c'" and "serving c m = None"
    and "map_of (highest_binding c) m = Some b" and "serving c' m = Some b'"
  shows "revision b < revision b'"
proof -
  obtain snap now where wf: "bt_wf (bindings snap)" and ok: "apply_snapshot c snap now = Ok c'"
    using assms(2) by (auto simp: accepted_def)
  obtain cb where cb: "current c = Some cb"
    using assms(1,4) by (cases "current c") (auto simp: cache_inv_def)
  from ok show ?thesis
  proof (cases rule: apply_snapshot_cases)
    case (same cb')
    with assms show ?thesis by (auto simp: serving_def)
  next
    case newer
    from assms(5) have "map_of (bindings snap) m = Some b'"
      by (simp add: newer(1) serving_store)
    moreover from assms(3) cb have "map_of (bindings (snapshot cb)) m = None"
      by (simp add: serving_def)
    ultimately show ?thesis
      using newer(2) [OF cb map_of_SomeD [OF assms(4)]] by blast
  qed
qed

lemma accepted_unserved:
  assumes "cache_inv c" and "accepted c c'" and "serving c' m = None"
  shows "map_of (highest_binding c') m = map_of (highest_binding c) m"
proof -
  obtain snap now where wf: "bt_wf (bindings snap)" and ok: "apply_snapshot c snap now = Ok c'"
    using assms(2) by (auto simp: accepted_def)
  from ok show ?thesis
    by (cases rule: apply_snapshot_cases) (use assms(3) wf in \<open>auto simp: store_laws map_add_def\<close>)
qed

interpretation bc: versioned_store cache_inv accepted serving "\<lambda>c. map_of (highest_binding c)" revision
proof unfold_locales
  fix c c' m b b'
  show "cache_inv c \<Longrightarrow> accepted c c' \<Longrightarrow> cache_inv c'"
    by (rule accepted_inv)
  show "cache_inv c \<Longrightarrow> serving c m = Some b \<Longrightarrow> map_of (highest_binding c) m = Some b"
    by (simp add: cache_inv_def)
  show "cache_inv c \<Longrightarrow> accepted c c' \<Longrightarrow> map_of (highest_binding c) m = Some b \<Longrightarrow>
      \<exists>b'. map_of (highest_binding c') m = Some b' \<and> (b' = b \<or> revision b < revision b')"
    by (rule accepted_known)
  show "cache_inv c \<Longrightarrow> accepted c c' \<Longrightarrow> serving c m = None \<Longrightarrow>
      map_of (highest_binding c) m = Some b \<Longrightarrow> serving c' m = Some b' \<Longrightarrow> revision b < revision b'"
    by (rule accepted_dropped)
  show "cache_inv c \<Longrightarrow> accepted c c' \<Longrightarrow> serving c' m = None \<Longrightarrow>
      map_of (highest_binding c') m = map_of (highest_binding c) m"
    by (rule accepted_unserved)
qed

section \<open>Refreshing over time\<close>

text \<open>A run of refreshes: a snapshot the cache refuses leaves it as it was.\<close>

fun refresh_run :: "BindingCache \<Rightarrow> (BindingsSnapshot \<times> instant) list \<Rightarrow> BindingCache" where
  "refresh_run c [] = c"
| "refresh_run c ((snap, now) # rest) =
     refresh_run (case apply_snapshot c snap now of Inl _ \<Rightarrow> c | Inr c' \<Rightarrow> c') rest"

lemma refresh_run_accepted:
  "list_all (\<lambda>(snap, now). bt_wf (bindings snap)) rs \<Longrightarrow> accepted\<^sup>*\<^sup>* c (refresh_run c rs)"
proof (induction c rs rule: refresh_run.induct)
  case (2 c snap now rest)
  have "accepted\<^sup>*\<^sup>* c (case apply_snapshot c snap now of Inl _ \<Rightarrow> c | Inr c' \<Rightarrow> c')"
    using 2(2) by (auto simp: accepted_def split: sum.splits intro!: r_into_rtranclp) blast
  with 2 show ?case by (auto intro: rtranclp_trans)
qed simp

lemma cache_inv_default: "cache_inv BindingCache_default"
  by (simp add: cache_inv_def BindingCache_default_def serving_def)

lemma refresh_run_inv:
  "list_all (\<lambda>(snap, now). bt_wf (bindings snap)) rs \<Longrightarrow> cache_inv (refresh_run BindingCache_default rs)"
  by (rule bc.steps_inv [OF refresh_run_accepted cache_inv_default])

text \<open>Two small snapshots for the concrete instances below: one model, or none.\<close>

definition example_binding :: "u64 \<Rightarrow> ModelBinding" where
  "example_binding r = \<lparr>provider = ''anthropic'', model = ''m'', upstream_model = ''anthropic.m'',
     response_model = ''m-echo'', revision = r\<rparr>"

definition example_snapshot :: "u64 \<Rightarrow> u64 option \<Rightarrow> BindingsSnapshot" where
  "example_snapshot s r = \<lparr>network = ''mainnet'', snapshot_revision = s,
     bindings = (case r of None \<Rightarrow> [] | Some r \<Rightarrow> [(''m'', example_binding r)])\<rparr>"

lemmas example_simps = example_binding_def example_snapshot_def apply_snapshot_def
  store_snapshot_def insert_all_def BindingCache_default_def serving_def bt_wf_def

section \<open>Properties\<close>

text \<open>
  C1: Over any sequence of registry snapshots the adapter is offered, accepted or refused, a
  model's binding never goes back: between any two moments at which the model is served, the
  later binding is the same one or has a strictly larger revision. So one revision names one
  binding for the life of the process.
\<close>

theorem served_binding_never_regresses:
  assumes "list_all (\<lambda>(snap, now). bt_wf (bindings snap)) (rs1 @ rs2)"
    and "serving (refresh_run BindingCache_default rs1) m = Some b"
    and "serving (refresh_run (refresh_run BindingCache_default rs1) rs2) m = Some b'"
  shows "b' = b \<or> revision b < revision b'"
  using bc.served_versions [OF refresh_run_accepted refresh_run_inv assms(2,3)] assms(1) by simp

theorem served_binding_never_regresses_witness:
  "let rs1 = [(example_snapshot 1 (Some 1), 0)]; rs2 = [(example_snapshot 3 (Some 2), 5)];
       c1 = refresh_run BindingCache_default rs1; c2 = refresh_run c1 rs2
   in serving c1 ''m'' = Some (example_binding 1) \<and> serving c2 ''m'' = Some (example_binding 2)
     \<and> revision (example_binding 1) < revision (example_binding 2)"
proof -
  let ?rs1 = "[(example_snapshot 1 (Some 1), 0)]" and ?rs2 = "[(example_snapshot 3 (Some 2), 5)]"
  have wf: "list_all (\<lambda>(snap, now). bt_wf (bindings snap)) (?rs1 @ ?rs2)"
    and s1: "serving (refresh_run BindingCache_default ?rs1) ''m'' = Some (example_binding 1)"
    and s2: "serving (refresh_run (refresh_run BindingCache_default ?rs1) ?rs2) ''m'' = Some (example_binding 2)"
    by (simp_all add: example_simps)
  from served_binding_never_regresses [OF wf s1 s2] s1 s2 show ?thesis
    by (simp add: example_binding_def)
qed

text \<open>
  A model the registry dropped comes back only under a revision larger than every revision
  it was served at before it was dropped.
\<close>

theorem readded_binding_has_new_revision:
  assumes "list_all (\<lambda>(snap, now). bt_wf (bindings snap)) (rs1 @ rs2 @ rs3)"
    and "serving (refresh_run BindingCache_default rs1) m = Some b"
    and "serving (refresh_run BindingCache_default (rs1 @ rs2)) m = None"
    and "serving (refresh_run BindingCache_default (rs1 @ rs2 @ rs3)) m = Some b'"
  shows "revision b < revision b'"
proof -
  have append: "refresh_run c (xs @ ys) = refresh_run (refresh_run c xs) ys" for c xs ys
    by (induction c xs rule: refresh_run.induct) auto
  let ?c1 = "refresh_run BindingCache_default rs1"
  let ?c2 = "refresh_run ?c1 rs2"
  have steps: "accepted\<^sup>*\<^sup>* ?c1 ?c2" "accepted\<^sup>*\<^sup>* ?c2 (refresh_run ?c2 rs3)"
    using assms(1) by (simp_all add: refresh_run_accepted)
  have inv: "cache_inv ?c1" "cache_inv ?c2"
    using refresh_run_inv [of rs1] refresh_run_inv [of "rs1 @ rs2"] assms(1) by (simp_all add: append)
  obtain b1 where "map_of (highest_binding ?c2) m = Some b1" "b1 = b \<or> revision b < revision b1"
    using bc.known_steps [OF steps(1) inv(1) bc.serving_known [OF inv(1) assms(2)]] by blast
  moreover have "revision b1 < revision b'" if "map_of (highest_binding ?c2) m = Some b1" for b1
    using bc.readded_version [OF steps(2) inv(2) _ that] assms(3,4) by (simp add: append)
  ultimately show ?thesis by auto
qed

theorem readded_binding_has_new_revision_witness:
  "let rs1 = [(example_snapshot 1 (Some 1), 0)]; rs2 = [(example_snapshot 2 None, 5)];
       rs3 = [(example_snapshot 3 (Some 1), 6), (example_snapshot 4 (Some 4), 7)];
       c = refresh_run BindingCache_default (rs1 @ rs2 @ rs3)
   in serving c ''m'' = Some (example_binding 4)
     \<and> apply_snapshot (refresh_run BindingCache_default (rs1 @ rs2)) (example_snapshot 3 (Some 1)) 6 = Err RemovedReadded
     \<and> revision (example_binding 1) < revision (example_binding 4)"
proof -
  let ?rs1 = "[(example_snapshot 1 (Some 1), 0)]" and ?rs2 = "[(example_snapshot 2 None, 5)]"
  let ?rs3 = "[(example_snapshot 3 (Some 1), 6), (example_snapshot 4 (Some 4), 7)]"
  have wf: "list_all (\<lambda>(snap, now). bt_wf (bindings snap)) (?rs1 @ ?rs2 @ ?rs3)"
    and s1: "serving (refresh_run BindingCache_default ?rs1) ''m'' = Some (example_binding 1)"
    and s2: "serving (refresh_run BindingCache_default (?rs1 @ ?rs2)) ''m'' = None"
    and s3: "serving (refresh_run BindingCache_default (?rs1 @ ?rs2 @ ?rs3)) ''m'' = Some (example_binding 4)"
    and err: "apply_snapshot (refresh_run BindingCache_default (?rs1 @ ?rs2)) (example_snapshot 3 (Some 1)) 6 = Err RemovedReadded"
    by (simp_all add: example_simps word_le_nat_alt)
  from readded_binding_has_new_revision [OF wf s1 s2 s3] s3 err show ?thesis
    unfolding Let_def by blast
qed

text \<open>
  C2: A request is served on a binding only if that binding is in the current snapshot, carries
  exactly the revision the request names, and the snapshot is no older than its time to live.
  A request that names an older revision than the current one is refused at once, stale snapshot
  or not, and every other failure asks for a refresh.
\<close>

theorem current_binding_exact:
  "(current_binding c mdl expected now = Ready b \<longleftrightarrow>
      (\<exists>cached. current c = Some cached \<and> now - fetched_at cached \<le> BINDINGS_FRESHNESS_TTL
        \<and> serving c mdl = Some b \<and> revision b = expected))
   \<and> (current_binding c mdl expected now = Behind \<longleftrightarrow>
      (\<exists>b'. serving c mdl = Some b' \<and> expected < revision b'))
   \<and> (needs_refresh (current_binding c mdl expected now) \<longleftrightarrow>
      (case serving c mdl of
         None \<Rightarrow> True
       | Some b' \<Rightarrow> revision b' < expected \<or>
           (revision b' = expected \<and> is_none_or (\<lambda>cached. BINDINGS_FRESHNESS_TTL < now - fetched_at cached) (current c))))"
  by (auto simp: current_binding_def serving_def Let_def split: option.splits)

text \<open>
  Every snapshot the parser accepts is well formed: it is for the expected network, its
  revision and every row revision are safe integers, rows do not exceed the snapshot revision,
  provider, model ids and selectors are valid, there are at most 1024 of them, and every model is
  bound once, under its own name.
\<close>

theorem parse_bindings_payload_wf:
  assumes "parse_bindings_payload from_slice bytes net = Ok snap"
  shows "snapshot_wf snap \<and> network snap = net"
  using assms by (auto simp: parse_bindings_payload_def result_simps dest: bindings_of_value_wf)

theorem parse_bindings_payload_wf_witness:
  "parse_bindings_payload (\<lambda>_. Some (VMap [(''network'', VStr ''mainnet''), (''schema_version'', VU64 1),
     (''revision'', VU64 7), (''bindings'', VSeq [])])) ''doc'' ''mainnet'' =
     Ok \<lparr>network = ''mainnet'', snapshot_revision = 7, bindings = []\<rparr>
   \<and> snapshot_wf \<lparr>network = ''mainnet'', snapshot_revision = 7, bindings = []\<rparr>"
proof -
  let ?f = "\<lambda>_::string. Some (VMap [(''network'', VStr ''mainnet''), (''schema_version'', VU64 1),
     (''revision'', VU64 7), (''bindings'', VSeq [])])"
  have ok: "parse_bindings_payload ?f ''doc'' ''mainnet'' =
      Ok \<lparr>network = ''mainnet'', snapshot_revision = 7, bindings = []\<rparr>"
    by (simp add: parse_bindings_payload_def parse_unique_json_def bindings_of_value_def
        object_has_only_keys_def hm_contains_def hm_insert_def get_u64_def get_str_def
        MAX_SAFE_INTEGER_def MAX_MODEL_BINDINGS_def)
  from parse_bindings_payload_wf [OF ok] ok show ?thesis by simp
qed

text \<open>
  C5: Parsing inverts serving: a well-formed snapshot, written as the registry's JSON document,
  is read back as exactly that snapshot, so no valid binding is refused or altered.
\<close>

theorem bindings_roundtrip:
  assumes "snapshot_wf snap"
  shows "bindings_of_value (network snap) (snapshot_json snap) = Ok snap"
proof -
  have "parse_rows (snapshot_revision snap) (map (binding_json \<circ> snd) (bindings snap)) [] = Ok ([] @ bindings snap)"
    by (rule parse_rows_json) (use assms in \<open>simp_all add: snapshot_wf_def\<close>)
  with assms show ?thesis
    by (simp add: bindings_of_value_def snapshot_json_def object_has_only_keys_def hm_contains_def
        get_u64_def get_str_def snapshot_wf_def comp_def)
qed

theorem bindings_roundtrip_witness:
  "snapshot_wf (example_snapshot 9 (Some 4))
   \<and> bindings_of_value ''mainnet'' (snapshot_json (example_snapshot 9 (Some 4))) = Ok (example_snapshot 9 (Some 4))"
proof -
  have wf: "snapshot_wf (example_snapshot 9 (Some 4))"
    by (simp add: snapshot_wf_def example_simps binding_wf_def valid_model_id_def valid_bedrock_selector_def
        strip_prefix_def id_byte_def ascii_class_defs MAX_SAFE_INTEGER_def MAX_MODEL_BINDINGS_def
        MAX_MODEL_ID_BYTES_def)
  from bindings_roundtrip [OF wf] wf show ?thesis by (simp add: example_snapshot_def)
qed

end
