(* ===== verification/Http_Messages.thy ===== *)
theory Http_Messages
  imports Rust_Text
begin

text \<open>
  HTTP messages as the adapters see them: a header map is the list of its fields in order, names
  in lower case (the canonical form of \<^verbatim>\<open>HeaderName\<close>), values as bytes. \<^verbatim>\<open>HeaderValue::to_str\<close> of the
  \<^verbatim>\<open>http\<close> crate is the parameter \<open>to_str\<close>. A response body is the list of what its byte stream
  yields, chunks and transport errors, ended by the end of the list; a timeout of the client
  is such an error.
\<close>

type_synonym header_map = "(string \<times> string) list"

datatype source_item = Chunk string | Broken

record http_response =
  status_code :: u16
  response_headers :: header_map
  content_length :: "nat option"
  response_body :: "source_item list"

definition get_all :: "header_map \<Rightarrow> string \<Rightarrow> string list" where
  "get_all hs name = map snd (filter (\<lambda>h. fst h = name) hs)"

text \<open>The media type of a response: the content type up to its first semicolon, trimmed.\<close>

definition media_type_is :: "(string \<Rightarrow> string option) \<Rightarrow> header_map \<Rightarrow> string \<Rightarrow> bool" where
  "media_type_is to_str hs expected =
     (let content_type = (case Option.bind (map_of hs ''content-type'') to_str of None \<Rightarrow> [] | Some s \<Rightarrow> s) in
      eq_ignore_ascii_case (trim (hd (split_on (CHR '';'') content_type))) expected)"

text \<open>A body is collected chunk by chunk; the first chunk that passes the limit ends it.\<close>

fun read_bounded :: "'e \<Rightarrow> 'e \<Rightarrow> nat \<Rightarrow> source_item list \<Rightarrow> string \<Rightarrow> 'e + string" where
  "read_bounded broken too_large limit [] acc = Ok acc"
| "read_bounded broken too_large limit (Broken # source) acc = Err broken"
| "read_bounded broken too_large limit (Chunk chunk # source) acc =
     (if length acc + length chunk > limit then Err too_large
      else read_bounded broken too_large limit source (acc @ chunk))"

lemma read_bounded_Ok:
  "length acc \<le> limit \<Longrightarrow> read_bounded broken too_large limit source acc = Ok out \<longleftrightarrow>
     (\<exists>cs. source = map Chunk cs \<and> out = acc @ concat cs \<and> length out \<le> limit)"
proof (induction broken too_large limit source acc rule: read_bounded.induct)
  case (3 broken too_large limit chunk source acc)
  show ?case
  proof (cases "length acc + length chunk > limit")
    case True
    then show ?thesis by (auto simp: map_eq_Cons_conv Cons_eq_map_conv)
  next
    case False
    with 3 show ?thesis by (auto simp: Cons_eq_map_conv)
  qed
qed auto

end
