(* ===== verification/Mantle_Stream.thy ===== *)
theory Mantle_Stream
  imports Binding_Cache Http_Messages
begin

text \<open>
  The server-sent event stream of a Bedrock Mantle response
  (\<^verbatim>\<open>attestd/src/bedrock_mantle.rs\<close>): finding a frame, reading its event, checking the model
  identity of \<^verbatim>\<open>message_start\<close> before anything is released, and guarding the rest of the
  stream.

  \<^verbatim>\<open>serde_json\<close> is the parameter \<open>serde\<close> (its parser and its serializer). An upstream body is
  the list of what its stream yields: chunks and transport errors, ended by the end of the list.
  The laws are proved against one reading of the whole body, \<open>frames_of\<close>, so they say that the
  result does not depend on how the network cuts the body into chunks.
\<close>

named_theorems sse_simps

section \<open>Frames\<close>

definition MAX_RESPONSE_BODY :: nat where "MAX_RESPONSE_BODY = 32 * 1024 * 1024"
definition MAX_STREAM_PREAMBLE :: nat where "MAX_STREAM_PREAMBLE = 64 * 1024"
definition MAX_STREAM_FRAME :: nat where "MAX_STREAM_FRAME = 4 * 1024 * 1024"

text \<open>The parser and the serializer (\<^verbatim>\<open>to_vec\<close> and \<^verbatim>\<open>to_string\<close> write the same bytes).\<close>

record serde =
  from_slice :: "string \<Rightarrow> raw option"
  to_vec :: "json \<Rightarrow> string option"

definition find_sse_frame :: "string \<Rightarrow> (nat \<times> nat) option" where
  "find_sse_frame bytes =
     (case (find_sub [LF, LF] bytes, find_sub [CR, LF, CR, LF] bytes) of
        (Some lf, Some crlf) \<Rightarrow> if crlf < lf then Some (crlf, crlf + 4) else Some (lf, lf + 2)
      | (Some lf, None) \<Rightarrow> Some (lf, lf + 2)
      | (None, Some crlf) \<Rightarrow> Some (crlf, crlf + 4)
      | (None, None) \<Rightarrow> None)"

section \<open>Events\<close>

datatype StreamEvent = EvEmpty | EvPing | EvMessageStart json | EvMessageStop | EvError | EvOther | EvUnknown

text \<open>The loop over the lines of a frame: at most one event field and one data field.\<close>

fun sse_fields :: "string list \<Rightarrow> string option \<Rightarrow> string option
    \<Rightarrow> Reject + (string option \<times> string option)" where
  "sse_fields [] event data = Ok (event, data)"
| "sse_fields (l # ls) event data =
     (let line = strip_suffix_cr l in
      if line = [] \<or> hd line = CHR '':'' then sse_fields ls event data
      else (case strip_prefix ''event:'' line of
              Some v \<Rightarrow> if event \<noteq> None then Err Upstream else sse_fields ls (Some (trim_start v)) data
            | None \<Rightarrow>
                (case strip_prefix ''data:'' line of
                   Some v \<Rightarrow> if data \<noteq> None then Err Upstream else sse_fields ls event (Some (trim_start v))
                 | None \<Rightarrow> Err Upstream)))"

definition json_type :: "json \<Rightarrow> string option" where
  "json_type v = Option.bind (json_get ''type'' v) as_str"

definition ping_event :: "serde \<Rightarrow> string option \<Rightarrow> Reject + StreamEvent" where
  "ping_event sj data =
     (case data of
        None \<Rightarrow> Ok EvPing
      | Some d \<Rightarrow>
          if d \<noteq> [] \<and> Option.bind (parse_unique_json (from_slice sj) d) json_type \<noteq> Some ''ping''
          then Err Upstream else Ok EvPing)"

definition event_kind :: "string \<Rightarrow> json \<Rightarrow> StreamEvent" where
  "event_kind event value =
     (if event = ''message_start'' then EvMessageStart value
      else if event = ''message_stop'' then EvMessageStop
      else if event = ''error'' then EvError
      else if event \<in> {''content_block_start'', ''content_block_delta'', ''content_block_stop'', ''message_delta''}
      then EvOther else EvUnknown)"

definition parse_stream_event :: "serde \<Rightarrow> string \<Rightarrow> Reject + StreamEvent" where
  "parse_stream_event sj frame =
     bind_r (ensure (utf8_valid frame) Upstream) (\<lambda>_.
     bind_r (sse_fields (lines frame) None None) (\<lambda>(event, data).
       case event of
         None \<Rightarrow> if data = None then Ok EvEmpty else Err Upstream
       | Some ev \<Rightarrow>
           if ev = ''ping'' then ping_event sj data
           else bind_r (ok_or (filter_o (\<lambda>d. d \<noteq> []) data) Upstream) (\<lambda>d.
                bind_r (ok_or (parse_unique_json (from_slice sj) d) Upstream) (\<lambda>value.
                  if ev = [] \<or> json_type value \<noteq> Some ev then Err Upstream
                  else Ok (event_kind ev value)))))"

section \<open>The preamble: the model identity is checked before anything is released\<close>

datatype StreamPreambleEvent = PreMessageStart string | PreOther

text \<open>
  \<open>set_message_model\<close> is the in-place update through \<^verbatim>\<open>get_mut("message")\<close>: the message
  object's model, and the document with that model replaced.
\<close>

definition message_model :: "json \<Rightarrow> Reject + string" where
  "message_model value =
     bind_r (ok_or (Option.bind (json_get ''message'' value) as_object) Upstream) (\<lambda>message.
       ok_or (get_str message ''model'') Upstream)"

definition set_message_model :: "string \<Rightarrow> json \<Rightarrow> json" where
  "set_message_model canonical value =
     (case value of
        JObject m \<Rightarrow>
          (case map_of m ''message'' of
             Some (JObject message) \<Rightarrow>
               JObject (hm_insert ''message'' (JObject (hm_insert ''model'' (JString canonical) message)) m)
           | _ \<Rightarrow> value)
      | _ \<Rightarrow> value)"

definition message_start_frame :: "string \<Rightarrow> string" where
  "message_start_frame data = ''event: message_start'' @ [LF] @ ''data: '' @ data @ [LF, LF]"

definition parse_sse_preamble_frame ::
    "serde \<Rightarrow> string \<Rightarrow> string \<Rightarrow> string \<Rightarrow> Reject + StreamPreambleEvent" where
  "parse_sse_preamble_frame sj frame expected_raw canonical =
     bind_r (parse_stream_event sj frame) (\<lambda>ev.
       case ev of
         EvMessageStart value \<Rightarrow>
           bind_r (message_model value) (\<lambda>raw_model.
             if raw_model \<noteq> expected_raw then Err ModelIdentityMismatch
             else bind_r (ok_or (to_vec sj (set_message_model canonical value)) Upstream) (\<lambda>data.
               Ok (PreMessageStart (message_start_frame data))))
       | EvEmpty \<Rightarrow> Ok PreOther
       | EvPing \<Rightarrow> Ok PreOther
       | EvUnknown \<Rightarrow> Ok PreOther
       | _ \<Rightarrow> Err Upstream)"

text \<open>Where the scan of the buffer stands: out of frames at an offset, or the preamble is found.\<close>

datatype scan = More nat nat | Preamble string

text \<open>Facts about frame positions that the loops below need to end.\<close>

lemma occurs_at_nth:
  "occurs_at pat s i \<longleftrightarrow> pat = [] \<or> (i + length pat \<le> length s \<and> (\<forall>k < length pat. s ! (i + k) = pat ! k))"
proof (cases "pat = []")
  case False
  show ?thesis
  proof
    assume occ: "occurs_at pat s i"
    with False have "i + length pat \<le> length s" by (simp add: occurs_at_bound)
    moreover have "s ! (i + k) = pat ! k" if "k < length pat" for k
    proof -
      from occ have "pat ! k = take (length pat) (drop i s) ! k" by (simp add: occurs_at_def)
      with that calculation show ?thesis by simp
    qed
    ultimately show "pat = [] \<or> (i + length pat \<le> length s \<and> (\<forall>k < length pat. s ! (i + k) = pat ! k))"
      by simp
  qed (auto simp: occurs_at_def False intro!: nth_equalityI)
qed (simp add: occurs_at_def)

text \<open>A separator of \<open>n\<close> bytes starts at \<open>i\<close>.\<close>

definition sep_at :: "string \<Rightarrow> nat \<Rightarrow> nat \<Rightarrow> bool" where
  "sep_at s i n \<longleftrightarrow> (n = 2 \<and> occurs_at [LF, LF] s i) \<or> (n = 4 \<and> occurs_at [CR, LF, CR, LF] s i)"

lemma sep_at_nth [sse_simps]:
  "sep_at s i n \<longleftrightarrow>
     (n = 2 \<and> i + 2 \<le> length s \<and> s ! i = LF \<and> s ! (i + 1) = LF)
     \<or> (n = 4 \<and> i + 4 \<le> length s \<and> s ! i = CR \<and> s ! (i + 1) = LF \<and> s ! (i + 2) = CR \<and> s ! (i + 3) = LF)"
  by (auto simp: sep_at_def occurs_at_nth less_Suc_eq numeral_eq_Suc)

lemma sep_at_unique: "sep_at s i n \<Longrightarrow> sep_at s i m \<Longrightarrow> n = m"
  by (auto simp: sep_at_nth)

lemma find_sse_frame_Some:
  "find_sse_frame s = Some (fe, se) \<longleftrightarrow>
     (\<exists>n. sep_at s fe n \<and> se = fe + n) \<and> (\<forall>j < fe. \<forall>n. \<not> sep_at s j n)"
proof -
  have excl: "\<not> (occurs_at [LF, LF] s i \<and> occurs_at [CR, LF, CR, LF] s i)" for i
    using sep_at_unique [of s i 2 4] by (auto simp: sep_at_def)
  show ?thesis
    unfolding find_sse_frame_def sep_at_def using excl
    by (auto simp: find_sub_None_iff find_sub_Some_iff split: option.splits) (metis linorder_neqE_nat)+
qed

lemma find_sse_frame_None: "find_sse_frame s = None \<longleftrightarrow> (\<forall>i n. \<not> sep_at s i n)"
proof -
  have "find_sse_frame s = None \<longleftrightarrow> find_sub [LF, LF] s = None \<and> find_sub [CR, LF, CR, LF] s = None"
    by (auto simp: find_sse_frame_def split: option.splits)
  then show ?thesis by (auto simp: sep_at_def find_sub_None_iff)
qed

lemma find_sse_frame_bounds:
  "find_sse_frame s = Some (fe, se) \<Longrightarrow> fe < se \<and> se \<le> length s"
  by (auto simp: find_sse_frame_Some sep_at_nth)

function scan_preamble ::
    "serde \<Rightarrow> string \<Rightarrow> string \<Rightarrow> string \<Rightarrow> nat \<Rightarrow> nat \<Rightarrow> Reject + scan" where
  "scan_preamble sj expected_raw canonical buffer scanned preamble_bytes =
     (case find_sse_frame (drop scanned buffer) of
        None \<Rightarrow>
          if length buffer - scanned > MAX_STREAM_PREAMBLE
             \<or> preamble_bytes + (length buffer - scanned) > MAX_STREAM_PREAMBLE
          then Err Upstream else Ok (More scanned preamble_bytes)
      | Some (frame_end, separator_end) \<Rightarrow>
          if preamble_bytes + separator_end > MAX_STREAM_PREAMBLE then Err Upstream
          else (case parse_sse_preamble_frame sj (take frame_end (drop scanned buffer)) expected_raw canonical of
                  Inl e \<Rightarrow> Err e
                | Inr PreOther \<Rightarrow>
                    scan_preamble sj expected_raw canonical buffer (scanned + separator_end)
                      (preamble_bytes + separator_end)
                | Inr (PreMessageStart canonical_frame) \<Rightarrow>
                    Ok (Preamble (take scanned buffer @ canonical_frame @ drop (scanned + separator_end) buffer))))"
  by pat_completeness auto
termination
  by (relation "measure (\<lambda>(sj, e, c, buffer, scanned, p). length buffer - scanned)")
    (auto dest: find_sse_frame_bounds)

declare scan_preamble.simps [simp del]

fun validate_stream_identity ::
    "serde \<Rightarrow> string \<Rightarrow> string \<Rightarrow> source_item list \<Rightarrow> string \<Rightarrow> nat \<Rightarrow> nat
     \<Rightarrow> Reject + (string \<times> source_item list)" where
  "validate_stream_identity sj expected_raw canonical [] buffer scanned preamble_bytes = Err Upstream"
| "validate_stream_identity sj expected_raw canonical (Broken # source) buffer scanned preamble_bytes =
     Err UpstreamTransport"
| "validate_stream_identity sj expected_raw canonical (Chunk chunk # source) buffer scanned preamble_bytes =
     bind_r (scan_preamble sj expected_raw canonical (buffer @ chunk) scanned preamble_bytes) (\<lambda>r.
       case r of
         Preamble preamble \<Rightarrow> Ok (preamble, source)
       | More scanned' preamble_bytes' \<Rightarrow>
           if length (buffer @ chunk) - scanned' > MAX_STREAM_PREAMBLE then Err Upstream
           else validate_stream_identity sj expected_raw canonical source (buffer @ chunk) scanned' preamble_bytes')"

section \<open>The guard on the rest of the stream\<close>

datatype StreamEnd =
  ResponseBodyLimit | DataAfterTerminal | InvalidEvent | FrameLimit | MissingTerminal | UpstreamInterrupted

fun stream_end_reason :: "StreamEnd \<Rightarrow> string" where
  "stream_end_reason ResponseBodyLimit = ''response_body_limit''"
| "stream_end_reason DataAfterTerminal = ''data_after_terminal''"
| "stream_end_reason InvalidEvent = ''invalid_event''"
| "stream_end_reason FrameLimit = ''frame_limit''"
| "stream_end_reason MissingTerminal = ''missing_terminal''"
| "stream_end_reason UpstreamInterrupted = ''upstream_interrupted''"

datatype io_kind = InvalidData | UnexpectedEof | ConnectionReset

fun into_error :: "StreamEnd \<Rightarrow> io_kind \<times> string" where
  "into_error ResponseBodyLimit = (InvalidData, ''invalid Bedrock Mantle event stream'')"
| "into_error InvalidEvent = (InvalidData, ''invalid Bedrock Mantle event stream'')"
| "into_error DataAfterTerminal = (InvalidData, ''data follows terminal Bedrock Mantle event'')"
| "into_error FrameLimit = (InvalidData, ''oversized Bedrock Mantle event frame'')"
| "into_error MissingTerminal = (UnexpectedEof, ''Bedrock Mantle event stream ended without a terminal event'')"
| "into_error UpstreamInterrupted = (ConnectionReset, ''upstream stream interrupted'')"

record guard_state =
  pending :: string
  total :: nat
  started :: bool
  terminal :: bool
  failed :: bool

definition guard_init :: guard_state where
  "guard_init = \<lparr>pending = [], total = 0, started = False, terminal = False, failed = False\<rparr>"

text \<open>The match on the event of a frame: the new \<open>started\<close> and \<open>terminal\<close>, or an invalid event.\<close>

fun advance :: "StreamEvent \<Rightarrow> bool \<times> bool \<Rightarrow> (bool \<times> bool) option" where
  "advance EvEmpty (st, te) = (if \<not> te then Some (st, te) else None)"
| "advance EvPing (st, te) = (if \<not> te then Some (st, te) else None)"
| "advance EvUnknown (st, te) = (if \<not> te then Some (st, te) else None)"
| "advance (EvMessageStart _) (st, te) = (if \<not> st \<and> \<not> te then Some (True, te) else None)"
| "advance EvMessageStop (st, te) = (if st \<and> \<not> te then Some (st, True) else None)"
| "advance EvError (st, te) = (if st \<and> \<not> te then Some (st, True) else None)"
| "advance EvOther (st, te) = (if st \<and> \<not> te then Some (st, te) else None)"

definition advance_frame :: "serde \<Rightarrow> string \<Rightarrow> bool \<times> bool \<Rightarrow> (bool \<times> bool) option" where
  "advance_frame sj frame s = (case parse_stream_event sj frame of Inl _ \<Rightarrow> None | Inr ev \<Rightarrow> advance ev s)"

text \<open>
  The frame loop over the extended \<open>pending\<close> buffer. It searches from \<open>max consumed scanned\<close>
  and cuts frames from \<open>consumed\<close>.
\<close>

function guard_frames ::
    "serde \<Rightarrow> string \<Rightarrow> nat \<Rightarrow> nat \<Rightarrow> bool \<times> bool \<Rightarrow> StreamEnd + (nat \<times> bool \<times> bool)" where
  "guard_frames sj buf scanned consumed s =
     (let base = max consumed scanned in
      case find_sse_frame (drop base buf) of
        None \<Rightarrow> Ok (consumed, s)
      | Some (fe, se) \<Rightarrow>
          let frame_end = base + fe; after_frame = base + se in
          if frame_end - consumed > MAX_STREAM_FRAME then Err FrameLimit
          else (case advance_frame sj (take (frame_end - consumed) (drop consumed buf)) s of
                  None \<Rightarrow> Err InvalidEvent
                | Some (st, te) \<Rightarrow>
                    if te \<and> after_frame < length buf then Err DataAfterTerminal
                    else guard_frames sj buf scanned after_frame (st, te)))"
  by pat_completeness auto
termination
  by (relation "measure (\<lambda>(sj, buf, scanned, consumed, s). length buf - consumed)")
    (auto dest!: find_sse_frame_bounds simp: Let_def)

declare guard_frames.simps [simp del]

definition guard_chunk :: "serde \<Rightarrow> guard_state \<Rightarrow> string \<Rightarrow> StreamEnd + guard_state" where
  "guard_chunk sj g chunk =
     (let tot = total g + length chunk in
      if tot > MAX_RESPONSE_BODY then Err ResponseBodyLimit
      else if terminal g \<and> chunk \<noteq> [] then Err DataAfterTerminal
      else let scanned = length (pending g) - 3; buf = pending g @ chunk in
        bind_r (guard_frames sj buf scanned 0 (started g, terminal g)) (\<lambda>(consumed, st, te).
          if length buf - consumed > MAX_STREAM_FRAME then Err FrameLimit
          else Ok \<lparr>pending = drop consumed buf, total = tot, started = st, terminal = te, failed = False\<rparr>))"

datatype guard_poll = Yield string | Fail StreamEnd | Finished

definition guard_next :: "serde \<Rightarrow> guard_state \<Rightarrow> source_item option \<Rightarrow> guard_poll \<times> guard_state" where
  "guard_next sj g item =
     (if failed g then (Finished, g)
      else (case item of
              Some (Chunk chunk) \<Rightarrow>
                (case guard_chunk sj g chunk of
                   Inl e \<Rightarrow> (Fail e, g\<lparr>failed := True\<rparr>)
                 | Inr g' \<Rightarrow> (Yield chunk, g'))
            | Some Broken \<Rightarrow> (Fail UpstreamInterrupted, g\<lparr>failed := True\<rparr>)
            | None \<Rightarrow>
                if terminal g \<and> pending g = [] then (Finished, g)
                else (Fail MissingTerminal, g\<lparr>failed := True\<rparr>)))"

text \<open>
  The polls of a body: after a failure the stream ends, so the buffer the failing poll leaves
  behind is never read and the model keeps the one before it.
\<close>

fun guard_stream :: "serde \<Rightarrow> guard_state \<Rightarrow> source_item list \<Rightarrow> guard_poll list" where
  "guard_stream sj g [] = (let (r, g') = guard_next sj g None in if failed g' then [r] else [])"
| "guard_stream sj g (x # xs) =
     (let (r, g') = guard_next sj g (Some x) in if failed g' then [r] else r # guard_stream sj g' xs)"

section \<open>One reading of the whole body\<close>

text \<open>The frames of a body, and the bytes after the last separator.\<close>

function frames_of :: "string \<Rightarrow> string list \<times> string" where
  "frames_of s =
     (case find_sse_frame s of
        None \<Rightarrow> ([], s)
      | Some (fe, se) \<Rightarrow> (let (fs, rest) = frames_of (drop se s) in (take fe s # fs, rest)))"
  by pat_completeness auto
termination
  by (relation "measure length") (auto dest!: find_sse_frame_bounds)

declare frames_of.simps [simp del]

text \<open>The events of a list of frames, from a state of the guard.\<close>

fun advance_all :: "serde \<Rightarrow> string list \<Rightarrow> bool \<times> bool \<Rightarrow> (bool \<times> bool) option" where
  "advance_all sj [] s = Some s"
| "advance_all sj (f # fs) s = Option.bind (advance_frame sj f s) (advance_all sj fs)"

lemma sep_at_append: "sep_at s i n \<Longrightarrow> sep_at (s @ t) i n"
  by (auto simp: sep_at_nth nth_append)

lemma sep_at_take: "sep_at (s @ t) i n \<Longrightarrow> i + n \<le> length s \<Longrightarrow> sep_at s i n"
  by (auto simp: sep_at_nth nth_append)

lemma sep_at_drop: "b \<le> length s \<Longrightarrow> sep_at (drop b s) i n \<longleftrightarrow> sep_at s (b + i) n"
  by (auto simp: sep_at_nth ac_simps)

lemma sep_at_overlap:
  assumes "sep_at s i n" and "sep_at s j m" and "j < i"
  shows "j + m \<le> i + n"
proof (cases "i = j + 1")
  case True
  with assms show ?thesis by (auto simp: sep_at_nth)
next
  case False
  with assms show ?thesis by (auto simp: sep_at_nth)
qed

text \<open>A frame found in the bytes so far is the frame found in any longer body.\<close>

lemma find_sse_frame_append:
  assumes "find_sse_frame s = Some (fe, se)"
  shows "find_sse_frame (s @ t) = Some (fe, se)"
proof -
  obtain n where n: "sep_at s fe n" "se = fe + n" and least: "\<forall>j < fe. \<forall>m. \<not> sep_at s j m"
    using assms by (auto simp: find_sse_frame_Some)
  have "fe + n \<le> length s" using assms n(2) find_sse_frame_bounds by blast
  moreover have "\<not> sep_at (s @ t) j m" if "j < fe" for j m
  proof
    assume sep: "sep_at (s @ t) j m"
    have "j + m \<le> length s"
      using sep_at_overlap [OF sep_at_append [OF n(1)] sep that] calculation by linarith
    with sep_at_take [OF sep] least that show False by blast
  qed
  ultimately show ?thesis
    using n by (auto simp: find_sse_frame_Some intro: sep_at_append)
qed

text \<open>Searching from an offset before which no separator starts loses nothing.\<close>

lemma find_sse_frame_drop:
  assumes "b \<le> length s" and "\<And>i n. i < b \<Longrightarrow> \<not> sep_at s i n"
  shows "find_sse_frame s = map_option (\<lambda>(fe, se). (b + fe, b + se)) (find_sse_frame (drop b s))"
proof (cases "find_sse_frame (drop b s)")
  case None
  have "\<not> sep_at s i n" for i n
  proof (cases "i < b")
    case False
    then have "sep_at (drop b s) (i - b) n \<longleftrightarrow> sep_at s i n"
      using sep_at_drop [OF assms(1), of "i - b" n] by simp
    with None show ?thesis by (simp add: find_sse_frame_None)
  qed (use assms(2) in blast)
  then have "find_sse_frame s = None" by (simp add: find_sse_frame_None)
  with None show ?thesis by simp
next
  case (Some r)
  obtain fe se where r: "r = (fe, se)" by (cases r)
  with Some obtain n where n: "sep_at (drop b s) fe n" "se = fe + n"
    and least: "\<forall>j < fe. \<forall>m. \<not> sep_at (drop b s) j m"
    by (auto simp: find_sse_frame_Some)
  have "\<not> sep_at s j m" if "j < b + fe" for j m
  proof (cases "j < b")
    case False
    with that least sep_at_drop [OF assms(1), of "j - b" m] show ?thesis by auto
  qed (use assms(2) in blast)
  moreover have "sep_at s (b + fe) n"
    using n(1) by (simp add: sep_at_drop assms(1))
  ultimately have "find_sse_frame s = Some (b + fe, b + se)"
    using n(2) by (auto simp: find_sse_frame_Some)
  with Some r show ?thesis by simp
qed

text \<open>Reading more bytes continues the reading so far.\<close>

lemma frames_of_append:
  assumes "frames_of s = (fs, r)"
  shows "frames_of (s @ t) = (fs @ fst (frames_of (r @ t)), snd (frames_of (r @ t)))"
  using assms
proof (induction s arbitrary: fs r rule: frames_of.induct)
  case (1 s)
  show ?case
  proof (cases "find_sse_frame s")
    case None
    with 1(2) show ?thesis by (subst (asm) frames_of.simps) simp
  next
    case (Some p)
    obtain fe se where p: "p = (fe, se)" by (cases p)
    obtain fs' r' where rec: "frames_of (drop se s) = (fs', r')" by (metis surj_pair)
    have bound: "fe < se" "se \<le> length s" using find_sse_frame_bounds Some p by blast+
    from 1(2) have eq: "fs = take fe s # fs'" "r = r'"
      by (subst (asm) (1) frames_of.simps, simp add: Some p rec)+
    from 1(1) [OF Some p [symmetric] rec] bound
    have IH: "frames_of (drop se s @ t) = (fs' @ fst (frames_of (r' @ t)), snd (frames_of (r' @ t)))"
      by simp
    show ?thesis
      using find_sse_frame_append [of s fe se t] Some p bound
      by (subst frames_of.simps) (simp add: IH eq)
  qed
qed

lemma frames_of_rest: "frames_of s = (fs, r) \<Longrightarrow> find_sse_frame r = None"
proof (induction s arbitrary: fs r rule: frames_of.induct)
  case (1 s)
  show ?case
  proof (cases "find_sse_frame s")
    case None
    with 1(2) show ?thesis by (subst (asm) frames_of.simps) simp
  next
    case (Some p)
    obtain fe se where p: "p = (fe, se)" by (cases p)
    obtain fs' r' where rec: "frames_of (drop se s) = (fs', r')" by (metis surj_pair)
    from 1(2) have "r = r'" by (subst (asm) (1) frames_of.simps, simp add: Some p rec)
    with 1(1) [OF Some p [symmetric] rec] show ?thesis by simp
  qed
qed

lemma frames_of_rest_suffix: "frames_of s = (fs, r) \<Longrightarrow> \<exists>a. s = a @ r"
proof (induction s arbitrary: fs r rule: frames_of.induct)
  case (1 s)
  show ?case
  proof (cases "find_sse_frame s")
    case (Some p)
    obtain fe se where p: "p = (fe, se)" by (cases p)
    obtain fs' r' where rec: "frames_of (drop se s) = (fs', r')" by (metis surj_pair)
    from "1.prems" have "r = r'" by (subst (asm) (1) frames_of.simps, simp add: Some p rec)
    with "1.IH" [OF Some p [symmetric] rec] show ?thesis by (metis append_assoc append_take_drop_id)
  qed (use "1.prems" in \<open>subst (asm) frames_of.simps, simp\<close>)
qed

lemma frames_of_None: "find_sse_frame s = None \<Longrightarrow> frames_of s = ([], s)"
  by (subst frames_of.simps) simp

lemma frames_of_Some:
  "find_sse_frame s = Some (fe, se) \<Longrightarrow>
     frames_of s = (take fe s # fst (frames_of (drop se s)), snd (frames_of (drop se s)))"
  by (subst frames_of.simps) (simp add: case_prod_unfold Let_def)

lemma frames_of_Nil [simp]: "frames_of [] = ([], [])"
  by (rule frames_of_None) (simp add: find_sse_frame_def)

lemma advance_all_append:
  "advance_all sj (fs @ gs) s = Option.bind (advance_all sj fs s) (advance_all sj gs)"
proof (induction fs arbitrary: s)
  case (Cons f fs)
  then show ?case by (cases "advance_frame sj f s") simp_all
qed simp

lemma advance_terminal: "advance ev (st, True) = None"
  by (cases ev) auto

lemma advance_frame_terminal: "advance_frame sj f (st, True) = None"
  by (auto simp: advance_frame_def advance_terminal split: sum.splits)

lemma advance_all_terminal: "advance_all sj fs (st, True) = Some s \<Longrightarrow> fs = [] \<and> s = (st, True)"
  by (cases fs) (auto simp: advance_frame_terminal)

subsection \<open>The frame loop reads the whole buffer\<close>

definition loop_result :: "serde \<Rightarrow> string \<Rightarrow> bool \<times> bool \<Rightarrow> (string \<times> bool \<times> bool) option" where
  "loop_result sj body s =
     (let (fs, r) = frames_of body in
      case advance_all sj fs s of
        None \<Rightarrow> None
      | Some s' \<Rightarrow>
          if (\<forall>f \<in> set fs. length f \<le> MAX_STREAM_FRAME) \<and> (fs \<noteq> [] \<and> snd s' \<longrightarrow> r = [])
          then Some (r, s') else None)"

lemma loop_result_None: "find_sse_frame body = None \<Longrightarrow> loop_result sj body s = Some (body, s)"
  by (simp add: loop_result_def frames_of_None)

lemma loop_result_Some:
  assumes "find_sse_frame body = Some (fe, se)"
  shows "loop_result sj body s =
    (if fe > MAX_STREAM_FRAME then None
     else case advance_frame sj (take fe body) s of
            None \<Rightarrow> None
          | Some s' \<Rightarrow> if snd s' \<and> se < length body then None else loop_result sj (drop se body) s')"
proof -
  obtain fs r where rest: "frames_of (drop se body) = (fs, r)" by (metis surj_pair)
  have fe: "min (length body) fe = fe" and se: "se \<le> length body"
    using find_sse_frame_bounds [OF assms] by simp_all
  show ?thesis
  proof (cases "advance_frame sj (take fe body) s")
    case None
    then show ?thesis by (simp add: loop_result_def frames_of_Some [OF assms] rest)
  next
    case (Some s')
    obtain st te where s': "s' = (st, te)" by (cases s')
    have stop: "se < length body \<Longrightarrow> fs = [] \<Longrightarrow> r \<noteq> []"
      using rest frames_of_Some [of "drop se body"] frames_of_None [of "drop se body"]
      by (cases "find_sse_frame (drop se body)") auto
    show ?thesis
    proof (cases te)
      case True
      have "advance_all sj fs s' = (if fs = [] then Some s' else None)"
        using True by (cases fs) (simp_all add: s' advance_frame_terminal)
      moreover have "\<not> se < length body \<Longrightarrow> fs = [] \<and> r = []"
        using rest se by simp
      ultimately show ?thesis
        using stop by (auto simp: loop_result_def frames_of_Some [OF assms] rest Some s' True fe)
    next
      case False
      then show ?thesis
        by (auto simp: loop_result_def frames_of_Some [OF assms] rest Some s' fe split: option.splits)
    qed
  qed
qed

lemma guard_frames_result:
  assumes "consumed \<le> length buf" and "scanned \<le> length buf"
    and "\<And>i n. consumed \<le> i \<Longrightarrow> i < scanned \<Longrightarrow> \<not> sep_at buf i n"
  shows "(case guard_frames sj buf scanned consumed s of
      Inl _ \<Rightarrow> loop_result sj (drop consumed buf) s = None
    | Inr (c', s') \<Rightarrow> c' \<le> length buf \<and> loop_result sj (drop consumed buf) s = Some (drop c' buf, s'))"
  using assms
proof (induction sj buf scanned consumed s rule: guard_frames.induct)
  case (1 sj buf scanned consumed s)
  let ?base = "max consumed scanned"
  have shift: "find_sse_frame (drop consumed buf) =
      map_option (\<lambda>(fe, se). (?base - consumed + fe, ?base - consumed + se)) (find_sse_frame (drop ?base buf))"
    using find_sse_frame_drop [of "?base - consumed" "drop consumed buf"] "1.prems"
    by (auto simp: sep_at_drop)
  show ?case
  proof (cases "find_sse_frame (drop ?base buf)")
    case None
    then show ?thesis
      using "1.prems"(1) shift by (subst guard_frames.simps) (simp add: loop_result_None)
  next
    case (Some p)
    obtain fe se where p: "p = (fe, se)" by (cases p)
    let ?fe = "?base + fe - consumed" and ?se = "?base + se - consumed"
    have bound: "fe < se" "?base + se \<le> length buf"
      using find_sse_frame_bounds [of "drop ?base buf" fe se] Some p "1.prems"(1,2) by auto
    have found: "find_sse_frame (drop consumed buf) = Some (?fe, ?se)"
      using shift Some p by simp
    have IH: "case guard_frames sj buf scanned (?base + se) (st, te) of
        Inl _ \<Rightarrow> loop_result sj (drop (?base + se) buf) (st, te) = None
      | Inr (c', s') \<Rightarrow> c' \<le> length buf \<and> loop_result sj (drop (?base + se) buf) (st, te) = Some (drop c' buf, s')"
      if "\<not> MAX_STREAM_FRAME < ?fe" "advance_frame sj (take ?fe (drop consumed buf)) s = Some (st, te)"
        "\<not> (te \<and> ?base + se < length buf)" for st te
      using "1.IH" [OF refl Some p [symmetric] refl refl] that bound "1.prems" by auto
    have cut: "?se < length (drop consumed buf) \<longleftrightarrow> ?base + se < length buf"
      "drop ?se (drop consumed buf) = drop (?base + se) buf"
      using "1.prems"(1) by auto
    have lr: "loop_result sj (drop consumed buf) s =
        (if ?fe > MAX_STREAM_FRAME then None
         else case advance_frame sj (take ?fe (drop consumed buf)) s of
                None \<Rightarrow> None
              | Some s' \<Rightarrow> if snd s' \<and> ?base + se < length buf then None
                            else loop_result sj (drop (?base + se) buf) s')"
      by (simp only: loop_result_Some [OF found] cut)
    have gf: "guard_frames sj buf scanned consumed s =
        (if ?fe > MAX_STREAM_FRAME then Err FrameLimit
         else case advance_frame sj (take ?fe (drop consumed buf)) s of
                None \<Rightarrow> Err InvalidEvent
              | Some (st, te) \<Rightarrow> if te \<and> ?base + se < length buf then Err DataAfterTerminal
                                 else guard_frames sj buf scanned (?base + se) (st, te))"
      by (subst guard_frames.simps) (simp add: Let_def Some p)
    show ?thesis
    proof (cases "advance_frame sj (take ?fe (drop consumed buf)) s")
      case None
      then show ?thesis by (simp add: lr gf)
    next
      case (Some s')
      obtain st te where s': "s' = (st, te)" by (cases s')
      show ?thesis
      proof (cases "?fe > MAX_STREAM_FRAME \<or> (te \<and> ?base + se < length buf)")
        case True
        then show ?thesis by (auto simp: lr gf Some s')
      next
        case False
        then have eqs: "guard_frames sj buf scanned consumed s = guard_frames sj buf scanned (?base + se) (st, te)"
          "loop_result sj (drop consumed buf) s = loop_result sj (drop (?base + se) buf) (st, te)"
          by (auto simp: lr gf Some s')
        show ?thesis unfolding eqs by (rule IH) (use False Some s' in simp_all)
      qed
    qed
  qed
qed

subsection \<open>The guard reads the whole body\<close>

text \<open>What the guard's state means after the chunks of \<open>body\<close>.\<close>

definition guard_inv :: "serde \<Rightarrow> guard_state \<Rightarrow> string \<Rightarrow> bool" where
  "guard_inv sj g body \<longleftrightarrow> \<not> failed g \<and> total g = length body \<and> total g \<le> MAX_RESPONSE_BODY
     \<and> (terminal g \<longrightarrow> pending g = [])
     \<and> (\<exists>fs. frames_of body = (fs, pending g)
          \<and> advance_all sj fs (False, False) = Some (started g, terminal g)
          \<and> (\<forall>f \<in> set fs. length f \<le> MAX_STREAM_FRAME))"

lemma guard_inv_init: "guard_inv sj guard_init []"
  by (simp add: guard_inv_def guard_init_def)

lemma no_sep_before:
  assumes "find_sse_frame p = None" and "i < length p - 3"
  shows "\<not> sep_at (p @ c) i n"
proof
  assume sep: "sep_at (p @ c) i n"
  then have "n \<le> 4" by (auto simp: sep_at_nth)
  with assms(2) have "sep_at p i n" by (intro sep_at_take [OF sep]) simp
  with assms(1) show False by (simp add: find_sse_frame_None)
qed

lemma loop_result_eq_Some:
  "loop_result sj body s = Some (r, s') \<longleftrightarrow>
     (\<exists>fs. frames_of body = (fs, r) \<and> advance_all sj fs s = Some s'
       \<and> (\<forall>f \<in> set fs. length f \<le> MAX_STREAM_FRAME) \<and> (fs \<noteq> [] \<and> snd s' \<longrightarrow> r = []))"
  by (cases "frames_of body") (auto simp: loop_result_def split: option.splits)

lemma guard_chunk_result:
  assumes "find_sse_frame (pending g) = None"
  shows "guard_chunk sj g chunk = Ok g' \<longleftrightarrow>
    total g + length chunk \<le> MAX_RESPONSE_BODY \<and> \<not> (terminal g \<and> chunk \<noteq> [])
    \<and> (\<exists>r st te. loop_result sj (pending g @ chunk) (started g, terminal g) = Some (r, st, te)
        \<and> length r \<le> MAX_STREAM_FRAME
        \<and> g' = \<lparr>pending = r, total = total g + length chunk, started = st, terminal = te, failed = False\<rparr>)"
proof -
  let ?buf = "pending g @ chunk"
  have "case guard_frames sj ?buf (length (pending g) - 3) 0 (started g, terminal g) of
      Inl _ \<Rightarrow> loop_result sj (drop 0 ?buf) (started g, terminal g) = None
    | Inr (c', s') \<Rightarrow> c' \<le> length ?buf
        \<and> loop_result sj (drop 0 ?buf) (started g, terminal g) = Some (drop c' ?buf, s')"
    by (rule guard_frames_result) (use no_sep_before [OF assms] in auto)
  then show ?thesis
    by (auto simp: guard_chunk_def Let_def split: sum.splits if_splits)
qed

lemma guard_chunk_inv:
  assumes "guard_inv sj g body" and "guard_chunk sj g chunk = Ok g'"
  shows "guard_inv sj g' (body @ chunk)"
proof -
  obtain fs where fs: "frames_of body = (fs, pending g)"
    "advance_all sj fs (False, False) = Some (started g, terminal g)"
    "\<forall>f \<in> set fs. length f \<le> MAX_STREAM_FRAME"
    using assms(1) by (auto simp: guard_inv_def)
  from guard_chunk_result [OF frames_of_rest [OF fs(1)], of sj chunk g'] assms(2)
  obtain r st te gs where tot: "total g + length chunk \<le> MAX_RESPONSE_BODY"
    and te: "\<not> (terminal g \<and> chunk \<noteq> [])"
    and gs: "frames_of (pending g @ chunk) = (gs, r)"
      "advance_all sj gs (started g, terminal g) = Some (st, te)"
      "\<forall>f \<in> set gs. length f \<le> MAX_STREAM_FRAME" "gs \<noteq> [] \<and> te \<longrightarrow> r = []"
    and g': "g' = \<lparr>pending = r, total = total g + length chunk, started = st, terminal = te, failed = False\<rparr>"
    by (auto simp: loop_result_eq_Some)
  have "te \<longrightarrow> r = []"
  proof (cases "gs = []")
    case True
    with gs(1,2) have "r = pending g @ chunk" "te = terminal g"
      using frames_of_Some [of "pending g @ chunk"] frames_of_None [of "pending g @ chunk"]
      by (cases "find_sse_frame (pending g @ chunk)", auto)
    with te assms(1) show ?thesis by (auto simp: guard_inv_def)
  qed (use gs(4) in simp)
  moreover have "frames_of (body @ chunk) = (fs @ gs, r)"
    using frames_of_append [OF fs(1), of chunk] gs(1) by simp
  moreover have "advance_all sj (fs @ gs) (False, False) = Some (st, te)"
    by (simp add: advance_all_append fs(2) gs(2))
  ultimately show ?thesis
    using assms(1) tot fs(3) gs(3) by (auto simp: guard_inv_def g')
qed

definition valid_body :: "serde \<Rightarrow> nat \<Rightarrow> string \<Rightarrow> bool" where
  "valid_body sj frame_limit body \<longleftrightarrow> length body \<le> MAX_RESPONSE_BODY
     \<and> (\<exists>fs. frames_of body = (fs, []) \<and> advance_all sj fs (False, False) = Some (True, True)
          \<and> (\<forall>f \<in> set fs. length f \<le> frame_limit))"

lemma advance_started: "advance ev (st, te) = Some (st', te') \<Longrightarrow> (te \<longrightarrow> st) \<Longrightarrow> (te' \<longrightarrow> st')"
  by (cases ev) (auto split: if_splits)

lemma advance_all_started:
  "advance_all sj fs (st, te) = Some (st', te') \<Longrightarrow> (te \<longrightarrow> st) \<Longrightarrow> (te' \<longrightarrow> st')"
proof (induction fs arbitrary: st te)
  case (Cons f fs)
  then show ?case
    by (cases "advance_frame sj f (st, te)")
      (auto simp: advance_frame_def split: sum.splits dest: advance_started)
qed auto

lemma guard_next_end:
  "guard_inv sj g body \<Longrightarrow>
     guard_next sj g None = (if valid_body sj MAX_STREAM_FRAME body then (Finished, g)
       else (Fail MissingTerminal, g\<lparr>failed := True\<rparr>))"
  by (auto simp: guard_next_def guard_inv_def valid_body_def dest: advance_all_started)

text \<open>Whatever the source does, the guard forwards its chunks unchanged up to its one failure.\<close>

lemma guard_stream_inv:
  assumes "guard_inv sj g body"
  shows "\<exists>cs rest tail. items = map Chunk cs @ rest \<and> guard_stream sj g items = map Yield cs @ tail
     \<and> (tail = [] \<and> rest = [] \<and> valid_body sj MAX_STREAM_FRAME (body @ concat cs) \<or> (\<exists>e. tail = [Fail e]))"
  using assms
proof (induction items arbitrary: g body)
  case Nil
  have "\<not> failed g" using Nil by (simp add: guard_inv_def)
  with guard_next_end [OF Nil] show ?case by (auto simp: Let_def split: if_splits)
next
  case (Cons x items)
  have nf: "\<not> failed g" using Cons.prems by (simp add: guard_inv_def)
  show ?case
  proof (cases "\<exists>chunk g'. x = Chunk chunk \<and> guard_chunk sj g chunk = Ok g'")
    case True
    then obtain chunk g' where x: "x = Chunk chunk" "guard_chunk sj g chunk = Ok g'" by blast
    have inv: "guard_inv sj g' (body @ chunk)" by (rule guard_chunk_inv [OF Cons.prems x(2)])
    from Cons.IH [OF inv] obtain cs rest tail where
      "items = map Chunk cs @ rest" "guard_stream sj g' items = map Yield cs @ tail"
      "tail = [] \<and> rest = [] \<and> valid_body sj MAX_STREAM_FRAME ((body @ chunk) @ concat cs) \<or> (\<exists>e. tail = [Fail e])"
      by blast
    moreover have "\<not> failed g'" using inv by (simp add: guard_inv_def)
    ultimately show ?thesis
      using nf x by (intro exI [of _ "chunk # cs"] exI [of _ rest] exI [of _ tail]) (simp add: guard_next_def)
  next
    case False
    then have "\<exists>e. guard_stream sj g (x # items) = [Fail e]"
      using nf by (cases x) (auto simp: guard_next_def split: sum.splits)
    then obtain e where "guard_stream sj g (x # items) = [Fail e]" by blast
    then show ?thesis
      by (intro exI [of _ "[]"] exI [of _ "x # items"] exI [of _ "[Fail e]"]) simp
  qed
qed

text \<open>
  A body within the limits passes however it is cut into chunks. The three bytes of slack are
  those of a separator that the end of a chunk cuts: they count as frame bytes until it is whole.
\<close>

lemma valid_body_prefix:
  assumes valid: "valid_body sj (MAX_STREAM_FRAME - 3) (b @ c)" and fr: "frames_of b = (fs, r)"
  shows "length b \<le> MAX_RESPONSE_BODY" "\<exists>s. advance_all sj fs (False, False) = Some s \<and> (snd s \<longrightarrow> r @ c = [])"
    "\<forall>f \<in> set fs. length f \<le> MAX_STREAM_FRAME" "length r \<le> MAX_STREAM_FRAME"
proof -
  obtain gs r' where gs: "frames_of (r @ c) = (gs, r')" by (metis surj_pair)
  from valid frames_of_append [OF fr, of c] gs
  have len: "length (b @ c) \<le> MAX_RESPONSE_BODY" and r': "r' = []"
    and adv: "advance_all sj (fs @ gs) (False, False) = Some (True, True)"
    and bound: "\<forall>f \<in> set (fs @ gs). length f \<le> MAX_STREAM_FRAME - 3"
    by (auto simp: valid_body_def)
  show "length b \<le> MAX_RESPONSE_BODY" using len by simp
  show "\<forall>f \<in> set fs. length f \<le> MAX_STREAM_FRAME"
  proof
    fix f assume "f \<in> set fs"
    with bound have "length f \<le> MAX_STREAM_FRAME - 3" by simp
    then show "length f \<le> MAX_STREAM_FRAME" by simp
  qed
  from adv obtain s where s: "advance_all sj fs (False, False) = Some s" "advance_all sj gs s = Some (True, True)"
    by (auto simp: advance_all_append bind_eq_Some_conv)
  have nil: "r @ c = []" if "gs = []"
    using that gs r' frames_of_Some [of "r @ c"] frames_of_None [of "r @ c"]
    by (cases "find_sse_frame (r @ c)") auto
  have "snd s \<longrightarrow> r @ c = []"
    using s(2) nil advance_all_terminal [of sj gs "fst s"] by (cases s) auto
  with s(1) show "\<exists>s. advance_all sj fs (False, False) = Some s \<and> (snd s \<longrightarrow> r @ c = [])" by blast
  show "length r \<le> MAX_STREAM_FRAME"
  proof (cases "find_sse_frame (r @ c)")
    case None
    with gs have "gs = []" by (simp add: frames_of_None)
    with nil show ?thesis by simp
  next
    case (Some p)
    then obtain fe se where p: "find_sse_frame (r @ c) = Some (fe, se)" by (cases p) auto
    with gs have "take fe (r @ c) \<in> set gs" by (auto dest!: frames_of_Some)
    with bound have "length (take fe (r @ c)) \<le> MAX_STREAM_FRAME - 3" by (metis UnCI set_append)
    with find_sse_frame_bounds [OF p] have fe: "fe \<le> MAX_STREAM_FRAME - 3" by (simp add: min_def split: if_splits)
    obtain n where n: "sep_at (r @ c) fe n" "se = fe + n" using p by (auto simp: find_sse_frame_Some)
    have "\<not> se \<le> length r"
      using sep_at_take [OF n(1)] n(2) frames_of_rest [OF fr] by (auto simp: find_sse_frame_None)
    moreover have "n \<le> 4" using n(1) by (auto simp: sep_at_nth)
    ultimately show ?thesis using fe n(2) by (simp add: MAX_STREAM_FRAME_def)
  qed
qed

lemma guard_chunk_ok:
  assumes inv: "guard_inv sj g body" and valid: "valid_body sj (MAX_STREAM_FRAME - 3) (body @ chunk @ rst)"
  shows "\<exists>g'. guard_chunk sj g chunk = Ok g'"
proof -
  obtain fs where fs: "frames_of body = (fs, pending g)"
    "advance_all sj fs (False, False) = Some (started g, terminal g)"
    using inv by (auto simp: guard_inv_def)
  obtain gs r where gs: "frames_of (pending g @ chunk) = (gs, r)" by (metis surj_pair)
  have fr: "frames_of (body @ chunk) = (fs @ gs, r)"
    using frames_of_append [OF fs(1), of chunk] gs by simp
  have valid': "valid_body sj (MAX_STREAM_FRAME - 3) ((body @ chunk) @ rst)" using valid by simp
  note pre = valid_body_prefix [OF valid' fr]
  from pre(2) obtain st te where s: "advance_all sj (fs @ gs) (False, False) = Some (st, te)" "te \<longrightarrow> r @ rst = []"
    by auto
  then have adv: "advance_all sj gs (started g, terminal g) = Some (st, te)"
    by (simp add: advance_all_append fs(2))
  have "\<not> (terminal g \<and> chunk \<noteq> [])"
    using valid_body_prefix(2) [OF valid fs(1)] fs(2) by auto
  moreover have "total g + length chunk \<le> MAX_RESPONSE_BODY"
    using pre(1) inv by (simp add: guard_inv_def)
  moreover have "loop_result sj (pending g @ chunk) (started g, terminal g) = Some (r, st, te)"
    using gs adv s(2) pre(3) by (auto simp: loop_result_eq_Some)
  ultimately show ?thesis
    using pre(4) guard_chunk_result [OF frames_of_rest [OF fs(1)], of sj chunk] by blast
qed

lemma guard_stream_passes:
  assumes "guard_inv sj g body" and "valid_body sj (MAX_STREAM_FRAME - 3) (body @ concat cs)"
  shows "guard_stream sj g (map Chunk cs) = map Yield cs"
  using assms
proof (induction cs arbitrary: g body)
  case Nil
  have "valid_body sj MAX_STREAM_FRAME body"
    using Nil.prems(2) by (fastforce simp: valid_body_def)
  with guard_next_end [OF Nil.prems(1)] Nil.prems(1) show ?case by (simp add: guard_inv_def)
next
  case (Cons chunk cs)
  from guard_chunk_ok [OF Cons.prems(1), of chunk "concat cs"] Cons.prems(2)
  obtain g' where g': "guard_chunk sj g chunk = Ok g'" by auto
  have inv: "guard_inv sj g' (body @ chunk)" by (rule guard_chunk_inv [OF Cons.prems(1) g'])
  have "guard_stream sj g' (map Chunk cs) = map Yield cs"
    using Cons.IH [OF inv] Cons.prems(2) by simp
  moreover have "\<not> failed g" "\<not> failed g'" using inv Cons.prems(1) by (simp_all add: guard_inv_def)
  ultimately show ?case by (simp add: guard_next_def g')
qed

subsection \<open>The transcript of a valid body\<close>

abbreviation reads_as :: "serde \<Rightarrow> StreamEvent set \<Rightarrow> string \<Rightarrow> bool" where
  "reads_as sj evs f \<equiv> \<exists>ev \<in> evs. parse_stream_event sj f = Ok ev"

lemma advance_frame_start:
  "advance_frame sj f (False, False) = Some s \<longleftrightarrow>
     s = (False, False) \<and> reads_as sj {EvEmpty, EvPing, EvUnknown} f
     \<or> s = (True, False) \<and> reads_as sj (range EvMessageStart) f"
  by (cases "parse_stream_event sj f"; (cases "projr (parse_stream_event sj f)")?)
    (auto simp: advance_frame_def)

lemma advance_frame_mid:
  "advance_frame sj f (True, False) = Some s \<longleftrightarrow>
     s = (True, False) \<and> reads_as sj {EvEmpty, EvPing, EvUnknown, EvOther} f
     \<or> s = (True, True) \<and> reads_as sj {EvMessageStop, EvError} f"
  by (cases "parse_stream_event sj f"; (cases "projr (parse_stream_event sj f)")?)
    (auto simp: advance_frame_def)

lemma transcript_mid:
  "advance_all sj fs (True, False) = Some (True, True) \<longleftrightarrow>
     (\<exists>mid fin. fs = mid @ [fin] \<and> (\<forall>f \<in> set mid. reads_as sj {EvEmpty, EvPing, EvUnknown, EvOther} f)
        \<and> reads_as sj {EvMessageStop, EvError} fin)"
proof (induction fs)
  case (Cons f fs)
  note IH = Cons.IH
  show ?case
  proof
    assume "advance_all sj (f # fs) (True, False) = Some (True, True)"
    then obtain s where s: "advance_frame sj f (True, False) = Some s" "advance_all sj fs s = Some (True, True)"
      by (auto simp: bind_eq_Some_conv)
    then consider "s = (True, False)" "reads_as sj {EvEmpty, EvPing, EvUnknown, EvOther} f"
      | "s = (True, True)" "reads_as sj {EvMessageStop, EvError} f"
      unfolding advance_frame_mid by blast
    then show "\<exists>mid fin. f # fs = mid @ [fin] \<and> (\<forall>f \<in> set mid. reads_as sj {EvEmpty, EvPing, EvUnknown, EvOther} f)
        \<and> reads_as sj {EvMessageStop, EvError} fin"
    proof cases
      case 1
      with s(2) Cons.IH obtain mid fin where "fs = mid @ [fin]"
        "\<forall>f \<in> set mid. reads_as sj {EvEmpty, EvPing, EvUnknown, EvOther} f" "reads_as sj {EvMessageStop, EvError} fin"
        by blast
      with 1 show ?thesis by (intro exI [of _ "f # mid"] exI [of _ fin]) simp
    next
      case 2
      with s(2) advance_all_terminal [of sj fs True] show ?thesis by (intro exI [of _ "[]"] exI [of _ f]) simp
    qed
  next
    assume "\<exists>mid fin. f # fs = mid @ [fin] \<and> (\<forall>f \<in> set mid. reads_as sj {EvEmpty, EvPing, EvUnknown, EvOther} f)
        \<and> reads_as sj {EvMessageStop, EvError} fin"
    then obtain mid fin where *: "f # fs = mid @ [fin]" "reads_as sj {EvMessageStop, EvError} fin"
      "\<forall>f \<in> set mid. reads_as sj {EvEmpty, EvPing, EvUnknown, EvOther} f" by blast
    show "advance_all sj (f # fs) (True, False) = Some (True, True)"
    proof (cases mid)
      case Nil
      with * have "advance_frame sj f (True, False) = Some (True, True)" by (simp add: advance_frame_mid)
      with * Nil show ?thesis by simp
    next
      case (Cons m ms)
      with * have "advance_frame sj f (True, False) = Some (True, False)" by (simp add: advance_frame_mid)
      moreover have "advance_all sj fs (True, False) = Some (True, True)"
        unfolding IH using * Cons by (intro exI [of _ ms] exI [of _ fin]) simp
      ultimately show ?thesis by simp
    qed
  qed
qed simp

lemma transcript:
  "advance_all sj fs (False, False) = Some (True, True) \<Longrightarrow>
     (\<exists>pre start mid fin. fs = pre @ start # mid @ [fin]
        \<and> (\<forall>f \<in> set pre. reads_as sj {EvEmpty, EvPing, EvUnknown} f)
        \<and> reads_as sj (range EvMessageStart) start
        \<and> (\<forall>f \<in> set mid. reads_as sj {EvEmpty, EvPing, EvUnknown, EvOther} f)
        \<and> reads_as sj {EvMessageStop, EvError} fin)"
proof (induction fs)
  case (Cons f fs)
  then obtain s where s: "advance_frame sj f (False, False) = Some s" "advance_all sj fs s = Some (True, True)"
    by (auto simp: bind_eq_Some_conv)
  from s(1) consider "s = (False, False)" "reads_as sj {EvEmpty, EvPing, EvUnknown} f"
    | "s = (True, False)" "reads_as sj (range EvMessageStart) f"
    unfolding advance_frame_start by blast
  then show ?case
  proof cases
    case 1
    with Cons.IH s(2) obtain pre start mid fin where "fs = pre @ start # mid @ [fin]"
      "\<forall>f \<in> set pre. reads_as sj {EvEmpty, EvPing, EvUnknown} f" "reads_as sj (range EvMessageStart) start"
      "\<forall>f \<in> set mid. reads_as sj {EvEmpty, EvPing, EvUnknown, EvOther} f" "reads_as sj {EvMessageStop, EvError} fin"
      by blast
    with 1 show ?thesis by (intro exI [of _ "f # pre"] exI [of _ start] exI [of _ mid] exI [of _ fin]) simp
  next
    case 2
    then have "advance_all sj fs (True, False) = Some (True, True)" using s(2) by simp
    then obtain mid fin where "fs = mid @ [fin]"
      "\<forall>f \<in> set mid. reads_as sj {EvEmpty, EvPing, EvUnknown, EvOther} f" "reads_as sj {EvMessageStop, EvError} fin"
      unfolding transcript_mid by blast
    with 2 show ?thesis by (intro exI [of _ "[]"] exI [of _ f] exI [of _ mid] exI [of _ fin]) simp
  qed
qed simp

section \<open>The preamble against one reading of the body\<close>

lemma parse_sse_preamble_frame_PreOther:
  "parse_sse_preamble_frame sj f er can = Ok PreOther \<longleftrightarrow> reads_as sj {EvEmpty, EvPing, EvUnknown} f"
  by (cases "parse_stream_event sj f")
    (auto simp: parse_sse_preamble_frame_def result_simps split: StreamEvent.splits if_splits)

lemma parse_sse_preamble_frame_PreMessageStart:
  "parse_sse_preamble_frame sj f er can = Ok (PreMessageStart cf) \<longleftrightarrow>
     (\<exists>value data. parse_stream_event sj f = Ok (EvMessageStart value) \<and> message_model value = Ok er
        \<and> to_vec sj (set_message_model can value) = Some data \<and> cf = message_start_frame data)"
  by (cases "parse_stream_event sj f")
    (auto simp: parse_sse_preamble_frame_def result_simps split: StreamEvent.splits if_splits)

text \<open>A separated frame: a frame with its separator and no separator before it.\<close>

abbreviation separated :: "string \<Rightarrow> string \<Rightarrow> bool" where
  "separated f sep \<equiv> find_sse_frame (f @ sep) = Some (length f, length (f @ sep))"

lemma find_sse_frame_split:
  assumes "find_sse_frame s = Some (fe, se)"
  shows "\<exists>sep. separated (take fe s) sep \<and> s = take fe s @ sep @ drop se s"
proof -
  let ?sep = "take (se - fe) (drop fe s)"
  have bound: "fe < se" "se \<le> length s" using find_sse_frame_bounds [OF assms] by simp_all
  have cut: "take fe s @ ?sep = take se s"
    using bound by (metis le_add_diff_inverse less_imp_le take_add)
  obtain n where n: "sep_at s fe n" "se = fe + n" using assms by (auto simp: find_sse_frame_Some)
  have "sep_at (take se s) fe n"
    by (rule sep_at_take [of _ "drop se s"]) (use n bound in simp_all)
  moreover have "\<not> sep_at (take se s) j m" if "j < fe" for j m
    using sep_at_append [of "take se s" j m "drop se s"] that assms by (auto simp: find_sse_frame_Some)
  ultimately have "find_sse_frame (take se s) = Some (fe, se)"
    using n(2) by (auto simp: find_sse_frame_Some)
  with cut bound have "separated (take fe s) ?sep" by simp
  moreover have "s = take fe s @ ?sep @ drop se s"
    by (simp add: cut flip: append_assoc)
  ultimately show ?thesis by blast
qed

lemma frames_of_separated: "separated f sep \<Longrightarrow> frames_of (f @ sep @ s) = (f # fst (frames_of s), snd (frames_of s))"
  using find_sse_frame_append [of "f @ sep" "length f" "length (f @ sep)" s]
  by (simp add: frames_of_Some)

lemma frames_of_complete_append:
  "frames_of a = (ks, []) \<Longrightarrow> frames_of (a @ b) = (ks @ fst (frames_of b), snd (frames_of b))"
  using frames_of_append [of a ks "[]" b] by simp

lemma frames_of_Cons_split:
  assumes "frames_of s = (f # fs, r)"
  shows "\<exists>sep t. s = f @ sep @ t \<and> separated f sep \<and> frames_of t = (fs, r)"
proof (cases "find_sse_frame s")
  case (Some p)
  then obtain fe se where p: "find_sse_frame s = Some (fe, se)" by (cases p) auto
  with assms have "f = take fe s" "frames_of (drop se s) = (fs, r)"
    by (simp_all add: frames_of_Some prod_eq_iff)
  with find_sse_frame_split [OF p] show ?thesis by blast
qed (use assms in \<open>simp add: frames_of_None\<close>)

subsection \<open>What the scan of the buffer returns\<close>

definition skippable :: "serde \<Rightarrow> string \<Rightarrow> bool" where
  "skippable sj s \<longleftrightarrow> (\<exists>ks. frames_of s = (ks, []) \<and> (\<forall>f \<in> set ks. reads_as sj {EvEmpty, EvPing, EvUnknown} f))"

lemma skippable_Nil: "skippable sj []"
  by (simp add: skippable_def)

lemma skippable_append: "skippable sj a \<Longrightarrow> skippable sj b \<Longrightarrow> skippable sj (a @ b)"
  by (auto simp: skippable_def frames_of_complete_append)

lemma skippable_separated:
  "separated f sep \<Longrightarrow> reads_as sj {EvEmpty, EvPing, EvUnknown} f \<Longrightarrow> skippable sj (f @ sep)"
  using frames_of_separated [of f sep "[]"] by (simp add: skippable_def)

lemma scan_preamble_sound:
  assumes "scan_preamble sj er can buf sc pb = Ok res" and "sc \<le> length buf"
  shows "\<exists>skip rst. drop sc buf = skip @ rst \<and> skippable sj skip \<and>
    (case res of
       More sc' pb' \<Rightarrow> sc' = sc + length skip \<and> pb' = pb + length skip \<and> pb' + length rst \<le> MAX_STREAM_PREAMBLE
     | Preamble p \<Rightarrow> \<exists>f sep tail cf. rst = f @ sep @ tail \<and> separated f sep
         \<and> parse_sse_preamble_frame sj f er can = Ok (PreMessageStart cf)
         \<and> p = take sc buf @ skip @ cf @ tail \<and> pb + length (skip @ f @ sep) \<le> MAX_STREAM_PREAMBLE)"
  using assms
proof (induction sj er can buf sc pb rule: scan_preamble.induct)
  case (1 sj er can buf sc pb)
  show ?case
  proof (cases "find_sse_frame (drop sc buf)")
    case None
    with "1.prems" show ?thesis
      by (intro exI [of _ "[]"] exI [of _ "drop sc buf"], subst (asm) scan_preamble.simps)
        (auto simp: skippable_Nil split: if_splits)
  next
    case (Some p)
    then obtain fe se where p: "find_sse_frame (drop sc buf) = Some (fe, se)" by (cases p) auto
    obtain f sep where f: "f = take fe (drop sc buf)" and sep: "separated f sep"
      and cut: "drop sc buf = f @ sep @ drop (sc + se) buf"
      using find_sse_frame_split [OF p] by (metis add.commute drop_drop)
    have bound: "fe < se" "se \<le> length buf - sc" using find_sse_frame_bounds [OF p] by simp_all
    have len: "length f + length sep = se"
      using arg_cong [OF cut, of length] bound by simp
    from "1.prems"(1) p have small: "pb + se \<le> MAX_STREAM_PREAMBLE"
      by (subst (asm) scan_preamble.simps) (auto split: if_splits)
    consider cf0 where "parse_sse_preamble_frame sj f er can = Ok (PreMessageStart cf0)"
        "res = Preamble (take sc buf @ cf0 @ drop (sc + se) buf)"
      | "parse_sse_preamble_frame sj f er can = Ok PreOther"
        "scan_preamble sj er can buf (sc + se) (pb + se) = Ok res"
      using "1.prems"(1) p unfolding f by (subst (asm) scan_preamble.simps)
        (auto split: if_splits sum.splits StreamPreambleEvent.splits)
    then show ?thesis
    proof cases
      case 1
      then have "\<exists>f sep tail cf. drop sc buf = f @ sep @ tail \<and> separated f sep
         \<and> parse_sse_preamble_frame sj f er can = Ok (PreMessageStart cf)
         \<and> take sc buf @ cf0 @ drop (sc + se) buf = take sc buf @ [] @ cf @ tail
         \<and> pb + length ([] @ f @ sep) \<le> MAX_STREAM_PREAMBLE"
        using cut sep small len
        by (intro exI [of _ f] exI [of _ sep] exI [of _ "drop (sc + se) buf"] exI [of _ cf0]) simp
      with 1 show ?thesis
        by (intro exI [of _ "[]"] exI [of _ "drop sc buf"]) (simp add: skippable_Nil)
    next
      case 2
      have other: "parse_sse_preamble_frame sj (take fe (drop sc buf)) er can = Ok PreOther" using 2(1) f by simp
      have bounds: "sc + se \<le> length buf" "\<not> MAX_STREAM_PREAMBLE < pb + se" using bound small "1.prems"(2) by simp_all
      from "1.IH" [OF p refl bounds(2) other refl 2(2) bounds(1)] obtain skip rst where IH: "drop (sc + se) buf = skip @ rst" "skippable sj skip"
        "case res of
           More sc' pb' \<Rightarrow> sc' = (sc + se) + length skip \<and> pb' = (pb + se) + length skip
             \<and> pb' + length rst \<le> MAX_STREAM_PREAMBLE
         | Preamble p \<Rightarrow> \<exists>f sep tail cf. rst = f @ sep @ tail \<and> separated f sep
             \<and> parse_sse_preamble_frame sj f er can = Ok (PreMessageStart cf)
             \<and> p = take (sc + se) buf @ skip @ cf @ tail \<and> (pb + se) + length (skip @ f @ sep) \<le> MAX_STREAM_PREAMBLE"
        by blast
      have skip: "skippable sj ((f @ sep) @ skip)"
        using 2(1) sep IH(2)
        by (intro skippable_append skippable_separated) (simp_all add: parse_sse_preamble_frame_PreOther)
      have rst: "drop sc buf = ((f @ sep) @ skip) @ rst"
        using cut IH(1) by simp
      have "take (sc + se) buf = take sc buf @ take se (drop sc buf)" by (rule take_add)
      also have "take se (drop sc buf) = f @ sep" using len by (subst cut) simp
      finally have front: "take (sc + se) buf = take sc buf @ f @ sep" .
      have "case res of
           More sc' pb' \<Rightarrow> sc' = sc + length ((f @ sep) @ skip) \<and> pb' = pb + length ((f @ sep) @ skip)
             \<and> pb' + length rst \<le> MAX_STREAM_PREAMBLE
         | Preamble p \<Rightarrow> \<exists>fr sp tail cf. rst = fr @ sp @ tail \<and> separated fr sp
             \<and> parse_sse_preamble_frame sj fr er can = Ok (PreMessageStart cf)
             \<and> p = take sc buf @ ((f @ sep) @ skip) @ cf @ tail
             \<and> pb + length (((f @ sep) @ skip) @ fr @ sp) \<le> MAX_STREAM_PREAMBLE"
      proof (cases res)
        case (Preamble q)
        with IH(3) obtain fr sp tail cf where "rst = fr @ sp @ tail" "separated fr sp"
           "parse_sse_preamble_frame sj fr er can = Ok (PreMessageStart cf)"
           "q = take (sc + se) buf @ skip @ cf @ tail" "(pb + se) + length (skip @ fr @ sp) \<le> MAX_STREAM_PREAMBLE"
          by auto
        then have "rst = fr @ sp @ tail \<and> separated fr sp
             \<and> parse_sse_preamble_frame sj fr er can = Ok (PreMessageStart cf)
             \<and> q = take sc buf @ ((f @ sep) @ skip) @ cf @ tail
             \<and> pb + length (((f @ sep) @ skip) @ fr @ sp) \<le> MAX_STREAM_PREAMBLE"
          using len front by simp
        with Preamble show ?thesis unfolding Preamble scan.case by blast
      qed (use IH(3) len in auto)
      with skip rst show ?thesis by blast
    qed
  qed
qed

subsection \<open>The scan decides by the first frame that is not skipped\<close>

lemma scan_preamble_frame:
  assumes "drop sc buf = f @ sep @ tail" and "separated f sep" and "pb + length (f @ sep) \<le> MAX_STREAM_PREAMBLE"
  shows "scan_preamble sj er can buf sc pb =
    (case parse_sse_preamble_frame sj f er can of
       Inl e \<Rightarrow> Err e
     | Inr PreOther \<Rightarrow> scan_preamble sj er can buf (sc + length (f @ sep)) (pb + length (f @ sep))
     | Inr (PreMessageStart cf) \<Rightarrow> Ok (Preamble (take sc buf @ cf @ tail)))"
proof -
  have "find_sse_frame (drop sc buf) = Some (length f, length (f @ sep))"
    using find_sse_frame_append [OF assms(2), of tail] assms(1) by simp
  moreover have "drop (sc + length (f @ sep)) buf = tail"
    using arg_cong [OF assms(1), of "drop (length (f @ sep))"] by (simp add: add.commute)
  ultimately show ?thesis
    using assms by (subst scan_preamble.simps) (auto simp: not_less split: sum.splits StreamPreambleEvent.splits)
qed

lemma scan_preamble_verdict:
  assumes "frames_of skip = (ks, [])" and "\<forall>k \<in> set ks. reads_as sj {EvEmpty, EvPing, EvUnknown} k"
    and "drop sc buf = skip @ f @ sep @ tail" and "separated f sep"
    and "pb + length (skip @ f @ sep) \<le> MAX_STREAM_PREAMBLE" and "sc \<le> length buf"
    and "parse_sse_preamble_frame sj f er can \<noteq> Ok PreOther"
  shows "scan_preamble sj er can buf sc pb =
    bind_r (parse_sse_preamble_frame sj f er can) (\<lambda>ev. case ev of
        PreMessageStart cf \<Rightarrow> Ok (Preamble (take sc buf @ skip @ cf @ tail))
      | PreOther \<Rightarrow> Err Upstream)"
  using assms
proof (induction ks arbitrary: skip sc pb)
  case Nil
  have "skip = []"
    using Nil.prems(1) frames_of_Some [of skip] frames_of_None [of skip] by (cases "find_sse_frame skip") auto
  with Nil.prems show ?case
    by (subst scan_preamble_frame [of sc buf f sep tail])
      (auto simp: bind_r_def split: sum.splits StreamPreambleEvent.splits)
next
  case (Cons k ks)
  from frames_of_Cons_split [OF Cons.prems(1)] obtain sp skip' where
    skip: "skip = k @ sp @ skip'" "separated k sp" "frames_of skip' = (ks, [])" by blast
  have buf: "drop sc buf = k @ sp @ (skip' @ f @ sep @ tail)" using Cons.prems(3) skip(1) by simp
  have other: "parse_sse_preamble_frame sj k er can = Ok PreOther"
    using Cons.prems(2) by (simp add: parse_sse_preamble_frame_PreOther)
  have front: "take (sc + length (k @ sp)) buf = take sc buf @ k @ sp"
    using take_add [of sc "length (k @ sp)" buf] buf by simp
  have "drop (length (k @ sp)) (drop sc buf) = skip' @ f @ sep @ tail" using buf by simp
  then have rst: "drop (sc + length (k @ sp)) buf = skip' @ f @ sep @ tail" by (simp add: add.commute)
  have "length (drop sc buf) = length (k @ sp @ (skip' @ f @ sep @ tail))" using buf by simp
  then have len: "sc + length (k @ sp) \<le> length buf" using Cons.prems(6) by simp
  have "scan_preamble sj er can buf sc pb =
      scan_preamble sj er can buf (sc + length (k @ sp)) (pb + length (k @ sp))"
    using scan_preamble_frame [OF buf skip(2), of pb] other Cons.prems(5) skip(1) by simp
  also have "\<dots> = bind_r (parse_sse_preamble_frame sj f er can) (\<lambda>ev. case ev of
        PreMessageStart cf \<Rightarrow> Ok (Preamble (take (sc + length (k @ sp)) buf @ skip' @ cf @ tail))
      | PreOther \<Rightarrow> Err Upstream)"
    using Cons.prems(2,4,5,7) by (intro Cons.IH skip(3) rst len) (simp_all add: skip(1))
  finally show ?case by (simp only: front skip(1) append_assoc)
qed

lemma scan_preamble_more:
  assumes "frames_of (drop sc buf) = (ks, rst)" and "\<forall>k \<in> set ks. reads_as sj {EvEmpty, EvPing, EvUnknown} k"
    and "drop sc buf = a @ rst" and "pb + length (drop sc buf) \<le> MAX_STREAM_PREAMBLE"
  shows "scan_preamble sj er can buf sc pb = Ok (More (sc + length a) (pb + length a))"
  using assms
proof (induction ks arbitrary: a sc pb)
  case Nil
  then have "find_sse_frame (drop sc buf) = None"
    using frames_of_Some [of "drop sc buf"] by (cases "find_sse_frame (drop sc buf)") auto
  with Nil.prems show ?case by (subst scan_preamble.simps) (auto simp: frames_of_None)
next
  case (Cons k ks)
  from frames_of_Cons_split [OF Cons.prems(1)] obtain sp t where
    split: "drop sc buf = k @ sp @ t" "separated k sp" "frames_of t = (ks, rst)" by blast
  have drop: "drop (sc + length (k @ sp)) buf = t"
    using arg_cong [OF split(1), of "drop (length (k @ sp))"] by (simp add: add.commute)
  from frames_of_rest_suffix [OF split(3)] obtain b where b: "t = b @ rst" by blast
  have other: "parse_sse_preamble_frame sj k er can = Ok PreOther"
    using Cons.prems(2) by (simp add: parse_sse_preamble_frame_PreOther)
  have "scan_preamble sj er can buf (sc + length (k @ sp)) (pb + length (k @ sp)) =
      Ok (More (sc + length (k @ sp) + length b) (pb + length (k @ sp) + length b))"
    by (rule Cons.IH) (use drop split Cons.prems b in auto)
  moreover have "scan_preamble sj er can buf sc pb =
      scan_preamble sj er can buf (sc + length (k @ sp)) (pb + length (k @ sp))"
    using scan_preamble_frame [OF split(1,2), of pb] other Cons.prems(4) split(1) by simp
  moreover have "a = k @ sp @ b" using Cons.prems(3) split(1) b by simp
  ultimately show ?case by (simp add: add.assoc)
qed

text \<open>Where a body is cut inside its preamble, the scan stops inside the same frames.\<close>

lemma partial_read:
  assumes "d @ e = skip @ f @ sep @ tail" and "length d < length (skip @ f @ sep)"
    and "skippable sj skip" and "separated f sep"
  shows "\<exists>ks a rst skip'. frames_of d = (ks, rst) \<and> (\<forall>k \<in> set ks. reads_as sj {EvEmpty, EvPing, EvUnknown} k)
    \<and> d = a @ rst \<and> skip = a @ skip' \<and> skippable sj skip' \<and> rst @ e = skip' @ f @ sep @ tail"
proof -
  obtain ks where ks: "frames_of skip = (ks, [])" "\<forall>k \<in> set ks. reads_as sj {EvEmpty, EvPing, EvUnknown} k"
    using assms(3) by (auto simp: skippable_def)
  consider e1 where "skip = d @ e1" | part where "d = skip @ part"
    using assms(1) by (auto simp: append_eq_append_conv2)
  then show ?thesis
  proof cases
    case 1
    obtain fs rst where fr: "frames_of d = (fs, rst)" by (metis surj_pair)
    from frames_of_rest_suffix [OF fr] obtain a where a: "d = a @ rst" by blast
    from frames_of_append [OF fr, of e1] ks(1) 1
    have "ks = fs @ fst (frames_of (rst @ e1))" "snd (frames_of (rst @ e1)) = []" by simp_all
    with ks(2) fr a 1 assms(1) show ?thesis
      by (intro exI [of _ fs] exI [of _ a] exI [of _ rst] exI [of _ "rst @ e1"])
        (auto simp: skippable_def prod_eq_iff)
  next
    case 2
    then obtain e1 where e1: "f @ sep = part @ e1" "e1 \<noteq> []"
      using append_longer [of part e "f @ sep" tail] assms(1,2) by auto
    have "find_sse_frame part = None"
    proof (cases "find_sse_frame part")
      case (Some q)
      then obtain fe se where q: "find_sse_frame part = Some (fe, se)" by (cases q) auto
      from find_sse_frame_append [OF q, of e1] assms(4) e1(1) have "se = length (f @ sep)" by simp
      with find_sse_frame_bounds [OF q] e1 show ?thesis by simp
    qed
    then have "frames_of d = (ks, part)"
      using frames_of_complete_append [OF ks(1), of part] 2 by (simp add: frames_of_None)
    with 2 ks(2) assms(1) show ?thesis
      by (intro exI [of _ ks] exI [of _ skip] exI [of _ part] exI [of _ "[]"]) (simp add: skippable_Nil)
  qed
qed

lemma validate_stream_identity_verdict:
  assumes "drop sc buf @ concat cs = skip @ f @ sep @ tail" and "length (drop sc buf) < length (skip @ f @ sep)"
    and "skippable sj skip" and "separated f sep" and "sc \<le> length buf"
    and "sc + length (skip @ f @ sep) \<le> MAX_STREAM_PREAMBLE"
    and "parse_sse_preamble_frame sj f er can \<noteq> Ok PreOther"
  shows "\<exists>cs1 cs2 tail'. cs = cs1 @ cs2 \<and> drop sc buf @ concat cs1 = skip @ f @ sep @ tail' \<and>
    validate_stream_identity sj er can (map Chunk cs @ source) buf sc sc =
    bind_r (parse_sse_preamble_frame sj f er can) (\<lambda>ev. case ev of
        PreMessageStart cf \<Rightarrow> Ok (take sc buf @ skip @ cf @ tail', map Chunk cs2 @ source)
      | PreOther \<Rightarrow> Err Upstream)"
  using assms
proof (induction cs arbitrary: buf sc skip)
  case (Cons c cs)
  let ?d = "drop sc (buf @ c)"
  have d: "?d = drop sc buf @ c" using Cons.prems(5) by simp
  have whole: "?d @ concat cs = skip @ f @ sep @ tail" using Cons.prems(1) d by simp
  show ?case
  proof (cases "length ?d < length (skip @ f @ sep)")
    case False
    then obtain tail' where tail': "?d = skip @ f @ sep @ tail'"
      using append_shorter [of ?d "concat cs" "skip @ f @ sep" tail] whole by auto
    obtain ks where "frames_of skip = (ks, [])" "\<forall>k \<in> set ks. reads_as sj {EvEmpty, EvPing, EvUnknown} k"
      using Cons.prems(3) by (auto simp: skippable_def)
    from scan_preamble_verdict [OF this tail' Cons.prems(4) Cons.prems(6) _ Cons.prems(7)] Cons.prems(5,7) tail'
    show ?thesis
      by (intro exI [of _ "[c]"] exI [of _ cs] exI [of _ tail'])
        (auto simp: bind_r_def d split: sum.splits StreamPreambleEvent.splits)
  next
    case True
    from partial_read [OF whole True Cons.prems(3,4)] obtain ks a rst skip' where
      part: "frames_of ?d = (ks, rst)" "\<forall>k \<in> set ks. reads_as sj {EvEmpty, EvPing, EvUnknown} k"
        "?d = a @ rst" "skip = a @ skip'" "skippable sj skip'" "rst @ concat cs = skip' @ f @ sep @ tail" by blast
    have small: "sc + length ?d \<le> MAX_STREAM_PREAMBLE" using True Cons.prems(6) by simp
    have more: "scan_preamble sj er can (buf @ c) sc sc = Ok (More (sc + length a) (sc + length a))"
      by (rule scan_preamble_more [OF part(1-3) small])
    have rst: "drop (sc + length a) (buf @ c) = rst"
      using part(3) by (metis add.commute append_eq_conv_conj drop_drop)
    have front: "take (sc + length a) (buf @ c) = take sc buf @ a"
    proof -
      have "take (length a) ?d = a" using part(3) by (metis append_eq_conv_conj)
      moreover have "take sc (buf @ c) = take sc buf" using Cons.prems(5) by simp
      ultimately show ?thesis by (simp only: take_add)
    qed
    have len: "sc + length a \<le> length (buf @ c)"
      using arg_cong [OF part(3), of length] Cons.prems(5) by simp
    have pre: "drop (sc + length a) (buf @ c) @ concat cs = skip' @ f @ sep @ tail"
      "length (drop (sc + length a) (buf @ c)) < length (skip' @ f @ sep)"
      "(sc + length a) + length (skip' @ f @ sep) \<le> MAX_STREAM_PREAMBLE"
      using True [unfolded part(3) part(4)] part(6) Cons.prems(6) by (simp_all add: rst part(4) del: drop_append length_drop)
    from Cons.IH [OF pre(1,2) part(5) Cons.prems(4) len pre(3) Cons.prems(7)]
    obtain cs1 cs2 tail' where IH: "cs = cs1 @ cs2" "rst @ concat cs1 = skip' @ f @ sep @ tail'"
      "validate_stream_identity sj er can (map Chunk cs @ source) (buf @ c) (sc + length a) (sc + length a) =
       bind_r (parse_sse_preamble_frame sj f er can) (\<lambda>ev. case ev of
          PreMessageStart cf \<Rightarrow> Ok ((take sc buf @ a) @ skip' @ cf @ tail', map Chunk cs2 @ source)
        | PreOther \<Rightarrow> Err Upstream)"
      unfolding rst front by blast
    have "\<not> length (buf @ c) - (sc + length a) > MAX_STREAM_PREAMBLE"
      using small Cons.prems(5) by simp
    then have "validate_stream_identity sj er can (map Chunk (c # cs) @ source) buf sc sc =
      validate_stream_identity sj er can (map Chunk cs @ source) (buf @ c) (sc + length a) (sc + length a)"
      by (simp add: more)
    with IH(3) have "validate_stream_identity sj er can (map Chunk (c # cs) @ source) buf sc sc =
       bind_r (parse_sse_preamble_frame sj f er can) (\<lambda>ev. case ev of
          PreMessageStart cf \<Rightarrow> Ok (take sc buf @ skip @ cf @ tail', map Chunk cs2 @ source)
        | PreOther \<Rightarrow> Err Upstream)"
      by (simp only: part(4) append_assoc)
    moreover have "drop sc buf @ concat (c # cs1) = skip @ f @ sep @ tail'"
      using IH(2) part(3,4) d by (metis append_assoc concat.simps(2))
    ultimately show ?thesis using IH(1) by (intro exI [of _ "c # cs1"] exI [of _ cs2] exI [of _ tail']) simp
  qed
qed simp

lemma validate_stream_identity_sound:
  assumes "validate_stream_identity sj er can source buf sc sc = Ok (pre, rest)" and "sc \<le> length buf"
    and "skippable sj (take sc buf)"
  shows "\<exists>cs skip f sep tail cf. source = map Chunk cs @ rest \<and> buf @ concat cs = skip @ f @ sep @ tail
    \<and> skippable sj skip \<and> separated f sep \<and> parse_sse_preamble_frame sj f er can = Ok (PreMessageStart cf)
    \<and> pre = skip @ cf @ tail \<and> length (skip @ f @ sep) \<le> MAX_STREAM_PREAMBLE"
  using assms
proof (induction source arbitrary: buf sc)
  case (Cons item source)
  then obtain c where item: "item = Chunk c" by (cases item) auto
  from Cons.prems(1) item obtain res where res: "scan_preamble sj er can (buf @ c) sc sc = Ok res"
    by (auto simp: result_simps)
  have take: "take sc (buf @ c) = take sc buf" and sc: "sc \<le> length (buf @ c)" using Cons.prems(2) by simp_all
  from scan_preamble_sound [OF res sc] obtain skip rst where
    skip: "drop sc (buf @ c) = skip @ rst" "skippable sj skip"
    and shape: "case res of
       More sc' pb' \<Rightarrow> sc' = sc + length skip \<and> pb' = sc + length skip \<and> pb' + length rst \<le> MAX_STREAM_PREAMBLE
     | Preamble p \<Rightarrow> \<exists>f sep tail cf. rst = f @ sep @ tail \<and> separated f sep
         \<and> parse_sse_preamble_frame sj f er can = Ok (PreMessageStart cf)
         \<and> p = take sc (buf @ c) @ skip @ cf @ tail \<and> sc + length (skip @ f @ sep) \<le> MAX_STREAM_PREAMBLE"
    by blast
  have whole: "buf @ c = take sc buf @ skip @ rst" using skip(1) take by (metis append_take_drop_id)
  have skips: "skippable sj (take sc buf @ skip)" by (rule skippable_append [OF Cons.prems(3) skip(2)])
  show ?case
  proof (cases res)
    case (Preamble p)
    with shape obtain f sep tail cf where *: "rst = f @ sep @ tail" "separated f sep"
      "parse_sse_preamble_frame sj f er can = Ok (PreMessageStart cf)"
      "p = take sc (buf @ c) @ skip @ cf @ tail" "sc + length (skip @ f @ sep) \<le> MAX_STREAM_PREAMBLE"
      by auto
    have "pre = p" "rest = source" using Cons.prems(1) item res Preamble by simp_all
    then have "item # source = map Chunk [c] @ rest \<and> buf @ concat [c] = (take sc buf @ skip) @ f @ sep @ tail
      \<and> pre = (take sc buf @ skip) @ cf @ tail \<and> length ((take sc buf @ skip) @ f @ sep) \<le> MAX_STREAM_PREAMBLE"
      using * item whole take Cons.prems(2) by simp
    with skips *(2,3) show ?thesis by blast
  next
    case (More sc' pb')
    with shape have sc': "sc' = sc + length skip" "pb' = sc'" by simp_all
    have front: "take sc' (buf @ c) = take sc buf @ skip"
      using arg_cong [OF whole, of "take sc'"] sc' Cons.prems(2) by simp
    have "sc' \<le> length (buf @ c)" using arg_cong [OF whole, of length] sc' Cons.prems(2) by simp
    moreover have "validate_stream_identity sj er can source (buf @ c) sc' sc' = Ok (pre, rest)"
      using Cons.prems(1) item res More sc' by (simp split: if_splits)
    ultimately obtain cs where "source = map Chunk cs @ rest" "\<exists>skip f sep tail cf.
        (buf @ c) @ concat cs = skip @ f @ sep @ tail
        \<and> skippable sj skip \<and> separated f sep \<and> parse_sse_preamble_frame sj f er can = Ok (PreMessageStart cf)
        \<and> pre = skip @ cf @ tail \<and> length (skip @ f @ sep) \<le> MAX_STREAM_PREAMBLE"
      using Cons.IH [of "buf @ c" sc'] skips front by metis
    then show ?thesis using item by (intro exI [of _ "c # cs"]) simp
  qed
qed simp

section \<open>Conversations\<close>

text \<open>
  A conversation: a body whose frames are ignorable events, one \<^verbatim>\<open>message_start\<close>, content
  events, and at the very end one \<^verbatim>\<open>message_stop\<close> or \<^verbatim>\<open>error\<close>.
\<close>

definition conversation :: "serde \<Rightarrow> nat \<Rightarrow> string \<Rightarrow> bool" where
  "conversation sj frame_limit body \<longleftrightarrow> length body \<le> MAX_RESPONSE_BODY \<and>
     (\<exists>pre start mid fin. frames_of body = (pre @ start # mid @ [fin], [])
        \<and> list_all (reads_as sj {EvEmpty, EvPing, EvUnknown}) pre
        \<and> reads_as sj (range EvMessageStart) start
        \<and> list_all (reads_as sj {EvEmpty, EvPing, EvUnknown, EvOther}) mid
        \<and> reads_as sj {EvMessageStop, EvError} fin
        \<and> list_all (\<lambda>f. length f \<le> frame_limit) (pre @ start # mid @ [fin]))"

lemma advance_all_pre:
  "list_all (reads_as sj {EvEmpty, EvPing, EvUnknown}) pre \<Longrightarrow> advance_all sj pre (False, False) = Some (False, False)"
proof (induction pre)
  case (Cons f pre)
  then have "advance_frame sj f (False, False) = Some (False, False)"
    by (simp add: advance_frame_start)
  with Cons show ?case by simp
qed simp

lemma valid_body_conversation: "valid_body sj n body \<longleftrightarrow> conversation sj n body"
proof
  assume "valid_body sj n body"
  then obtain fs where len: "length body \<le> MAX_RESPONSE_BODY" and fs: "frames_of body = (fs, [])"
    and adv: "advance_all sj fs (False, False) = Some (True, True)" and lim: "\<forall>f \<in> set fs. length f \<le> n"
    by (auto simp: valid_body_def)
  from transcript [OF adv] len fs lim show "conversation sj n body"
    unfolding conversation_def list_all_iff by blast
next
  assume "conversation sj n body"
  then obtain pre start mid fin where len: "length body \<le> MAX_RESPONSE_BODY"
    and fs: "frames_of body = (pre @ start # mid @ [fin], [])"
    and pre: "list_all (reads_as sj {EvEmpty, EvPing, EvUnknown}) pre"
    and start: "reads_as sj (range EvMessageStart) start"
    and mid: "list_all (reads_as sj {EvEmpty, EvPing, EvUnknown, EvOther}) mid"
    and fin: "reads_as sj {EvMessageStop, EvError} fin"
    and lim: "list_all (\<lambda>f. length f \<le> n) (pre @ start # mid @ [fin])"
    unfolding conversation_def by blast
  have "advance_all sj (mid @ [fin]) (True, False) = Some (True, True)"
    unfolding transcript_mid using mid fin by (auto simp: list_all_iff)
  moreover have "advance_frame sj start (False, False) = Some (True, False)"
    using start by (simp add: advance_frame_start)
  ultimately have "advance_all sj (pre @ start # mid @ [fin]) (False, False) = Some (True, True)"
    using advance_all_pre [OF pre] by (simp add: advance_all_append)
  with len fs lim show "valid_body sj n body" by (simp add: valid_body_def list_all_iff)
qed

section \<open>A small conversation\<close>

definition demo_serde :: serde where
  "demo_serde = \<lparr>from_slice = (\<lambda>s.
       if s = ''A'' then Some (VMap [(''type'', VStr ''message_start''), (''message'', VMap [(''model'', VStr ''m'')])])
       else if s = ''B'' then Some (VMap [(''type'', VStr ''message_stop'')]) else None),
     to_vec = (\<lambda>_. Some ''Z'')\<rparr>"

definition demo_start :: string where
  "demo_start = ''event:message_start'' @ [LF] @ ''data:A''"

definition demo_stop :: string where
  "demo_stop = ''event:message_stop'' @ [LF] @ ''data:B''"

definition demo_value :: json where
  "demo_value = JObject [(''type'', JString ''message_start''), (''message'', JObject [(''model'', JString ''m'')])]"

lemma demo_separated: "separated demo_start [LF, LF]" "separated demo_stop [LF, LF]"
  by code_simp+

lemma demo_events:
  "parse_stream_event demo_serde demo_start = Ok (EvMessageStart demo_value)"
  "message_model demo_value = Ok ''m''"
  "parse_stream_event demo_serde demo_stop = Ok EvMessageStop"
  by code_simp+

lemma demo_lengths: "length demo_start = 26" "length demo_stop = 25"
  by code_simp+

lemma demo_frames: "frames_of (demo_start @ [LF, LF] @ demo_stop @ [LF, LF]) = ([demo_start, demo_stop], [])"
  using frames_of_separated [OF demo_separated(1), of "demo_stop @ [LF, LF] @ []"]
    frames_of_separated [OF demo_separated(2), of "[]"] by simp

lemma demo_conversation:
  "conversation demo_serde (MAX_STREAM_FRAME - 3) (demo_start @ [LF, LF] @ demo_stop @ [LF, LF])"
  unfolding conversation_def
  using demo_frames demo_events demo_lengths
  by (intro conjI exI [of _ "[]"] exI [of _ demo_start] exI [of _ demo_stop])
    (simp_all add: MAX_STREAM_FRAME_def MAX_RESPONSE_BODY_def)

section \<open>Properties\<close>

text \<open>
  C6: The guard forwards the chunks of the source unchanged and in order, and then either ends
  with exactly one failure, or the source has ended and everything forwarded is one complete
  conversation within the limits on frames and on the body.
\<close>

theorem guard_stream_sound:
  "\<exists>cs rest tail. items = map Chunk cs @ rest \<and> guard_stream sj guard_init items = map Yield cs @ tail
     \<and> (tail = [] \<and> rest = [] \<and> conversation sj MAX_STREAM_FRAME (concat cs) \<or> (\<exists>e. tail = [Fail e]))"
  using guard_stream_inv [OF guard_inv_init, of items sj] by (simp add: valid_body_conversation)

text \<open>
  A complete conversation whose frames keep three bytes below the frame limit is forwarded
  unchanged and without a failure, however the network cuts it into chunks.
\<close>

theorem guard_stream_complete:
  "conversation sj (MAX_STREAM_FRAME - 3) (concat cs) \<Longrightarrow>
     guard_stream sj guard_init (map Chunk cs) = map Yield cs"
  using guard_stream_passes [OF guard_inv_init, of sj cs] by (simp add: valid_body_conversation)

theorem guard_stream_complete_witness:
  "conversation demo_serde (MAX_STREAM_FRAME - 3)
      (concat [demo_start @ [LF], LF # demo_stop, [LF, LF]]) \<and>
   guard_stream demo_serde guard_init (map Chunk [demo_start @ [LF], LF # demo_stop, [LF, LF]]) =
     map Yield [demo_start @ [LF], LF # demo_stop, [LF, LF]]"
proof -
  have "conversation demo_serde (MAX_STREAM_FRAME - 3) (concat [demo_start @ [LF], LF # demo_stop, [LF, LF]])"
    using demo_conversation by simp
  with guard_stream_complete [OF this] show ?thesis by blast
qed

text \<open>
  C7: The preamble is released only for the expected model: what it releases are the bytes of the
  consumed chunks with the first \<^verbatim>\<open>message_start\<close> frame, whose model is the expected raw
  name, rewritten to the canonical name; before it stand only ignorable events, and the frame
  ends within the preamble limit.
\<close>

theorem stream_identity_released:
  assumes "validate_stream_identity sj expected_raw canonical source [] 0 0 = Ok (released, rest)"
  shows "\<exists>cs skip f sep tail ks value data. source = map Chunk cs @ rest \<and> concat cs = skip @ f @ sep @ tail
    \<and> frames_of skip = (ks, []) \<and> list_all (reads_as sj {EvEmpty, EvPing, EvUnknown}) ks \<and> separated f sep
    \<and> parse_stream_event sj f = Ok (EvMessageStart value) \<and> message_model value = Ok expected_raw
    \<and> to_vec sj (set_message_model canonical value) = Some data
    \<and> released = skip @ message_start_frame data @ tail \<and> length (skip @ f @ sep) \<le> MAX_STREAM_PREAMBLE"
proof -
  from validate_stream_identity_sound [OF assms] obtain cs skip f sep tail cf where
    "source = map Chunk cs @ rest" "concat cs = skip @ f @ sep @ tail" "skippable sj skip" "separated f sep"
    and cf: "parse_sse_preamble_frame sj f expected_raw canonical = Ok (PreMessageStart cf)"
    and "released = skip @ cf @ tail" "length (skip @ f @ sep) \<le> MAX_STREAM_PREAMBLE"
    by (auto simp: skippable_Nil)
  with cf show ?thesis
    unfolding skippable_def parse_sse_preamble_frame_PreMessageStart list_all_iff by blast
qed

theorem stream_identity_released_witness:
  "validate_stream_identity demo_serde ''m'' ''c'' [Chunk demo_start, Chunk [LF, LF]] [] 0 0
     = Ok (message_start_frame ''Z'', [])
   \<and> (\<exists>cs skip f sep tail ks value data. [Chunk demo_start, Chunk [LF, LF]] = map Chunk cs @ []
      \<and> concat cs = skip @ f @ sep @ tail \<and> frames_of skip = (ks, [])
      \<and> list_all (reads_as demo_serde {EvEmpty, EvPing, EvUnknown}) ks \<and> separated f sep
      \<and> parse_stream_event demo_serde f = Ok (EvMessageStart value) \<and> message_model value = Ok ''m''
      \<and> to_vec demo_serde (set_message_model ''c'' value) = Some data
      \<and> message_start_frame ''Z'' = skip @ message_start_frame data @ tail
      \<and> length (skip @ f @ sep) \<le> MAX_STREAM_PREAMBLE)"
proof -
  let ?f = "parse_sse_preamble_frame demo_serde demo_start ''m'' ''c''"
  have f: "?f = Ok (PreMessageStart (message_start_frame ''Z''))"
    by code_simp
  have "\<exists>cs1 cs2 tail'. [demo_start, [LF, LF]] = cs1 @ cs2
      \<and> drop 0 [] @ concat cs1 = [] @ demo_start @ [LF, LF] @ tail' \<and>
    validate_stream_identity demo_serde ''m'' ''c'' (map Chunk [demo_start, [LF, LF]] @ []) [] 0 0 =
    bind_r ?f (\<lambda>ev. case ev of
        PreMessageStart cf \<Rightarrow> Ok (take 0 [] @ [] @ cf @ tail', map Chunk cs2 @ [])
      | PreOther \<Rightarrow> Err Upstream)"
    by (rule validate_stream_identity_verdict [where tail = "[]"])
      (use demo_separated(1) f in \<open>simp_all add: skippable_Nil demo_lengths MAX_STREAM_PREAMBLE_def\<close>)
  then have "validate_stream_identity demo_serde ''m'' ''c'' [Chunk demo_start, Chunk [LF, LF]] [] 0 0
     = Ok (message_start_frame ''Z'', [])"
    by (auto simp: f demo_lengths Cons_eq_append_conv)
  then show ?thesis using stream_identity_released by blast
qed

text \<open>
  A stream that opens with ignorable events and then a \<^verbatim>\<open>message_start\<close> of another model,
  within the preamble limit, is rejected as an identity mismatch and nothing of it is released,
  however it is cut into chunks.
\<close>

theorem stream_identity_mismatch:
  assumes "concat cs = skip @ f @ sep @ tail" and "frames_of skip = (ks, [])"
    and "list_all (reads_as sj {EvEmpty, EvPing, EvUnknown}) ks" and "separated f sep"
    and "parse_stream_event sj f = Ok (EvMessageStart v)" and "message_model v = Ok raw"
    and "raw \<noteq> expected_raw" and "length (skip @ f @ sep) \<le> MAX_STREAM_PREAMBLE"
  shows "validate_stream_identity sj expected_raw canonical (map Chunk cs @ rest) [] 0 0 = Err ModelIdentityMismatch"
proof -
  have bad: "parse_sse_preamble_frame sj f expected_raw canonical = Err ModelIdentityMismatch"
    using assms(5-7) by (simp add: parse_sse_preamble_frame_def)
  have "skippable sj skip" using assms(2,3) by (auto simp: skippable_def list_all_iff)
  moreover have "f @ sep \<noteq> []" using find_sse_frame_bounds [OF assms(4)] by auto
  ultimately show ?thesis
    using validate_stream_identity_verdict [of 0 "[]" cs skip f sep tail sj expected_raw canonical rest]
      assms(1,4,8) bad by auto
qed

theorem stream_identity_mismatch_witness:
  "validate_stream_identity demo_serde ''other'' ''c'' (map Chunk [demo_start, [LF, LF]] @ []) [] 0 0
     = Err ModelIdentityMismatch"
  by (rule stream_identity_mismatch [where skip = "[]" and f = demo_start and sep = "[LF, LF]" and tail = "[]"
        and ks = "[]" and v = demo_value and raw = "''m''"])
    (use demo_separated(1) demo_events in \<open>simp_all add: demo_lengths MAX_STREAM_PREAMBLE_def\<close>)

end
