(* ===== verification/Binding_Refresher.thy ===== *)
theory Binding_Refresher
  imports Binding_Cache Http_Messages
begin

text \<open>
  The task that keeps the model bindings current (\<^verbatim>\<open>attestd/src/bedrock_mantle.rs\<close>):
  the retry delay, one fetch of the registry, the loop \<^verbatim>\<open>run_binding_refresher\<close> and the
  request side that waits for it.

  The loop is a step machine over its five local variables, cut where it awaits or reads the
  clock: at the top of the loop, asleep, woken, and fetching. Between any two steps the clock may
  advance and requests may nudge the watch channel with any generation. The machine runs for any
  answer of the registry. \<^verbatim>\<open>Duration::mul_f64\<close> applied to a quarter of a random fraction is the
  parameter \<open>mul_quarter\<close>; what the code relies on is that it stays within a quarter.
\<close>

named_theorems refresher_simps

section \<open>Constants and the retry delay\<close>

definition MAX_BINDINGS_BODY :: nat where "MAX_BINDINGS_BODY = 1024 * 1024"
definition BINDINGS_REFRESH_INTERVAL :: duration where "BINDINGS_REFRESH_INTERVAL = secs 60"
definition BINDINGS_ON_DEMAND_MIN_INTERVAL :: duration where "BINDINGS_ON_DEMAND_MIN_INTERVAL = secs 3"
definition BINDINGS_REFRESH_TIMEOUT :: duration where "BINDINGS_REFRESH_TIMEOUT = secs 15"
definition BINDINGS_RETRY_INITIAL_DELAY :: nat where "BINDINGS_RETRY_INITIAL_DELAY = 3"
definition BINDINGS_RETRY_MAX_DELAY :: nat where "BINDINGS_RETRY_MAX_DELAY = 35"

text \<open>\<^verbatim>\<open>checked_shl\<close> refuses a shift of 64 or more and drops the bits shifted out.\<close>

definition checked_shl :: "u64 \<Rightarrow> u32 \<Rightarrow> u64 option" where
  "checked_shl a n = (if unat n < 64 then Some (push_bit (unat n) a) else None)"

definition next_delay :: "(duration \<Rightarrow> 'j \<Rightarrow> duration) \<Rightarrow> u32 \<Rightarrow> 'j \<Rightarrow> duration" where
  "next_delay mul_quarter failures jitter =
     (let shift = (if failures = 0 then 0 else failures - 1);
          shifted = (case checked_shl (of_nat BINDINGS_RETRY_INITIAL_DELAY) shift of None \<Rightarrow> - 1 | Some v \<Rightarrow> v);
          base = secs (unat (min shifted (of_nat BINDINGS_RETRY_MAX_DELAY)))
      in base + mul_quarter base jitter)"

section \<open>One fetch\<close>

datatype fetch_reply = SendFailed | Reply http_response

definition read_bounded_registry_body :: "http_response \<Rightarrow> bindings_error + string" where
  "read_bounded_registry_body r =
     (if is_some_and (\<lambda>n. n > MAX_BINDINGS_BODY) (content_length r) then Err ExceedsSizeLimit
      else read_bounded BodyFailed ExceedsSizeLimit MAX_BINDINGS_BODY (response_body r) [])"

definition refresh_bindings ::
    "(string \<Rightarrow> raw option) \<Rightarrow> (string \<Rightarrow> string option) \<Rightarrow> string \<Rightarrow> BindingCache \<Rightarrow> fetch_reply \<Rightarrow> instant
     \<Rightarrow> bindings_error + BindingCache" where
  "refresh_bindings from_slice to_str registry_network c reply now =
     (case reply of
        SendFailed \<Rightarrow> Err FetchFailed
      | Reply r \<Rightarrow>
          if status_code r \<noteq> 200 then Err FetchNon200
          else if \<not> media_type_is to_str (response_headers r) ''application/json'' then Err NotJson
          else bind_r (read_bounded_registry_body r) (\<lambda>bytes.
               bind_r (parse_bindings_payload from_slice bytes registry_network) (\<lambda>snap.
                 apply_snapshot c snap now)))"

section \<open>The loop\<close>

datatype BindingRefreshStatus =
    InFlight u64 instant
  | FailureBackoff u64 instant
  | OnDemandGap u64 instant

fun generation :: "BindingRefreshStatus \<Rightarrow> u64" where
  "generation (InFlight g _) = g"
| "generation (FailureBackoff g _) = g"
| "generation (OnDemandGap g _) = g"

record refresher =
  consecutive_failures :: u32
  last_completed_at :: "instant option"
  next_attempt_at :: "instant option"
  current_generation :: u64
  nudge_pending :: bool

datatype phase = Top | Asleep instant "instant option" | Woken "instant option" | Fetching | Stopped

record world =
  clock :: instant
  task :: refresher
  phase :: phase
  nudge_value :: u64
  nudge_changed :: bool
  nudge_closed :: bool
  status :: BindingRefreshStatus
  cache :: BindingCache

definition world_init :: "instant \<Rightarrow> world" where
  "world_init now = \<lparr>clock = now,
     task = \<lparr>consecutive_failures = 0, last_completed_at = None, next_attempt_at = None,
             current_generation = 0, nudge_pending = False\<rparr>,
     phase = Top, nudge_value = 0, nudge_changed = False, nudge_closed = False,
     status = OnDemandGap 0 now, cache = BindingCache_default\<rparr>"

text \<open>\<^verbatim>\<open>borrow_and_update\<close> and the comparison that follows it.\<close>

definition see_nudge :: "world \<Rightarrow> world" where
  "see_nudge w = w\<lparr>nudge_changed := False,
     task := (task w)\<lparr>nudge_pending := nudge_value w \<ge> current_generation (task w)\<rparr>\<rparr>"

definition periodic_at :: "refresher \<Rightarrow> instant \<Rightarrow> instant" where
  "periodic_at r now = (case next_attempt_at r of None \<Rightarrow> now | Some n \<Rightarrow> n)"

definition demand_at :: "refresher \<Rightarrow> instant \<Rightarrow> instant option" where
  "demand_at r now =
     (if nudge_pending r then
        let min_interval_at = (case last_completed_at r of None \<Rightarrow> now
                               | Some c \<Rightarrow> c + BINDINGS_ON_DEMAND_MIN_INTERVAL);
            backoff_at = (if consecutive_failures r > 0
                          then (case next_attempt_at r of None \<Rightarrow> now | Some n \<Rightarrow> n) else now)
        in Some (max min_interval_at backoff_at)
      else None)"

definition wake_at :: "refresher \<Rightarrow> instant \<Rightarrow> instant" where
  "wake_at r now = (case demand_at r now of None \<Rightarrow> periodic_at r now | Some d \<Rightarrow> min (periodic_at r now) d)"

definition loop_top :: "world \<Rightarrow> world" where
  "loop_top w =
     (let w = (if nudge_changed w \<and> \<not> nudge_closed w then see_nudge w else w);
          now = clock w; demand = demand_at (task w) now; wake = wake_at (task w) now
      in if now < wake then w\<lparr>phase := Asleep wake demand\<rparr> else w\<lparr>phase := Woken demand\<rparr>)"

definition fetch_due :: "instant option \<Rightarrow> world \<Rightarrow> bool" where
  "fetch_due demand w \<longleftrightarrow>
     is_none_or (\<lambda>n. clock w \<ge> n) (next_attempt_at (task w)) \<or> is_some_and (\<lambda>d. clock w \<ge> d) demand"

definition check_due :: "instant option \<Rightarrow> world \<Rightarrow> world" where
  "check_due demand w =
     (if \<not> fetch_due demand w then w\<lparr>phase := Top\<rparr>
      else w\<lparr>nudge_changed := False, phase := Fetching,
             status := InFlight (current_generation (task w)) (clock w + BINDINGS_REFRESH_TIMEOUT)\<rparr>)"

definition complete_fetch :: "(duration \<Rightarrow> 'j \<Rightarrow> duration) \<Rightarrow> 'j \<Rightarrow> bool \<Rightarrow> world \<Rightarrow> world" where
  "complete_fetch mul_quarter jitter ok w =
     (let r = task w;
          failures = (if ok then 0 else saturating_add32 (consecutive_failures r) 1);
          delay = (if ok then BINDINGS_REFRESH_INTERVAL else next_delay mul_quarter failures jitter);
          next_attempt = clock w + delay;
          gen = current_generation r + 1
      in see_nudge (w\<lparr>phase := Top,
           status := (if ok then OnDemandGap gen (clock w + BINDINGS_ON_DEMAND_MIN_INTERVAL)
                      else FailureBackoff gen next_attempt),
           task := \<lparr>consecutive_failures = failures, last_completed_at = Some (clock w),
                    next_attempt_at = Some next_attempt, current_generation = gen,
                    nudge_pending = nudge_pending r\<rparr>\<rparr>))"

definition finish_fetch ::
    "(string \<Rightarrow> raw option) \<Rightarrow> (string \<Rightarrow> string option) \<Rightarrow> string \<Rightarrow> (duration \<Rightarrow> 'j \<Rightarrow> duration)
     \<Rightarrow> fetch_reply \<Rightarrow> 'j \<Rightarrow> world \<Rightarrow> world" where
  "finish_fetch from_slice to_str registry_network mul_quarter reply jitter w =
     (case refresh_bindings from_slice to_str registry_network (cache w) reply (clock w) of
        Inl _ \<Rightarrow> complete_fetch mul_quarter jitter False w
      | Inr c \<Rightarrow> complete_fetch mul_quarter jitter True (w\<lparr>cache := c\<rparr>))"

text \<open>\<^verbatim>\<open>send_modify\<close> on the nudge channel: the largest generation requested.\<close>

definition send_nudge :: "u64 \<Rightarrow> world \<Rightarrow> world" where
  "send_nudge g w = w\<lparr>nudge_value := max (nudge_value w) g, nudge_changed := True\<rparr>"

section \<open>Waiting for the loop\<close>

text \<open>The deadline a request waits to, or \<open>None\<close> where it does not wait.\<close>

fun wait_deadline :: "BindingRefreshStatus \<Rightarrow> instant \<Rightarrow> instant option" where
  "wait_deadline (InFlight _ deadline) now = Some deadline"
| "wait_deadline (FailureBackoff _ until) now =
     (if now < until then None else Some (now + BINDINGS_REFRESH_TIMEOUT))"
| "wait_deadline (OnDemandGap _ until) now = Some (max until now + BINDINGS_REFRESH_TIMEOUT)"

datatype wait_action = Return | SleepOrChange instant | NudgeAndWait | AwaitChange

fun wait_turn :: "u64 \<Rightarrow> BindingRefreshStatus \<Rightarrow> instant \<Rightarrow> wait_action" where
  "wait_turn g (InFlight g' _) now = (if g' \<noteq> g then Return else AwaitChange)"
| "wait_turn g (FailureBackoff g' until) now =
     (if g' \<noteq> g then Return else if now < until then Return else NudgeAndWait)"
| "wait_turn g (OnDemandGap g' until) now =
     (if g' \<noteq> g then Return else if now < until then SleepOrChange until else NudgeAndWait)"

section \<open>The machine\<close>

inductive refresher_step ::
    "(string \<Rightarrow> raw option) \<Rightarrow> (string \<Rightarrow> string option) \<Rightarrow> string \<Rightarrow> (duration \<Rightarrow> 'j \<Rightarrow> duration)
     \<Rightarrow> world \<Rightarrow> world \<Rightarrow> bool"
  for from_slice to_str net mul_quarter where
  tick: "clock w \<le> t \<Longrightarrow> refresher_step from_slice to_str net mul_quarter w (w\<lparr>clock := t\<rparr>)"
| nudge: "\<not> nudge_closed w \<Longrightarrow> refresher_step from_slice to_str net mul_quarter w (send_nudge g w)"
| close: "refresher_step from_slice to_str net mul_quarter w (w\<lparr>nudge_closed := True\<rparr>)"
| top: "phase w = Top \<Longrightarrow> refresher_step from_slice to_str net mul_quarter w (loop_top w)"
| wake: "phase w = Asleep wake demand \<Longrightarrow> wake \<le> clock w \<Longrightarrow>
    refresher_step from_slice to_str net mul_quarter w (w\<lparr>phase := Woken demand\<rparr>)"
| nudged: "phase w = Asleep wake demand \<Longrightarrow> nudge_changed w \<Longrightarrow>
    refresher_step from_slice to_str net mul_quarter w (see_nudge (w\<lparr>phase := Top\<rparr>))"
| closed: "phase w = Asleep wake demand \<Longrightarrow> nudge_closed w \<Longrightarrow> \<not> nudge_changed w \<Longrightarrow>
    refresher_step from_slice to_str net mul_quarter w (w\<lparr>phase := Stopped\<rparr>)"
| check: "phase w = Woken demand \<Longrightarrow>
    refresher_step from_slice to_str net mul_quarter w (check_due demand w)"
| fetched: "phase w = Fetching \<Longrightarrow>
    refresher_step from_slice to_str net mul_quarter w
      (finish_fetch from_slice to_str net mul_quarter reply jitter w)"

inductive_cases refresher_stepE: "refresher_step from_slice to_str net mul_quarter w w'"

section \<open>The retry delay\<close>

lemma shifted_three:
  assumes "n < 64"
  shows "min (push_bit n (3 :: u64)) 35 = (if n < 4 then 3 * 2 ^ n else 35)"
proof -
  have "list_all (\<lambda>n. min (push_bit n (3 :: u64)) 35 = (if n < 4 then 3 * 2 ^ n else 35)) [0..<64]"
    by code_simp
  with assms show ?thesis by (simp only: list_all_iff set_upt atLeastLessThan_iff) simp
qed

lemma retry_base:
  "unat (min (case checked_shl 3 n of None \<Rightarrow> - 1 | Some v \<Rightarrow> v) (35 :: u64)) = min (3 * 2 ^ unat n) 35"
proof (cases "unat n < 64")
  case True
  have small: "min (3 * 2 ^ unat n) (35 :: nat) = (if unat n < 4 then 3 * 2 ^ unat n else 35)"
  proof (cases "unat n < 4")
    case False
    then have "(2 :: nat) ^ 4 \<le> 2 ^ unat n" by (intro power_increasing) simp_all
    with False show ?thesis by (simp add: min_def)
  qed (auto simp: less_Suc_eq numeral_eq_Suc)
  have "unat (3 * 2 ^ unat n :: u64) = 3 * 2 ^ unat n" if "unat n < 4"
  proof -
    from that consider "unat n = 0" | "unat n = 1" | "unat n = 2" | "unat n = 3" by linarith
    then show ?thesis by cases simp_all
  qed
  with True small show ?thesis by (simp add: checked_shl_def shifted_three)
next
  case False
  then have "(2 :: nat) ^ 4 \<le> 2 ^ unat n" by (intro power_increasing) simp_all
  moreover have "min (- 1) (35 :: u64) = 35" by code_simp
  ultimately show ?thesis using False by (simp add: checked_shl_def)
qed

lemma next_delay_eq:
  "next_delay mul_quarter f j =
     (let base = secs (min (3 * 2 ^ (unat f - 1)) 35) in base + mul_quarter base j)"
proof -
  have "unat (if f = 0 then 0 else f - 1) = unat f - 1"
    by (auto simp: unat_minus_one)
  with retry_base [of "if f = 0 then 0 else f - 1"] show ?thesis
    by (simp only: next_delay_def Let_def BINDINGS_RETRY_INITIAL_DELAY_def BINDINGS_RETRY_MAX_DELAY_def
        of_nat_numeral)
qed

definition RETRY_CEILING :: duration where "RETRY_CEILING = secs 35 + secs 35 div 4"

lemma next_delay_bounds:
  assumes "\<And>d j. mul_quarter d j \<le> d div 4"
  shows "secs 3 \<le> next_delay mul_quarter f j" "next_delay mul_quarter f j \<le> RETRY_CEILING"
proof -
  let ?b = "min (3 * 2 ^ (unat f - 1)) (35 :: nat)"
  have "3 * 1 \<le> 3 * (2 :: nat) ^ (unat f - 1)" by (intro mult_le_mono) simp_all
  then have b: "3 \<le> ?b" "?b \<le> 35" by simp_all
  then have "secs 3 \<le> secs ?b" "secs ?b \<le> secs 35" by (simp_all only: secs_mono)
  with assms [of "secs ?b" j] div_le_mono [of "secs ?b" "secs 35" 4]
  show "secs 3 \<le> next_delay mul_quarter f j" "next_delay mul_quarter f j \<le> RETRY_CEILING"
    unfolding next_delay_eq RETRY_CEILING_def Let_def by linarith+
qed

section \<open>The invariant of the loop\<close>

definition schedule_ok :: "instant \<Rightarrow> refresher \<Rightarrow> bool" where
  "schedule_ok now r \<longleftrightarrow>
     (case (last_completed_at r, next_attempt_at r) of
        (None, None) \<Rightarrow> consecutive_failures r = 0
      | (Some c, Some n) \<Rightarrow> c \<le> now \<and> c + BINDINGS_ON_DEMAND_MIN_INTERVAL \<le> n \<and> n \<le> c + BINDINGS_REFRESH_INTERVAL
          \<and> (consecutive_failures r > 0 \<longrightarrow> n \<le> c + RETRY_CEILING)
      | _ \<Rightarrow> False)"

text \<open>What the demand instant computed at the top of the loop still means later in the turn.\<close>

definition demand_ok :: "refresher \<Rightarrow> instant option \<Rightarrow> bool" where
  "demand_ok r demand \<longleftrightarrow>
     (\<forall>d. demand = Some d \<longrightarrow>
        (\<forall>c. last_completed_at r = Some c \<longrightarrow> c + BINDINGS_ON_DEMAND_MIN_INTERVAL \<le> d)
        \<and> (\<forall>n. consecutive_failures r > 0 \<longrightarrow> next_attempt_at r = Some n \<longrightarrow> n \<le> d))"

definition phase_ok :: "world \<Rightarrow> bool" where
  "phase_ok w \<longleftrightarrow>
     (case phase w of
        Asleep wake demand \<Rightarrow> demand_ok (task w) demand \<and> (\<exists>n. next_attempt_at (task w) = Some n
          \<and> wake = (case demand of None \<Rightarrow> n | Some d \<Rightarrow> min n d))
          \<and> (demand \<noteq> None \<longleftrightarrow> nudge_pending (task w))
          \<and> (\<forall>c. nudge_pending (task w) \<longrightarrow> consecutive_failures (task w) = 0 \<longrightarrow> last_completed_at (task w) = Some c
              \<longrightarrow> wake \<le> c + BINDINGS_ON_DEMAND_MIN_INTERVAL)
      | Woken demand \<Rightarrow> demand_ok (task w) demand \<and> fetch_due demand w
      | _ \<Rightarrow> True)"

definition status_ok :: "world \<Rightarrow> bool" where
  "status_ok w \<longleftrightarrow> generation (status w) = current_generation (task w)
     \<and> (phase w = Fetching \<longleftrightarrow> (\<exists>g d. status w = InFlight g d))
     \<and> (\<forall>g u. status w = OnDemandGap g u \<longrightarrow> consecutive_failures (task w) = 0
          \<and> (\<forall>c. last_completed_at (task w) = Some c \<longrightarrow> u = c + BINDINGS_ON_DEMAND_MIN_INTERVAL))
     \<and> (\<forall>g u. status w = FailureBackoff g u \<longrightarrow> next_attempt_at (task w) = Some u)"

definition nudge_ok :: "world \<Rightarrow> bool" where
  "nudge_ok w \<longleftrightarrow> phase w \<notin> {Fetching, Stopped} \<longrightarrow> last_completed_at (task w) \<noteq> None
     \<longrightarrow> nudge_value w \<ge> current_generation (task w) \<longrightarrow> nudge_changed w \<or> nudge_pending (task w)"

definition refresher_inv :: "world \<Rightarrow> bool" where
  "refresher_inv w \<longleftrightarrow> schedule_ok (clock w) (task w) \<and> phase_ok w \<and> status_ok w \<and> nudge_ok w"

lemmas refresher_inv_defs = refresher_inv_def schedule_ok_def phase_ok_def status_ok_def nudge_ok_def demand_ok_def

lemma refresher_inv_init: "refresher_inv (world_init now)"
  by (simp add: refresher_inv_defs world_init_def)

lemma inv_tick: "refresher_inv w \<Longrightarrow> clock w \<le> t \<Longrightarrow> refresher_inv (w\<lparr>clock := t\<rparr>)"
  by (auto simp: refresher_inv_defs fetch_due_def is_none_or_def is_some_and_def split: option.splits phase.splits)

lemma inv_nudge: "refresher_inv w \<Longrightarrow> refresher_inv (send_nudge g w)"
  by (auto simp: refresher_inv_defs fetch_due_def send_nudge_def split: option.splits phase.splits)

lemma inv_close: "refresher_inv w \<Longrightarrow> refresher_inv (w\<lparr>nudge_closed := True\<rparr>)"
  by (auto simp: refresher_inv_defs fetch_due_def split: option.splits phase.splits)

lemma inv_see_nudge: "refresher_inv w \<Longrightarrow> phase w = Top \<Longrightarrow> refresher_inv (see_nudge w)"
  by (auto simp: refresher_inv_defs see_nudge_def split: option.splits)

lemma inv_phase_top: "refresher_inv w \<Longrightarrow> phase w = Asleep wake demand \<Longrightarrow> refresher_inv (w\<lparr>phase := Top\<rparr>)"
  by (auto simp: refresher_inv_defs split: option.splits)

lemma wake_due: "demand = demand_at r now \<Longrightarrow> wake_at r now \<le> t \<Longrightarrow> now \<le> t \<Longrightarrow>
    is_none_or (\<lambda>n. t \<ge> n) (next_attempt_at r) \<or> is_some_and (\<lambda>d. t \<ge> d) demand"
  by (auto simp: wake_at_def periodic_at_def min_def split: option.splits if_splits)

lemma demand_at_ok: "demand_ok r (demand_at r now)"
  by (auto simp: demand_ok_def demand_at_def Let_def split: if_splits option.splits)

lemma inv_top_phase:
  assumes "refresher_inv w" and "phase w = Top"
  shows "refresher_inv (let now = clock w; demand = demand_at (task w) now; wake = wake_at (task w) now
    in if now < wake then w\<lparr>phase := Asleep wake demand\<rparr> else w\<lparr>phase := Woken demand\<rparr>)"
proof (cases "clock w < wake_at (task w) (clock w)")
  case True
  let ?r = "task w"
  obtain n c where n: "next_attempt_at ?r = Some n" "last_completed_at ?r = Some c" "c \<le> clock w"
    using True assms(1) by (auto simp: refresher_inv_defs wake_at_def periodic_at_def demand_at_def Let_def split: option.splits)
  have wake: "wake_at ?r (clock w) = (case demand_at ?r (clock w) of None \<Rightarrow> n | Some d \<Rightarrow> min n d)"
    by (simp add: wake_at_def periodic_at_def n split: option.splits)
  have pend: "demand_at ?r (clock w) \<noteq> None \<longleftrightarrow> nudge_pending ?r" by (simp add: demand_at_def Let_def)
  have quick: "wake_at ?r (clock w) \<le> c + BINDINGS_ON_DEMAND_MIN_INTERVAL"
    if "nudge_pending ?r" "consecutive_failures ?r = 0"
    using True that n by (auto simp: wake_at_def demand_at_def Let_def min_def max_def split: if_splits)
  from True assms n wake pend quick demand_at_ok [of "task w" "clock w"] show ?thesis
    by (simp add: Let_def refresher_inv_def phase_ok_def status_ok_def nudge_ok_def)
next
  case False
  have "fetch_due (demand_at (task w) (clock w)) w"
    using False by (simp add: fetch_due_def wake_due)
  with False assms demand_at_ok [of "task w" "clock w"] show ?thesis
    by (simp add: Let_def refresher_inv_def phase_ok_def status_ok_def nudge_ok_def fetch_due_def)
qed

lemma inv_loop_top: "refresher_inv w \<Longrightarrow> phase w = Top \<Longrightarrow> refresher_inv (loop_top w)"
  using inv_top_phase [of w] inv_top_phase [of "see_nudge w"] inv_see_nudge [of w]
  by (auto simp: loop_top_def Let_def see_nudge_def)

lemma inv_wake:
  assumes "refresher_inv w" and "phase w = Asleep wake demand" and "wake \<le> clock w"
  shows "refresher_inv (w\<lparr>phase := Woken demand\<rparr>)"
  using assms by (auto simp: refresher_inv_defs fetch_due_def min_def split: option.splits if_splits)

lemma inv_check: "refresher_inv w \<Longrightarrow> phase w = Woken demand \<Longrightarrow> refresher_inv (check_due demand w)"
  by (auto simp: refresher_inv_defs check_due_def split: option.splits)

lemma inv_complete:
  assumes "\<And>d j. mul_quarter d j \<le> d div 4" and "refresher_inv w" and "phase w = Fetching"
  shows "refresher_inv (complete_fetch mul_quarter jitter ok w)"
proof -
  have "secs 35 + secs 35 div 4 \<le> secs 60" by (simp add: secs_def)
  with next_delay_bounds [of mul_quarter, OF assms(1)] assms(2,3) show ?thesis
    by (simp add: refresher_inv_defs complete_fetch_def see_nudge_def Let_def BINDINGS_REFRESH_INTERVAL_def
        BINDINGS_ON_DEMAND_MIN_INTERVAL_def RETRY_CEILING_def secs_mono)
      (meson le_trans)
qed

lemma inv_cache: "refresher_inv (w\<lparr>cache := c\<rparr>) \<longleftrightarrow> refresher_inv w"
  by (simp add: refresher_inv_defs fetch_due_def split: option.splits phase.splits)

lemma inv_step:
  assumes "refresher_step from_slice to_str net mul_quarter w w'" and "refresher_inv w"
    and "\<And>d j. mul_quarter d j \<le> d div 4"
  shows "refresher_inv w'"
  using assms(1)
proof cases
  case (fetched reply jitter)
  then show ?thesis
    using assms(2) by (auto simp: finish_fetch_def inv_cache split: sum.splits intro!: inv_complete assms(3))
next
  case (nudged wake demand)
  with inv_see_nudge [OF inv_phase_top [OF assms(2)]] show ?thesis by simp
next
  case (closed wake demand)
  with assms(2) show ?thesis by (auto simp: refresher_inv_defs split: option.splits)
qed (use assms(2) in \<open>auto intro: inv_tick inv_nudge inv_close inv_loop_top inv_wake inv_check\<close>)

abbreviation refresher_reachable ::
    "(string \<Rightarrow> raw option) \<Rightarrow> (string \<Rightarrow> string option) \<Rightarrow> string \<Rightarrow> (duration \<Rightarrow> 'j \<Rightarrow> duration)
     \<Rightarrow> instant \<Rightarrow> world \<Rightarrow> bool" where
  "refresher_reachable from_slice to_str net mul_quarter t0 w \<equiv>
     (refresher_step from_slice to_str net mul_quarter)\<^sup>*\<^sup>* (world_init t0) w"

lemma inv_reachable:
  assumes "\<And>d j. mul_quarter d j \<le> d div 4"
    and "refresher_reachable from_slice to_str net mul_quarter t0 w"
  shows "refresher_inv w"
  using assms(2)
proof (induction rule: rtranclp_induct)
  case base
  show ?case by (rule refresher_inv_init)
next
  case (step v w)
  show ?case by (rule inv_step [OF step(2,3) assms(1)])
qed

lemma check_due_starts:
  "refresher_inv w \<Longrightarrow> phase w = Woken demand \<Longrightarrow> phase (check_due demand w) = Fetching"
  by (simp add: refresher_inv_def phase_ok_def check_due_def)

text \<open>Only the step out of \<open>Woken\<close> starts a fetch.\<close>

lemma step_to_Fetching:
  assumes "refresher_step from_slice to_str net mul_quarter w w'" and "phase w \<noteq> Fetching" and "phase w' = Fetching"
  shows "\<exists>demand. phase w = Woken demand \<and> w' = check_due demand w \<and> fetch_due demand w"
  using assms
  by cases (auto simp: send_nudge_def loop_top_def see_nudge_def check_due_def Let_def split: if_splits)

text \<open>A fetch that starts is spaced from the last one that completed.\<close>

lemma fetch_start_spaced:
  assumes "refresher_inv w" and "refresher_step from_slice to_str net mul_quarter w w'"
    and "phase w \<noteq> Fetching" and "phase w' = Fetching" and "last_completed_at (task w) = Some c"
  shows "c + BINDINGS_ON_DEMAND_MIN_INTERVAL \<le> clock w'
    \<and> (consecutive_failures (task w) > 0 \<longrightarrow> (\<exists>n. next_attempt_at (task w) = Some n \<and> n \<le> clock w'))"
proof -
  from step_to_Fetching [OF assms(2-4)] obtain demand where
    w': "phase w = Woken demand" "w' = check_due demand w" "fetch_due demand w" by blast
  obtain n where n: "next_attempt_at (task w) = Some n" "c + BINDINGS_ON_DEMAND_MIN_INTERVAL \<le> n"
    using assms(1,5) by (auto simp: refresher_inv_def schedule_ok_def split: option.splits)
  have clock: "clock w' = clock w" using w' by (simp add: check_due_def)
  from w'(3) consider "n \<le> clock w" | d where "demand = Some d" "d \<le> clock w"
    by (auto simp: fetch_due_def n is_some_and_def split: option.splits)
  then show ?thesis
  proof cases
    case 1
    with n clock show ?thesis by simp
  next
    case 2
    with assms(1,5) w'(1) n show ?thesis
      by (fastforce simp: refresher_inv_def phase_ok_def demand_ok_def clock)
  qed
qed

section \<open>The cache the loop keeps\<close>

lemma refresh_bindings_accepted:
  assumes "refresh_bindings from_slice to_str net c reply now = Ok c'"
  shows "accepted c c'"
proof -
  from assms obtain snap bytes where "parse_bindings_payload from_slice bytes net = Ok snap"
    and ok: "apply_snapshot c snap now = Ok c'"
    by (auto simp: refresh_bindings_def result_simps split: fetch_reply.splits if_splits)
  then have "snapshot_wf snap"
    by (auto simp: parse_bindings_payload_def result_simps dest: bindings_of_value_wf)
  with ok show ?thesis by (auto simp: accepted_def snapshot_wf_def)
qed

lemma step_cache:
  assumes "refresher_step from_slice to_str net mul_quarter w w'"
  shows "accepted\<^sup>*\<^sup>* (cache w) (cache w')"
  using assms
proof cases
  case (fetched reply jitter)
  then show ?thesis
    by (auto simp: finish_fetch_def complete_fetch_def see_nudge_def Let_def split: sum.splits
        dest: refresh_bindings_accepted)
qed (auto simp: send_nudge_def loop_top_def see_nudge_def check_due_def Let_def)

lemma steps_cache:
  "(refresher_step from_slice to_str net mul_quarter)\<^sup>*\<^sup>* w w' \<Longrightarrow> accepted\<^sup>*\<^sup>* (cache w) (cache w')"
  by (induction rule: rtranclp_induct) (auto dest: step_cache)

lemma reachable_cache_inv:
  "refresher_reachable from_slice to_str net mul_quarter t0 w \<Longrightarrow> cache_inv (cache w)"
  by (erule bc.steps_inv [OF steps_cache]) (simp add: world_init_def cache_inv_default)

text \<open>
  The abstract store: a run of accepted snapshots, each with the time it was accepted at. A snapshot is the
  registry's when an answer of status 200 with a JSON body within the limit reads as it.
\<close>

fun accepted_run :: "BindingCache \<Rightarrow> (BindingsSnapshot \<times> instant) list \<Rightarrow> bindings_error + BindingCache" where
  "accepted_run c [] = Ok c"
| "accepted_run c ((snap, now) # rs) = bind_r (apply_snapshot c snap now) (\<lambda>c'. accepted_run c' rs)"

definition registry_snapshot ::
    "(string \<Rightarrow> raw option) \<Rightarrow> (string \<Rightarrow> string option) \<Rightarrow> string \<Rightarrow> fetch_reply \<Rightarrow> BindingsSnapshot \<Rightarrow> bool" where
  "registry_snapshot from_slice to_str net reply snap \<longleftrightarrow>
     (\<exists>r bytes. reply = Reply r \<and> status_code r = 200 \<and> media_type_is to_str (response_headers r) ''application/json''
        \<and> read_bounded_registry_body r = Ok bytes \<and> parse_bindings_payload from_slice bytes net = Ok snap)"

lemma refresh_bindings_Ok:
  "refresh_bindings from_slice to_str net c reply now = Ok c' \<longleftrightarrow>
     (\<exists>snap. registry_snapshot from_slice to_str net reply snap \<and> apply_snapshot c snap now = Ok c')"
  by (cases reply) (auto simp: refresh_bindings_def registry_snapshot_def result_simps)

lemma accepted_run_snoc:
  "accepted_run c (rs @ [(snap, now)]) = Ok c' \<longleftrightarrow>
     (\<exists>c1. accepted_run c rs = Ok c1 \<and> apply_snapshot c1 snap now = Ok c')"
  by (induction c rs rule: accepted_run.induct) (auto simp: result_simps)

text \<open>One step either leaves the cache alone or ends a fetch whose snapshot is accepted now.\<close>

lemma step_store:
  assumes "refresher_step from_slice to_str net mul_quarter w w'"
  obtains "cache w' = cache w"
  | reply snap where "phase w = Fetching" and "registry_snapshot from_slice to_str net reply snap"
      and "apply_snapshot (cache w) snap (clock w) = Ok (cache w')" and "last_completed_at (task w') = Some (clock w)"
  using assms
proof cases
  case (fetched reply jitter)
  show ?thesis
  proof (cases "refresh_bindings from_slice to_str net (cache w) reply (clock w)")
    case (Inl e)
    with fetched that(1) show ?thesis
      by (simp add: finish_fetch_def complete_fetch_def see_nudge_def Let_def)
  next
    case (Inr c)
    with fetched have "cache w' = c" "last_completed_at (task w') = Some (clock w)"
      by (simp_all add: finish_fetch_def complete_fetch_def see_nudge_def Let_def)
    with Inr fetched that(2) show ?thesis by (auto simp: refresh_bindings_Ok)
  qed
qed (auto simp: that(1) send_nudge_def loop_top_def see_nudge_def check_due_def Let_def)

lemma step_clock: "refresher_step from_slice to_str net mul_quarter w w' \<Longrightarrow> clock w \<le> clock w'"
  by (erule refresher_stepE)
    (auto simp: send_nudge_def loop_top_def see_nudge_def check_due_def finish_fetch_def complete_fetch_def Let_def
      split: sum.splits)

lemma step_completed:
  assumes "refresher_step from_slice to_str net mul_quarter w w'"
  shows "last_completed_at (task w') = last_completed_at (task w)
    \<or> phase w = Fetching \<and> phase w' \<noteq> Fetching \<and> last_completed_at (task w') = Some (clock w)"
  using assms
  by cases (auto simp: send_nudge_def loop_top_def see_nudge_def check_due_def finish_fetch_def complete_fetch_def Let_def
      split: sum.splits)

text \<open>While a fetch is under way the last one lies a full interval back.\<close>

lemma fetching_spaced:
  assumes "\<And>d j. mul_quarter d j \<le> d div 4"
    and "refresher_reachable from_slice to_str net mul_quarter t0 w"
    and "phase w = Fetching" and "last_completed_at (task w) = Some c"
  shows "c + BINDINGS_ON_DEMAND_MIN_INTERVAL \<le> clock w"
  using assms(2-4)
proof (induction rule: rtranclp_induct)
  case (step v w)
  from step_completed [OF step(2)] step.prems have same: "last_completed_at (task v) = Some c" by auto
  show ?case
  proof (cases "phase v = Fetching")
    case True
    with step.IH same step_clock [OF step(2)] show ?thesis by simp
  next
    case False
    from fetch_start_spaced [OF inv_reachable [OF assms(1) step(1)] step(2) False step.prems(1) same]
    show ?thesis ..
  qed
qed (simp add: world_init_def)

definition fetched_between :: "instant \<Rightarrow> instant \<Rightarrow> (BindingsSnapshot \<times> instant) list \<Rightarrow> bool" where
  "fetched_between t t' rs \<longleftrightarrow> list_all (\<lambda>(_, now). t \<le> now \<and> now \<le> t') rs
     \<and> sorted_wrt (\<lambda>a b. snd a + BINDINGS_ON_DEMAND_MIN_INTERVAL \<le> snd b) rs"

lemma steps_store:
  assumes "\<And>d j. mul_quarter d j \<le> d div 4"
    and "refresher_reachable from_slice to_str net mul_quarter t0 w"
    and "(refresher_step from_slice to_str net mul_quarter)\<^sup>*\<^sup>* w w'"
  shows "clock w \<le> clock w' \<and> (\<exists>rs. accepted_run (cache w) rs = Ok (cache w') \<and> fetched_between (clock w) (clock w') rs
    \<and> (\<forall>(snap, now) \<in> set rs. \<exists>reply. registry_snapshot from_slice to_str net reply snap)
    \<and> (\<forall>(snap, now) \<in> set rs. \<exists>c. last_completed_at (task w') = Some c \<and> now \<le> c))"
  using assms(3)
proof (induction rule: rtranclp_induct)
  case base
  show ?case by (auto simp: fetched_between_def intro!: exI [of _ "[]"])
next
  case (step u v)
  then obtain rs where rs: "accepted_run (cache w) rs = Ok (cache u)" "fetched_between (clock w) (clock u) rs"
    "\<forall>(snap, now) \<in> set rs. \<exists>reply. registry_snapshot from_slice to_str net reply snap"
    "\<forall>(snap, now) \<in> set rs. \<exists>c. last_completed_at (task u) = Some c \<and> now \<le> c" and t: "clock w \<le> clock u"
    by blast
  have reach: "refresher_reachable from_slice to_str net mul_quarter t0 u" using assms(2) step(1) by simp
  have t': "clock u \<le> clock v" by (rule step_clock) (rule step(2))
  have fin: "\<forall>(snap, now) \<in> set rs. \<exists>c. last_completed_at (task v) = Some c \<and> now \<le> c"
    using step_completed [OF step(2)] rs(2,4) by (fastforce simp: fetched_between_def list_all_iff)
  have within: "fetched_between (clock w) (clock v) rs"
    using rs(2) t' by (auto simp: fetched_between_def list_all_iff)
  from step(2) show ?case
  proof (cases rule: step_store)
    case 1
    with rs within fin t t' show ?thesis by (intro conjI exI [of _ rs]) auto
  next
    case (2 reply snap)
    have "snd a + BINDINGS_ON_DEMAND_MIN_INTERVAL \<le> clock u" if "a \<in> set rs" for a
      using that rs(4) fetching_spaced [OF assms(1) reach 2(1)] by (fastforce split: prod.splits)
    then have "fetched_between (clock w) (clock v) (rs @ [(snap, clock u)])"
      using within t t' by (auto simp: fetched_between_def list_all_iff sorted_wrt_append)
    with 2 rs fin t t' show ?thesis
      by (intro conjI exI [of _ "rs @ [(snap, clock u)]"]) (auto simp: accepted_run_snoc)
  qed
qed

section \<open>A run of the loop\<close>

text \<open>The first fetch fails at once, then the loop backs off; no jitter.\<close>

abbreviation demo_step :: "world \<Rightarrow> world \<Rightarrow> bool" where
  "demo_step \<equiv> refresher_step (\<lambda>_. None) Some ''mainnet'' (\<lambda>d (j :: nat). 0)"

definition demo_failed :: world where
  "demo_failed = finish_fetch (\<lambda>_. None) Some ''mainnet'' (\<lambda>d (j :: nat). 0) SendFailed 0
     (check_due None (loop_top (world_init 0)))"

lemma demo_failed_eq: "demo_failed = (world_init 0)\<lparr>
    task := \<lparr>consecutive_failures = 1, last_completed_at = Some 0, next_attempt_at = Some (secs 3),
             current_generation = 1, nudge_pending = False\<rparr>, status := FailureBackoff 1 (secs 3)\<rparr>"
  by (simp add: demo_failed_def finish_fetch_def refresh_bindings_def complete_fetch_def check_due_def
      fetch_due_def loop_top_def world_init_def see_nudge_def wake_at_def periodic_at_def demand_at_def
      next_delay_eq saturating_add32_def Let_def)

lemma demo_failed_reachable: "demo_step\<^sup>*\<^sup>* (world_init 0) demo_failed"
proof -
  let ?top = "loop_top (world_init 0)"
  have top: "phase ?top = Woken None" "phase (check_due None ?top) = Fetching"
    by (simp_all add: loop_top_def world_init_def wake_at_def periodic_at_def demand_at_def Let_def
        check_due_def fetch_due_def)
  have "demo_step (world_init 0) ?top" by (rule refresher_step.top) (simp add: world_init_def)
  moreover have "demo_step ?top (check_due None ?top)" by (rule refresher_step.check) (rule top)
  moreover have "demo_step (check_due None ?top) demo_failed"
    unfolding demo_failed_def by (rule refresher_step.fetched) (rule top)
  ultimately show ?thesis by (meson r_into_rtranclp rtranclp.rtrancl_into_rtrancl)
qed

text \<open>A registry that serves one model, at the revision its body names.\<close>

definition demo_raw :: "u64 \<Rightarrow> raw" where
  "demo_raw r = VMap [(''schema_version'', VU64 1), (''network'', VStr ''mainnet''), (''revision'', VU64 r),
     (''bindings'', VSeq [VMap [(''provider'', VStr ''anthropic''), (''model'', VStr ''m''),
        (''upstream_model'', VStr ''anthropic.m''), (''response_model'', VStr ''m-echo''), (''revision'', VU64 r)]])]"

definition demo_slice :: "string \<Rightarrow> raw option" where
  "demo_slice s = (if s = ''1'' then Some (demo_raw 1) else if s = ''2'' then Some (demo_raw 2)
     else if s = ''q'' then Some (VMap [(''model'', VStr ''m'')])
     else if s = ''u'' then Some (VMap [(''model'', VStr ''m-echo'')]) else None)"

definition demo_reply :: "string \<Rightarrow> fetch_reply" where
  "demo_reply s = Reply \<lparr>status_code = 200, response_headers = [(''content-type'', ''application/json'')],
     content_length = None, response_body = [Chunk s]\<rparr>"

lemma demo_snapshot:
  assumes "0 < r" and "r \<le> MAX_SAFE_INTEGER"
  shows "Option.bind (Some (demo_raw r)) unique_value = Some (snapshot_json (example_snapshot r (Some r)))"
    "bindings_of_value ''mainnet'' (snapshot_json (example_snapshot r (Some r))) = Ok (example_snapshot r (Some r))"
proof -
  show "Option.bind (Some (demo_raw r)) unique_value = Some (snapshot_json (example_snapshot r (Some r)))"
    by (simp add: demo_raw_def snapshot_json_def binding_json_def example_snapshot_def example_binding_def
        hm_contains_def hm_insert_def)
  have "binding_wf r (example_binding r)"
    using assms by (simp add: binding_wf_def example_binding_def valid_model_id_def valid_bedrock_selector_def
        strip_prefix_def id_byte_def ascii_class_defs MAX_MODEL_ID_BYTES_def)
  from parse_row_json [OF this] show "bindings_of_value ''mainnet'' (snapshot_json (example_snapshot r (Some r))) = Ok (example_snapshot r (Some r))"
    using assms by (simp add: bindings_of_value_def snapshot_json_def example_snapshot_def object_has_only_keys_def hm_contains_def
        get_str_def get_u64_def MAX_MODEL_BINDINGS_def) (simp add: example_binding_def)
qed

lemma demo_refresh:
  assumes "demo_slice s = Some (demo_raw r)" and "0 < r" and "r \<le> MAX_SAFE_INTEGER" and "length s = 1"
  shows "refresh_bindings demo_slice Some ''mainnet'' c (demo_reply s) now = apply_snapshot c (example_snapshot r (Some r)) now"
proof -
  have "media_type_is Some [(''content-type'', ''application/json'')] ''application/json''" by code_simp
  with assms demo_snapshot [OF assms(2,3)] show ?thesis
    by (simp add: refresh_bindings_def demo_reply_def read_bounded_registry_body_def MAX_BINDINGS_BODY_def
        parse_bindings_payload_def parse_unique_json_def)
qed

abbreviation live_step :: "world \<Rightarrow> world \<Rightarrow> bool" where
  "live_step \<equiv> refresher_step demo_slice Some ''mainnet'' (\<lambda>d (j :: nat). 0)"

definition live_turn :: "string \<Rightarrow> world \<Rightarrow> world" where
  "live_turn s w = finish_fetch demo_slice Some ''mainnet'' (\<lambda>d (j :: nat). 0) (demo_reply s) 0
     (check_due None (loop_top w))"

lemma live_turn_steps:
  assumes "phase w = Top" and "phase (loop_top w) = Woken None" and "phase (check_due None (loop_top w)) = Fetching"
  shows "live_step\<^sup>*\<^sup>* w (live_turn s w)"
proof -
  have "live_step w (loop_top w)" by (rule refresher_step.top) (rule assms)
  moreover have "live_step (loop_top w) (check_due None (loop_top w))" by (rule refresher_step.check) (rule assms)
  moreover have "live_step (check_due None (loop_top w)) (live_turn s w)"
    unfolding live_turn_def by (rule refresher_step.fetched) (rule assms)
  ultimately show ?thesis by (meson r_into_rtranclp rtranclp.rtrancl_into_rtrancl)
qed

lemmas turn_defs = loop_top_def wake_at_def periodic_at_def demand_at_def check_due_def fetch_due_def
  see_nudge_def complete_fetch_def Let_def

lemma live_refresh:
  "refresh_bindings demo_slice Some ''mainnet'' c (demo_reply ''1'') now = apply_snapshot c (example_snapshot 1 (Some 1)) now"
  "refresh_bindings demo_slice Some ''mainnet'' c (demo_reply ''2'') now = apply_snapshot c (example_snapshot 2 (Some 2)) now"
  by (rule demo_refresh; simp add: demo_slice_def MAX_SAFE_INTEGER_def)+

lemma live_first:
  "live_step\<^sup>*\<^sup>* (world_init 0) (live_turn ''1'' (world_init 0))"
  "current (cache (live_turn ''1'' (world_init 0))) = Some \<lparr>snapshot = example_snapshot 1 (Some 1), fetched_at = 0\<rparr>"
proof -
  show "live_step\<^sup>*\<^sup>* (world_init 0) (live_turn ''1'' (world_init 0))"
    by (rule live_turn_steps) (simp_all add: world_init_def turn_defs)
  show "current (cache (live_turn ''1'' (world_init 0))) = Some \<lparr>snapshot = example_snapshot 1 (Some 1), fetched_at = 0\<rparr>"
    by (simp add: live_turn_def finish_fetch_def live_refresh world_init_def turn_defs apply_snapshot_def
        store_snapshot_def BindingCache_default_def)
qed

section \<open>Properties\<close>

text \<open>
  C8: A fetch of the registry starts at least three seconds after the last one completed, and
  after failures not before the retry instant, whatever the requests nudge and whatever the
  registry answers.
\<close>

theorem refresh_spacing:
  assumes "\<And>d j. mul_quarter d j \<le> d div 4"
    and "refresher_reachable from_slice to_str net mul_quarter t0 w"
    and "refresher_step from_slice to_str net mul_quarter w w'"
    and "phase w \<noteq> Fetching" and "phase w' = Fetching"
    and "last_completed_at (task w) = Some c"
  shows "c + BINDINGS_ON_DEMAND_MIN_INTERVAL \<le> clock w'
    \<and> (consecutive_failures (task w) > 0 \<longrightarrow> (\<exists>n. next_attempt_at (task w) = Some n \<and> n \<le> clock w'))"
  using fetch_start_spaced [OF inv_reachable [OF assms(1,2)] assms(3-6)] .

theorem refresh_spacing_witness:
  "let w = (loop_top (demo_failed\<lparr>clock := secs 4\<rparr>)) in
     demo_step\<^sup>*\<^sup>* (world_init 0) w \<and> phase (check_due None w) = Fetching
     \<and> 0 + BINDINGS_ON_DEMAND_MIN_INTERVAL \<le> clock (check_due None w)"
proof -
  let ?w = "loop_top (demo_failed\<lparr>clock := secs 4\<rparr>)"
  have w: "phase ?w = Woken None" "last_completed_at (task ?w) = Some 0" "phase (check_due None ?w) = Fetching"
    by (simp_all add: demo_failed_eq world_init_def loop_top_def wake_at_def periodic_at_def demand_at_def
        check_due_def fetch_due_def Let_def secs_less secs_mono)
  have "demo_step demo_failed (demo_failed\<lparr>clock := secs 4\<rparr>)"
    by (rule refresher_step.tick) (simp add: demo_failed_eq world_init_def)
  moreover have "demo_step (demo_failed\<lparr>clock := secs 4\<rparr>) ?w"
    by (rule refresher_step.top) (simp add: demo_failed_eq world_init_def)
  ultimately have r: "demo_step\<^sup>*\<^sup>* (world_init 0) ?w"
    using demo_failed_reachable by (meson rtranclp.rtrancl_into_rtrancl)
  have "demo_step ?w (check_due None ?w)" by (rule refresher_step.check) (rule w)
  from refresh_spacing [OF _ r this _ w(3) w(2)] r w show ?thesis by (simp add: Let_def)
qed

text \<open>
  C9: The loop is never stuck behind its own schedule: whenever it sleeps it wakes no later than
  sixty seconds after the last completed fetch, within 43.75 seconds after a failed one, and within
  three seconds when a nudge is pending and no failure is being backed off from; and a woken
  loop always starts a fetch.
\<close>

theorem refresh_not_starved:
  assumes "\<And>d j. mul_quarter d j \<le> d div 4"
    and "refresher_reachable from_slice to_str net mul_quarter t0 w"
  shows "(case phase w of
      Asleep wake demand \<Rightarrow> \<exists>c. last_completed_at (task w) = Some c \<and> wake \<le> c + secs 60
        \<and> (consecutive_failures (task w) > 0 \<longrightarrow> wake \<le> c + (secs 35 + secs 35 div 4))
        \<and> (nudge_pending (task w) \<and> consecutive_failures (task w) = 0 \<longrightarrow> wake \<le> c + secs 3)
    | Woken demand \<Rightarrow> phase (check_due demand w) = Fetching
    | _ \<Rightarrow> True)"
proof -
  have inv: "refresher_inv w" by (rule inv_reachable [OF assms])
  show ?thesis
  proof (cases "phase w")
    case (Asleep wake demand)
    with inv obtain n c where n: "next_attempt_at (task w) = Some n" "last_completed_at (task w) = Some c"
      and wake: "wake \<le> n"
      by (auto simp: refresher_inv_def phase_ok_def schedule_ok_def split: option.splits)
    with inv have "n \<le> c + secs 60" "consecutive_failures (task w) > 0 \<longrightarrow> n \<le> c + (secs 35 + secs 35 div 4)"
      by (simp_all add: refresher_inv_def schedule_ok_def BINDINGS_REFRESH_INTERVAL_def RETRY_CEILING_def)
    moreover have "nudge_pending (task w) \<and> consecutive_failures (task w) = 0 \<longrightarrow> wake \<le> c + secs 3"
      using inv n Asleep by (auto simp: refresher_inv_def phase_ok_def BINDINGS_ON_DEMAND_MIN_INTERVAL_def)
    ultimately show ?thesis using n wake Asleep by auto
  qed (use check_due_starts [OF inv] in simp_all)
qed

theorem refresh_not_starved_witness:
  "phase (loop_top demo_failed) = Asleep (secs 3) None \<and> secs 3 \<le> 0 + (secs 35 + secs 35 div 4)"
proof -
  have "demo_step demo_failed (loop_top demo_failed)"
    by (rule refresher_step.top) (simp add: demo_failed_eq world_init_def)
  with demo_failed_reachable have r: "demo_step\<^sup>*\<^sup>* (world_init 0) (loop_top demo_failed)"
    by (rule rtranclp.rtrancl_into_rtrancl)
  have top: "loop_top demo_failed = demo_failed\<lparr>phase := Asleep (secs 3) None\<rparr>"
    by (simp add: demo_failed_eq world_init_def loop_top_def wake_at_def periodic_at_def demand_at_def Let_def secs_def)
  from refresh_not_starved [OF _ r] show ?thesis
    unfolding top unfolding demo_failed_eq by simp
qed

text \<open>
  Once a fetch has completed, a nudge for the current generation is never lost while the loop
  runs: until the fetch it asks for starts it is unseen in the channel or pending in the loop.
\<close>

theorem nudge_not_lost:
  assumes "\<And>d j. mul_quarter d j \<le> d div 4"
    and "refresher_reachable from_slice to_str net mul_quarter t0 w"
    and "phase w \<noteq> Fetching" and "phase w \<noteq> Stopped" and "last_completed_at (task w) \<noteq> None"
    and "current_generation (task w) \<le> nudge_value w"
  shows "nudge_changed w \<or> nudge_pending (task w)"
  using inv_reachable [OF assms(1,2)] assms(3-6) by (simp add: refresher_inv_def nudge_ok_def)

theorem nudge_not_lost_witness:
  "nudge_changed (send_nudge 1 demo_failed) \<or> nudge_pending (task (send_nudge 1 demo_failed))"
proof -
  have "demo_step demo_failed (send_nudge 1 demo_failed)"
    by (rule refresher_step.nudge) (simp add: demo_failed_eq world_init_def)
  with demo_failed_reachable have "demo_step\<^sup>*\<^sup>* (world_init 0) (send_nudge 1 demo_failed)"
    by (rule rtranclp.rtrancl_into_rtrancl)
  from nudge_not_lost [OF _ this] show ?thesis
    by (simp add: demo_failed_eq world_init_def send_nudge_def)
qed

text \<open>
  A request nudges only when that starts a fetch at once: in every reachable state in which
  the waiting request's turn says to nudge, the loop, at the top of its turn or asleep with a live
  channel, sees the nudge and starts a fetch without waiting again.
\<close>

theorem wait_nudge_starts_fetch:
  assumes "\<And>d j. mul_quarter d j \<le> d div 4"
    and "refresher_reachable from_slice to_str net mul_quarter t0 w"
    and "wait_turn g (status w) (clock w) = NudgeAndWait"
    and "phase w = Top \<or> (\<exists>wake demand. phase w = Asleep wake demand)" and "\<not> nudge_closed w"
  shows "\<exists>demand. phase (loop_top ((send_nudge g w)\<lparr>phase := Top\<rparr>)) = Woken demand
    \<and> phase (check_due demand (loop_top ((send_nudge g w)\<lparr>phase := Top\<rparr>))) = Fetching"
proof -
  have inv: "refresher_inv w" by (rule inv_reachable [OF assms(1,2)])
  let ?v = "see_nudge ((send_nudge g w)\<lparr>phase := Top\<rparr>)"
  have pend: "nudge_pending (task ?v)" and same: "last_completed_at (task ?v) = last_completed_at (task w)"
      "next_attempt_at (task ?v) = next_attempt_at (task w)"
      "consecutive_failures (task ?v) = consecutive_failures (task w)" "clock ?v = clock w"
    using inv assms(3)
    by (cases "status w"; force simp: see_nudge_def send_nudge_def refresher_inv_def status_ok_def split: if_splits)+
  have "wake_at (task ?v) (clock ?v) \<le> clock ?v"
  proof (cases "status w")
    case (FailureBackoff g' u)
    with inv assms(3) have "next_attempt_at (task w) = Some u" "u \<le> clock w"
      by (auto simp: refresher_inv_def status_ok_def split: if_splits)
    then show ?thesis by (auto simp: wake_at_def periodic_at_def same min_def split: option.splits)
  next
    case (OnDemandGap g' u)
    with inv assms(3) have "consecutive_failures (task w) = 0" "u \<le> clock w"
      "\<forall>c. last_completed_at (task w) = Some c \<longrightarrow> u = c + BINDINGS_ON_DEMAND_MIN_INTERVAL"
      by (auto simp: refresher_inv_def status_ok_def split: if_splits)
    then show ?thesis
      using pend by (auto simp: wake_at_def demand_at_def same Let_def min_def split: option.splits)
  qed (use assms(3) in \<open>simp split: if_splits\<close>)
  then have "loop_top ((send_nudge g w)\<lparr>phase := Top\<rparr>) = ?v\<lparr>phase := Woken (demand_at (task ?v) (clock ?v))\<rparr>"
    using assms(5) by (simp add: loop_top_def Let_def send_nudge_def see_nudge_def)
  moreover have "fetch_due (demand_at (task ?v) (clock ?v)) (?v\<lparr>phase := Woken (demand_at (task ?v) (clock ?v))\<rparr>)"
    using \<open>wake_at (task ?v) (clock ?v) \<le> clock ?v\<close> by (simp add: fetch_due_def wake_due)
  ultimately show ?thesis by (auto simp: check_due_def)
qed

theorem wait_nudge_starts_fetch_witness:
  "wait_turn 1 (status (demo_failed\<lparr>clock := secs 4\<rparr>)) (secs 4) = NudgeAndWait \<and>
   (\<exists>demand. phase (loop_top ((send_nudge 1 (demo_failed\<lparr>clock := secs 4\<rparr>))\<lparr>phase := Top\<rparr>)) = Woken demand
     \<and> phase (check_due demand (loop_top ((send_nudge 1 (demo_failed\<lparr>clock := secs 4\<rparr>))\<lparr>phase := Top\<rparr>))) = Fetching)"
proof -
  have "demo_step demo_failed (demo_failed\<lparr>clock := secs 4\<rparr>)"
    by (rule refresher_step.tick) (simp add: demo_failed_eq world_init_def)
  with demo_failed_reachable have r: "demo_step\<^sup>*\<^sup>* (world_init 0) (demo_failed\<lparr>clock := secs 4\<rparr>)"
    by (rule rtranclp.rtrancl_into_rtrancl)
  have turn: "wait_turn 1 (status (demo_failed\<lparr>clock := secs 4\<rparr>)) (clock (demo_failed\<lparr>clock := secs 4\<rparr>)) = NudgeAndWait"
    by (simp add: demo_failed_eq secs_def)
  from wait_nudge_starts_fetch [OF _ r turn] turn show ?thesis
    by (simp add: demo_failed_eq world_init_def)
qed

text \<open>
  C10: The refresh task refines the store of accepted snapshots: whatever the registry answers and the requests
  nudge, the cache after any run is the cache before it with a list of snapshots accepted in turn, each read from an
  answer of the registry of that network, at times within the run that lie at least three seconds apart.
\<close>

theorem refresher_refines_store:
  assumes "\<And>d j. mul_quarter d j \<le> d div 4"
    and "refresher_reachable from_slice to_str net mul_quarter t0 w"
    and "(refresher_step from_slice to_str net mul_quarter)\<^sup>*\<^sup>* w w'"
  shows "\<exists>rs. accepted_run (cache w) rs = Ok (cache w') \<and> fetched_between (clock w) (clock w') rs
    \<and> (\<forall>(snap, now) \<in> set rs. \<exists>reply. registry_snapshot from_slice to_str net reply snap)"
  using steps_store [OF assms] by blast

theorem refresher_refines_store_witness:
  "let w1 = live_turn ''1'' (world_init 0); w2 = live_turn ''2'' (w1\<lparr>clock := secs 60\<rparr>) in
     serving (cache w1) ''m'' = Some (example_binding 1) \<and> serving (cache w2) ''m'' = Some (example_binding 2)
     \<and> (\<exists>rs. rs \<noteq> [] \<and> accepted_run (cache w1) rs = Ok (cache w2) \<and> fetched_between 0 (secs 60) rs)"
proof -
  let ?w1 = "live_turn ''1'' (world_init 0)" let ?v = "?w1\<lparr>clock := secs 60\<rparr>" let ?w2 = "live_turn ''2'' ?v"
  have w1: "phase ?v = Top" "phase (loop_top ?v) = Woken None" "phase (check_due None (loop_top ?v)) = Fetching"
    and s1: "serving (cache ?w1) ''m'' = Some (example_binding 1)"
    and s2: "serving (cache ?w2) ''m'' = Some (example_binding 2)"
    and t: "clock ?w1 = 0" "clock ?w2 = secs 60"
    by (simp_all add: live_turn_def finish_fetch_def live_refresh world_init_def turn_defs example_simps
        BINDINGS_REFRESH_INTERVAL_def)
  have "live_step ?w1 ?v" by (rule refresher_step.tick)
      (simp add: live_turn_def finish_fetch_def live_refresh world_init_def turn_defs example_simps)
  then have run: "live_step\<^sup>*\<^sup>* ?w1 ?w2"
    using live_turn_steps [OF w1, of "''2''"] by (rule converse_rtranclp_into_rtranclp)
  obtain rs where rs: "accepted_run (cache ?w1) rs = Ok (cache ?w2)" "fetched_between 0 (secs 60) rs"
    using refresher_refines_store [OF _ live_first(1) run] unfolding t by auto
  have "rs \<noteq> []" using rs(1) s1 s2 by (auto simp: example_binding_def)
  with rs s1 s2 show ?thesis by (auto simp: Let_def)
qed

text \<open>
  The retry delay after the n-th consecutive failure is three seconds doubled n - 1 times,
  capped at thirty-five, plus the jitter: never below three seconds and, with a jitter within a
  quarter, never above 43.75 seconds, also where the shift overflows.
\<close>

theorem next_delay_exact:
  assumes "\<And>d j. mul_quarter d j \<le> d div 4"
  shows "next_delay mul_quarter failures j =
      secs (min (3 * 2 ^ (unat failures - 1)) 35) + mul_quarter (secs (min (3 * 2 ^ (unat failures - 1)) 35)) j
    \<and> secs 3 \<le> next_delay mul_quarter failures j
    \<and> next_delay mul_quarter failures j \<le> secs 35 + secs 35 div 4"
  using next_delay_bounds [of mul_quarter failures j, OF assms] by (simp add: next_delay_eq Let_def RETRY_CEILING_def)

theorem next_delay_exact_witness:
  "next_delay (\<lambda>d (j :: nat). d div 8) 3 0 = secs 12 + secs 12 div 8"
  using next_delay_exact [of "\<lambda>d (j :: nat). d div 8" 3 0] by (simp add: div_le_mono2)

end
