(* ===== verification/Gateway_Contract.thy ===== *)
theory Gateway_Contract
  imports Rust_Text
begin

text \<open>
  How the gm gateway reads an error body (\<^verbatim>\<open>attestd/src/gateway_contract.rs\<close>, the repository's
  mirror of the gateway's classifier): any of these phrases, in any letter case, means that the
  worker's provider account has failed.
\<close>

definition DRAIN_SIGNALS :: "string list" where
  "DRAIN_SIGNALS = [''insufficient_quota'', ''exceeded your current quota'', ''add credits to your account'',
     ''billing_hard_limit_reached'', ''billing hard limit'', ''credit balance is too low'',
     ''reached your specified api usage limits'', ''account is not active'', ''account has been deactivated'',
     ''invalid_api_key'', ''incorrect api key'', ''pay with fiat or send tao'', ''exceeded_current_quota_error'']"

definition signals_drain :: "string \<Rightarrow> bool" where
  "signals_drain b = list_ex (\<lambda>signal. contains_sub signal (ascii_lower b)) DRAIN_SIGNALS"

lemma contains_sub_mid: "pat \<noteq> [] \<Longrightarrow> contains_sub pat (a @ pat @ b)"
proof -
  assume "pat \<noteq> []"
  moreover have "occurs_at pat (a @ pat @ b) (length a)" by (simp add: occurs_at_def)
  ultimately show ?thesis
    using find_sub_None_iff [of pat "a @ pat @ b"] by (auto simp: contains_sub_def)
qed

lemma ascii_lower_append: "ascii_lower (a @ b) = ascii_lower a @ ascii_lower b"
  by (simp add: ascii_lower_def)

text \<open>A body that spells one of the phrases in lower case is read as a drain.\<close>

lemma signals_drain_phrase:
  assumes "p \<in> set DRAIN_SIGNALS" and "ascii_lower p = p"
  shows "signals_drain (a @ p @ b)"
proof -
  have "p \<noteq> []" using assms(1) by (auto simp: DRAIN_SIGNALS_def)
  with contains_sub_mid [of p "ascii_lower a" "ascii_lower b"] assms show ?thesis
    by (auto simp: signals_drain_def list_ex_iff ascii_lower_append)
qed

end
