(* ===== verification/Mantle_Proxy.thy ===== *)
theory Mantle_Proxy
  imports Mantle_Stream Binding_Refresher Gateway_Contract
begin

text \<open>
  The Bedrock Mantle adapter's request path (\<^verbatim>\<open>attestd/src/bedrock_mantle.rs\<close>): start-up
  configuration, the checks on an inbound request, the rewrite to the bound upstream model, the
  upstream response and the public error bodies.

  The HTTP client is a parameter: whether a request builds, and what it answers. The wait for a
  binding refresh is the machine of \<^verbatim>\<open>Binding_Refresher\<close>; here the cache before and after the wait
  and the two instants of lookup are arguments. The five-second limit on an error body is the
  argument \<open>times_out\<close>.
\<close>

named_theorems proxy_simps

section \<open>Start-up\<close>

definition BEDROCK_BINDINGS_PATH :: string where "BEDROCK_BINDINGS_PATH = ''/model-bindings/bedrock''"
definition BEDROCK_MANTLE_URL :: string where
  "BEDROCK_MANTLE_URL = ''https://bedrock-mantle.us-east-1.api.aws/anthropic/v1/messages''"
definition ANTHROPIC_VERSION :: string where "ANTHROPIC_VERSION = ''2023-06-01''"
definition EXECUTION_POLICY_HEADER :: string where "EXECUTION_POLICY_HEADER = ''x-gm-execution-policy''"
definition EXACT_CANONICAL_NO_REPLAY_POLICY :: string where
  "EXACT_CANONICAL_NO_REPLAY_POLICY = ''exact-canonical-no-replay-v1''"
definition MODEL_BINDING_REVISION_HEADER :: string where
  "MODEL_BINDING_REVISION_HEADER = ''x-gm-model-binding-revision''"
definition MAX_REQUEST_BODY :: nat where "MAX_REQUEST_BODY = 20 * 1024 * 1024"
definition MAX_ANTHROPIC_BETA_HEADER_BYTES :: nat where "MAX_ANTHROPIC_BETA_HEADER_BYTES = 1024"
definition MAX_ERROR_BODY :: nat where "MAX_ERROR_BODY = 64 * 1024"
definition PROMPT_TOO_LONG :: string where "PROMPT_TOO_LONG = ''prompt is too long''"

definition registry_url_for_network :: "string \<Rightarrow> string option" where
  "registry_url_for_network net =
     (if net = ''mainnet'' then Some ''https://registry.saygm.com''
      else if net = ''testnet'' then Some ''https://test-registry.saygm.com''
      else None)"

datatype setup_error =
  MissingNetwork | BadNetwork | MissingRegion | BadRegion | MissingKey | BadKey | KeyNotHeader | NoTransport

record BedrockMantleState =
  authorization :: string
  registry_network :: string
  registry_url :: string

text \<open>\<open>from_str\<close> is \<^verbatim>\<open>HeaderValue::from_str\<close>, \<open>client_ok\<close> whether the TLS client initializes.\<close>

definition from_environment ::
    "(string \<Rightarrow> string option) \<Rightarrow> (string \<Rightarrow> string option) \<Rightarrow> bool \<Rightarrow> setup_error + BedrockMantleState" where
  "from_environment env from_str client_ok =
     bind_r (ok_or (env ''GM_NETWORK'') MissingNetwork) (\<lambda>net.
     bind_r (ok_or (registry_url_for_network net) BadNetwork) (\<lambda>url.
     bind_r (ok_or (env ''BEDROCK_REGION'') MissingRegion) (\<lambda>region.
     bind_r (ensure (region = ''us-east-1'') BadRegion) (\<lambda>_.
     bind_r (ok_or (env ''BEDROCK_API_KEY'') MissingKey) (\<lambda>key.
     bind_r (ensure (\<not> (key = [] \<or> CHR '';'' \<in> set key)) BadKey) (\<lambda>_.
     bind_r (ok_or (from_str (''Bearer '' @ key)) KeyNotHeader) (\<lambda>auth.
     bind_r (ensure client_ok NoTransport) (\<lambda>_.
     Ok \<lparr>authorization = auth, registry_network = net, registry_url = url @ BEDROCK_BINDINGS_PATH\<rparr>))))))))"

section \<open>Rejections\<close>

fun upstream_diagnostic :: "Reject \<Rightarrow> (string \<times> u16 option) option" where
  "upstream_diagnostic Upstream = Some (''upstream_response_invalid'', None)"
| "upstream_diagnostic UpstreamTransport = Some (''upstream_transport_failed'', None)"
| "upstream_diagnostic (UpstreamHttp code) = Some (''upstream_http_rejected'', Some code)"
| "upstream_diagnostic (UpstreamThrottled _) = Some (''upstream_http_rejected'', Some 429)"
| "upstream_diagnostic UpstreamUnauthorized = Some (''upstream_http_rejected'', Some 401)"
| "upstream_diagnostic UpstreamForbidden = Some (''upstream_http_rejected'', Some 403)"
| "upstream_diagnostic (UpstreamInvalidRequest _) = Some (''upstream_http_rejected'', Some 400)"
| "upstream_diagnostic UpstreamTooLarge = Some (''upstream_http_rejected'', Some 413)"
| "upstream_diagnostic ModelIdentityMismatch = Some (''model_identity_mismatch'', None)"
| "upstream_diagnostic _ = None"

fun public_error :: "Reject \<Rightarrow> u16 \<times> string \<times> string" where
  "public_error Method = (405, ''invalid_request_error'', ''Bedrock Messages requires POST'')"
| "public_error Path = (404, ''invalid_request_error'', ''Bedrock Messages path or query is not allowed'')"
| "public_error Header = (400, ''invalid_request_error'', ''Bedrock Messages headers are invalid'')"
| "public_error BodyTooLarge =
     (413, ''invalid_request_error'', ''Bedrock Messages body exceeds the adapter limit'')"
| "public_error InvalidBody = (400, ''invalid_request_error'', ''Bedrock Messages body is invalid'')"
| "public_error UnsupportedModel = (400, ''invalid_request_error'', ''Bedrock model is not currently approved'')"
| "public_error BindingRevision =
     (409, ''invalid_request_error'', ''Bedrock model binding revision is stale or invalid'')"
| "public_error BindingsUnavailable = (503, ''api_error'', ''Bedrock model bindings are unavailable or stale'')"
| "public_error (UpstreamThrottled _) = (429, ''rate_limit_error'', ''Bedrock Mantle throttled the request'')"
| "public_error UpstreamUnauthorized =
     (401, ''authentication_error'', ''Bedrock Mantle rejected the worker credential (invalid_api_key)'')"
| "public_error UpstreamForbidden =
     (403, ''permission_error'', ''Bedrock Mantle denied the worker credential access (invalid_api_key)'')"
| "public_error (UpstreamInvalidRequest True) =
     (400, ''invalid_request_error'', ''Bedrock Mantle rejected the request: prompt is too long'')"
| "public_error (UpstreamInvalidRequest False) =
     (400, ''invalid_request_error'', ''Bedrock Mantle rejected the request as invalid'')"
| "public_error UpstreamTooLarge = (413, ''request_too_large'', ''Bedrock Mantle rejected the request size'')"
| "public_error Upstream = (502, ''api_error'', ''Bedrock Mantle request failed'')"
| "public_error UpstreamTransport = (502, ''api_error'', ''Bedrock Mantle request failed'')"
| "public_error (UpstreamHttp _) = (502, ''api_error'', ''Bedrock Mantle request failed'')"
| "public_error ModelIdentityMismatch = (502, ''api_error'', ''Bedrock Mantle request failed'')"

datatype proxy_body = Full string | Guarded "guard_poll list"

record proxy_response =
  proxy_status :: u16
  proxy_headers :: header_map
  proxy_body :: proxy_body

definition response :: "u16 \<Rightarrow> string \<Rightarrow> proxy_body \<Rightarrow> proxy_response" where
  "response st content_type b = \<lparr>proxy_status = st, proxy_headers = [(''content-type'', content_type)], proxy_body = b\<rparr>"

definition response_with_binding_revision :: "u16 \<Rightarrow> string \<Rightarrow> proxy_body \<Rightarrow> u64 \<Rightarrow> proxy_response" where
  "response_with_binding_revision st content_type b r =
     (let resp = response st content_type b in
      resp\<lparr>proxy_headers := hm_insert MODEL_BINDING_REVISION_HEADER (u64_to_string r) (proxy_headers resp)\<rparr>)"

definition error_body :: "Reject \<Rightarrow> string" where
  "error_body r =
     (let (_, error_type, message) = public_error r
      in ''{\"error\":{\"type\":\"'' @ error_type @ ''\",\"message\":\"'' @ message @ ''\"}}'')"

definition into_response :: "Reject \<Rightarrow> proxy_response" where
  "into_response r =
     (let resp = response (fst (public_error r)) ''application/json'' (Full (error_body r)) in
      case r of
        UpstreamThrottled (Some seconds) \<Rightarrow>
          resp\<lparr>proxy_headers := hm_insert ''retry-after'' (nat_to_string (unat seconds)) (proxy_headers resp)\<rparr>
      | _ \<Rightarrow> resp)"

section \<open>The inbound request\<close>

record http_request =
  req_method :: string
  path_and_query :: "string option"
  req_headers :: header_map
  req_body :: "source_item list"

definition is_http_token_byte :: "char \<Rightarrow> bool" where
  "is_http_token_byte b = (is_ascii_alphanumeric b \<or> b \<in> set ''!#$%&*+-.^_|~'' \<or> b \<in> {CHR 0x27, CHR 0x60})"

definition trim_spaces :: "string \<Rightarrow> string" where
  "trim_spaces item = rev (dropWhile (\<lambda>c. c = CHR '' '') (rev (dropWhile (\<lambda>c. c = CHR '' '') item)))"

definition beta_item_ok :: "string \<Rightarrow> bool" where
  "beta_item_ok item = (trim_spaces item \<noteq> [] \<and> list_all is_http_token_byte (trim_spaces item))"

definition validate_anthropic_beta_header :: "header_map \<Rightarrow> Reject + string option" where
  "validate_anthropic_beta_header hs =
     (case get_all hs ''anthropic-beta'' of
        [] \<Rightarrow> Ok None
      | [v] \<Rightarrow>
          if v = [] \<or> length v > MAX_ANTHROPIC_BETA_HEADER_BYTES
             \<or> list_ex (\<lambda>c. \<not> (0x20 \<le> byte_of c \<and> byte_of c \<le> 0x7e)) v then Err Header
          else if list_all beta_item_ok (split_on (CHR '','') v) then Ok (Some v) else Err Header
      | _ \<Rightarrow> Err Header)"

definition validate_inbound_headers ::
    "(string \<Rightarrow> string option) \<Rightarrow> header_map \<Rightarrow> Reject + (u64 \<times> string option)" where
  "validate_inbound_headers to_str hs =
     (case get_all hs EXECUTION_POLICY_HEADER of
        [p] \<Rightarrow>
          if to_str p \<noteq> Some EXACT_CANONICAL_NO_REPLAY_POLICY then Err Header
          else (case get_all hs ''content-type'' of
            [ct] \<Rightarrow>
              if is_none_or (\<lambda>v. \<not> eq_ignore_ascii_case v ''application/json'') (to_str ct) then Err Header
              else (case get_all hs ''anthropic-version'' of
                [ver] \<Rightarrow>
                  if is_none_or (\<lambda>v. v \<noteq> ANTHROPIC_VERSION) (to_str ver) then Err Header
                  else (case get_all hs MODEL_BINDING_REVISION_HEADER of
                    [rv] \<Rightarrow>
                      bind_r (ok_or (filter_o (\<lambda>r. r > 0) (Option.bind (to_str rv) parse_u64)) Header) (\<lambda>r.
                        if rv \<noteq> u64_to_string r then Err Header
                        else bind_r (validate_anthropic_beta_header hs) (\<lambda>beta. Ok (r, beta)))
                  | _ \<Rightarrow> Err Header)
              | _ \<Rightarrow> Err Header)
          | _ \<Rightarrow> Err Header)
      | _ \<Rightarrow> Err Header)"

record PreparedRequestBody =
  request_fields :: "(string \<times> json) list"
  requested_model :: string
  stream_response :: bool

definition prepare_request_body :: "(string \<Rightarrow> raw option) \<Rightarrow> string \<Rightarrow> Reject + PreparedRequestBody" where
  "prepare_request_body parse bytes =
     bind_r (ok_or (parse_unique_json parse bytes) InvalidBody) (\<lambda>v.
     bind_r (ok_or (as_object v) InvalidBody) (\<lambda>fs.
     bind_r (ok_or (get_str fs ''model'') InvalidBody) (\<lambda>mdl.
     bind_r (ensure (valid_model_id mdl) InvalidBody) (\<lambda>_.
     bind_r (case map_of fs ''stream'' of
               Some (JBool b) \<Rightarrow> Ok b | Some _ \<Rightarrow> Err InvalidBody | None \<Rightarrow> Ok False) (\<lambda>s.
     Ok \<lparr>request_fields = fs, requested_model = mdl, stream_response = s\<rparr>)))))"

section \<open>The upstream response\<close>

definition retry_after_secs :: "(string \<Rightarrow> string option) \<Rightarrow> header_map \<Rightarrow> u32 option" where
  "retry_after_secs to_str hs =
     Option.bind (map_of hs ''retry-after'') (\<lambda>v. Option.bind (to_str v) (\<lambda>s.
       let t = trim s in if t = [] \<or> \<not> list_all is_ascii_digit t then None else parse_u32 t))"

definition signals_prompt_too_long :: "string \<Rightarrow> bool" where
  "signals_prompt_too_long b = contains_sub PROMPT_TOO_LONG (ascii_lower b)"

definition read_bounded_body :: "http_response \<Rightarrow> nat \<Rightarrow> Reject + string" where
  "read_bounded_body r limit = read_bounded UpstreamTransport Upstream limit (response_body r) []"

definition upstream_rejection :: "(string \<Rightarrow> string option) \<Rightarrow> (http_response \<Rightarrow> bool) \<Rightarrow> http_response \<Rightarrow> Reject" where
  "upstream_rejection to_str times_out r =
     (if status_code r = 429 then UpstreamThrottled (retry_after_secs to_str (response_headers r))
      else if status_code r = 401 then UpstreamUnauthorized
      else if status_code r = 403 then UpstreamForbidden
      else if status_code r = 400 then
        UpstreamInvalidRequest (\<not> times_out r \<and>
          (case read_bounded_body r MAX_ERROR_BODY of Inl _ \<Rightarrow> False | Inr b \<Rightarrow> signals_prompt_too_long b))
      else if status_code r = 413 then UpstreamTooLarge
      else UpstreamHttp (status_code r))"

definition canonicalize_response_identity :: "serde \<Rightarrow> string \<Rightarrow> string \<Rightarrow> string \<Rightarrow> Reject + string" where
  "canonicalize_response_identity sj bytes expected_raw canonical =
     bind_r (ok_or (parse_unique_json (from_slice sj) bytes) Upstream) (\<lambda>v.
     bind_r (ok_or (as_object v) Upstream) (\<lambda>obj.
     bind_r (ok_or (get_str obj ''model'') Upstream) (\<lambda>raw_model.
       if raw_model \<noteq> expected_raw then Err ModelIdentityMismatch
       else ok_or (to_vec sj (JObject (hm_insert ''model'' (JString canonical) obj))) Upstream)))"

definition finish_upstream_response ::
    "serde \<Rightarrow> (string \<Rightarrow> string option) \<Rightarrow> (http_response \<Rightarrow> bool) \<Rightarrow> http_response \<Rightarrow> ModelBinding \<Rightarrow> bool
     \<Rightarrow> Reject + proxy_response" where
  "finish_upstream_response sj to_str times_out up binding streaming =
     (if status_code up \<noteq> 200 then Err (upstream_rejection to_str times_out up)
      else if streaming then
        (if \<not> media_type_is to_str (response_headers up) ''text/event-stream'' then Err Upstream
         else bind_r (validate_stream_identity sj (response_model binding) (model binding) (response_body up) [] 0 0)
           (\<lambda>(preamble, source).
             Ok (response_with_binding_revision 200 ''text/event-stream''
                   (Guarded (guard_stream sj guard_init (Chunk preamble # source))) (revision binding))))
      else
        (if \<not> media_type_is to_str (response_headers up) ''application/json'' then Err Upstream
         else bind_r (read_bounded_body up MAX_RESPONSE_BODY) (\<lambda>b.
              bind_r (canonicalize_response_identity sj b (response_model binding) (model binding)) (\<lambda>out.
                Ok (response_with_binding_revision 200 ''application/json'' (Full out) (revision binding))))))"

section \<open>Forwarding\<close>

record upstream_request =
  up_url :: string
  up_headers :: header_map
  up_body :: string

definition lookup_binding :: "BindingCache \<Rightarrow> instant \<Rightarrow> BindingCache \<Rightarrow> instant \<Rightarrow> string \<Rightarrow> u64 \<Rightarrow> BindingLookup" where
  "lookup_binding c0 now0 c1 now1 mdl r =
     (let first = current_binding c0 mdl r now0 in
      if needs_refresh first then current_binding c1 mdl r now1 else first)"

text \<open>Everything before the upstream call: the request to send, its binding, and whether it streams.\<close>

definition build_upstream ::
    "serde \<Rightarrow> (string \<Rightarrow> string option) \<Rightarrow> BedrockMantleState \<Rightarrow> BindingCache \<Rightarrow> instant \<Rightarrow> BindingCache \<Rightarrow> instant
     \<Rightarrow> http_request \<Rightarrow> Reject + (upstream_request \<times> ModelBinding \<times> bool)" where
  "build_upstream sj to_str st c0 now0 c1 now1 req =
     bind_r (ensure (req_method req = ''POST'') Method) (\<lambda>_.
     bind_r (ensure (path_and_query req = Some ''/v1/messages'') Path) (\<lambda>_.
     bind_r (validate_inbound_headers to_str (req_headers req)) (\<lambda>(requested_revision, anthropic_beta).
     bind_r (read_bounded BodyTooLarge BodyTooLarge MAX_REQUEST_BODY (req_body req) []) (\<lambda>bytes.
     bind_r (prepare_request_body (from_slice sj) bytes) (\<lambda>prepared.
     bind_r (into_result (lookup_binding c0 now0 c1 now1 (requested_model prepared) requested_revision)) (\<lambda>binding.
     bind_r (ok_or (to_vec sj (JObject (hm_insert ''model'' (JString (upstream_model binding)) (request_fields prepared))))
       InvalidBody) (\<lambda>upstream_body.
     Ok (\<lparr>up_url = BEDROCK_MANTLE_URL,
          up_headers = [(''authorization'', authorization st), (''anthropic-version'', ANTHROPIC_VERSION),
            (''content-type'', ''application/json''),
            (''accept'', if stream_response prepared then ''text/event-stream'' else ''application/json'')]
            @ (case anthropic_beta of None \<Rightarrow> [] | Some v \<Rightarrow> [(''anthropic-beta'', v)]),
          up_body = upstream_body\<rparr>, binding, stream_response prepared))))))))"

definition forward_request ::
    "serde \<Rightarrow> (string \<Rightarrow> string option) \<Rightarrow> (upstream_request \<Rightarrow> bool) \<Rightarrow> (upstream_request \<Rightarrow> fetch_reply)
     \<Rightarrow> (http_response \<Rightarrow> bool) \<Rightarrow> BedrockMantleState \<Rightarrow> BindingCache \<Rightarrow> instant \<Rightarrow> BindingCache \<Rightarrow> instant
     \<Rightarrow> http_request \<Rightarrow> Reject + proxy_response" where
  "forward_request sj to_str builds execute times_out st c0 now0 c1 now1 req =
     bind_r (build_upstream sj to_str st c0 now0 c1 now1 req) (\<lambda>(up, binding, streaming).
       if \<not> builds up then Err Upstream
       else (case execute up of
               SendFailed \<Rightarrow> Err UpstreamTransport
             | Reply r \<Rightarrow> finish_upstream_response sj to_str times_out r binding streaming))"

definition handle_request ::
    "serde \<Rightarrow> (string \<Rightarrow> string option) \<Rightarrow> (upstream_request \<Rightarrow> bool) \<Rightarrow> (upstream_request \<Rightarrow> fetch_reply)
     \<Rightarrow> (http_response \<Rightarrow> bool) \<Rightarrow> BedrockMantleState \<Rightarrow> BindingCache \<Rightarrow> instant \<Rightarrow> BindingCache \<Rightarrow> instant
     \<Rightarrow> http_request \<Rightarrow> proxy_response" where
  "handle_request sj to_str builds execute times_out st c0 now0 c1 now1 req =
     (case forward_request sj to_str builds execute times_out st c0 now0 c1 now1 req of
        Inl e \<Rightarrow> into_response e
      | Inr r \<Rightarrow> r)"

section \<open>Helper laws\<close>

lemmas lower_defs = signals_drain_def error_body_def ascii_lower_def to_ascii_lowercase_def ascii_class_defs

lemma drain_yes: "signals_drain (error_body UpstreamUnauthorized)" "signals_drain (error_body UpstreamForbidden)"
  by (simp_all add: lower_defs) code_simp+

lemma drain_no_1:
  "\<not> signals_drain (error_body Method)"
  "\<not> signals_drain (error_body Path)"
  "\<not> signals_drain (error_body Header)"
  "\<not> signals_drain (error_body BodyTooLarge)"
  by (simp_all add: lower_defs) code_simp+

lemma drain_no_2:
  "\<not> signals_drain (error_body InvalidBody)"
  "\<not> signals_drain (error_body UnsupportedModel)"
  "\<not> signals_drain (error_body BindingRevision)"
  "\<not> signals_drain (error_body BindingsUnavailable)"
  by (simp_all add: lower_defs) code_simp+

lemma drain_no_3:
  "\<not> signals_drain (error_body Upstream)"
  "\<not> signals_drain (error_body (UpstreamThrottled s))"
  "\<not> signals_drain (error_body UpstreamTooLarge)"
  "\<not> signals_drain (error_body (UpstreamInvalidRequest True))"
  by (simp_all add: lower_defs) code_simp+

lemma drain_no_4:
  "\<not> signals_drain (error_body (UpstreamInvalidRequest False))"
  by (simp_all add: lower_defs) code_simp+

lemmas drain_no = drain_no_1 drain_no_2 drain_no_3 drain_no_4

lemma error_body_collapse:
  "error_body (UpstreamHttp c) = error_body Upstream"
  "error_body UpstreamTransport = error_body Upstream"
  "error_body ModelIdentityMismatch = error_body Upstream"
  by (simp_all add: error_body_def)

lemma lookup_binding_Ok:
  "into_result (lookup_binding c0 now0 c1 now1 mdl r) = Ok b \<Longrightarrow>
     current_binding c0 mdl r now0 = Ready b \<or> current_binding c1 mdl r now1 = Ready b"
  by (cases "current_binding c0 mdl r now0"; cases "current_binding c1 mdl r now1")
    (auto simp: lookup_binding_def Let_def)

lemma current_binding_Ready:
  "current_binding c mdl r now = Ready b \<longleftrightarrow>
     (\<exists>cb. current c = Some cb \<and> map_of (bindings (snapshot cb)) mdl = Some b \<and> revision b = r
        \<and> now - fetched_at cb \<le> BINDINGS_FRESHNESS_TTL)"
  by (auto simp: current_binding_def Let_def split: option.splits if_splits)

text \<open>The snapshot a cache serves is one that \<^verbatim>\<open>parse_bindings_payload\<close> accepted.\<close>

definition cache_wf :: "string \<Rightarrow> BindingCache \<Rightarrow> bool" where
  "cache_wf net c \<longleftrightarrow> (\<forall>cb. current c = Some cb \<longrightarrow> snapshot_wf (snapshot cb) \<and> network (snapshot cb) = net)"

lemma apply_snapshot_current: "apply_snapshot c snap now = Ok c' \<Longrightarrow> current c' = Some \<lparr>snapshot = snap, fetched_at = now\<rparr>"
  by (erule apply_snapshot_cases) (simp_all add: store_snapshot_def)

lemma refresh_bindings_wf:
  assumes "refresh_bindings parse to_str net c reply now = Ok c'"
  shows "cache_wf net c'"
proof -
  from assms obtain snap bytes where "parse_bindings_payload parse bytes net = Ok snap"
    and ok: "apply_snapshot c snap now = Ok c'"
    by (auto simp: refresh_bindings_def result_simps split: fetch_reply.splits if_splits)
  then have "snapshot_wf snap \<and> network snap = net"
    by (auto simp: parse_bindings_payload_def result_simps dest: bindings_of_value_wf)
  with apply_snapshot_current [OF ok] show ?thesis by (simp add: cache_wf_def)
qed

lemma step_cache_wf:
  assumes "refresher_step parse to_str net mul_quarter w w'" and "cache_wf net (cache w)"
  shows "cache_wf net (cache w')"
  using assms(1)
proof cases
  case (fetched reply jitter)
  with assms(2) show ?thesis
    by (auto simp: finish_fetch_def complete_fetch_def see_nudge_def Let_def split: sum.splits
        dest: refresh_bindings_wf)
qed (use assms(2) in \<open>auto simp: send_nudge_def loop_top_def see_nudge_def check_due_def Let_def\<close>)

lemma reachable_cache_wf:
  assumes "refresher_reachable parse to_str net mul_quarter t0 w"
  shows "cache_wf net (cache w)"
  using assms
proof (induction rule: rtranclp_induct)
  case base
  show ?case by (simp add: cache_wf_def world_init_def BindingCache_default_def)
qed (rule step_cache_wf)

lemma Ready_model:
  assumes "cache_wf net c" and "current_binding c mdl r now = Ready b"
  shows "model b = mdl"
proof -
  from assms(2) obtain cb where cb: "current c = Some cb" "map_of (bindings (snapshot cb)) mdl = Some b"
    by (auto simp: current_binding_Ready)
  from map_of_SomeD [OF cb(2)] cb(1) assms(1) show ?thesis
    by (auto simp: cache_wf_def snapshot_wf_def)
qed

text \<open>What is documented of \<^verbatim>\<open>HeaderValue::to_str\<close>: it is the value itself, and total on visible ASCII.\<close>

definition to_str_law :: "(string \<Rightarrow> string option) \<Rightarrow> bool" where
  "to_str_law to_str \<longleftrightarrow> (\<forall>v s. to_str v = Some s \<longrightarrow> s = v)
     \<and> (\<forall>v. list_all (\<lambda>c. 0x20 \<le> byte_of c \<and> byte_of c \<le> 0x7e) v \<longrightarrow> to_str v = Some v)"

lemma to_str_Some: "to_str_law to_str \<Longrightarrow> list_all (\<lambda>c. 0x20 \<le> byte_of c \<and> byte_of c \<le> 0x7e) v \<Longrightarrow> to_str v = Some v"
  by (simp add: to_str_law_def)

lemma to_str_eq: "to_str_law to_str \<Longrightarrow> to_str v = Some s \<Longrightarrow> s = v"
  by (simp add: to_str_law_def)

lemma decimal_visible: "list_all (\<lambda>c. 0x20 \<le> byte_of c \<and> byte_of c \<le> 0x7e) (u64_to_string r)"
  using nat_to_string_digits [of "unat r"]
  by (auto simp: u64_to_string_def list_all_iff is_ascii_digit_def)

lemma ascii_lower_visible:
  "ascii_lower v = ''application/json'' \<Longrightarrow> list_all (\<lambda>c. 0x20 \<le> byte_of c \<and> byte_of c \<le> 0x7e) v"
proof -
  assume low: "ascii_lower v = ''application/json''"
  have "0x20 \<le> byte_of (to_ascii_lowercase c) \<and> byte_of (to_ascii_lowercase c) \<le> 0x7e" if "c \<in> set v" for c
  proof -
    from that have "to_ascii_lowercase c \<in> set (ascii_lower v)" by (simp add: ascii_lower_def)
    then show ?thesis unfolding low by (auto simp: byte_of_def)
  qed
  moreover have "0x20 \<le> byte_of c \<and> byte_of c \<le> 0x7e"
    if "0x20 \<le> byte_of (to_ascii_lowercase c) \<and> byte_of (to_ascii_lowercase c) \<le> 0x7e" for c
  proof (cases "is_ascii_uppercase c")
    case True
    then show ?thesis by (simp add: is_ascii_uppercase_def)
  next
    case False
    with that show ?thesis by (simp only: to_ascii_lowercase_def if_False)
  qed
  ultimately show ?thesis unfolding list_all_iff by blast
qed

lemma canonicalize_Ok:
  "canonicalize_response_identity sj bytes er can = Ok out \<longleftrightarrow>
     (\<exists>obj. parse_unique_json (from_slice sj) bytes = Some (JObject obj) \<and> get_str obj ''model'' = Some er
        \<and> to_vec sj (JObject (hm_insert ''model'' (JString can) obj)) = Some out)"
proof -
  have obj: "as_object v = Some ob \<longleftrightarrow> v = JObject ob" for v ob by (cases v) auto
  show ?thesis by (auto simp: canonicalize_response_identity_def result_simps obj split: if_splits)
qed

lemma revision_header:
  "map_of (proxy_headers (response_with_binding_revision st ct b r)) MODEL_BINDING_REVISION_HEADER = Some (u64_to_string r)"
  "proxy_status (response_with_binding_revision st ct b r) = st"
  "proxy_body (response_with_binding_revision st ct b r) = b"
  by (simp_all add: response_with_binding_revision_def response_def map_of_hm_insert Let_def)

lemma build_upstream_Ok:
  assumes "build_upstream sj to_str st c0 now0 c1 now1 req = Ok (up, b, streaming)"
  shows "\<exists>cs prepared beta. req_method req = ''POST'' \<and> path_and_query req = Some ''/v1/messages''
    \<and> req_body req = map Chunk cs \<and> length (concat cs) \<le> MAX_REQUEST_BODY
    \<and> prepare_request_body (from_slice sj) (concat cs) = Ok prepared \<and> streaming = stream_response prepared
    \<and> validate_inbound_headers to_str (req_headers req) = Ok (revision b, beta)
    \<and> (current_binding c0 (requested_model prepared) (revision b) now0 = Ready b
       \<or> current_binding c1 (requested_model prepared) (revision b) now1 = Ready b)
    \<and> to_vec sj (JObject (hm_insert ''model'' (JString (upstream_model b)) (request_fields prepared))) = Some (up_body up)
    \<and> up_url up = BEDROCK_MANTLE_URL"
proof -
  from assms obtain rv beta bytes prepared where *: "req_method req = ''POST''" "path_and_query req = Some ''/v1/messages''"
    "validate_inbound_headers to_str (req_headers req) = Ok (rv, beta)"
    "read_bounded BodyTooLarge BodyTooLarge MAX_REQUEST_BODY (req_body req) [] = Ok bytes"
    "prepare_request_body (from_slice sj) bytes = Ok prepared"
    "into_result (lookup_binding c0 now0 c1 now1 (requested_model prepared) rv) = Ok b"
    "to_vec sj (JObject (hm_insert ''model'' (JString (upstream_model b)) (request_fields prepared))) = Some (up_body up)"
    "up_url up = BEDROCK_MANTLE_URL" "streaming = stream_response prepared"
    by (auto simp: build_upstream_def result_simps)
  from *(4) obtain cs where "req_body req = map Chunk cs" "bytes = concat cs" "length bytes \<le> MAX_REQUEST_BODY"
    by (auto simp: read_bounded_Ok)
  moreover from lookup_binding_Ok [OF *(6)] have
    "current_binding c0 (requested_model prepared) rv now0 = Ready b \<or> current_binding c1 (requested_model prepared) rv now1 = Ready b" .
  moreover from this have "rv = revision b" by (auto simp: current_binding_Ready)
  ultimately show ?thesis using * by blast
qed

section \<open>Properties\<close>

text \<open>
  The gateway reads a public error body as a failure of the provider account exactly for the
  two rejections of the worker's credential, and for no other rejection.
\<close>

theorem drain_bodies_exact:
  "signals_drain (error_body r) \<longleftrightarrow> r = UpstreamUnauthorized \<or> r = UpstreamForbidden"
proof (cases r)
  case (UpstreamInvalidRequest b)
  then show ?thesis by (cases b) (simp_all add: drain_no)
qed (simp_all add: drain_yes drain_no error_body_collapse)

text \<open>
  With the documented reading of header values, the inbound headers are accepted exactly when
  there is one execution policy, one JSON content type, one API version and one binding revision,
  the revision in canonical decimal and positive, and an acceptable beta header.
\<close>

theorem validate_inbound_headers_exact:
  assumes "to_str_law to_str"
  shows "validate_inbound_headers to_str hs = Ok (r, beta) \<longleftrightarrow>
    get_all hs EXECUTION_POLICY_HEADER = [EXACT_CANONICAL_NO_REPLAY_POLICY]
    \<and> (\<exists>ct. get_all hs ''content-type'' = [ct] \<and> eq_ignore_ascii_case ct ''application/json'')
    \<and> get_all hs ''anthropic-version'' = [ANTHROPIC_VERSION]
    \<and> get_all hs MODEL_BINDING_REVISION_HEADER = [u64_to_string r] \<and> 0 < r
    \<and> validate_anthropic_beta_header hs = Ok beta"
proof -
  have vis: "to_str EXACT_CANONICAL_NO_REPLAY_POLICY = Some EXACT_CANONICAL_NO_REPLAY_POLICY"
    "to_str ANTHROPIC_VERSION = Some ANTHROPIC_VERSION" "to_str (u64_to_string r) = Some (u64_to_string r)" for r
    using decimal_visible
    by (simp_all add: to_str_Some [OF assms] EXACT_CANONICAL_NO_REPLAY_POLICY_def ANTHROPIC_VERSION_def byte_of_def)
  have ct: "to_str v = Some v" if "eq_ignore_ascii_case v ''application/json''" for v
  proof (rule to_str_Some [OF assms ascii_lower_visible])
    have "ascii_lower ''application/json'' = ''application/json''" by code_simp
    with that show "ascii_lower v = ''application/json''" by (simp add: eq_ignore_ascii_case_def)
  qed
  show ?thesis
    unfolding validate_inbound_headers_def
    using vis ct
    by (auto simp: result_simps is_none_or_def parse_u64_to_string split: list.splits option.splits if_splits
        dest: to_str_eq [OF assms])
qed

lemma demo_to_str_law: "to_str_law Some"
  by (simp add: to_str_law_def)

theorem validate_inbound_headers_exact_witness:
  "validate_inbound_headers Some
     [(''x-gm-execution-policy'', ''exact-canonical-no-replay-v1''), (''content-type'', ''Application/JSON''),
      (''anthropic-version'', ''2023-06-01''), (''x-gm-model-binding-revision'', u64_to_string 7)] = Ok (7, None)"
proof -
  have "eq_ignore_ascii_case ''Application/JSON'' ''application/json''" by code_simp
  then show ?thesis
    unfolding validate_inbound_headers_exact [OF demo_to_str_law]
    by (simp add: get_all_def EXECUTION_POLICY_HEADER_def EXACT_CANONICAL_NO_REPLAY_POLICY_def ANTHROPIC_VERSION_def
        MODEL_BINDING_REVISION_HEADER_def validate_anthropic_beta_header_def)
qed

text \<open>
  C11: A request is answered with success only on the binding that the refreshed cache holds for
  the model and the revision the request names. Then the upstream was sent the caller's fields with only the
  model replaced by the bound selector; the answer carries the binding's revision; and the model
  name in it is the one the caller asked for, substituted for the expected upstream name.
\<close>

theorem forward_request_serves_binding:
  assumes "refresher_reachable (from_slice sj) to_str net mul_quarter t0 w0"
    and "refresher_reachable (from_slice sj) to_str net mul_quarter t0 w1"
    and "forward_request sj to_str builds execute times_out st (cache w0) now0 (cache w1) now1 req = Ok resp"
  shows "\<exists>c now b prepared cs beta up r. (c, now) \<in> {(cache w0, now0), (cache w1, now1)}
    \<and> req_body req = map Chunk cs \<and> prepare_request_body (from_slice sj) (concat cs) = Ok prepared
    \<and> validate_inbound_headers to_str (req_headers req) = Ok (revision b, beta)
    \<and> current_binding c (requested_model prepared) (revision b) now = Ready b \<and> model b = requested_model prepared
    \<and> to_vec sj (JObject (hm_insert ''model'' (JString (upstream_model b)) (request_fields prepared))) = Some (up_body up)
    \<and> execute up = Reply r \<and> status_code r = 200 \<and> proxy_status resp = 200
    \<and> map_of (proxy_headers resp) MODEL_BINDING_REVISION_HEADER = Some (u64_to_string (revision b))
    \<and> (case proxy_body resp of
         Full out \<Rightarrow> \<not> stream_response prepared \<and> (\<exists>ds obj. response_body r = map Chunk ds
           \<and> parse_unique_json (from_slice sj) (concat ds) = Some (JObject obj)
           \<and> get_str obj ''model'' = Some (response_model b)
           \<and> to_vec sj (JObject (hm_insert ''model'' (JString (requested_model prepared)) obj)) = Some out)
       | Guarded polls \<Rightarrow> stream_response prepared \<and> (\<exists>released rest.
           validate_stream_identity sj (response_model b) (requested_model prepared) (response_body r) [] 0 0
             = Ok (released, rest)
           \<and> polls = guard_stream sj guard_init (Chunk released # rest)))"
proof -
  from assms(3) obtain up b streaming r where
    build: "build_upstream sj to_str st (cache w0) now0 (cache w1) now1 req = Ok (up, b, streaming)"
    and exec: "execute up = Reply r" and fin: "finish_upstream_response sj to_str times_out r b streaming = Ok resp"
    by (auto simp: forward_request_def result_simps split: if_splits fetch_reply.splits)
  from build_upstream_Ok [OF build] obtain cs prepared beta where
    req: "req_body req = map Chunk cs" "prepare_request_body (from_slice sj) (concat cs) = Ok prepared"
      "streaming = stream_response prepared" "validate_inbound_headers to_str (req_headers req) = Ok (revision b, beta)"
      "to_vec sj (JObject (hm_insert ''model'' (JString (upstream_model b)) (request_fields prepared))) = Some (up_body up)"
    and ready: "current_binding (cache w0) (requested_model prepared) (revision b) now0 = Ready b
       \<or> current_binding (cache w1) (requested_model prepared) (revision b) now1 = Ready b" by blast
  from ready obtain c now where c: "(c, now) \<in> {(cache w0, now0), (cache w1, now1)}"
    "current_binding c (requested_model prepared) (revision b) now = Ready b" by blast
  have "cache_wf net c" using c(1) reachable_cache_wf [OF assms(1)] reachable_cache_wf [OF assms(2)] by auto
  from Ready_model [OF this c(2)] have mdl: "model b = requested_model prepared" .
  have "status_code r = 200 \<and> proxy_status resp = 200
    \<and> map_of (proxy_headers resp) MODEL_BINDING_REVISION_HEADER = Some (u64_to_string (revision b))
    \<and> (case proxy_body resp of
         Full out \<Rightarrow> \<not> stream_response prepared \<and> (\<exists>ds obj. response_body r = map Chunk ds
           \<and> parse_unique_json (from_slice sj) (concat ds) = Some (JObject obj)
           \<and> get_str obj ''model'' = Some (response_model b)
           \<and> to_vec sj (JObject (hm_insert ''model'' (JString (requested_model prepared)) obj)) = Some out)
       | Guarded polls \<Rightarrow> stream_response prepared \<and> (\<exists>released rest.
           validate_stream_identity sj (response_model b) (requested_model prepared) (response_body r) [] 0 0
             = Ok (released, rest)
           \<and> polls = guard_stream sj guard_init (Chunk released # rest)))"
  proof (cases streaming)
    case True
    with fin req(3) mdl show ?thesis
      by (auto simp: finish_upstream_response_def result_simps revision_header split: if_splits)
  next
    case False
    with fin obtain bytes out where *: "status_code r = 200" "read_bounded_body r MAX_RESPONSE_BODY = Ok bytes"
      "canonicalize_response_identity sj bytes (response_model b) (model b) = Ok out"
      "resp = response_with_binding_revision 200 ''application/json'' (Full out) (revision b)"
      by (auto simp: finish_upstream_response_def result_simps split: if_splits)
    from *(2) obtain ds where "response_body r = map Chunk ds" "bytes = concat ds"
      by (auto simp: read_bounded_body_def read_bounded_Ok)
    with * False req(3) mdl show ?thesis by (auto simp: revision_header canonicalize_Ok)
  qed
  with c req(1,2,4,5) mdl exec show ?thesis by blast
qed

definition demo_proxy_serde :: serde where
  "demo_proxy_serde = \<lparr>from_slice = demo_slice,
     to_vec = (\<lambda>v. Some (case v of JObject [(_, JString s)] \<Rightarrow> s | _ \<Rightarrow> []))\<rparr>"

definition demo_request :: http_request where
  "demo_request = \<lparr>req_method = ''POST'', path_and_query = Some ''/v1/messages'',
     req_headers = [(''x-gm-execution-policy'', ''exact-canonical-no-replay-v1''), (''content-type'', ''application/json''),
       (''anthropic-version'', ''2023-06-01''), (''x-gm-model-binding-revision'', u64_to_string 1)],
     req_body = [Chunk ''q'']\<rparr>"

definition demo_state :: BedrockMantleState where
  "demo_state = \<lparr>authorization = ''Bearer k'', registry_network = ''mainnet'', registry_url = []\<rparr>"

definition demo_upstream :: http_response where
  "demo_upstream = \<lparr>status_code = 200, response_headers = [(''content-type'', ''application/json'')],
     content_length = None, response_body = [Chunk ''u'']\<rparr>"

lemma demo_forward:
  assumes "current c = Some \<lparr>snapshot = example_snapshot 1 (Some 1), fetched_at = 0\<rparr>"
  shows "forward_request demo_proxy_serde Some (\<lambda>_. True) (\<lambda>_. Reply demo_upstream) (\<lambda>_. False) demo_state c 5 c 5 demo_request
    = Ok (response_with_binding_revision 200 ''application/json'' (Full ''m'') 1)"
proof -
  have ct: "eq_ignore_ascii_case ''application/json'' ''application/json''"
    "media_type_is Some [(''content-type'', ''application/json'')] ''application/json''" by code_simp+
  have hd: "validate_inbound_headers Some (req_headers demo_request) = Ok (1, None)"
    using ct(1) by (simp add: demo_request_def validate_inbound_headers_def get_all_def EXECUTION_POLICY_HEADER_def
        EXACT_CANONICAL_NO_REPLAY_POLICY_def ANTHROPIC_VERSION_def MODEL_BINDING_REVISION_HEADER_def
        validate_anthropic_beta_header_def parse_u64_to_string)
  have ready: "current_binding c ''m'' 1 5 = Ready (example_binding 1)"
    by (simp add: current_binding_def assms example_snapshot_def example_binding_def BINDINGS_FRESHNESS_TTL_def secs_def)
  have prep: "prepare_request_body demo_slice ''q'' =
      Ok \<lparr>request_fields = [(''model'', JString ''m'')], requested_model = ''m'', stream_response = False\<rparr>"
    by (simp add: prepare_request_body_def parse_unique_json_def demo_slice_def hm_contains_def hm_insert_def get_str_def
        valid_model_id_def id_byte_def ascii_class_defs MAX_MODEL_ID_BYTES_def)
  have can: "canonicalize_response_identity demo_proxy_serde ''u'' ''m-echo'' ''m'' = Ok ''m''"
    by (simp add: canonicalize_response_identity_def demo_proxy_serde_def parse_unique_json_def demo_slice_def
        hm_contains_def hm_insert_def get_str_def)
  show ?thesis
    using ct(2) hd ready prep can
    by (simp add: forward_request_def build_upstream_def lookup_binding_def demo_proxy_serde_def finish_upstream_response_def
        read_bounded_body_def MAX_REQUEST_BODY_def MAX_RESPONSE_BODY_def)
      (simp add: demo_request_def demo_upstream_def demo_proxy_serde_def example_binding_def MAX_REQUEST_BODY_def
        hm_insert_def read_bounded_body_def MAX_RESPONSE_BODY_def)
qed

theorem forward_request_serves_binding_witness:
  "let c = cache (live_turn ''1'' (world_init 0));
       resp = response_with_binding_revision 200 ''application/json'' (Full ''m'') 1
   in forward_request demo_proxy_serde Some (\<lambda>_. True) (\<lambda>_. Reply demo_upstream) (\<lambda>_. False) demo_state c 5 c 5 demo_request
       = Ok resp \<and> proxy_status resp = 200"
proof -
  have "refresher_reachable (from_slice demo_proxy_serde) Some ''mainnet'' (\<lambda>d (j :: nat). 0) 0 (live_turn ''1'' (world_init 0))"
    using live_first(1) by (simp add: demo_proxy_serde_def)
  note forward_request_serves_binding [OF this this demo_forward [OF live_first(2)]]
  with demo_forward [OF live_first(2)] show ?thesis by (auto simp: Let_def)
qed

text \<open>
  What a caller may learn of an upstream error: its status among five, whether a bad request names a prompt that is
  too long, and a delay in seconds; and the fixed texts that say so.
\<close>

definition relayed_status :: "u16 \<Rightarrow> u16" where
  "relayed_status st = (if st \<in> {429, 401, 403, 400, 413} then st else 502)"

definition relayed_text :: "u16 \<Rightarrow> bool \<Rightarrow> string" where
  "relayed_text st too_long =
     (if st = 429 then ''{\"error\":{\"type\":\"rate_limit_error\",\"message\":\"Bedrock Mantle throttled the request\"}}''
      else if st = 401 then ''{\"error\":{\"type\":\"authentication_error\",\"message\":\"Bedrock Mantle rejected the worker credential (invalid_api_key)\"}}''
      else if st = 403 then ''{\"error\":{\"type\":\"permission_error\",\"message\":\"Bedrock Mantle denied the worker credential access (invalid_api_key)\"}}''
      else if st = 400 \<and> too_long then ''{\"error\":{\"type\":\"invalid_request_error\",\"message\":\"Bedrock Mantle rejected the request: prompt is too long\"}}''
      else if st = 400 then ''{\"error\":{\"type\":\"invalid_request_error\",\"message\":\"Bedrock Mantle rejected the request as invalid\"}}''
      else if st = 413 then ''{\"error\":{\"type\":\"request_too_large\",\"message\":\"Bedrock Mantle rejected the request size\"}}''
      else ''{\"error\":{\"type\":\"api_error\",\"message\":\"Bedrock Mantle request failed\"}}'')"

definition relayed_delay :: "(string \<Rightarrow> string option) \<Rightarrow> http_response \<Rightarrow> string option" where
  "relayed_delay to_str r =
     (if status_code r = 429
      then map_option (\<lambda>s. nat_to_string (digits_value (trim s)))
        (filter_o (\<lambda>s. trim s \<noteq> [] \<and> list_all is_ascii_digit (trim s) \<and> digits_value (trim s) < 2 ^ 32)
           (Option.bind (map_of (response_headers r) ''retry-after'') to_str))
      else None)"

definition names_long_prompt :: "(http_response \<Rightarrow> bool) \<Rightarrow> http_response \<Rightarrow> bool" where
  "names_long_prompt times_out r \<longleftrightarrow> \<not> times_out r
     \<and> (\<exists>cs pre post. response_body r = map Chunk cs \<and> length (concat cs) \<le> MAX_ERROR_BODY
          \<and> ascii_lower (concat cs) = pre @ PROMPT_TOO_LONG @ post)"

lemma retry_after_exact:
  "map_option (\<lambda>s. nat_to_string (unat s)) (retry_after_secs to_str hs) =
     map_option (\<lambda>s. nat_to_string (digits_value (trim s)))
       (filter_o (\<lambda>s. trim s \<noteq> [] \<and> list_all is_ascii_digit (trim s) \<and> digits_value (trim s) < 2 ^ 32)
          (Option.bind (map_of hs ''retry-after'') to_str))"
proof -
  have digit_plus: "\<not> is_ascii_digit CHR ''+''" by code_simp
  have parse: "parse_u32 t = (if digits_value t < 2 ^ 32 then Some (of_nat (digits_value t)) else None)"
    if "t \<noteq> []" "list_all is_ascii_digit t" for t
    using that digit_plus by (cases t) (auto simp: parse_u32_def parse_uint_def)
  show ?thesis
    by (cases "map_of hs ''retry-after''"; cases "to_str (the (map_of hs ''retry-after''))")
      (auto simp: retry_after_secs_def Let_def parse unsigned_of_nat take_bit_nat_eq_self)
qed

lemma long_prompt_exact:
  "(\<not> times_out r \<and> (case read_bounded_body r MAX_ERROR_BODY of Inl _ \<Rightarrow> False | Inr b \<Rightarrow> signals_prompt_too_long b))
     \<longleftrightarrow> names_long_prompt times_out r"
proof -
  have "contains_sub pat s \<longleftrightarrow> (\<exists>pre post. s = pre @ pat @ post)" for pat s :: string
  proof (induction s)
    case (Cons x xs)
    have "starts_with pat (x # xs) \<longleftrightarrow> (\<exists>post. x # xs = pat @ post)"
      by (metis append_eq_conv_conj append_take_drop_id starts_with_take)
    moreover have "(\<exists>pre post. x # xs = pre @ pat @ post)
        \<longleftrightarrow> (\<exists>post. x # xs = pat @ post) \<or> (\<exists>pre post. xs = pre @ pat @ post)"
      by (metis append_Cons append_Nil list.exhaust list.inject)
    ultimately show ?case using Cons by (simp add: contains_sub_code)
  qed (simp add: contains_sub_code)
  moreover have "read_bounded_body r MAX_ERROR_BODY = Ok b \<longleftrightarrow>
      (\<exists>cs. response_body r = map Chunk cs \<and> b = concat cs \<and> length (concat cs) \<le> MAX_ERROR_BODY)" for b
    using read_bounded_Ok [of "[]" MAX_ERROR_BODY UpstreamTransport Upstream "response_body r" b]
    by (auto simp: read_bounded_body_def)
  moreover have "(case x of Inl _ \<Rightarrow> False | Inr b \<Rightarrow> P b) \<longleftrightarrow> (\<exists>b. x = Ok b \<and> P b)" for x :: "Reject + string" and P
    by (cases x) auto
  ultimately show ?thesis
    by (auto simp: names_long_prompt_def signals_prompt_too_long_def)
qed

text \<open>
  C12: Of an upstream error only three things reach the caller: the five known statuses keep their code and every
  other becomes 502; a bounded, timely 400 body with the phrase for a prompt that is too long selects one of two fixed
  texts; and with 429 alone a \<^verbatim>\<open>retry-after\<close> is relayed as the number of seconds its digits spell. The whole answer,
  headers and body, is a function of these.
\<close>

theorem upstream_error_relayed:
  "into_response (upstream_rejection to_str times_out r) =
     \<lparr>proxy_status = relayed_status (status_code r),
      proxy_headers = (''content-type'', ''application/json'')
        # map (Pair ''retry-after'') (option_list (relayed_delay to_str r)),
      proxy_body = Full (relayed_text (status_code r) (names_long_prompt times_out r))\<rparr>"
proof -
  have throttled: "into_response (UpstreamThrottled x) =
      \<lparr>proxy_status = 429, proxy_headers = (''content-type'', ''application/json'')
         # map (Pair ''retry-after'') (option_list (map_option (\<lambda>s. nat_to_string (unat s)) x)),
       proxy_body = Full (relayed_text 429 False)\<rparr>" for x
    by (cases x) (simp_all add: into_response_def response_def error_body_def relayed_text_def hm_insert_def)
  have invalid: "into_response (UpstreamInvalidRequest b) =
      \<lparr>proxy_status = 400, proxy_headers = [(''content-type'', ''application/json'')], proxy_body = Full (relayed_text 400 b)\<rparr>" for b
    by (cases b) (simp_all add: into_response_def response_def error_body_def relayed_text_def)
  have delay: "relayed_delay to_str r = map_option (\<lambda>s. nat_to_string (unat s)) (retry_after_secs to_str (response_headers r))"
    if "status_code r = 429"
    using that by (simp add: relayed_delay_def retry_after_exact)
  show ?thesis
    unfolding upstream_rejection_def long_prompt_exact
    by (simp add: throttled invalid delay)
       (simp add: into_response_def response_def error_body_def relayed_status_def relayed_text_def relayed_delay_def)
qed

text \<open>
  The adapter starts only on one of the two registry networks, with that network's registry,
  in the one qualified region and with a single non-empty key.
\<close>

theorem from_environment_pins:
  assumes "from_environment env from_str client_ok = Ok st"
  shows "env ''GM_NETWORK'' = Some (registry_network st) \<and> env ''BEDROCK_REGION'' = Some ''us-east-1''
    \<and> (registry_network st = ''mainnet'' \<and> registry_url st = ''https://registry.saygm.com/model-bindings/bedrock''
       \<or> registry_network st = ''testnet'' \<and> registry_url st = ''https://test-registry.saygm.com/model-bindings/bedrock'')
    \<and> (\<exists>key. env ''BEDROCK_API_KEY'' = Some key \<and> key \<noteq> [] \<and> CHR '';'' \<notin> set key
         \<and> from_str (''Bearer '' @ key) = Some (authorization st))"
  using assms
  by (auto simp: from_environment_def result_simps registry_url_for_network_def BEDROCK_BINDINGS_PATH_def split: if_splits)

theorem from_environment_pins_witness:
  "\<exists>st. from_environment [''GM_NETWORK'' \<mapsto> ''testnet'', ''BEDROCK_REGION'' \<mapsto> ''us-east-1'', ''BEDROCK_API_KEY'' \<mapsto> ''k'']
      Some True = Ok st \<and> registry_url st = ''https://test-registry.saygm.com/model-bindings/bedrock''"
proof -
  let ?env = "[''GM_NETWORK'' \<mapsto> ''testnet'', ''BEDROCK_REGION'' \<mapsto> ''us-east-1'', ''BEDROCK_API_KEY'' \<mapsto> ''k'']"
  obtain st where st: "from_environment ?env Some True = Ok st"
    by (simp add: from_environment_def registry_url_for_network_def)
  from from_environment_pins [OF st] st show ?thesis by auto
qed

end
