(* ===== verification/Chutes_Crypto.thy ===== *)
theory Chutes_Crypto
  imports Strict_Json
begin

text \<open>
  The Chutes end-to-end wire format (\<^verbatim>\<open>attestd/src/chutes_verify/crypto.rs\<close>): how a request is
  sealed to an instance's ML-KEM key, how the response and the chunks of a stream are opened,
  and every length the code checks on the way.

  The primitives come from crates (\<^verbatim>\<open>ml-kem\<close>, \<^verbatim>\<open>ring\<close>, \<^verbatim>\<open>base64\<close>, \<^verbatim>\<open>flate2\<close>, \<^verbatim>\<open>serde_json\<close>) and are
  the fields of the parameter \<open>e2e_lib\<close>; what the round trip needs of them is the hypothesis
  \<open>e2e_laws\<close>. Randomness is an argument. An \<^verbatim>\<open>anyhow::Error\<close> is the text that \<^verbatim>\<open>{:#}\<close> prints: its
  contexts, outermost first, joined by a colon (the position the standard library names in an
  invalid UTF-8 text is left out).
\<close>

named_theorems e2e_simps

section \<open>Errors with context\<close>

type_synonym anyhow = string

definition with_context :: "string \<Rightarrow> anyhow + 'a \<Rightarrow> anyhow + 'a" where
  "with_context c r = (case r of Inl e \<Rightarrow> Inl (c @ '': '' @ e) | Inr x \<Rightarrow> Inr x)"

lemma with_context_simps [simp]:
  "with_context c (Ok x) = Ok x" "with_context c (Err e) = Err (c @ '': '' @ e)"
  by (simp_all add: with_context_def)

lemma with_context_eq_Ok [result_simps]: "with_context c r = Ok x \<longleftrightarrow> r = Ok x"
  by (cases r) auto

section \<open>The primitives\<close>

definition MLKEM768_PUBLIC_KEY_BYTES :: nat where "MLKEM768_PUBLIC_KEY_BYTES = 1184"
definition MLKEM768_CIPHERTEXT_BYTES :: nat where "MLKEM768_CIPHERTEXT_BYTES = 1088"
definition NONCE_LEN :: nat where "NONCE_LEN = 12"
definition TAG_BYTES :: nat where "TAG_BYTES = 16"
definition INFO_REQUEST :: string where "INFO_REQUEST = ''e2e-req-v1''"
definition INFO_RESPONSE :: string where "INFO_RESPONSE = ''e2e-resp-v1''"
definition INFO_STREAM :: string where "INFO_STREAM = ''e2e-stream-v1''"
definition MAX_PLAINTEXT_BYTES :: nat where "MAX_PLAINTEXT_BYTES = 32 * 1024 * 1024"

text \<open>
  \<open>gz_read n\<close> is a gzip decoder asked for at most \<open>n\<close> bytes: what it wrote, and the input it has
  not consumed. A key pair is generated from a seed, an encapsulation from coins.
\<close>

record ('sk, 'k) e2e_lib =
  b64_encode :: "string \<Rightarrow> string"
  b64_decode :: "string \<Rightarrow> anyhow + string"
  kem_public_ok :: "string \<Rightarrow> bool"
  kem_keypair :: "string \<Rightarrow> 'sk \<times> string"
  kem_encapsulate :: "string \<Rightarrow> string \<Rightarrow> string \<times> string"
  kem_decapsulate :: "'sk \<Rightarrow> string \<Rightarrow> string option"
  hkdf :: "string \<Rightarrow> string \<Rightarrow> string \<Rightarrow> 'k option"
  aead_seal :: "'k \<Rightarrow> string \<Rightarrow> string \<Rightarrow> string option"
  aead_open :: "'k \<Rightarrow> string \<Rightarrow> string \<Rightarrow> string option"
  gz_write :: "string \<Rightarrow> anyhow + string"
  gz_read :: "nat \<Rightarrow> string \<Rightarrow> anyhow + string \<times> string"
  json_vec :: "json \<Rightarrow> anyhow + string"

text \<open>The random bytes one request draws.\<close>

record entropy =
  key_seed :: string
  kem_coins :: string
  aead_nonce :: string

section \<open>Keys and sealing\<close>

definition decode_public_key :: "('sk, 'k) e2e_lib \<Rightarrow> string \<Rightarrow> anyhow + string" where
  "decode_public_key lib b64 =
     bind_r (with_context ''decode instance ML-KEM key'' (b64_decode lib b64)) (\<lambda>bytes.
     bind_r (ensure (length bytes = MLKEM768_PUBLIC_KEY_BYTES)
       (''instance ML-KEM key is '' @ nat_to_string (length bytes) @ '' bytes, expected '' @
        nat_to_string MLKEM768_PUBLIC_KEY_BYTES)) (\<lambda>_.
     bind_r (ensure (kem_public_ok lib bytes) ''instance ML-KEM key is invalid'') (\<lambda>_. Ok bytes)))"

definition validate_public_key :: "('sk, 'k) e2e_lib \<Rightarrow> string \<Rightarrow> anyhow + unit" where
  "validate_public_key lib b64 =
     bind_r (decode_public_key lib b64) (\<lambda>_.
     bind_r (b64_decode lib b64) (\<lambda>bytes.
     ensure (b64_encode lib bytes = b64) ''instance ML-KEM key is not canonical base64''))"

definition derive_key :: "('sk, 'k) e2e_lib \<Rightarrow> string \<Rightarrow> string \<Rightarrow> string \<Rightarrow> anyhow + 'k" where
  "derive_key lib shared kem_ciphertext info =
     bind_r (ensure (length kem_ciphertext \<ge> 16) ''ML-KEM ciphertext is too short to salt the KDF'') (\<lambda>_.
     ok_or (hkdf lib (take 16 kem_ciphertext) shared info) ''derive E2E key'')"

definition seal :: "('sk, 'k) e2e_lib \<Rightarrow> string \<Rightarrow> 'k \<Rightarrow> string \<Rightarrow> anyhow + string" where
  "seal lib nonce key plaintext =
     bind_r (ok_or (aead_seal lib key nonce plaintext) ''encrypt E2E payload'') (\<lambda>ciphertext.
     Ok (nonce @ ciphertext))"

definition open_sealed :: "('sk, 'k) e2e_lib \<Rightarrow> 'k \<Rightarrow> string \<Rightarrow> anyhow + string" where
  "open_sealed lib key sealed =
     bind_r (ensure (length sealed \<ge> NONCE_LEN + TAG_BYTES) ''E2E ciphertext is truncated'') (\<lambda>_.
     ok_or (aead_open lib key (take NONCE_LEN sealed) (drop NONCE_LEN sealed))
       ''E2E ciphertext failed authentication'')"

definition gzip :: "('sk, 'k) e2e_lib \<Rightarrow> string \<Rightarrow> anyhow + string" where
  "gzip lib input = with_context ''gzip E2E payload'' (gz_write lib input)"

definition gunzip :: "('sk, 'k) e2e_lib \<Rightarrow> string \<Rightarrow> anyhow + string" where
  "gunzip lib input =
     bind_r (with_context ''gunzip E2E payload'' (gz_read lib (MAX_PLAINTEXT_BYTES + 1) input)) (\<lambda>(output, left).
     bind_r (ensure (length output \<le> MAX_PLAINTEXT_BYTES)
       (''E2E payload exceeds '' @ nat_to_string MAX_PLAINTEXT_BYTES @ '' bytes'')) (\<lambda>_.
     bind_r (ensure (left = []) ''E2E payload has bytes after its gzip member'') (\<lambda>_. Ok output)))"

section \<open>Requests\<close>

record 'sk EncryptedRequest =
  blob :: string
  response_key :: 'sk

definition starts_e2e :: "string \<Rightarrow> bool" where
  "starts_e2e k = starts_with ''e2e_'' k"

definition encrypt_request :: "('sk, 'k) e2e_lib \<Rightarrow> entropy \<Rightarrow> string \<Rightarrow> (string \<times> json) list
    \<Rightarrow> anyhow + 'sk EncryptedRequest" where
  "encrypt_request lib ent instance_key_b64 payload =
     bind_r (ensure (\<not> list_ex (starts_e2e \<circ> fst) payload) ''e2e_ fields are reserved for the transport'') (\<lambda>_.
     bind_r (decode_public_key lib instance_key_b64) (\<lambda>instance_key.
     let (response_secret, response_public) = kem_keypair lib (key_seed ent);
         sent = hm_insert ''e2e_response_pk'' (JString (b64_encode lib response_public)) payload
     in
     bind_r (with_context ''encode request JSON'' (json_vec lib (JObject sent))) (\<lambda>bytes.
     bind_r (gzip lib bytes) (\<lambda>plaintext.
     let (kem_ciphertext, shared) = kem_encapsulate lib instance_key (kem_coins ent) in
     bind_r (derive_key lib shared kem_ciphertext INFO_REQUEST) (\<lambda>key.
     bind_r (seal lib (aead_nonce ent) key plaintext) (\<lambda>sealed.
     Ok \<lparr>blob = kem_ciphertext @ sealed, response_key = response_secret\<rparr>))))))"

section \<open>Responses\<close>

definition derive_response :: "('sk, 'k) e2e_lib \<Rightarrow> 'sk \<Rightarrow> string \<Rightarrow> string \<Rightarrow> anyhow + 'k" where
  "derive_response lib secret kem_ciphertext info =
     bind_r (ok_or (kem_decapsulate lib secret kem_ciphertext)
       (''ML-KEM ciphertext is not '' @ nat_to_string MLKEM768_CIPHERTEXT_BYTES @ '' bytes'')) (\<lambda>shared.
     derive_key lib shared kem_ciphertext info)"

definition decrypt_response :: "('sk, 'k) e2e_lib \<Rightarrow> 'sk \<Rightarrow> string \<Rightarrow> anyhow + string" where
  "decrypt_response lib secret b =
     bind_r (ensure (length b \<ge> MLKEM768_CIPHERTEXT_BYTES + NONCE_LEN + TAG_BYTES)
       ''encrypted response is truncated'') (\<lambda>_.
     let kem_ciphertext = take MLKEM768_CIPHERTEXT_BYTES b;
         sealed = drop MLKEM768_CIPHERTEXT_BYTES b in
     bind_r (derive_response lib secret kem_ciphertext INFO_RESPONSE) (\<lambda>key.
     bind_r (with_context ''authenticate encrypted response'' (open_sealed lib key sealed)) (\<lambda>packed.
     gunzip lib packed)))"

definition stream_key :: "('sk, 'k) e2e_lib \<Rightarrow> 'sk \<Rightarrow> string \<Rightarrow> anyhow + 'k" where
  "stream_key lib secret init_b64 =
     bind_r (with_context ''decode e2e_init'' (b64_decode lib init_b64)) (\<lambda>kem_ciphertext.
     derive_response lib secret kem_ciphertext INFO_STREAM)"

definition decrypt_chunk :: "('sk, 'k) e2e_lib \<Rightarrow> 'k \<Rightarrow> string \<Rightarrow> anyhow + string" where
  "decrypt_chunk lib key chunk_b64 =
     bind_r (with_context ''decode e2e chunk'' (b64_decode lib chunk_b64)) (\<lambda>sealed.
     bind_r (with_context ''authenticate e2e chunk'' (open_sealed lib key sealed)) (\<lambda>bytes.
     if utf8_valid bytes then Ok bytes else Err ''e2e chunk is not UTF-8''))"

section \<open>What the other side does\<close>

text \<open>
  The instance's half of the protocol, written from the wire format with its own sizes and labels: it opens a
  request blob with its own secret, and answers or streams under the \<^verbatim>\<open>e2e_response_pk\<close> it found there.
\<close>

definition instance_opens :: "('sk, 'k) e2e_lib \<Rightarrow> 'sk \<Rightarrow> string \<Rightarrow> string option" where
  "instance_opens lib secret b =
     Option.bind (kem_decapsulate lib secret (take 1088 b)) (\<lambda>shared.
     Option.bind (hkdf lib (take 16 b) shared ''e2e-req-v1'') (\<lambda>key.
     Option.bind (aead_open lib key (take 12 (drop 1088 b)) (drop 1100 b)) (\<lambda>packed.
     case gz_read lib (MAX_PLAINTEXT_BYTES + 1) packed of Inr (out, []) \<Rightarrow> Some out | _ \<Rightarrow> None)))"

definition instance_session :: "('sk, 'k) e2e_lib \<Rightarrow> string \<Rightarrow> string \<Rightarrow> string \<Rightarrow> (string \<times> 'k) option" where
  "instance_session lib coins response_public_b64 info =
     (case b64_decode lib response_public_b64 of
        Inl _ \<Rightarrow> None
      | Inr response_public \<Rightarrow>
          let (ct, shared) = kem_encapsulate lib response_public coins
          in map_option (Pair ct) (hkdf lib (take 16 ct) shared info))"

definition instance_seals :: "('sk, 'k) e2e_lib \<Rightarrow> 'k \<Rightarrow> string \<Rightarrow> string \<Rightarrow> string option" where
  "instance_seals lib key n p = map_option ((@) n) (aead_seal lib key n p)"

definition instance_answers :: "('sk, 'k) e2e_lib \<Rightarrow> entropy \<Rightarrow> string \<Rightarrow> string \<Rightarrow> string option" where
  "instance_answers lib ent response_public_b64 bytes =
     Option.bind (instance_session lib (kem_coins ent) response_public_b64 ''e2e-resp-v1'') (\<lambda>(ct, key).
     case gz_write lib bytes of
       Inl _ \<Rightarrow> None
     | Inr packed \<Rightarrow> map_option ((@) ct) (instance_seals lib key (aead_nonce ent) packed))"

fun seal_texts :: "('sk, 'k) e2e_lib \<Rightarrow> 'k \<Rightarrow> (string \<times> string) list \<Rightarrow> string list option" where
  "seal_texts lib key [] = Some []"
| "seal_texts lib key ((n, t) # items) =
     Option.bind (instance_seals lib key n t) (\<lambda>s. map_option ((#) (b64_encode lib s)) (seal_texts lib key items))"

text \<open>A streamed answer: the init, and one chunk per text, each under a nonce of its own.\<close>

definition instance_streams ::
    "('sk, 'k) e2e_lib \<Rightarrow> string \<Rightarrow> string \<Rightarrow> (string \<times> string) list \<Rightarrow> (string \<times> string list) option" where
  "instance_streams lib coins response_public_b64 items =
     Option.bind (instance_session lib coins response_public_b64 ''e2e-stream-v1'') (\<lambda>(ct, key).
     map_option (Pair (b64_encode lib ct)) (seal_texts lib key items))"

text \<open>
  Documented behaviour of the crates: decoding inverts encoding; an encapsulation to the public half of
  a key pair is 1088 bytes and decapsulates to the same secret; an opened box is what was sealed
  and a sealed one is 16 bytes longer; a gzip member decodes to its input and consumes all of it.
\<close>

definition e2e_laws :: "('sk, 'k) e2e_lib \<Rightarrow> bool" where
  "e2e_laws lib \<longleftrightarrow>
     (\<forall>s. b64_decode lib (b64_encode lib s) = Ok s)
   \<and> (\<forall>seed coins sk pk ct sh. kem_keypair lib seed = (sk, pk) \<longrightarrow> kem_encapsulate lib pk coins = (ct, sh) \<longrightarrow>
        length ct = 1088 \<and> kem_decapsulate lib sk ct = Some sh)
   \<and> (\<forall>k n p c. length n = 12 \<longrightarrow> aead_seal lib k n p = Some c \<longrightarrow>
        length c = length p + 16 \<and> aead_open lib k n c = Some p)
   \<and> (\<forall>x y n. gz_write lib x = Ok y \<longrightarrow> length x < n \<longrightarrow> gz_read lib n y = Ok (x, []))"

section \<open>Laws\<close>

lemma derive_key_eq_Ok [e2e_simps]:
  "derive_key lib shared ct info = Ok k \<longleftrightarrow> 16 \<le> length ct \<and> hkdf lib (take 16 ct) shared info = Some k"
  by (auto simp: derive_key_def result_simps)

lemma derive_response_eq_Ok [e2e_simps]:
  "derive_response lib sk ct info = Ok k \<longleftrightarrow>
     (\<exists>shared. kem_decapsulate lib sk ct = Some shared \<and> derive_key lib shared ct info = Ok k)"
  by (auto simp: derive_response_def result_simps)

lemma open_sealed_eq_Ok [e2e_simps]:
  "open_sealed lib key sealed = Ok p \<longleftrightarrow> NONCE_LEN + TAG_BYTES \<le> length sealed
     \<and> aead_open lib key (take NONCE_LEN sealed) (drop NONCE_LEN sealed) = Some p"
  by (auto simp: open_sealed_def result_simps)

lemma seal_eq_Ok [e2e_simps]:
  "seal lib nonce key p = Ok s \<longleftrightarrow> (\<exists>c. aead_seal lib key nonce p = Some c \<and> s = nonce @ c)"
  by (auto simp: seal_def result_simps)

lemma gunzip_eq_Ok [e2e_simps]:
  "gunzip lib input = Ok out \<longleftrightarrow>
     gz_read lib (MAX_PLAINTEXT_BYTES + 1) input = Ok (out, []) \<and> length out \<le> MAX_PLAINTEXT_BYTES"
  by (auto simp: gunzip_def result_simps)

lemma decode_public_key_eq_Ok [e2e_simps]:
  "decode_public_key lib b64 = Ok key \<longleftrightarrow> b64_decode lib b64 = Ok key
     \<and> length key = MLKEM768_PUBLIC_KEY_BYTES \<and> kem_public_ok lib key"
  by (auto simp: decode_public_key_def result_simps)

lemmas wire_sizes = MLKEM768_CIPHERTEXT_BYTES_def NONCE_LEN_def TAG_BYTES_def
lemmas wire_labels = INFO_REQUEST_def INFO_RESPONSE_def INFO_STREAM_def

text \<open>What one side sealed the other opens, and it is long enough to be tried.\<close>

lemma instance_sealed:
  assumes "e2e_laws lib" and "length n = 12" and "instance_seals lib key n p = Some s"
  shows "28 \<le> length s" and "open_sealed lib key s = Ok p"
proof -
  from assms(3) obtain c where c: "aead_seal lib key n p = Some c" "s = n @ c"
    by (auto simp: instance_seals_def)
  with assms(1,2) have "length c = length p + 16" "aead_open lib key n c = Some p"
    unfolding e2e_laws_def by blast+
  with assms(2) c show "28 \<le> length s" "open_sealed lib key s = Ok p"
    by (auto simp: open_sealed_eq_Ok wire_sizes)
qed

lemma packed_unpacks:
  assumes "e2e_laws lib" and "gz_write lib x = Ok y" and "length x \<le> MAX_PLAINTEXT_BYTES"
  shows "gz_read lib (MAX_PLAINTEXT_BYTES + 1) y = Ok (x, [])" and "gunzip lib y = Ok x"
proof -
  from assms show read: "gz_read lib (MAX_PLAINTEXT_BYTES + 1) y = Ok (x, [])"
    unfolding e2e_laws_def by (simp add: less_Suc_eq_le)
  with assms(3) show "gunzip lib y = Ok x" by (simp add: gunzip_eq_Ok)
qed

text \<open>The caller derives the instance's session key from the ciphertext it sends.\<close>

lemma session_derived:
  assumes "e2e_laws lib" and "kem_keypair lib seed = (sk, pk)"
    and "instance_session lib coins (b64_encode lib pk) info = Some (ct, key)"
  shows "length ct = 1088" and "derive_response lib sk ct info = Ok key"
proof -
  obtain ct' sh where enc: "kem_encapsulate lib pk coins = (ct', sh)" by fastforce
  with assms(1,2) have "length ct' = 1088 \<and> kem_decapsulate lib sk ct' = Some sh"
    unfolding e2e_laws_def by blast
  moreover have "b64_decode lib (b64_encode lib pk) = Ok pk" using assms(1) by (simp add: e2e_laws_def)
  ultimately show "length ct = 1088" and "derive_response lib sk ct info = Ok key"
    using assms(3) enc by (auto simp: instance_session_def derive_response_eq_Ok derive_key_eq_Ok)
qed

lemma texts_decrypted:
  assumes "e2e_laws lib" and "list_all (\<lambda>(n, t). length n = 12 \<and> utf8_valid t) items"
    and "seal_texts lib key items = Some chunks"
  shows "map (decrypt_chunk lib key) chunks = map (Ok \<circ> snd) items"
  using assms(2,3)
proof (induction items arbitrary: chunks)
  case (Cons item items)
  obtain n t where item: "item = (n, t)" by (cases item)
  with Cons.prems obtain s cs where s: "instance_seals lib key n t = Some s" "seal_texts lib key items = Some cs"
    "chunks = b64_encode lib s # cs" "length n = 12" "utf8_valid t"
    by (auto simp: Option.bind_eq_Some_conv)
  have "b64_decode lib (b64_encode lib s) = Ok s" using assms(1) by (simp add: e2e_laws_def)
  then have "decrypt_chunk lib key (b64_encode lib s) = Ok t"
    using instance_sealed(2) [OF assms(1) s(4,1)] s(5) by (simp add: decrypt_chunk_def)
  with Cons.IH [OF _ s(2)] Cons.prems(1) s(3) item show ?case by simp
qed simp

text \<open>The instance opens what the caller sealed for it.\<close>

lemma request_opens:
  assumes "e2e_laws lib" and "kem_keypair lib seed = (isk, ipk)"
    and "encrypt_request lib ent (b64_encode lib ipk) payload = Ok er"
    and "length (aead_nonce ent) = 12"
    and "json_vec lib (JObject (hm_insert ''e2e_response_pk''
           (JString (b64_encode lib (snd (kem_keypair lib (key_seed ent))))) payload)) = Ok bytes"
    and "length bytes \<le> MAX_PLAINTEXT_BYTES"
  shows "instance_opens lib isk (blob er) = Some bytes" and "response_key er = fst (kem_keypair lib (key_seed ent))"
proof -
  have b64: "b64_decode lib (b64_encode lib s) = Ok s" for s
    using assms(1) by (simp add: e2e_laws_def)
  obtain rsk rpk where kp: "kem_keypair lib (key_seed ent) = (rsk, rpk)" by fastforce
  obtain ct sh where enc: "kem_encapsulate lib ipk (kem_coins ent) = (ct, sh)" by fastforce
  from assms(3,5) obtain packed key c where req: "gz_write lib bytes = Ok packed"
    "hkdf lib (take 16 ct) sh ''e2e-req-v1'' = Some key" "aead_seal lib key (aead_nonce ent) packed = Some c"
    "blob er = ct @ aead_nonce ent @ c" and rk: "response_key er = rsk"
    by (auto simp: encrypt_request_def Let_def kp enc result_simps decode_public_key_eq_Ok b64 gzip_def
        derive_key_eq_Ok seal_eq_Ok wire_labels)
  from rk kp show "response_key er = fst (kem_keypair lib (key_seed ent))" by simp
  from assms(1,2) enc have "length ct = 1088" "kem_decapsulate lib isk ct = Some sh"
    unfolding e2e_laws_def by blast+
  moreover from assms(1,4) req(3) have "aead_open lib key (aead_nonce ent) c = Some packed"
    unfolding e2e_laws_def by blast
  ultimately show "instance_opens lib isk (blob er) = Some bytes"
    using req packed_unpacks(1) [OF assms(1) req(1) assms(6)] assms(4)
    by (simp add: instance_opens_def)
qed

section \<open>Properties\<close>

text \<open>
  C22: A request encrypted to an instance's key opens, under that instance's secret, to exactly the
  bytes of the payload with the fresh response key added; what the instance answers under that response key is
  decrypted by the caller to exactly the bytes the instance sent; and of what it streams the caller derives the key
  from the init and decrypts every chunk to the text it was sealed from, in order.
\<close>

theorem e2e_roundtrip:
  assumes "e2e_laws lib" and "kem_keypair lib seed = (isk, ipk)"
    and "encrypt_request lib ent (b64_encode lib ipk) payload = Ok er"
    and "length (aead_nonce ent) = 12"
    and "json_vec lib (JObject (hm_insert ''e2e_response_pk''
           (JString (b64_encode lib (snd (kem_keypair lib (key_seed ent))))) payload)) = Ok bytes"
    and "length bytes \<le> MAX_PLAINTEXT_BYTES"
    and "length (aead_nonce ent') = 12" and "length answer \<le> MAX_PLAINTEXT_BYTES"
    and "instance_answers lib ent' (b64_encode lib (snd (kem_keypair lib (key_seed ent)))) answer = Some b"
    and "list_all (\<lambda>(n, t). length n = 12 \<and> utf8_valid t) items"
    and "instance_streams lib coins (b64_encode lib (snd (kem_keypair lib (key_seed ent)))) items = Some (init, chunks)"
  shows "instance_opens lib isk (blob er) = Some bytes \<and> decrypt_response lib (response_key er) b = Ok answer
    \<and> (\<exists>key. stream_key lib (response_key er) init = Ok key
         \<and> map (decrypt_chunk lib key) chunks = map (Ok \<circ> snd) items)"
proof (intro conjI)
  obtain rsk rpk where kp: "kem_keypair lib (key_seed ent) = (rsk, rpk)" by fastforce
  note opens = request_opens [OF assms(1-6)]
  show "instance_opens lib isk (blob er) = Some bytes" by (rule opens)
  from assms(9) kp obtain ct key packed s where ans:
    "instance_session lib (kem_coins ent') (b64_encode lib rpk) ''e2e-resp-v1'' = Some (ct, key)"
    "gz_write lib answer = Ok packed" "instance_seals lib key (aead_nonce ent') packed = Some s" "b = ct @ s"
    by (cases "gz_write lib answer") (auto simp: instance_answers_def Option.bind_eq_Some_conv)
  note session = session_derived [OF assms(1) kp ans(1)]
  from session instance_sealed [OF assms(1,7) ans(3)] packed_unpacks(2) [OF assms(1) ans(2) assms(8)]
  show "decrypt_response lib (response_key er) b = Ok answer"
    by (simp add: decrypt_response_def opens(2) kp ans(4) wire_sizes wire_labels)
  from assms(11) kp obtain ct' key' where str:
    "instance_session lib coins (b64_encode lib rpk) ''e2e-stream-v1'' = Some (ct', key')"
    "seal_texts lib key' items = Some chunks" "init = b64_encode lib ct'"
    by (auto simp: instance_streams_def Option.bind_eq_Some_conv)
  have "b64_decode lib init = Ok ct'" using assms(1) str(3) by (simp add: e2e_laws_def)
  then have "stream_key lib (response_key er) init = Ok key'"
    using session_derived(2) [OF assms(1) kp str(1)] by (simp add: stream_key_def opens(2) kp wire_labels)
  with texts_decrypted [OF assms(1,10) str(2)]
  show "\<exists>key. stream_key lib (response_key er) init = Ok key \<and> map (decrypt_chunk lib key) chunks = map (Ok \<circ> snd) items"
    by blast
qed

text \<open>
  A response blob is accepted exactly when it is a 1088-byte ML-KEM ciphertext, a 12-byte nonce and at
  least a tag, the box opens under the key derived from the per-request secret, and its content
  is one whole gzip member of at most 32 MiB: what is returned is that member's content.
\<close>

theorem decrypt_response_exact:
  "decrypt_response lib sk b = Ok out \<longleftrightarrow>
     (\<exists>ct n c shared key packed. b = ct @ n @ c \<and> length ct = MLKEM768_CIPHERTEXT_BYTES
        \<and> length n = NONCE_LEN \<and> TAG_BYTES \<le> length c
        \<and> kem_decapsulate lib sk ct = Some shared \<and> hkdf lib (take 16 ct) shared INFO_RESPONSE = Some key
        \<and> aead_open lib key n c = Some packed
        \<and> gz_read lib (MAX_PLAINTEXT_BYTES + 1) packed = Ok (out, []) \<and> length out \<le> MAX_PLAINTEXT_BYTES)"
    (is "_ = ?rhs")
proof
  assume "decrypt_response lib sk b = Ok out"
  then obtain shared key packed where d:
    "MLKEM768_CIPHERTEXT_BYTES + NONCE_LEN + TAG_BYTES \<le> length b"
    "kem_decapsulate lib sk (take MLKEM768_CIPHERTEXT_BYTES b) = Some shared"
    "hkdf lib (take 16 (take MLKEM768_CIPHERTEXT_BYTES b)) shared INFO_RESPONSE = Some key"
    "aead_open lib key (take NONCE_LEN (drop MLKEM768_CIPHERTEXT_BYTES b))
       (drop NONCE_LEN (drop MLKEM768_CIPHERTEXT_BYTES b)) = Some packed"
    "gz_read lib (MAX_PLAINTEXT_BYTES + 1) packed = Ok (out, [])" "length out \<le> MAX_PLAINTEXT_BYTES"
    by (auto simp: decrypt_response_def Let_def result_simps e2e_simps)
  let ?rest = "drop MLKEM768_CIPHERTEXT_BYTES b"
  from d(1) have "b = take MLKEM768_CIPHERTEXT_BYTES b @ take NONCE_LEN ?rest @ drop NONCE_LEN ?rest"
    "length (take MLKEM768_CIPHERTEXT_BYTES b) = MLKEM768_CIPHERTEXT_BYTES"
    "length (take NONCE_LEN ?rest) = NONCE_LEN" "TAG_BYTES \<le> length (drop NONCE_LEN ?rest)"
    by (simp_all del: drop_drop)
  with d(2-6) show ?rhs by blast
next
  assume ?rhs
  then show "decrypt_response lib sk b = Ok out"
    by (auto simp: decrypt_response_def result_simps e2e_simps MLKEM768_CIPHERTEXT_BYTES_def)
qed

text \<open>A payload that already carries a reserved field is never encrypted.\<close>

lemma encrypt_request_reserved:
  "encrypt_request lib ent pk payload = Ok er \<Longrightarrow> \<not> list_ex (starts_e2e \<circ> fst) payload"
  by (auto simp: encrypt_request_def result_simps)

section \<open>Witnesses\<close>

definition demo_lib :: "(unit, unit) e2e_lib" where
  "demo_lib = \<lparr>b64_encode = (\<lambda>s. s), b64_decode = Ok, kem_public_ok = (\<lambda>_. True),
     kem_keypair = (\<lambda>_. ((), replicate MLKEM768_PUBLIC_KEY_BYTES (CHR ''k''))),
     kem_encapsulate = (\<lambda>_ _. (replicate MLKEM768_CIPHERTEXT_BYTES (CHR ''c''), [])),
     kem_decapsulate = (\<lambda>_ _. Some []), hkdf = (\<lambda>_ _ _. Some ()),
     aead_seal = (\<lambda>_ _ p. Some (p @ replicate TAG_BYTES (CHR ''t''))),
     aead_open = (\<lambda>_ _ c. Some (take (length c - TAG_BYTES) c)),
     gz_write = Ok, gz_read = (\<lambda>n y. if length y < n then Ok (y, []) else Ok (take n y, drop n y)),
     json_vec = (\<lambda>_. Ok ''{}'')\<rparr>"

definition demo_entropy :: entropy where
  "demo_entropy = \<lparr>key_seed = [], kem_coins = [], aead_nonce = replicate NONCE_LEN (CHR ''n'')\<rparr>"

lemma demo_lib_laws: "e2e_laws demo_lib"
  by (simp add: e2e_laws_def demo_lib_def wire_sizes)

definition demo_blob :: "string \<Rightarrow> string" where
  "demo_blob p = replicate MLKEM768_CIPHERTEXT_BYTES (CHR ''c'') @ replicate NONCE_LEN (CHR ''n'') @ p
     @ replicate TAG_BYTES (CHR ''t'')"

theorem e2e_roundtrip_witness:
  "instance_opens demo_lib () (demo_blob ''{}'') = Some ''{}''
   \<and> decrypt_response demo_lib () (demo_blob ''hello'') = Ok ''hello''
   \<and> (\<exists>key. stream_key demo_lib () (replicate MLKEM768_CIPHERTEXT_BYTES (CHR ''c'')) = Ok key
        \<and> decrypt_chunk demo_lib key (replicate 12 (CHR ''n'') @ ''one'' @ replicate 16 (CHR ''t'')) = Ok ''one'')"
proof -
  let ?er = "\<lparr>blob = demo_blob ''{}'', response_key = ()\<rparr>"
  let ?pk = "b64_encode demo_lib (snd (kem_keypair demo_lib (key_seed demo_entropy)))"
  have 1: "encrypt_request demo_lib demo_entropy (b64_encode demo_lib (replicate MLKEM768_PUBLIC_KEY_BYTES (CHR ''k''))) [] = Ok ?er"
    by (simp add: encrypt_request_def demo_lib_def demo_entropy_def demo_blob_def decode_public_key_def gzip_def
        derive_key_def seal_def) (simp add: MLKEM768_CIPHERTEXT_BYTES_def)
  have 2: "instance_answers demo_lib demo_entropy ?pk ''hello'' = Some (demo_blob ''hello'')"
    by (simp add: instance_answers_def instance_session_def instance_seals_def demo_lib_def demo_entropy_def demo_blob_def)
  have 3: "instance_streams demo_lib [] ?pk [(replicate 12 (CHR ''n''), ''one'')]
      = Some (replicate MLKEM768_CIPHERTEXT_BYTES (CHR ''c''), [replicate 12 (CHR ''n'') @ ''one'' @ replicate 16 (CHR ''t'')])"
    by (simp add: instance_streams_def instance_session_def instance_seals_def demo_lib_def TAG_BYTES_def)
  have 4: "list_all (\<lambda>(n, t). length n = 12 \<and> utf8_valid t) [(replicate 12 (CHR ''n''), ''one'')]"
    by code_simp
  show ?thesis
    using e2e_roundtrip [OF demo_lib_laws _ 1 _ _ _ _ _ 2 4 3, where seed = "[]" and bytes = "''{}''" and isk = "()"]
    by (simp add: demo_lib_def demo_entropy_def MAX_PLAINTEXT_BYTES_def NONCE_LEN_def)
qed

end
