(* ===== verification/Tee_Evidence.thy ===== *)
theory Tee_Evidence
  imports Chutes_Crypto Http_Messages
begin

text \<open>
  The evidence checks that the provider verifiers share (\<^verbatim>\<open>attestd/src/tee_evidence.rs\<close> and
  \<^verbatim>\<open>tee_evidence/nras.rs\<close>): the appraisal of a TDX quote's claims, and the verdict tokens of
  NVIDIA's attestation service.

  The crates behind them are the fields of the parameter \<open>tee_lib\<close>: the JSON parser, the decoders
  of base-64 and hexadecimal, SHA-256, the signature checks, the DER certificate parser, Intel's
  collateral service and its quote verifier with the strict policy of \<^verbatim>\<open>dcap_qvl\<close> (multi-socket
  platforms, cached keys and SMT allowed). Byte arrays are texts of their length; a Unix second is a
  \<^verbatim>\<open>u64\<close>.
\<close>

named_theorems tee_simps

section \<open>Quotes\<close>

record TDReport10 =
  td_attributes :: string
  mr_td :: string
  mr_config_id :: string
  rt_mr0 :: string
  rt_mr1 :: string
  rt_mr2 :: string
  rt_mr3 :: string
  report_data :: string

datatype Report = TD10 TDReport10 | TD15 TDReport10 | SgxEnclave

datatype TcbStatus = UpToDate | OtherTcb string

record QuoteClaims =
  report :: Report
  platform_tcb :: TcbStatus
  qe_tcb :: TcbStatus
  earliest_expiration_date :: u64

text \<open>A parsed certificate: the raw key of its \<^verbatim>\<open>SubjectPublicKeyInfo\<close>, and what else the checks read.\<close>

record certificate =
  spki_raw :: string
  spki_data :: string
  is_rsa :: bool
  is_p256 :: bool
  currently_valid :: bool
  not_after :: int

record Jwk =
  kid :: string
  kty :: string
  crv :: string
  jwk_x :: string
  jwk_y :: string

record tee_lib =
  json_of :: "string \<Rightarrow> anyhow + json"
  b64url :: "string \<Rightarrow> anyhow + string"
  b64std :: "string \<Rightarrow> anyhow + string"
  hex_encode :: "string \<Rightarrow> string"
  hex_decode :: "string \<Rightarrow> anyhow + string"
  sha256 :: "string \<Rightarrow> string"
  es384_ok :: "string \<Rightarrow> string \<Rightarrow> string \<Rightarrow> bool"
  rsa_ok :: "string \<Rightarrow> string \<Rightarrow> string \<Rightarrow> bool"
  parse_x509 :: "string \<Rightarrow> anyhow + string \<times> certificate"
  jwks_document :: "string \<Rightarrow> anyhow + json list"
  jwk_of_value :: "json \<Rightarrow> Jwk option"
  verify_chain :: "string \<Rightarrow> string \<Rightarrow> u64 \<Rightarrow> anyhow + QuoteClaims"
  strict_policy :: "u64 \<Rightarrow> QuoteClaims \<Rightarrow> anyhow + unit"

definition spki_sha256 :: "tee_lib \<Rightarrow> string \<Rightarrow> anyhow + string" where
  "spki_sha256 T der =
     bind_r (map_err (\<lambda>e. ''parse TLS certificate: '' @ e) (parse_x509 T der)) (\<lambda>(_, cert).
     Ok (sha256 T (spki_raw cert)))"

fun td_report :: "Report \<Rightarrow> anyhow + TDReport10" where
  "td_report (TD10 td) = Ok td"
| "td_report (TD15 td) = Ok td"
| "td_report SgxEnclave = Err ''attestation is SGX, expected TDX''"

fun tcb_debug :: "TcbStatus \<Rightarrow> string" where
  "tcb_debug UpToDate = ''UpToDate''"
| "tcb_debug (OtherTcb s) = s"

definition appraise :: "tee_lib \<Rightarrow> QuoteClaims \<Rightarrow> u64 \<Rightarrow> anyhow + TDReport10" where
  "appraise T claims now =
     bind_r (with_context ''TDX quote fails the UpToDate DCAP policy'' (strict_policy T now claims)) (\<lambda>_.
     bind_r (ensure (platform_tcb claims = UpToDate)
       (''TDX platform TCB status is '' @ tcb_debug (platform_tcb claims) @ '', expected UpToDate'')) (\<lambda>_.
     bind_r (ensure (qe_tcb claims = UpToDate)
       (''TDX QE TCB status is '' @ tcb_debug (qe_tcb claims) @ '', expected UpToDate'')) (\<lambda>_.
     bind_r (td_report (report claims)) (\<lambda>td.
     bind_r (ensure (byte_of (td_attributes td ! 0) mod 2 = 0) ''TDX quote has the debug attribute set'') (\<lambda>_.
     Ok td)))))"

definition verify_signature_chain :: "tee_lib \<Rightarrow> string \<Rightarrow> string \<Rightarrow> u64 \<Rightarrow> anyhow + QuoteClaims" where
  "verify_signature_chain T quote bundle now =
     with_context ''verify TDX quote signature chain'' (verify_chain T quote bundle now)"

text \<open>\<^verbatim>\<open>verify_quote\<close>: \<open>bundle\<close> is what the collateral service answered, \<open>clock\<close> the second read after it.\<close>

definition verify_quote :: "tee_lib \<Rightarrow> anyhow + string \<Rightarrow> anyhow + u64 \<Rightarrow> string \<Rightarrow> anyhow + QuoteClaims" where
  "verify_quote T bundle clock quote =
     bind_r (with_context ''fetch Intel DCAP collateral'' bundle) (\<lambda>bundle.
     bind_r (with_context ''system clock predates the Unix epoch'' clock) (\<lambda>now.
     bind_r (verify_signature_chain T quote bundle now) (\<lambda>claims.
     bind_r (appraise T claims now) (\<lambda>_. Ok claims))))"

section \<open>Verdict tokens of NRAS\<close>

definition NRAS_ORIGIN :: string where "NRAS_ORIGIN = ''https://nras.attestation.nvidia.com''"
definition MAX_NRAS_BYTES :: nat where "MAX_NRAS_BYTES = 4 * 1024 * 1024"

definition REQUIRED_GPU_CLAIMS :: "string list" where
  "REQUIRED_GPU_CLAIMS = [
     ''x-nvidia-gpu-attestation-report-signature-verified'',
     ''x-nvidia-gpu-attestation-report-nonce-match'',
     ''x-nvidia-gpu-arch-check'',
     ''x-nvidia-gpu-attestation-report-cert-chain-fwid-match'',
     ''x-nvidia-gpu-driver-rim-signature-verified'',
     ''x-nvidia-gpu-driver-rim-version-match'',
     ''x-nvidia-gpu-driver-rim-measurements-available'',
     ''x-nvidia-gpu-vbios-rim-signature-verified'',
     ''x-nvidia-gpu-vbios-rim-version-match'',
     ''x-nvidia-gpu-vbios-rim-measurements-available'']"

definition get_string :: "string \<Rightarrow> json \<Rightarrow> string option" where
  "get_string k v = Option.bind (json_get k v) as_str"

definition get_boolean :: "string \<Rightarrow> json \<Rightarrow> bool option" where
  "get_boolean k v = Option.bind (json_get k v) as_bool"

definition nth_o :: "nat \<Rightarrow> 'a list \<Rightarrow> 'a option" where
  "nth_o i xs = (if i < length xs then Some (xs ! i) else None)"

definition aggregate_token :: "json \<Rightarrow> anyhow + string" where
  "aggregate_token response =
     ok_or (Option.bind (as_array response) (\<lambda>outer. Option.bind (nth_o 0 outer) (\<lambda>first.
       Option.bind (as_array first) (\<lambda>pair. Option.bind (nth_o 1 pair) as_str))))
       ''NVIDIA NRAS response has no verdict token''"

definition unverified_claims :: "tee_lib \<Rightarrow> string \<Rightarrow> anyhow + json" where
  "unverified_claims T token =
     bind_r (ok_or (nth_o 1 (split_on (CHR ''.'') token)) ''NVIDIA NRAS verdict is not a JWT'') (\<lambda>payload.
     bind_r (with_context ''decode NVIDIA NRAS verdict payload'' (b64url T payload)) (\<lambda>bytes.
     with_context ''parse NVIDIA NRAS verdict payload'' (json_of T bytes)))"

definition require_overall_success :: "json \<Rightarrow> anyhow + unit" where
  "require_overall_success claims =
     ensure (get_boolean ''x-nvidia-overall-att-result'' claims = Some True)
       ''NVIDIA NRAS did not return a successful GPU attestation verdict''"

type_synonym Jwks = "(string, string) btree_map"

fun jwks_keys :: "tee_lib \<Rightarrow> json list \<Rightarrow> Jwks \<Rightarrow> anyhow + Jwks" where
  "jwks_keys T [] keys = Ok keys"
| "jwks_keys T (v # vs) keys =
     (case jwk_of_value T v of
        None \<Rightarrow> jwks_keys T vs keys
      | Some key \<Rightarrow>
          if kty key \<noteq> ''EC'' \<or> crv key \<noteq> ''P-384'' then jwks_keys T vs keys
          else bind_r (with_context ''decode NVIDIA JWK x'' (b64url T (jwk_x key))) (\<lambda>x.
               bind_r (with_context ''decode NVIDIA JWK y'' (b64url T (jwk_y key))) (\<lambda>y.
               bind_r (ensure (length x = 48 \<and> length y = 48)
                 (''NVIDIA JWK '' @ kid key @ '' is not a P-384 point'')) (\<lambda>_.
               jwks_keys T vs (bt_insert (kid key) (CHR 0x04 # x @ y) keys)))))"

definition Jwks_parse :: "tee_lib \<Rightarrow> string \<Rightarrow> anyhow + Jwks" where
  "Jwks_parse T body =
     bind_r (with_context ''decode NVIDIA JWKS'' (jwks_document T body)) (\<lambda>vs.
     bind_r (jwks_keys T vs []) (\<lambda>keys.
     bind_r (ensure (keys \<noteq> []) ''NVIDIA JWKS has no P-384 signing key'') (\<lambda>_. Ok keys)))"

definition Jwks_verify :: "tee_lib \<Rightarrow> Jwks \<Rightarrow> string \<Rightarrow> anyhow + json" where
  "Jwks_verify T keys token =
     bind_r (ok_or (rsplit_once (CHR ''.'') token) ''NVIDIA token is not a compact JWT'') (\<lambda>(signed, signature).
     bind_r (ok_or (split_once (CHR ''.'') signed) ''NVIDIA token is not a compact JWT'') (\<lambda>(header, payload).
     bind_r (with_context ''decode NVIDIA token header'' (b64url T header)) (\<lambda>header.
     bind_r (with_context ''parse NVIDIA token header'' (json_of T header)) (\<lambda>header.
     bind_r (ensure (get_string ''alg'' header = Some ''ES384'') ''NVIDIA token is not ES384'') (\<lambda>_.
     bind_r (ok_or (get_string ''kid'' header) ''NVIDIA token header has no kid'') (\<lambda>k.
     bind_r (ok_or (map_of keys k) (''NVIDIA token kid '' @ k @ '' is not in the JWKS'')) (\<lambda>key.
     bind_r (with_context ''decode NVIDIA token signature'' (b64url T signature)) (\<lambda>signature.
     bind_r (ensure (es384_ok T key signed signature) ''NVIDIA token signature is invalid'') (\<lambda>_.
     bind_r (with_context ''decode NVIDIA token'' (b64url T payload)) (\<lambda>payload.
     with_context ''parse NVIDIA token claims'' (json_of T payload)))))))))))"

definition split_v4 :: "json \<Rightarrow> anyhow + string \<times> (string \<times> json) list" where
  "split_v4 response =
     bind_r (ok_or (filter_o (\<lambda>outer. length outer = 2) (as_array response))
       ''NRAS v4 response is not [aggregate, per-GPU]'') (\<lambda>outer.
     bind_r (ok_or (Option.bind (filter_o (\<lambda>pair. length pair = 2 \<and> as_str (pair ! 0) = Some ''JWT'') (as_array (outer ! 0)))
         (\<lambda>pair. as_str (pair ! 1)))
       ''NRAS v4 response has no aggregate JWT'') (\<lambda>aggregate.
     bind_r (ok_or (as_object (outer ! 1)) ''NRAS v4 response has no per-GPU verdicts'') (\<lambda>gpus.
     Ok (aggregate, gpus))))"

definition token_expiry :: "json \<Rightarrow> string \<Rightarrow> u64 \<Rightarrow> anyhow + u64" where
  "token_expiry claims nonce_hex now =
     bind_r (ensure (get_string ''iss'' claims = Some NRAS_ORIGIN) (''NRAS token issuer is not '' @ NRAS_ORIGIN)) (\<lambda>_.
     bind_r (ok_or (get_string ''eat_nonce'' claims) ''NRAS token has no eat_nonce'') (\<lambda>n.
     bind_r (ensure (eq_ignore_ascii_case n nonce_hex) ''NRAS token nonce does not match the attested nonce'') (\<lambda>_.
     bind_r (ok_or (Option.bind (json_get ''exp'' claims) as_u64) ''NRAS token has no exp'') (\<lambda>expires.
     bind_r (ensure (expires > now) (''NRAS token expired at '' @ u64_to_string expires)) (\<lambda>_. Ok expires)))))"

fun require_claims :: "json \<Rightarrow> string list \<Rightarrow> anyhow + unit" where
  "require_claims claims [] = Ok ()"
| "require_claims claims (name # names) =
     bind_r (ensure (get_boolean name claims = Some True) (''GPU claim '' @ name @ '' is not true'')) (\<lambda>_.
     require_claims claims names)"

definition appraise_gpu :: "json \<Rightarrow> anyhow + unit" where
  "appraise_gpu claims =
     bind_r (ensure (get_string ''measres'' claims = Some ''success'') ''GPU measurement result is not success'') (\<lambda>_.
     bind_r (ensure (get_boolean ''secboot'' claims = Some True) ''GPU secure boot is not on'') (\<lambda>_.
     bind_r (ensure (get_string ''dbgstat'' claims = Some ''disabled'') ''GPU debug is not disabled'') (\<lambda>_.
     require_claims claims REQUIRED_GPU_CLAIMS)))"

text \<open>One GPU's verdict: the expiry of its token.\<close>

definition appraise_verdict :: "tee_lib \<Rightarrow> Jwks \<Rightarrow> string \<Rightarrow> u64 \<Rightarrow> (string \<times> json) list \<Rightarrow> string \<times> json \<Rightarrow> anyhow + u64" where
  "appraise_verdict T keys nonce_hex now digests = (\<lambda>(name, v).
     bind_r (ok_or (as_str v) (''NRAS verdict '' @ name @ '' is not a token'')) (\<lambda>token.
     bind_r (ok_or (Option.bind (map_of digests name) (\<lambda>d. Option.bind (json_pointer [''1'', ''1''] d) as_str))
       (''NRAS aggregate commits to no digest for '' @ name)) (\<lambda>committed.
     bind_r (ensure (eq_ignore_ascii_case committed (hex_encode T (sha256 T token)))
       (''NRAS verdict '' @ name @ '' differs from the digest in the aggregate token'')) (\<lambda>_.
     bind_r (with_context (''verify NRAS verdict '' @ name) (Jwks_verify T keys token)) (\<lambda>claims.
     bind_r (token_expiry claims nonce_hex now) (\<lambda>expires.
     bind_r (with_context (''NRAS verdict '' @ name) (appraise_gpu claims)) (\<lambda>_. Ok expires)))))))"

fun appraise_verdicts :: "tee_lib \<Rightarrow> Jwks \<Rightarrow> string \<Rightarrow> u64 \<Rightarrow> (string \<times> json) list \<Rightarrow> (string \<times> json) list \<Rightarrow> u64
    \<Rightarrow> anyhow + u64" where
  "appraise_verdicts T keys nonce_hex now digests [] expires = Ok expires"
| "appraise_verdicts T keys nonce_hex now digests (g # gs) expires =
     bind_r (appraise_verdict T keys nonce_hex now digests g) (\<lambda>e.
     appraise_verdicts T keys nonce_hex now digests gs (min expires e))"

definition appraise_v4 :: "tee_lib \<Rightarrow> json \<Rightarrow> Jwks \<Rightarrow> string \<Rightarrow> nat \<Rightarrow> u64 \<Rightarrow> anyhow + u64" where
  "appraise_v4 T response keys nonce_hex gpu_count now =
     bind_r (split_v4 response) (\<lambda>(aggregate, gpu_tokens).
     bind_r (ensure (length gpu_tokens = gpu_count)
       (''NRAS returned '' @ nat_to_string (length gpu_tokens) @ '' GPU verdicts for '' @ nat_to_string gpu_count @
        '' submitted GPUs'')) (\<lambda>_.
     bind_r (with_context ''verify NRAS aggregate token'' (Jwks_verify T keys aggregate)) (\<lambda>aggregate.
     bind_r (token_expiry aggregate nonce_hex now) (\<lambda>expires.
     bind_r (require_overall_success aggregate) (\<lambda>_.
     bind_r (ok_or (Option.bind (json_get ''submods'' aggregate) as_object) ''NRAS aggregate token has no submods'') (\<lambda>digests.
     appraise_verdicts T keys nonce_hex now digests gpu_tokens expires))))))"

text \<open>\<^verbatim>\<open>get_bounded\<close> on an answer of the service.\<close>

definition nras_bounded :: "(u16 \<Rightarrow> string) \<Rightarrow> anyhow \<Rightarrow> anyhow + http_response \<Rightarrow> anyhow + string" where
  "nras_bounded show_status transport answer =
     bind_r (with_context ''reach NVIDIA NRAS'' answer) (\<lambda>r.
     bind_r (ensure (200 \<le> status_code r \<and> status_code r < 300) (''NVIDIA NRAS answered '' @ show_status (status_code r))) (\<lambda>_.
     read_bounded (''read NVIDIA NRAS response: '' @ transport)
       (''NVIDIA NRAS response exceeds '' @ nat_to_string MAX_NRAS_BYTES @ '' bytes'') MAX_NRAS_BYTES (response_body r) []))"

definition nras_jwks :: "tee_lib \<Rightarrow> (u16 \<Rightarrow> string) \<Rightarrow> anyhow \<Rightarrow> anyhow + http_response \<Rightarrow> anyhow + Jwks" where
  "nras_jwks T show_status transport answer =
     bind_r (nras_bounded show_status transport answer) (\<lambda>body. Jwks_parse T body)"

definition attest_v4 :: "tee_lib \<Rightarrow> (u16 \<Rightarrow> string) \<Rightarrow> anyhow \<Rightarrow> anyhow + http_response \<Rightarrow> anyhow + json" where
  "attest_v4 T show_status transport answer =
     bind_r (nras_bounded show_status transport answer) (\<lambda>body.
     with_context ''decode NVIDIA NRAS response'' (json_of T body))"

section \<open>Laws\<close>

lemma td_report_Ok [tee_simps]: "td_report r = Ok td \<longleftrightarrow> r = TD10 td \<or> r = TD15 td"
  by (cases r) auto

lemma appraise_Ok [tee_simps]:
  "appraise T claims now = Ok td \<longleftrightarrow> strict_policy T now claims = Ok () \<and> platform_tcb claims = UpToDate
     \<and> qe_tcb claims = UpToDate \<and> td_report (report claims) = Ok td \<and> even (byte_of (td_attributes td ! 0))"
  by (auto simp: appraise_def result_simps even_iff_mod_2_eq_zero)

lemma verify_quote_Ok [tee_simps]:
  "verify_quote T bundle clock quote = Ok claims \<longleftrightarrow>
     (\<exists>b now td. bundle = Ok b \<and> clock = Ok now \<and> verify_chain T quote b now = Ok claims \<and> appraise T claims now = Ok td)"
  by (auto simp: verify_quote_def verify_signature_chain_def result_simps)

text \<open>
  A token's claims are signed: it is a compact JWT whose header names ES384 and a published key that
  verifies the signature over header and payload.
\<close>

definition signed_claims :: "tee_lib \<Rightarrow> Jwks \<Rightarrow> string \<Rightarrow> json \<Rightarrow> bool" where
  "signed_claims T keys tok claims \<longleftrightarrow>
     (\<exists>h p s hb hdr k key sig pb. tok = h @ ''.'' @ p @ ''.'' @ s \<and> CHR ''.'' \<notin> set h \<and> CHR ''.'' \<notin> set s
        \<and> b64url T h = Ok hb \<and> json_of T hb = Ok hdr
        \<and> get_string ''alg'' hdr = Some ''ES384'' \<and> get_string ''kid'' hdr = Some k \<and> map_of keys k = Some key
        \<and> b64url T s = Ok sig \<and> es384_ok T key (h @ ''.'' @ p) sig
        \<and> b64url T p = Ok pb \<and> json_of T pb = Ok claims)"

lemma Jwks_verify_Ok: "Jwks_verify T keys tok = Ok claims \<longleftrightarrow> signed_claims T keys tok claims"
proof
  assume "Jwks_verify T keys tok = Ok claims"
  then obtain signed s h p hb hdr k key sig pb where v: "rsplit_once (CHR ''.'') tok = Some (signed, s)"
    "split_once (CHR ''.'') signed = Some (h, p)" "b64url T h = Ok hb" "json_of T hb = Ok hdr"
    "get_string ''alg'' hdr = Some ''ES384''" "get_string ''kid'' hdr = Some k" "map_of keys k = Some key"
    "b64url T s = Ok sig" "es384_ok T key signed sig" "b64url T p = Ok pb" "json_of T pb = Ok claims"
    by (auto simp: Jwks_verify_def result_simps)
  then have "signed = h @ ''.'' @ p" "tok = h @ ''.'' @ p @ ''.'' @ s" "CHR ''.'' \<notin> set h" "CHR ''.'' \<notin> set s"
    by (auto simp: rsplit_once_Some split_once_Some)
  with v(3-) show "signed_claims T keys tok claims"
    unfolding signed_claims_def by blast
next
  assume "signed_claims T keys tok claims"
  then obtain h p s hb hdr k key sig pb where v: "tok = h @ ''.'' @ p @ ''.'' @ s" "CHR ''.'' \<notin> set h" "CHR ''.'' \<notin> set s"
    "b64url T h = Ok hb" "json_of T hb = Ok hdr" "get_string ''alg'' hdr = Some ''ES384''" "get_string ''kid'' hdr = Some k"
    "map_of keys k = Some key" "b64url T s = Ok sig" "es384_ok T key (h @ ''.'' @ p) sig"
    "b64url T p = Ok pb" "json_of T pb = Ok claims"
    unfolding signed_claims_def by blast
  then have "rsplit_once (CHR ''.'') tok = Some (h @ ''.'' @ p, s)" "split_once (CHR ''.'') (h @ ''.'' @ p) = Some (h, p)"
    by (auto simp: rsplit_once_Some split_once_Some)
  with v(4-) show "Jwks_verify T keys tok = Ok claims"
    by (simp add: Jwks_verify_def)
qed

definition valid_for :: "string \<Rightarrow> u64 \<Rightarrow> json \<Rightarrow> u64 \<Rightarrow> bool" where
  "valid_for nonce_hex now claims e \<longleftrightarrow> get_string ''iss'' claims = Some NRAS_ORIGIN
     \<and> (\<exists>n. get_string ''eat_nonce'' claims = Some n \<and> eq_ignore_ascii_case n nonce_hex)
     \<and> Option.bind (json_get ''exp'' claims) as_u64 = Some e \<and> now < e"

lemma token_expiry_Ok: "token_expiry claims nonce_hex now = Ok e \<longleftrightarrow> valid_for nonce_hex now claims e"
  by (auto simp: token_expiry_def valid_for_def result_simps)

definition gpu_good :: "json \<Rightarrow> bool" where
  "gpu_good claims \<longleftrightarrow> get_string ''measres'' claims = Some ''success'' \<and> get_boolean ''secboot'' claims = Some True
     \<and> get_string ''dbgstat'' claims = Some ''disabled''
     \<and> list_all (\<lambda>name. get_boolean name claims = Some True) REQUIRED_GPU_CLAIMS"

lemma require_claims_Ok: "require_claims claims names = Ok u \<longleftrightarrow> list_all (\<lambda>name. get_boolean name claims = Some True) names"
  by (induction names) (auto simp: result_simps)

lemma appraise_gpu_Ok: "appraise_gpu claims = Ok u \<longleftrightarrow> gpu_good claims"
  by (auto simp: appraise_gpu_def gpu_good_def result_simps require_claims_Ok)

text \<open>A GPU's verdict is good: committed by digest in the aggregate, signed, valid and successful.\<close>

definition verdict_good :: "tee_lib \<Rightarrow> Jwks \<Rightarrow> string \<Rightarrow> u64 \<Rightarrow> (string \<times> json) list \<Rightarrow> string \<times> json \<Rightarrow> u64 \<Rightarrow> bool" where
  "verdict_good T keys nonce_hex now digests g e \<longleftrightarrow>
     (\<exists>tok d committed claims. snd g = JString tok
        \<and> map_of digests (fst g) = Some d \<and> json_pointer [''1'', ''1''] d = Some (JString committed)
        \<and> eq_ignore_ascii_case committed (hex_encode T (sha256 T tok))
        \<and> signed_claims T keys tok claims \<and> valid_for nonce_hex now claims e \<and> gpu_good claims)"

lemma appraise_verdict_Ok:
  "appraise_verdict T keys nonce_hex now digests g = Ok e \<longleftrightarrow> verdict_good T keys nonce_hex now digests g e"
  by (cases g) (auto simp: appraise_verdict_def verdict_good_def result_simps bind_eq_Some_conv Jwks_verify_Ok
      token_expiry_Ok appraise_gpu_Ok)

lemma appraise_verdicts_Ok:
  "appraise_verdicts T keys nonce_hex now digests gs e0 = Ok e \<longleftrightarrow>
     (\<exists>es. list_all2 (verdict_good T keys nonce_hex now digests) gs es \<and> e = foldl min e0 es)"
proof (induction gs arbitrary: e0)
  case (Cons g gs)
  show ?case
  proof
    assume "appraise_verdicts T keys nonce_hex now digests (g # gs) e0 = Ok e"
    then obtain e1 es where "verdict_good T keys nonce_hex now digests g e1"
      "list_all2 (verdict_good T keys nonce_hex now digests) gs es" "e = foldl min (min e0 e1) es"
      by (auto simp: result_simps appraise_verdict_Ok Cons.IH)
    then show "\<exists>es. list_all2 (verdict_good T keys nonce_hex now digests) (g # gs) es \<and> e = foldl min e0 es"
      by (intro exI [of _ "e1 # es"]) simp
  next
    assume "\<exists>es. list_all2 (verdict_good T keys nonce_hex now digests) (g # gs) es \<and> e = foldl min e0 es"
    then obtain e1 es where es: "verdict_good T keys nonce_hex now digests g e1"
      "list_all2 (verdict_good T keys nonce_hex now digests) gs es" "e = foldl min (min e0 e1) es"
      by (auto simp: list_all2_Cons1)
    then have "appraise_verdicts T keys nonce_hex now digests gs (min e0 e1) = Ok e"
      unfolding Cons.IH by blast
    with es(1) show "appraise_verdicts T keys nonce_hex now digests (g # gs) e0 = Ok e"
      by (simp flip: appraise_verdict_Ok)
  qed
qed auto

lemma split_v4_Ok:
  "split_v4 response = Ok (agg, gpus) \<longleftrightarrow> response = JArray [JArray [JString ''JWT'', JString agg], JObject gpus]"
proof -
  have arr: "as_array v = Some xs \<longleftrightarrow> v = JArray xs" for v xs by (cases v) auto
  have two: "length xs = Suc (Suc 0) \<longleftrightarrow> (\<exists>a b. xs = [a, b])" for xs :: "json list"
    by (auto simp: length_Suc_conv)
  show ?thesis
    by (auto simp: split_v4_def result_simps bind_eq_Some_conv arr two numeral_2_eq_2)
qed

lemma foldl_min_le: "foldl min (e :: u64) es \<le> e \<and> (\<forall>x \<in> set es. foldl min e es \<le> x)"
proof (induction es arbitrary: e)
  case (Cons x es)
  from Cons [of "min e x"] show ?case by auto
qed simp

lemma foldl_min_in: "foldl min (e :: u64) es \<in> set (e # es)"
proof (induction es arbitrary: e)
  case (Cons x es)
  from Cons [of "min e x"] show ?case by (auto simp: min_def split: if_splits)
qed simp

section \<open>Properties\<close>

text \<open>
  C29: The GPU verdict of NRAS is accepted exactly when the response is one aggregate token and as many GPU
  tokens as GPUs were submitted; the aggregate is signed by a published key, from NRAS, for this
  nonce, unexpired and successful; and every GPU token is committed by its digest in the aggregate,
  itself signed and valid for the nonce, and reports measurement, secure boot, debug and all ten
  required checks as good. The expiry returned is the earliest of all the tokens.
\<close>

theorem appraise_v4_exact:
  "appraise_v4 T response keys nonce_hex gpu_count now = Ok e \<longleftrightarrow>
     (\<exists>agg gpus claims e0 digests es.
        response = JArray [JArray [JString ''JWT'', JString agg], JObject gpus] \<and> length gpus = gpu_count
      \<and> signed_claims T keys agg claims \<and> valid_for nonce_hex now claims e0
      \<and> get_boolean ''x-nvidia-overall-att-result'' claims = Some True
      \<and> json_get ''submods'' claims = Some (JObject digests)
      \<and> list_all2 (verdict_good T keys nonce_hex now digests) gpus es \<and> e = foldl min e0 es)"
  by (auto simp: appraise_v4_def result_simps split_v4_Ok Jwks_verify_Ok token_expiry_Ok require_overall_success_def
      bind_eq_Some_conv appraise_verdicts_Ok)

text \<open>The JWKS holds only uncompressed P-384 points.\<close>

definition point_map :: "Jwks \<Rightarrow> bool" where
  "point_map keys \<longleftrightarrow> bt_wf keys \<and> (\<forall>k p. map_of keys k = Some p \<longrightarrow> length p = 97 \<and> hd p = CHR 0x04)"

lemma jwks_keys_points: "jwks_keys T vs keys = Ok keys' \<Longrightarrow> point_map keys \<Longrightarrow> point_map keys'"
proof (induction vs arbitrary: keys)
  case (Cons v vs)
  have "point_map (bt_insert k (CHR 0x04 # x @ y) keys)" if "length x = 48" "length y = 48" for k x y
    using that Cons.prems(2) by (auto simp: point_map_def map_simps)
  with Cons show ?case
    by (auto simp: result_simps split: option.splits if_splits)
qed simp

lemma Jwks_parse_points: "Jwks_parse T body = Ok keys \<Longrightarrow> keys \<noteq> [] \<and> point_map keys"
  by (auto simp: Jwks_parse_def result_simps point_map_def dest!: jwks_keys_points)

end
