(* ===== verification/Chutes_Types.thy ===== *)
theory Chutes_Types
  imports Strict_Json Gateway_Contract
begin

text \<open>
  The Chutes transport's targets, errors and discovery documents
  (\<^verbatim>\<open>attestd/src/chutes_verify.rs\<close>, \<^verbatim>\<open>chutes_verify/error.rs\<close>, \<^verbatim>\<open>chutes_verify/evidence.rs\<close>).

  An \<^verbatim>\<open>anyhow::Error\<close> is the text it prints. The text of an HTTP status (the \<^verbatim>\<open>http\<close> crate's table)
  is the parameter \<open>show_status\<close>, the serde decoder of a discovery body the parameter
  \<open>decode\<close>, and the ML-KEM key check the parameter \<open>key_ok\<close>.
\<close>

section \<open>Targets\<close>

record ChutesTarget =
  target_model :: string
  chute_id :: string

definition TARGETS :: "ChutesTarget list" where
  "TARGETS = [
     \<lparr>target_model = ''Qwen/Qwen3-32B-TEE'', chute_id = ''ac059e33-eb27-541c-b9a9-24b214036475''\<rparr>,
     \<lparr>target_model = ''google/gemma-4-31B-turbo-TEE'', chute_id = ''42ee92ba-a537-5a73-8741-876067750db7''\<rparr>,
     \<lparr>target_model = ''zai-org/GLM-5.1-TEE'', chute_id = ''b048fe26-0352-5c46-acf7-335e527e7f3d''\<rparr>,
     \<lparr>target_model = ''deepseek-ai/DeepSeek-V3.2-TEE'', chute_id = ''398651e1-5f85-5e50-a513-7c5324e8e839''\<rparr>,
     \<lparr>target_model = ''moonshotai/Kimi-K2.6-TEE'', chute_id = ''aac09863-35b4-5d9b-9b67-6e6a9d54273a''\<rparr>,
     \<lparr>target_model = ''Qwen/Qwen3.5-397B-A17B-TEE'', chute_id = ''51a4284a-a5a0-5e44-a9cc-6af5a2abfbcf''\<rparr>,
     \<lparr>target_model = ''Qwen/Qwen3.6-27B-TEE'', chute_id = ''7aa5e899-c0ba-5482-af48-d3f31d635c9f''\<rparr>,
     \<lparr>target_model = ''Qwen/Qwen3-235B-A22B-Thinking-2507-TEE'', chute_id = ''21d129e5-8426-5c29-a6be-844e0f5f5e30''\<rparr>,
     \<lparr>target_model = ''unsloth/Mistral-Nemo-Instruct-2407-TEE'', chute_id = ''7725a31d-28df-5bb7-9d29-c23b49df5472''\<rparr>,
     \<lparr>target_model = ''zai-org/GLM-5.2-TEE'', chute_id = ''08901219-159f-55a7-87cf-9d0d02744668''\<rparr>,
     \<lparr>target_model = ''deepseek-ai/DeepSeek-V4-Flash-0731-TEE'', chute_id = ''b4d58772-e72b-55d1-9d73-d30dff6d2ed8''\<rparr>,
     \<lparr>target_model = ''moonshotai/Kimi-K3-TEE'', chute_id = ''0bb5d4c2-b5da-587d-b88e-62b4839028ec''\<rparr>,
     \<lparr>target_model = ''Nemotron-3-Nano-Omni-30B-TEE'', chute_id = ''761ccdab-2e3d-5268-ab03-55f8ba94a80c''\<rparr>]"

definition target_for_model :: "string \<Rightarrow> ChutesTarget option" where
  "target_for_model m = find (\<lambda>t. target_model t = m) TARGETS"

section \<open>Errors\<close>

datatype ChutesError =
    BadRequest string
  | MissingCredential
  | UpstreamStatus string u16
  | Unavailable string
  | RateLimited string
  | BelowEvidenceMinimum
  | AttestationRejected string
  | BadResponse string

fun display :: "(u16 \<Rightarrow> string) \<Rightarrow> ChutesError \<Rightarrow> string" where
  "display show_status (BadRequest s) = s"
| "display show_status MissingCredential = ''the request carries no Chutes bearer credential''"
| "display show_status (UpstreamStatus stage code) = ''Chutes '' @ stage @ '' answered '' @ show_status code"
| "display show_status (Unavailable s) = ''attestation unavailable: '' @ s"
| "display show_status (RateLimited stage) =
     ''attestation unavailable: Chutes '' @ stage @ '' answered 429 Too Many Requests''"
| "display show_status BelowEvidenceMinimum =
     ''attestation rejected: the chute'' @ [CHR 0x27] @ ''s version is below Chutes'' @ [CHR 0x27] @ '' evidence minimum''"
| "display show_status (AttestationRejected s) = ''attestation rejected: '' @ s"
| "display show_status (BadResponse s) = ''response rejected: '' @ s"

fun error_status :: "ChutesError \<Rightarrow> u16" where
  "error_status (BadRequest _) = 400"
| "error_status MissingCredential = 401"
| "error_status (UpstreamStatus _ code) = code"
| "error_status (Unavailable _) = 503"
| "error_status (RateLimited _) = 503"
| "error_status BelowEvidenceMinimum = 502"
| "error_status (AttestationRejected _) = 502"
| "error_status (BadResponse _) = 502"

fun error_kind :: "ChutesError \<Rightarrow> string" where
  "error_kind (BadRequest _) = ''gm_chutes_bad_request''"
| "error_kind MissingCredential = ''gm_chutes_missing_credential''"
| "error_kind (UpstreamStatus _ _) = ''gm_chutes_upstream_status''"
| "error_kind (Unavailable _) = ''gm_chutes_attestation_unavailable''"
| "error_kind (RateLimited _) = ''gm_chutes_attestation_unavailable''"
| "error_kind BelowEvidenceMinimum = ''gm_chutes_attestation_rejected''"
| "error_kind (AttestationRejected _) = ''gm_chutes_attestation_rejected''"
| "error_kind (BadResponse _) = ''gm_chutes_response_rejected''"

fun account_marker :: "ChutesError \<Rightarrow> string option" where
  "account_marker MissingCredential = Some ''invalid_api_key''"
| "account_marker (UpstreamStatus _ code) =
     (if code = 401 \<or> code = 403 then Some ''invalid_api_key''
      else if code = 402 then Some ''insufficient_quota'' else None)"
| "account_marker _ = None"

definition error_message :: "(u16 \<Rightarrow> string) \<Rightarrow> ChutesError \<Rightarrow> string" where
  "error_message show_status e =
     (case account_marker e of
        Some marker \<Rightarrow> display show_status e @ '' ('' @ marker @ '')''
      | None \<Rightarrow> display show_status e)"

text \<open>The response: its status and its JSON document.\<close>

definition chutes_error_response :: "(u16 \<Rightarrow> string) \<Rightarrow> ChutesError \<Rightarrow> u16 \<times> json" where
  "chutes_error_response show_status e =
     (error_status e, JObject [(''error'', JObject [(''type'', JString (error_kind e)),
        (''message'', JString (error_message show_status e))])])"

section \<open>Discovery\<close>

definition MAX_INSTANCES :: nat where "MAX_INSTANCES = 5"
definition MAX_NONCE_LIFETIME_SECS :: nat where "MAX_NONCE_LIFETIME_SECS = 75"

record DiscoveredInstance =
  instance_id :: string
  e2e_pubkey :: string
  nonces :: "string list"

record Discovery =
  instances :: "DiscoveredInstance list"
  nonce_expires_in :: u64

definition nonce_lifetime :: "Discovery \<Rightarrow> duration" where
  "nonce_lifetime d = secs (unat (nonce_expires_in d))"

datatype discovery_error =
  Undecodable | BadInstanceCount | BadNonceLifetime | BadKey | RepeatedInstance | RepeatedNonce

text \<open>The loop over the instances, with those before it.\<close>

fun check_instances :: "(string \<Rightarrow> bool) \<Rightarrow> DiscoveredInstance list \<Rightarrow> DiscoveredInstance list
    \<Rightarrow> discovery_error + unit" where
  "check_instances key_ok before [] = Ok ()"
| "check_instances key_ok before (i # rest) =
     bind_r (ensure (key_ok (e2e_pubkey i)) BadKey) (\<lambda>_.
     bind_r (ensure (list_all (\<lambda>other. instance_id other \<noteq> instance_id i \<and> e2e_pubkey other \<noteq> e2e_pubkey i) before)
       RepeatedInstance) (\<lambda>_.
     check_instances key_ok (before @ [i]) rest))"

fun check_nonces :: "string set \<Rightarrow> string list \<Rightarrow> discovery_error + unit" where
  "check_nonces seen [] = Ok ()"
| "check_nonces seen (n # ns) = (if n \<in> seen then Err RepeatedNonce else check_nonces (insert n seen) ns)"

definition Discovery_parse :: "(string \<Rightarrow> Discovery option) \<Rightarrow> (string \<Rightarrow> bool) \<Rightarrow> string
    \<Rightarrow> discovery_error + Discovery" where
  "Discovery_parse decode key_ok bytes =
     bind_r (ok_or (decode bytes) Undecodable) (\<lambda>d.
     bind_r (ensure (1 \<le> length (instances d) \<and> length (instances d) \<le> MAX_INSTANCES) BadInstanceCount) (\<lambda>_.
     bind_r (ensure (1 \<le> unat (nonce_expires_in d) \<and> unat (nonce_expires_in d) \<le> MAX_NONCE_LIFETIME_SECS)
       BadNonceLifetime) (\<lambda>_.
     bind_r (check_instances key_ok [] (instances d)) (\<lambda>_.
     bind_r (check_nonces {} (concat (map nonces (instances d)))) (\<lambda>_.
     Ok d)))))"

section \<open>Laws\<close>

definition discovery_wf :: "(string \<Rightarrow> bool) \<Rightarrow> Discovery \<Rightarrow> bool" where
  "discovery_wf key_ok d \<longleftrightarrow> instances d \<noteq> [] \<and> length (instances d) \<le> MAX_INSTANCES
     \<and> 1 \<le> unat (nonce_expires_in d) \<and> unat (nonce_expires_in d) \<le> MAX_NONCE_LIFETIME_SECS
     \<and> list_all (key_ok \<circ> e2e_pubkey) (instances d)
     \<and> distinct (map instance_id (instances d)) \<and> distinct (map e2e_pubkey (instances d))
     \<and> distinct (concat (map nonces (instances d)))"

lemma check_instances_Ok:
  "check_instances key_ok before xs = Ok () \<longleftrightarrow>
     list_all (key_ok \<circ> e2e_pubkey) xs \<and> distinct (map instance_id xs) \<and> distinct (map e2e_pubkey xs)
     \<and> set (map instance_id xs) \<inter> set (map instance_id before) = {}
     \<and> set (map e2e_pubkey xs) \<inter> set (map e2e_pubkey before) = {}"
proof (induction xs arbitrary: before)
  case (Cons x xs)
  have "check_instances key_ok before (x # xs) = Ok () \<longleftrightarrow>
      key_ok (e2e_pubkey x) \<and> instance_id x \<notin> set (map instance_id before) \<and> e2e_pubkey x \<notin> set (map e2e_pubkey before)
      \<and> check_instances key_ok (before @ [x]) xs = Ok ()"
    by (auto simp: ensure_def list_all_iff) (metis imageI)+
  also have "\<dots> \<longleftrightarrow> list_all (key_ok \<circ> e2e_pubkey) (x # xs) \<and> distinct (map instance_id (x # xs))
      \<and> distinct (map e2e_pubkey (x # xs))
      \<and> set (map instance_id (x # xs)) \<inter> set (map instance_id before) = {}
      \<and> set (map e2e_pubkey (x # xs)) \<inter> set (map e2e_pubkey before) = {}"
    unfolding Cons.IH by (simp add: disjoint_insert Int_insert_left Int_Un_distrib) argo
  finally show ?case .
qed simp

lemma check_nonces_Ok: "check_nonces seen ns = Ok () \<longleftrightarrow> distinct ns \<and> set ns \<inter> seen = {}"
  by (induction seen ns rule: check_nonces.induct) auto

section \<open>Properties\<close>

text \<open>
  A discovery document is accepted exactly when it decodes to one to five instances with valid
  keys, a nonce lifetime of 1 to 75 seconds, and no instance, key or invocation nonce repeated
  anywhere in it.
\<close>

theorem discovery_parse_exact:
  "Discovery_parse decode key_ok bytes = Ok d \<longleftrightarrow> decode bytes = Some d \<and> discovery_wf key_ok d"
proof -
  have unit: "r = Ok u \<longleftrightarrow> r = Ok ()" for r :: "discovery_error + unit" and u by simp
  show ?thesis
    by (auto simp: Discovery_parse_def discovery_wf_def result_simps check_instances_Ok check_nonces_Ok
        Suc_le_eq)
qed

text \<open>
  The target list names distinct models on distinct chutes, and a model is looked up to its own
  entry of the list exactly when it is on it.
\<close>

theorem target_lookup_exact:
  "distinct (map target_model TARGETS) \<and> distinct (map chute_id TARGETS)
   \<and> (target_for_model m = Some t \<longleftrightarrow> t \<in> set TARGETS \<and> target_model t = m)"
proof -
  have dist: "distinct (map target_model TARGETS)" "distinct (map chute_id TARGETS)"
    by (simp_all add: TARGETS_def)
  have "find (\<lambda>t. f t = m) ts = Some t \<longleftrightarrow> t \<in> set ts \<and> f t = m" if "distinct (map f ts)"
    for f :: "ChutesTarget \<Rightarrow> string" and ts
    using that by (induction ts) auto
  with dist show ?thesis by (simp add: target_for_model_def)
qed

text \<open>
  Every failure of the worker's Chutes account, a missing credential or an upstream 401, 402 or 403,
  is worded so that the gateway reads it as one, whatever the stage and the status text.
\<close>

theorem account_errors_drain:
  assumes "e = MissingCredential \<or> (\<exists>stage code. e = UpstreamStatus stage code \<and> code \<in> {401, 402, 403})"
  shows "signals_drain (error_message show_status e)"
proof -
  have markers: "m \<in> set DRAIN_SIGNALS" "ascii_lower m = m" if "account_marker e = Some m" for m
    using that by (cases e; auto simp: DRAIN_SIGNALS_def split: if_splits; code_simp)+
  from assms obtain m where m: "account_marker e = Some m" by auto
  have "error_message show_status e = (display show_status e @ '' ('') @ m @ '')''"
    by (simp add: error_message_def m)
  with signals_drain_phrase [OF markers [OF m]] show ?thesis by (simp only:)
qed

theorem account_errors_drain_witness: "signals_drain (error_message (\<lambda>_. ''402 Payment Required'') (UpstreamStatus ''invoke'' 402))"
  by (rule account_errors_drain) simp

end
