(* ===== verification/Chutes_State.thy ===== *)
theory Chutes_State
  imports Chutes_Types
begin

text \<open>
  The admission state of one chute under one credential and the ledger of issued nonces
  (\<^verbatim>\<open>attestd/src/chutes_verify/admission.rs\<close>, \<^verbatim>\<open>ChuteState\<close> and \<^verbatim>\<open>NonceLedger\<close>).

  Hash maps are association lists; \<^verbatim>\<open>shrink_to_fit\<close> has no meaning on them. A renewal task is
  named by a number. The counter of verdict batches keeps its 64 bits.
\<close>

named_theorems chute_simps

section \<open>Constants and clocks\<close>

definition ADMISSION_TTL :: duration where "ADMISSION_TTL = secs (15 * 60)"
definition REFRESH_AHEAD :: duration where "REFRESH_AHEAD = secs (5 * 60)"
definition RENEW_JITTER :: duration where "RENEW_JITTER = secs 60"
definition MIN_RENEWAL_INTERVAL :: duration where "MIN_RENEWAL_INTERVAL = secs (2 * 60)"
definition REJECTION_TTL :: duration where "REJECTION_TTL = secs 60"
definition NONCE_MARGIN :: duration where "NONCE_MARGIN = secs 5"
definition MAX_ISSUED_NONCES :: nat where "MAX_ISSUED_NONCES = 65536"

definition deadline :: "instant \<Rightarrow> duration \<Rightarrow> u64 \<Rightarrow> instant" where
  "deadline anchor anchor_wall expires_unix =
     anchor + min (secs (unat expires_unix) - anchor_wall) ADMISSION_TTL"

section \<open>Verdicts and tickets\<close>

datatype Outcome = Admitted instant | Rejected string | NoEvidence

record Verdict =
  verdict_instance :: string
  verdict_pubkey :: string
  outcome :: Outcome

record Ticket =
  ticket_instance :: string
  ticket_pubkey :: string
  nonce :: string

type_synonym InstanceKey = "string \<times> string"

definition key_of :: "DiscoveredInstance \<Rightarrow> InstanceKey" where
  "key_of i = (instance_id i, e2e_pubkey i)"

record ChuteState =
  pool :: "DiscoveredInstance list"
  issue_until :: "instant option"
  valid_until :: "instant option"
  admitted :: "(InstanceKey, instant) hash_map"
  rejected :: "(InstanceKey, instant \<times> string) hash_map"
  last_served :: "instant option"
  generation :: u64
  decided :: "(InstanceKey, u64) hash_map"
  renewal_since :: "u64 option"
  last_recorded :: "instant option"
  renewal :: "nat option"

definition ChuteState_default :: ChuteState where
  "ChuteState_default = \<lparr>pool = [], issue_until = None, valid_until = None, admitted = [], rejected = [],
     last_served = None, generation = 0, decided = [], renewal_since = None, last_recorded = None, renewal = None\<rparr>"

section \<open>The ledger\<close>

record NonceLedger =
  issued :: "(string \<times> string, instant) hash_map"
  capacity :: nat

definition ledger_prune :: "instant \<Rightarrow> NonceLedger \<Rightarrow> NonceLedger" where
  "ledger_prune now l = l\<lparr>issued := hm_retain (\<lambda>_ until. until > now) (issued l)\<rparr>"

definition ledger_record :: "string \<times> string \<Rightarrow> instant \<Rightarrow> NonceLedger \<Rightarrow> ChutesError + (bool \<times> NonceLedger)" where
  "ledger_record key until l =
     (if hm_contains (issued l) key then Ok (False, l)
      else if length (issued l) \<ge> capacity l then
        Err (Unavailable (nat_to_string (capacity l) @ '' unexpired nonces already issued; refusing to issue more''))
      else Ok (True, l\<lparr>issued := hm_insert key until (issued l)\<rparr>))"

section \<open>Operations of a chute\<close>

definition prune :: "instant \<Rightarrow> ChuteState \<Rightarrow> ChuteState" where
  "prune now s =
     (let adm = hm_retain (\<lambda>_ until. until > now) (admitted s);
          rej = hm_retain (\<lambda>_ (until, _). until > now) (rejected s);
          dec = hm_retain (\<lambda>key at. hm_contains adm key \<or> hm_contains rej key
                  \<or> is_some_and (\<lambda>since. at > since) (renewal_since s)) (decided s);
          kept = (if is_none_or (\<lambda>until. until \<le> now) (issue_until s) then [] else pool s)
      in s\<lparr>admitted := adm, rejected := rej, decided := dec, pool := filter (\<lambda>i. nonces i \<noteq> []) kept\<rparr>)"

definition eligible :: "ChuteState \<Rightarrow> string list \<Rightarrow> DiscoveredInstance \<Rightarrow> bool" where
  "eligible s avoid i \<longleftrightarrow> nonces i \<noteq> [] \<and> hm_contains (admitted s) (key_of i) \<and> instance_id i \<notin> set avoid"

text \<open>The loop over the pool: the first eligible instance with the most unused nonces.\<close>

definition choose_instance :: "(DiscoveredInstance \<Rightarrow> bool) \<Rightarrow> DiscoveredInstance list \<Rightarrow> nat option" where
  "choose_instance ok xs =
     foldl (\<lambda>chosen i. if ok (xs ! i) \<and> is_none_or (\<lambda>best. length (nonces (xs ! i)) > length (nonces (xs ! best))) chosen
                       then Some i else chosen) None [0..<length xs]"

lemma choose_upto:
  "n \<le> length xs \<Longrightarrow>
   (case foldl (\<lambda>chosen i. if ok (xs ! i) \<and> is_none_or (\<lambda>best. length (nonces (xs ! i)) > length (nonces (xs ! best))) chosen
                       then Some i else chosen) None [0..<n] of
      None \<Rightarrow> \<forall>i < n. \<not> ok (xs ! i)
    | Some b \<Rightarrow> b < n \<and> ok (xs ! b) \<and> (\<forall>i < n. ok (xs ! i) \<longrightarrow> length (nonces (xs ! i)) \<le> length (nonces (xs ! b))))"
proof (induction n)
  case (Suc n)
  then show ?case by (auto simp: less_Suc_eq is_none_or_def split: option.splits)
qed simp

lemma choose_None: "choose_instance ok xs = None \<Longrightarrow> i \<in> set xs \<Longrightarrow> \<not> ok i"
  using choose_upto [of "length xs" xs ok] by (auto simp: choose_instance_def in_set_conv_nth)

lemma choose_Some:
  "choose_instance ok xs = Some b \<Longrightarrow> b < length xs \<and> ok (xs ! b)
     \<and> (\<forall>i \<in> set xs. ok i \<longrightarrow> length (nonces i) \<le> length (nonces (xs ! b)))"
  using choose_upto [of "length xs" xs ok] by (auto simp: choose_instance_def in_set_conv_nth)

definition unused :: "ChuteState \<Rightarrow> nat" where
  "unused s = sum_list (map (length \<circ> nonces) (pool s))"

definition pop_nonce :: "nat \<Rightarrow> ChuteState \<Rightarrow> ChuteState" where
  "pop_nonce i s = s\<lparr>pool := (pool s)[i := (pool s ! i)\<lparr>nonces := butlast (nonces (pool s ! i))\<rparr>]\<rparr>"

lemma sum_list_update_less:
  "i < length xs \<Longrightarrow> (f y :: nat) < f (xs ! i) \<Longrightarrow> sum_list (map f (xs[i := y])) < sum_list (map f xs)"
proof (induction xs arbitrary: i)
  case (Cons x xs)
  then show ?case by (cases i) auto
qed simp

lemma unused_pop: "i < length (pool s) \<Longrightarrow> nonces (pool s ! i) \<noteq> [] \<Longrightarrow> unused (pop_nonce i s) < unused s"
  by (simp add: unused_def pop_nonce_def sum_list_update_less)

text \<open>
  The issuing loop. An eligible instance has an unused nonce, so the branch of the source in which
  the pop finds none cannot be reached. A nonce that is already in the ledger is dropped.
\<close>

function take_loop :: "string \<Rightarrow> string list \<Rightarrow> instant \<Rightarrow> ChuteState \<Rightarrow> NonceLedger
    \<Rightarrow> (ChutesError + Ticket option) \<times> ChuteState \<times> NonceLedger" where
  "take_loop chute avoid valid s l =
     (case choose_instance (eligible s avoid) (pool s) of
        None \<Rightarrow> (Ok None, s, l)
      | Some i \<Rightarrow>
          let inst = pool s ! i; n = last (nonces inst); s' = pop_nonce i s in
          case ledger_record (chute, n) valid l of
            Inl e \<Rightarrow> (Err e, s', l)
          | Inr (fresh, l') \<Rightarrow>
              if fresh then
                (Ok (Some \<lparr>ticket_instance = instance_id inst, ticket_pubkey = e2e_pubkey inst, nonce = n\<rparr>), s', l')
              else take_loop chute avoid valid s' l')"
  by pat_completeness auto
termination
  by (relation "measure (\<lambda>(chute, avoid, valid, s, l). unused s)")
    (auto dest!: choose_Some intro!: unused_pop simp: eligible_def)

declare take_loop.simps [simp del]

definition take_ticket :: "instant \<Rightarrow> string \<Rightarrow> string list \<Rightarrow> ChuteState \<Rightarrow> NonceLedger
    \<Rightarrow> (ChutesError + Ticket option) \<times> ChuteState \<times> NonceLedger" where
  "take_ticket now chute avoid s l =
     (case valid_until s of
        None \<Rightarrow> (Ok None, s, l)
      | Some valid \<Rightarrow> take_loop chute avoid valid s (ledger_prune now l))"

definition unjudged :: "ChuteState \<Rightarrow> DiscoveredInstance list" where
  "unjudged s = filter (\<lambda>i. \<not> hm_contains (admitted s) (key_of i) \<and> \<not> hm_contains (rejected s) (key_of i)) (pool s)"

definition warm :: "instant \<Rightarrow> ChuteState \<Rightarrow> bool" where
  "warm now s = is_some_and (\<lambda>served. served + ADMISSION_TTL > now) (last_served s)"

definition expiring :: "instant \<Rightarrow> ChuteState \<Rightarrow> DiscoveredInstance list" where
  "expiring by_time s =
     map (\<lambda>((iid, key), _). \<lparr>instance_id = iid, e2e_pubkey = key, nonces = []\<rparr>)
       (filter (\<lambda>(_, until). until \<le> by_time) (admitted s))"

definition record_verdict :: "instant \<Rightarrow> u64 option \<Rightarrow> ChuteState \<Rightarrow> Verdict \<Rightarrow> ChuteState" where
  "record_verdict now since s v =
     (let key = (verdict_instance v, verdict_pubkey v) in
      case outcome v of
        Admitted until \<Rightarrow>
          if is_some_and (\<lambda>g. is_some_and (\<lambda>at. at > g) (map_of (decided s) key)) since then s
          else s\<lparr>admitted := hm_insert key until (admitted s), decided := hm_insert key (generation s) (decided s)\<rparr>
      | Rejected cause \<Rightarrow>
          s\<lparr>admitted := hm_remove key (admitted s), rejected := hm_insert key (now + REJECTION_TTL, cause) (rejected s),
            decided := hm_insert key (generation s) (decided s)\<rparr>
      | NoEvidence \<Rightarrow> s)"

definition record_verdicts :: "Verdict list \<Rightarrow> instant \<Rightarrow> u64 option \<Rightarrow> ChuteState \<Rightarrow> ChuteState" where
  "record_verdicts verdicts now since s =
     foldl (record_verdict now since) (s\<lparr>generation := generation s + 1, last_recorded := Some now\<rparr>) verdicts"

definition refill :: "Discovery \<Rightarrow> instant \<Rightarrow> instant \<Rightarrow> ChuteState \<Rightarrow> ChuteState" where
  "refill d asked received s =
     (let lifetime = nonce_lifetime d in
      s\<lparr>issue_until := Some (if NONCE_MARGIN \<le> asked + lifetime then asked + lifetime - NONCE_MARGIN else asked),
        valid_until := Some (received + lifetime + NONCE_MARGIN), pool := instances d\<rparr>)"

definition exhausted :: "string \<Rightarrow> string list \<Rightarrow> ChuteState \<Rightarrow> ChutesError" where
  "exhausted chute unevidenced s =
     (if rejected s = [] \<and> unevidenced \<noteq> [] then
        Unavailable (''Chutes served no evidence for chute '' @ chute @ '' instance(s) '' @ join '', '' unevidenced)
      else if rejected s = [] then
        Unavailable (''no admitted instance of chute '' @ chute @ '' has an unused, unexpired nonce'')
      else AttestationRejected (''no instance of chute '' @ chute @ '' passed admission (''
        @ join ''; '' (map (\<lambda>((iid, _), (_, cause)). iid @ '': '' @ cause) (rejected s)) @ '')''))"

section \<open>Registers of single-use keys\<close>

text \<open>
  What issuing relies on: a register that keeps a key until its instant, drops it only when that
  instant has passed, and accepts a key only while it does not hold it.
\<close>

locale single_use_register =
  fixes inv :: "'l \<Rightarrow> bool"
    and holds :: "'l \<Rightarrow> 'k \<Rightarrow> instant option"
    and forget :: "instant \<Rightarrow> 'l \<Rightarrow> 'l"
    and accept :: "'k \<Rightarrow> instant \<Rightarrow> 'l \<Rightarrow> 'e + (bool \<times> 'l)"
  assumes forget_inv: "inv l \<Longrightarrow> inv (forget now l)"
    and accept_inv: "inv l \<Longrightarrow> accept k u l = Ok (b, l') \<Longrightarrow> inv l'"
    and forget_holds: "inv l \<Longrightarrow> holds (forget now l) k = filter_o (\<lambda>u. u > now) (holds l k)"
    and accept_fresh: "inv l \<Longrightarrow> accept k u l = Ok (True, l') \<Longrightarrow> holds l k = None \<and> holds l' = (holds l)(k \<mapsto> u)"
    and accept_seen: "inv l \<Longrightarrow> accept k u l = Ok (False, l') \<Longrightarrow> l' = l"
begin

text \<open>A key held past an instant is still held after forgetting at it, and is not accepted again.\<close>

lemma kept: "inv l \<Longrightarrow> holds l k = Some u \<Longrightarrow> now < u \<Longrightarrow> holds (forget now l) k = Some u"
  by (simp add: forget_holds)

lemma accept_mono:
  assumes "inv l" and "accept k u l = Ok (b, l')" and "holds l k' = Some u'"
  shows "holds l' k' = Some u'"
proof (cases b)
  case True
  with accept_fresh [OF assms(1), of k u l'] assms(2,3) show ?thesis by auto
next
  case False
  with accept_seen [OF assms(1), of k u l'] assms(2,3) show ?thesis by auto
qed

lemma not_reissued:
  assumes "inv l" and "holds l k = Some u" and "now < u"
  shows "accept k v (forget now l) \<noteq> Ok (True, l')"
  using accept_fresh [OF forget_inv [OF assms(1)], of k v now l'] kept [OF assms] by auto

end

definition ledger_wf :: "NonceLedger \<Rightarrow> bool" where
  "ledger_wf l \<longleftrightarrow> hm_wf (issued l) \<and> length (issued l) \<le> capacity l"

definition ledger_holds :: "NonceLedger \<Rightarrow> string \<times> string \<Rightarrow> instant option" where
  "ledger_holds l = map_of (issued l)"

lemma ledger_wf_prune: "ledger_wf l \<Longrightarrow> ledger_wf (ledger_prune now l)"
  using length_hm_retain [of "\<lambda>_ until. until > now" "issued l"] by (auto simp: ledger_wf_def ledger_prune_def)

lemma ledger_wf_record: "ledger_wf l \<Longrightarrow> ledger_record k u l = Ok (b, l') \<Longrightarrow> ledger_wf l'"
  by (auto simp: ledger_wf_def ledger_record_def length_hm_insert split: if_splits)

interpretation nl: single_use_register ledger_wf ledger_holds ledger_prune ledger_record
proof unfold_locales
  fix l l' :: NonceLedger and now u k b
  show "ledger_wf l \<Longrightarrow> ledger_wf (ledger_prune now l)" by (rule ledger_wf_prune)
  show "ledger_wf l \<Longrightarrow> ledger_record k u l = Ok (b, l') \<Longrightarrow> ledger_wf l'" by (rule ledger_wf_record)
  show "ledger_wf l \<Longrightarrow> ledger_holds (ledger_prune now l) k = filter_o (\<lambda>u. u > now) (ledger_holds l k)"
    by (simp add: ledger_wf_def ledger_holds_def ledger_prune_def map_of_hm_retain)
  show "ledger_wf l \<Longrightarrow> ledger_record k u l = Ok (True, l') \<Longrightarrow>
      ledger_holds l k = None \<and> ledger_holds l' = (ledger_holds l)(k \<mapsto> u)"
    by (auto simp: ledger_record_def ledger_holds_def hm_contains_def map_of_hm_insert split: if_splits)
  show "ledger_wf l \<Longrightarrow> ledger_record k u l = Ok (False, l') \<Longrightarrow> l' = l"
    by (auto simp: ledger_record_def split: if_splits)
qed

section \<open>Issuing a ticket\<close>

lemma pop_nonce_simps [chute_simps]:
  "admitted (pop_nonce i s) = admitted s" "valid_until (pop_nonce i s) = valid_until s"
  "rejected (pop_nonce i s) = rejected s" "decided (pop_nonce i s) = decided s" "issue_until (pop_nonce i s) = issue_until s"
  "length (pool (pop_nonce i s)) = length (pool s)"
  by (simp_all add: pop_nonce_def)

text \<open>What a pooled instance was before some of its nonces were spent.\<close>

definition spent_instance :: "DiscoveredInstance \<Rightarrow> DiscoveredInstance \<Rightarrow> bool" where
  "spent_instance a b \<longleftrightarrow> instance_id b = instance_id a \<and> e2e_pubkey b = e2e_pubkey a
     \<and> (\<exists>used. nonces a = nonces b @ used)"

definition spent :: "ChuteState \<Rightarrow> ChuteState \<Rightarrow> bool" where
  "spent s s' \<longleftrightarrow> list_all2 spent_instance (pool s) (pool s') \<and> s' = s\<lparr>pool := pool s'\<rparr>"

lemma spent_refl: "spent s s"
  by (simp add: spent_def spent_instance_def list_all2_refl)

lemma spent_trans: "spent a b \<Longrightarrow> spent b c \<Longrightarrow> spent a c"
proof -
  assume ab: "spent a b" and bc: "spent b c"
  have "list_all2 spent_instance (pool a) (pool c)"
    by (rule list_all2_trans [of spent_instance spent_instance spent_instance "pool a" "pool b" "pool c"])
      (use ab bc in \<open>auto simp: spent_def spent_instance_def\<close>)
  moreover have "c = (a\<lparr>pool := pool b\<rparr>)\<lparr>pool := pool c\<rparr>" using ab bc unfolding spent_def by metis
  ultimately show ?thesis by (simp add: spent_def)
qed

lemma spent_pop: "i < length (pool s) \<Longrightarrow> spent s (pop_nonce i s)"
proof -
  assume i: "i < length (pool s)"
  have "\<exists>used. ns = butlast ns @ used" for ns :: "string list"
    by (cases "ns = []") (simp, metis append_butlast_last_id)
  then show ?thesis
    using i by (auto simp: spent_def spent_instance_def pop_nonce_def list_all2_conv_all_nth nth_list_update)
qed

lemma pop_nonce_pool:
  assumes "i < length (pool s)" and "\<exists>j \<in> set (pool (pop_nonce i s)). key_of j = k \<and> n \<in> set (nonces j)"
  shows "\<exists>j \<in> set (pool s). key_of j = k \<and> n \<in> set (nonces j)"
proof -
  let ?p = "(pool s ! i)\<lparr>nonces := butlast (nonces (pool s ! i))\<rparr>"
  from assms(2) obtain j where j: "j \<in> set (pool (pop_nonce i s))" "key_of j = k" "n \<in> set (nonces j)" by blast
  then consider "j = ?p" | "j \<in> set (pool s)"
    using set_update_subset_insert [of "pool s" i ?p] by (auto simp: pop_nonce_def)
  then show ?thesis
  proof cases
    case 1
    with j assms(1) show ?thesis by (intro bexI [of _ "pool s ! i"]) (auto simp: key_of_def dest: in_set_butlastD)
  qed (use j in blast)
qed

lemma take_loop_spec:
  assumes "take_loop chute avoid valid s l = (r, s', l')" and "ledger_wf l"
  shows "spent s s' \<and> ledger_wf l' \<and>
    (case r of
       Inr (Some t) \<Rightarrow> ledger_holds l (chute, nonce t) = None
         \<and> ledger_holds l' = (ledger_holds l)((chute, nonce t) \<mapsto> valid)
         \<and> hm_contains (admitted s) (ticket_instance t, ticket_pubkey t) \<and> ticket_instance t \<notin> set avoid
         \<and> (\<exists>i \<in> set (pool s). key_of i = (ticket_instance t, ticket_pubkey t) \<and> nonce t \<in> set (nonces i))
     | Inr None \<Rightarrow> l' = l \<and> (\<forall>i \<in> set (pool s'). \<not> eligible s' avoid i)
     | Inl e \<Rightarrow> l' = l \<and> length (issued l) \<ge> capacity l)"
  using assms
proof (induction chute avoid valid s l rule: take_loop.induct)
  case (1 chute avoid valid s l)
  show ?case
  proof (cases "choose_instance (eligible s avoid) (pool s)")
    case None
    with "1.prems"(1) have "r = Ok None" "s' = s" "l' = l" by (simp_all add: take_loop.simps [of chute avoid valid s l])
    with None "1.prems"(2) show ?thesis by (auto simp: spent_refl dest: choose_None)
  next
    case (Some i)
    let ?inst = "pool s ! i"
    have i: "i < length (pool s)" and ok: "eligible s avoid ?inst" using choose_Some [OF Some] by simp_all
    have last: "last (nonces ?inst) \<in> set (nonces ?inst)" using ok by (simp add: eligible_def)
    have mem: "?inst \<in> set (pool s)" using i by simp
    show ?thesis
    proof (cases "ledger_record (chute, last (nonces ?inst)) valid l")
      case (Inl e)
      with Some "1.prems"(1) have "r = Err e" "s' = pop_nonce i s" "l' = l"
        by (simp_all add: take_loop.simps [of chute avoid valid s l] Let_def)
      with Inl "1.prems"(2) spent_pop [OF i] show ?thesis by (auto simp: ledger_record_def split: if_splits)
    next
      case (Inr q)
      obtain fresh m where q: "q = (fresh, m)" by (cases q)
      have wf: "ledger_wf m" using ledger_wf_record "1.prems"(2) Inr q by blast
      show ?thesis
      proof (cases fresh)
        case True
        with Some Inr q "1.prems"(1)
        have "r = Ok (Some \<lparr>ticket_instance = instance_id ?inst, ticket_pubkey = e2e_pubkey ?inst, nonce = last (nonces ?inst)\<rparr>)"
          "s' = pop_nonce i s" "l' = m"
          by (simp_all add: take_loop.simps [of chute avoid valid s l] Let_def)
        with nl.accept_fresh [OF "1.prems"(2), of "(chute, last (nonces ?inst))" valid m] Inr q True wf spent_pop [OF i] ok mem last
        show ?thesis by (auto simp: eligible_def key_of_def)
      next
        case False
        with Inr q have "ledger_record (chute, last (nonces ?inst)) valid l = Ok (False, m)" by simp
        then have m: "m = l" by (rule nl.accept_seen [OF "1.prems"(2)])
        have rec: "take_loop chute avoid valid (pop_nonce i s) l = (r, s', l')"
          using Some Inr q False m "1.prems"(1) by (simp add: take_loop.simps [of chute avoid valid s l] Let_def)
        have IH: "spent (pop_nonce i s) s' \<and> ledger_wf l' \<and>
            (case r of
               Inr (Some t) \<Rightarrow> ledger_holds l (chute, nonce t) = None
                 \<and> ledger_holds l' = (ledger_holds l)((chute, nonce t) \<mapsto> valid)
                 \<and> hm_contains (admitted (pop_nonce i s)) (ticket_instance t, ticket_pubkey t) \<and> ticket_instance t \<notin> set avoid
                 \<and> (\<exists>j \<in> set (pool (pop_nonce i s)). key_of j = (ticket_instance t, ticket_pubkey t) \<and> nonce t \<in> set (nonces j))
             | Inr None \<Rightarrow> l' = l \<and> (\<forall>j \<in> set (pool s'). \<not> eligible s' avoid j)
             | Inl e \<Rightarrow> l' = l \<and> length (issued l) \<ge> capacity l)"
          using "1.IH" [OF Some refl refl refl Inr [unfolded q m] refl False [simplified]] rec "1.prems"(2) by simp
        from IH spent_trans [OF spent_pop [OF i]] show ?thesis
          by (auto simp: chute_simps split: sum.splits option.splits intro: pop_nonce_pool [OF i])
      qed
    qed
  qed
qed

section \<open>Well-formed states\<close>

definition chute_wf :: "ChuteState \<Rightarrow> bool" where
  "chute_wf s \<longleftrightarrow> hm_wf (admitted s) \<and> hm_wf (rejected s) \<and> hm_wf (decided s)"

lemma chute_wf_default: "chute_wf ChuteState_default"
  by (simp add: chute_wf_def ChuteState_default_def)

lemma chute_wf_prune: "chute_wf s \<Longrightarrow> chute_wf (prune now s)"
  by (simp add: chute_wf_def prune_def Let_def hm_wf_retain)

lemma chute_wf_verdict: "chute_wf s \<Longrightarrow> chute_wf (record_verdict now since s v)"
  by (auto simp: chute_wf_def record_verdict_def Let_def hm_wf_insert hm_wf_remove split: Outcome.splits)

lemma chute_wf_verdicts: "chute_wf s \<Longrightarrow> chute_wf (foldl (record_verdict now since) s vs)"
  by (induction vs arbitrary: s) (auto intro: chute_wf_verdict)

lemma chute_wf_record: "chute_wf s \<Longrightarrow> chute_wf (record_verdicts vs now since s)"
  unfolding record_verdicts_def by (rule chute_wf_verdicts) (simp add: chute_wf_def)

lemma chute_wf_refill: "chute_wf s \<Longrightarrow> chute_wf (refill d asked received s)"
  by (simp add: chute_wf_def refill_def Let_def)

lemma spent_fields:
  "spent s s' \<Longrightarrow> admitted s' = admitted s \<and> rejected s' = rejected s \<and> decided s' = decided s
     \<and> renewal_since s' = renewal_since s \<and> generation s' = generation s \<and> valid_until s' = valid_until s"
  unfolding spent_def by (metis ChuteState.select_convs ChuteState.update_convs(1) ChuteState.surjective)

section \<open>Recording verdicts\<close>

abbreviation verdict_key :: "Verdict \<Rightarrow> InstanceKey" where
  "verdict_key v \<equiv> (verdict_instance v, verdict_pubkey v)"

lemma record_verdict_other:
  assumes "verdict_key v \<noteq> k"
  shows "map_of (admitted (record_verdict now since s v)) k = map_of (admitted s) k"
    "map_of (rejected (record_verdict now since s v)) k = map_of (rejected s) k"
    "map_of (decided (record_verdict now since s v)) k = map_of (decided s) k"
  using assms by (auto simp: record_verdict_def Let_def map_of_hm_insert map_of_hm_remove split: Outcome.splits)

lemma record_verdict_generation:
  "generation (record_verdict now since s v) = generation s" "renewal_since (record_verdict now since s v) = renewal_since s"
  by (auto simp: record_verdict_def Let_def split: Outcome.splits)

lemma foldl_verdict_generation:
  "generation (foldl (record_verdict now since) s vs) = generation s
   \<and> renewal_since (foldl (record_verdict now since) s vs) = renewal_since s"
  by (induction vs arbitrary: s) (simp_all add: record_verdict_generation)

lemma foldl_verdict_other:
  assumes "k \<notin> verdict_key ` set vs"
  shows "map_of (admitted (foldl (record_verdict now since) s vs)) k = map_of (admitted s) k
    \<and> map_of (rejected (foldl (record_verdict now since) s vs)) k = map_of (rejected s) k
    \<and> map_of (decided (foldl (record_verdict now since) s vs)) k = map_of (decided s) k"
  using assms by (induction vs arbitrary: s) (auto simp: record_verdict_other)

lemma decided_verdict_None:
  "map_of (decided (record_verdict now None s v)) k =
     (if verdict_key v = k \<and> outcome v \<noteq> NoEvidence then Some (generation s) else map_of (decided s) k)"
  by (auto simp: record_verdict_def Let_def map_of_hm_insert split: Outcome.splits)

lemma decided_verdicts_None:
  "map_of (decided (foldl (record_verdict now None) s vs)) k =
     (if \<exists>v \<in> set vs. verdict_key v = k \<and> outcome v \<noteq> NoEvidence then Some (generation s) else map_of (decided s) k)"
  by (induction vs arbitrary: s) (auto simp: decided_verdict_None record_verdict_generation)

text \<open>A success of a renewal that began at \<open>g\<close> leaves a later decision on its instance alone.\<close>

lemma superseded_verdicts:
  assumes "map_of (decided s) k = Some at" and "at > g"
    and "\<forall>v \<in> set vs. verdict_key v = k \<longrightarrow> (\<forall>cause. outcome v \<noteq> Rejected cause)"
  shows "map_of (admitted (foldl (record_verdict now (Some g)) s vs)) k = map_of (admitted s) k
    \<and> map_of (rejected (foldl (record_verdict now (Some g)) s vs)) k = map_of (rejected s) k"
  using assms
proof (induction vs arbitrary: s)
  case (Cons v vs)
  have "map_of (admitted (record_verdict now (Some g) s v)) k = map_of (admitted s) k
    \<and> map_of (rejected (record_verdict now (Some g) s v)) k = map_of (rejected s) k
    \<and> map_of (decided (record_verdict now (Some g) s v)) k = Some at"
  proof (cases "verdict_key v = k")
    case True
    with Cons.prems show ?thesis by (auto simp: record_verdict_def Let_def split: Outcome.splits)
  qed (use Cons.prems in \<open>simp add: record_verdict_other\<close>)
  with Cons.IH [of "record_verdict now (Some g) s v"] Cons.prems(2,3) show ?case by simp
qed simp

section \<open>What happens to a scope while a renewal runs\<close>

datatype scope_op =
    OpPrune instant
  | OpRecord "Verdict list" instant
  | OpRefill Discovery instant instant
  | OpTake instant string "string list" NonceLedger

fun run_op :: "scope_op \<Rightarrow> ChuteState \<Rightarrow> ChuteState" where
  "run_op (OpPrune now) s = prune now s"
| "run_op (OpRecord vs now) s = record_verdicts vs now None s"
| "run_op (OpRefill d asked received) s = refill d asked received s"
| "run_op (OpTake now chute avoid l) s = fst (snd (take_ticket now chute avoid s l))"

fun op_decides :: "InstanceKey \<Rightarrow> scope_op \<Rightarrow> bool" where
  "op_decides k (OpRecord vs _) = (\<exists>v \<in> set vs. verdict_key v = k \<and> outcome v \<noteq> NoEvidence)"
| "op_decides k _ = False"

fun op_batches :: "scope_op \<Rightarrow> nat" where
  "op_batches (OpRecord _ _) = 1"
| "op_batches _ = 0"

lemma take_ticket_spec:
  assumes "take_ticket now chute avoid s l = (r, s', l')" and "ledger_wf l"
  shows "spent s s' \<and> ledger_wf l'"
  using assms take_loop_spec [of chute avoid _ s "ledger_prune now l" r s' l'] ledger_wf_prune [OF assms(2)]
  by (cases "valid_until s") (auto simp: take_ticket_def spent_refl)

lemma take_loop_spent: "spent s (fst (snd (take_loop chute avoid valid s l)))"
proof (induction chute avoid valid s l rule: take_loop.induct)
  case (1 chute avoid valid s l)
  show ?case
  proof (cases "choose_instance (eligible s avoid) (pool s)")
    case None
    then show ?thesis by (subst take_loop.simps) (simp add: spent_refl)
  next
    case (Some i)
    have i: "i < length (pool s)" using choose_Some [OF Some] by simp
    show ?thesis
      using spent_pop [OF i] spent_trans [OF spent_pop [OF i]] "1.IH" [OF Some refl refl refl]
      by (subst take_loop.simps) (auto simp: Some Let_def split: sum.splits)
  qed
qed

lemma take_ticket_spent: "spent s (fst (snd (take_ticket now chute avoid s l)))"
  by (simp add: take_ticket_def spent_refl take_loop_spent split: option.splits)

lemma run_op_wf: "chute_wf s \<Longrightarrow> chute_wf (run_op p s)"
  using spent_fields [OF take_ticket_spent [of s]]
  by (cases p) (auto simp: chute_wf_prune chute_wf_record chute_wf_refill, auto simp: chute_wf_def)

definition renewing :: "u64 \<Rightarrow> InstanceKey set \<Rightarrow> nat \<Rightarrow> ChuteState \<Rightarrow> bool" where
  "renewing g ks n s \<longleftrightarrow> chute_wf s \<and> renewal_since s = Some g \<and> unat (generation s) = unat g + n
     \<and> (\<forall>k \<in> ks. \<exists>at. map_of (decided s) k = Some at \<and> at > g)"

lemma generation_Suc:
  assumes "unat (g :: u64) + 1 < 2 ^ 64"
  shows "unat (g + 1) = unat g + 1"
  using assms by (simp add: unat_word_ariths)

lemma renewing_step:
  assumes "renewing g ks n s" and "unat g + n + op_batches p < 2 ^ 64"
  shows "renewing g (ks \<union> {k. op_decides k p}) (n + op_batches p) (run_op p s)"
proof (cases p)
  case (OpPrune now)
  have "map_of (decided (prune now s)) k = Some at" if "map_of (decided s) k = Some at" "at > g" for k at
    using that assms(1) by (simp add: prune_def Let_def renewing_def chute_wf_def map_of_hm_retain)
  with assms(1) OpPrune show ?thesis
    by (auto simp: renewing_def chute_wf_prune) (simp_all add: prune_def Let_def)
next
  case (OpRecord vs now)
  let ?s = "s\<lparr>generation := generation s + 1, last_recorded := Some now\<rparr>"
  have gen: "unat (generation s + 1) = unat g + n + 1"
    using generation_Suc [of "generation s"] assms OpRecord by (simp add: renewing_def)
  then have "generation s + 1 > g" by (simp add: word_less_nat_alt)
  with assms(1) OpRecord gen show ?thesis
    by (auto simp: renewing_def chute_wf_record)
      (auto simp: record_verdicts_def foldl_verdict_generation decided_verdicts_None)
next
  case (OpRefill d asked received)
  with assms(1) show ?thesis by (auto simp: renewing_def chute_wf_refill) (simp_all add: refill_def Let_def)
next
  case (OpTake now chute avoid l)
  with assms(1) run_op_wf [of s p] spent_fields [OF take_ticket_spent [of s now chute avoid l]] show ?thesis
    by (auto simp: renewing_def)
qed

lemma renewing_run:
  assumes "renewing g ks n s" and "unat g + n + sum_list (map op_batches ops) < 2 ^ 64"
  shows "renewing g (ks \<union> {k. \<exists>p \<in> set ops. op_decides k p}) (n + sum_list (map op_batches ops)) (fold run_op ops s)"
  using assms
proof (induction ops arbitrary: s ks n)
  case (Cons p ops)
  have "renewing g (ks \<union> {k. op_decides k p}) (n + op_batches p) (run_op p s)"
    by (rule renewing_step) (use Cons.prems in auto)
  from Cons.IH [OF this] Cons.prems(2) show ?case by (simp add: Un_assoc add.assoc Collect_disj_eq [symmetric])
qed simp

section \<open>Sequences of issues\<close>

text \<open>
  Calls of \<^verbatim>\<open>take_ticket\<close> on one ledger, each on whatever state its scope has by then, and what
  they issue: when, which nonce of which chute, and until when it is valid.
\<close>

type_synonym issue_call = "instant \<times> string \<times> string list \<times> ChuteState"

fun issue_trace :: "issue_call list \<Rightarrow> NonceLedger \<Rightarrow> (instant \<times> (string \<times> string) \<times> instant) list" where
  "issue_trace [] l = []"
| "issue_trace ((now, chute, avoid, s) # calls) l =
     (let (r, _, l') = take_ticket now chute avoid s l in
      (case (r, valid_until s) of (Inr (Some t), Some valid) \<Rightarrow> [(now, (chute, nonce t), valid)] | _ \<Rightarrow> [])
      @ issue_trace calls l')"

lemma take_ticket_issue:
  assumes "take_ticket now chute avoid s l = (r, s', l')" and "ledger_wf l"
  shows "(\<exists>t valid. r = Ok (Some t) \<and> valid_until s = Some valid
        \<and> ledger_holds (ledger_prune now l) (chute, nonce t) = None
        \<and> ledger_holds l' = (ledger_holds (ledger_prune now l))((chute, nonce t) \<mapsto> valid))
    \<or> ((\<forall>t. r \<noteq> Ok (Some t)) \<and> (l' = l \<or> l' = ledger_prune now l))"
proof (cases "valid_until s")
  case None
  with assms show ?thesis by (auto simp: take_ticket_def)
next
  case (Some valid)
  with assms(1) have "take_loop chute avoid valid s (ledger_prune now l) = (r, s', l')" by (simp add: take_ticket_def)
  from take_loop_spec [OF this ledger_wf_prune [OF assms(2)]] Some show ?thesis
    by (auto split: sum.splits option.splits)
qed

lemma issue_trace_times: "e \<in> set (issue_trace calls l) \<Longrightarrow> fst e \<in> set (map fst calls)"
proof (induction calls arbitrary: l)
  case (Cons c calls)
  obtain now chute avoid s where c: "c = (now, chute, avoid, s)" by (metis prod_cases4)
  obtain r s' l' where "take_ticket now chute avoid s l = (r, s', l')" by (metis prod_cases3)
  with Cons c have "fst e = now \<or> e \<in> set (issue_trace calls l')"
    by (auto split: sum.splits option.splits)
  with Cons.IH [of l'] c show ?case by auto
qed simp

text \<open>A nonce the ledger holds is not issued before its validity ends.\<close>

lemma issue_trace_held:
  assumes "sorted (map fst calls)" and "ledger_wf l" and "ledger_holds l k = Some u"
    and "(now', k, u') \<in> set (issue_trace calls l)"
  shows "u \<le> now'"
  using assms
proof (induction calls l rule: issue_trace.induct)
  case (2 now chute avoid s calls l)
  obtain r s' l' where tt: "take_ticket now chute avoid s l = (r, s', l')" by (metis prod_cases3)
  have later: "now \<le> now'" using issue_trace_times [OF "2.prems"(4)] "2.prems"(1) by auto
  show ?case
  proof (rule ccontr)
    assume "\<not> u \<le> now'"
    then have less: "now < u" using later by simp
    have kept: "ledger_holds (ledger_prune now l) k = Some u" by (rule nl.kept [OF "2.prems"(2,3) less])
    note issue = take_ticket_issue [OF tt "2.prems"(2)]
    have "ledger_holds l' k = Some u" using issue kept "2.prems"(3) by auto
    moreover have "ledger_wf l'" using take_ticket_spec [OF tt "2.prems"(2)] by simp
    moreover have "(now', k, u') \<in> set (issue_trace calls l')"
      using "2.prems"(4) issue kept tt by (auto simp: Let_def split: option.splits)
    ultimately have "u \<le> now'" using "2.IH" [OF tt [symmetric] refl] "2.prems"(1) by simp
    with \<open>\<not> u \<le> now'\<close> show False ..
  qed
qed simp

lemma prune_admitted:
  "chute_wf s \<Longrightarrow> map_of (admitted (prune now s)) k = filter_o (\<lambda>until. until > now) (map_of (admitted s) k)"
  by (simp add: prune_def Let_def chute_wf_def map_of_hm_retain)

lemma prune_pool: "i \<in> set (pool (prune now s)) \<Longrightarrow> i \<in> set (pool s) \<and> (\<exists>until. issue_until s = Some until \<and> now < until)"
  by (auto simp: prune_def Let_def is_none_or_def split: if_splits option.splits)

section \<open>Example states\<close>

definition demo_instance :: DiscoveredInstance where
  "demo_instance = \<lparr>instance_id = ''i'', e2e_pubkey = ''k'', nonces = [''n1'', ''n2'']\<rparr>"

definition demo_chute :: ChuteState where
  "demo_chute = ChuteState_default\<lparr>pool := [demo_instance], issue_until := Some 50, valid_until := Some 70,
     admitted := [((''i'', ''k''), 100)]\<rparr>"

definition demo_ledger :: NonceLedger where
  "demo_ledger = \<lparr>issued = [], capacity = 8\<rparr>"

section \<open>Properties\<close>

text \<open>
  C13: An invocation nonce of a chute is never issued twice while Chutes accepts it: over any
  sequence of issues on one ledger, on any states of any scopes, a nonce that is issued again is
  issued after the validity recorded for its earlier issue has ended.
\<close>

theorem nonce_never_reissued:
  assumes "sorted (map fst calls)" and "ledger_wf l"
  shows "sorted_wrt (\<lambda>(_, k, u) (now', k', _). k = k' \<longrightarrow> u \<le> now') (issue_trace calls l)"
  using assms
proof (induction calls l rule: issue_trace.induct)
  case (2 now chute avoid s calls l)
  obtain r s' l' where tt: "take_ticket now chute avoid s l = (r, s', l')" by (metis prod_cases3)
  have wf: "ledger_wf l'" using take_ticket_spec [OF tt "2.prems"(2)] by simp
  have IH: "sorted_wrt (\<lambda>(_, k, u) (now', k', _). k = k' \<longrightarrow> u \<le> now') (issue_trace calls l')"
    using "2.IH" [OF tt [symmetric] refl] "2.prems"(1) wf by simp
  from take_ticket_issue [OF tt "2.prems"(2)] show ?case
  proof
    assume "\<exists>t valid. r = Ok (Some t) \<and> valid_until s = Some valid
        \<and> ledger_holds (ledger_prune now l) (chute, nonce t) = None
        \<and> ledger_holds l' = (ledger_holds (ledger_prune now l))((chute, nonce t) \<mapsto> valid)"
    then obtain t valid where t: "r = Ok (Some t)" "valid_until s = Some valid"
      and held: "ledger_holds l' (chute, nonce t) = Some valid" by auto
    have "valid \<le> now'" if "(now', (chute, nonce t), u') \<in> set (issue_trace calls l')" for now' u'
      using issue_trace_held [OF _ wf held that] "2.prems"(1) by simp
    with IH t show ?thesis by (auto simp: tt)
  next
    assume "(\<forall>t. r \<noteq> Ok (Some t)) \<and> (l' = l \<or> l' = ledger_prune now l)"
    with IH show ?thesis by (auto simp: tt split: sum.splits option.splits)
  qed
qed simp

theorem nonce_never_reissued_witness:
  "issue_trace [(10, ''c'', [], demo_chute), (20, ''c'', [], demo_chute)] demo_ledger
     = [(10, (''c'', ''n2''), 70), (20, (''c'', ''n1''), 70)]
   \<and> sorted_wrt (\<lambda>(_, k, u) (now', k', _). k = k' \<longrightarrow> u \<le> now')
      (issue_trace [(10, ''c'', [], demo_chute), (20, ''c'', [], demo_chute)] demo_ledger)"
proof
  show "issue_trace [(10, ''c'', [], demo_chute), (20, ''c'', [], demo_chute)] demo_ledger
     = [(10, (''c'', ''n2''), 70), (20, (''c'', ''n1''), 70)]"
    by code_simp
  show "sorted_wrt (\<lambda>(_, k, u) (now', k', _). k = k' \<longrightarrow> u \<le> now')
      (issue_trace [(10, ''c'', [], demo_chute), (20, ''c'', [], demo_chute)] demo_ledger)"
    by (rule nonce_never_reissued) (simp_all add: ledger_wf_def demo_ledger_def)
qed

text \<open>
  A ticket names an instance that is admitted and unexpired when the scope is pruned, that the
  caller does not avoid, with one of its own pooled nonces inside the issuing window; the ledger
  gains exactly that nonce, stays within its capacity, and the scope loses only spent nonces.
\<close>

theorem ticket_from_live_admission:
  assumes "take_ticket now' chute avoid (prune now s) l = (Ok (Some t), s', l')"
    and "chute_wf s" and "ledger_wf l"
  shows "\<exists>until issue valid i. map_of (admitted s) (ticket_instance t, ticket_pubkey t) = Some until \<and> now < until
    \<and> issue_until s = Some issue \<and> now < issue \<and> valid_until s = Some valid
    \<and> i \<in> set (pool s) \<and> key_of i = (ticket_instance t, ticket_pubkey t) \<and> nonce t \<in> set (nonces i)
    \<and> ticket_instance t \<notin> set avoid
    \<and> ledger_holds l' = (ledger_holds (ledger_prune now' l))((chute, nonce t) \<mapsto> valid)
    \<and> length (issued l') \<le> capacity l' \<and> spent (prune now s) s'"
proof -
  have "valid_until (prune now s) = valid_until s" by (simp add: prune_def Let_def)
  with assms(1) obtain valid where valid: "valid_until s = Some valid"
    "take_loop chute avoid valid (prune now s) (ledger_prune now' l) = (Ok (Some t), s', l')"
    by (auto simp: take_ticket_def split: option.splits)
  from take_loop_spec [OF valid(2) ledger_wf_prune [OF assms(3)]] obtain i where
    *: "spent (prune now s) s'" "ledger_wf l'" "ticket_instance t \<notin> set avoid"
      "ledger_holds l' = (ledger_holds (ledger_prune now' l))((chute, nonce t) \<mapsto> valid)"
      "hm_contains (admitted (prune now s)) (ticket_instance t, ticket_pubkey t)"
      "i \<in> set (pool (prune now s))" "key_of i = (ticket_instance t, ticket_pubkey t)" "nonce t \<in> set (nonces i)"
    by auto
  from *(5) obtain until where "map_of (admitted s) (ticket_instance t, ticket_pubkey t) = Some until" "now < until"
    by (auto simp: hm_contains_def prune_admitted [OF assms(2)] filter_o_def split: option.splits if_splits)
  with * prune_pool [OF *(6)] valid(1) show ?thesis by (auto simp: ledger_wf_def)
qed

theorem ticket_from_live_admission_witness:
  "\<exists>t s' l'. take_ticket 10 ''c'' [] (prune 10 demo_chute) demo_ledger = (Ok (Some t), s', l') \<and> nonce t = ''n2''
     \<and> length (issued l') \<le> capacity l'"
proof -
  obtain t s' l' where *: "take_ticket 10 ''c'' [] (prune 10 demo_chute) demo_ledger = (Ok (Some t), s', l')" "nonce t = ''n2''"
  proof -
    have "case take_ticket 10 ''c'' [] (prune 10 demo_chute) demo_ledger of (Inr (Some t), _) \<Rightarrow> nonce t = ''n2'' | _ \<Rightarrow> False"
      by code_simp
    then show ?thesis using that by (auto split: prod.splits sum.splits option.splits)
  qed
  have "chute_wf demo_chute" "ledger_wf demo_ledger"
    by (simp_all add: chute_wf_def demo_chute_def ChuteState_default_def hm_wf_def ledger_wf_def demo_ledger_def)
  from ticket_from_live_admission [OF *(1) this] * show ?thesis by blast
qed

text \<open>
  A renewal never overwrites a verdict that was recorded after it began: if any batch recorded
  meanwhile decided an instance, a success the renewal brings for it changes neither its admission
  nor its rejection, whatever else happened to the scope.
\<close>

theorem renewal_yields_to_later_verdict:
  assumes "chute_wf s" and "unat (generation s) + sum_list (map op_batches ops) < 2 ^ 64"
    and "s1 = fold run_op ops (s\<lparr>renewal_since := Some (generation s)\<rparr>)"
    and "\<exists>p \<in> set ops. op_decides k p"
    and "\<forall>v \<in> set vs. verdict_key v = k \<longrightarrow> (\<forall>cause. outcome v \<noteq> Rejected cause)"
  shows "map_of (admitted (record_verdicts vs now (Some (generation s)) s1)) k = map_of (admitted s1) k
    \<and> map_of (rejected (record_verdicts vs now (Some (generation s)) s1)) k = map_of (rejected s1) k"
proof -
  let ?s = "s\<lparr>renewal_since := Some (generation s)\<rparr>"
  have "renewing (generation s) {} 0 ?s" using assms(1) by (simp add: renewing_def chute_wf_def)
  from renewing_run [OF this, of ops] assms(2,3)
  have "renewing (generation s) {k. \<exists>p \<in> set ops. op_decides k p} (sum_list (map op_batches ops)) s1" by simp
  with assms(4) obtain at where "map_of (decided s1) k = Some at" "at > generation s"
    unfolding renewing_def by blast
  with superseded_verdicts [of "s1\<lparr>generation := generation s1 + 1, last_recorded := Some now\<rparr>" k at "generation s" vs now] assms(5)
  show ?thesis by (simp add: record_verdicts_def)
qed

theorem renewal_yields_to_later_verdict_witness:
  "let bad = \<lparr>verdict_instance = ''i'', verdict_pubkey = ''k'', outcome = Rejected ''r''\<rparr>;
       good = \<lparr>verdict_instance = ''i'', verdict_pubkey = ''k'', outcome = Admitted 500\<rparr>;
       s1 = fold run_op [OpRecord [bad] 10, OpPrune 200] (demo_chute\<lparr>renewal_since := Some 0\<rparr>)
   in map_of (admitted (record_verdicts [good] 201 (Some 0) s1)) (''i'', ''k'') = None"
proof -
  let ?bad = "\<lparr>verdict_instance = ''i'', verdict_pubkey = ''k'', outcome = Rejected ''r''\<rparr>"
  let ?good = "\<lparr>verdict_instance = ''i'', verdict_pubkey = ''k'', outcome = Admitted 500\<rparr>"
  let ?ops = "[OpRecord [?bad] 10, OpPrune 200]"
  have gen: "generation demo_chute = 0" by (simp add: demo_chute_def ChuteState_default_def)
  have "chute_wf demo_chute" by (simp add: chute_wf_def demo_chute_def ChuteState_default_def hm_wf_def)
  from renewal_yields_to_later_verdict [OF this, of ?ops, OF _ refl, of "(''i'', ''k'')" "[?good]" 201]
  have "map_of (admitted (record_verdicts [?good] 201 (Some 0) (fold run_op ?ops (demo_chute\<lparr>renewal_since := Some 0\<rparr>)))) (''i'', ''k'')
    = map_of (admitted (fold run_op ?ops (demo_chute\<lparr>renewal_since := Some 0\<rparr>))) (''i'', ''k'')"
    by (simp add: gen)
  also have "\<dots> = None"
    by (simp add: Let_def record_verdicts_def record_verdict_def prune_def hm_remove_def hm_retain_def demo_chute_def
        ChuteState_default_def)
  finally show ?thesis by (simp only: Let_def)
qed

text \<open>
  A batch of verdicts on distinct instances does what each says: a rejection ends the
  admission and is remembered for a minute, missing evidence changes nothing, and a success that
  no later batch has overtaken admits until its deadline.
\<close>

theorem record_verdicts_outcome:
  assumes "v \<in> set vs" and "distinct (map verdict_key vs)"
  shows "let s' = record_verdicts vs now since s in
    case outcome v of
      Rejected cause \<Rightarrow> map_of (admitted s') (verdict_key v) = None
        \<and> map_of (rejected s') (verdict_key v) = Some (now + REJECTION_TTL, cause)
    | NoEvidence \<Rightarrow> map_of (admitted s') (verdict_key v) = map_of (admitted s) (verdict_key v)
        \<and> map_of (rejected s') (verdict_key v) = map_of (rejected s) (verdict_key v)
    | Admitted until \<Rightarrow> map_of (admitted s') (verdict_key v) =
        (if \<exists>g at. since = Some g \<and> map_of (decided s) (verdict_key v) = Some at \<and> at > g
         then map_of (admitted s) (verdict_key v) else Some until)"
proof -
  obtain xs ys where vs: "vs = xs @ v # ys" using assms(1) by (meson split_list)
  with assms(2) have out: "verdict_key v \<notin> verdict_key ` set xs" "verdict_key v \<notin> verdict_key ` set ys" by auto
  let ?s0 = "s\<lparr>generation := generation s + 1, last_recorded := Some now\<rparr>"
  let ?s1 = "foldl (record_verdict now since) ?s0 xs"
  let ?s2 = "record_verdict now since ?s1 v"
  have fin: "record_verdicts vs now since s = foldl (record_verdict now since) ?s2 ys"
    by (simp add: record_verdicts_def vs)
  note pre = foldl_verdict_other [OF out(1), of now since ?s0] and post = foldl_verdict_other [OF out(2), of now since ?s2]
  show ?thesis
    using pre post
    by (auto simp: fin Let_def record_verdict_def is_some_and_def map_of_hm_insert map_of_hm_remove
        split: Outcome.splits option.splits if_splits)
qed

theorem record_verdicts_outcome_witness:
  "map_of (rejected (record_verdicts [\<lparr>verdict_instance = ''i'', verdict_pubkey = ''k'', outcome = Rejected ''r''\<rparr>] 7 None demo_chute))
     (''i'', ''k'') = Some (7 + REJECTION_TTL, ''r'')"
  using record_verdicts_outcome [of "\<lparr>verdict_instance = ''i'', verdict_pubkey = ''k'', outcome = Rejected ''r''\<rparr>"
      "[\<lparr>verdict_instance = ''i'', verdict_pubkey = ''k'', outcome = Rejected ''r''\<rparr>]" 7 None demo_chute]
  by (simp add: Let_def)

text \<open>
  An admission is never used past its evidence: counted on the wall clock from the anchor, its
  deadline is not after the expiry the evidence states, nor later than fifteen minutes.
\<close>

theorem deadline_within_evidence:
  "anchor \<le> deadline anchor anchor_wall expires_unix
   \<and> deadline anchor anchor_wall expires_unix - anchor \<le> ADMISSION_TTL
   \<and> anchor_wall + (deadline anchor anchor_wall expires_unix - anchor) \<le> max anchor_wall (secs (unat expires_unix))"
  by (auto simp: deadline_def)

end
