(* ===== verification/Chutes_Evidence.thy ===== *)
theory Chutes_Evidence
  imports Tee_Evidence Chutes_State
begin

text \<open>
  What admits a Chutes instance (\<^verbatim>\<open>attestd/src/chutes_verify/evidence.rs\<close>, \<^verbatim>\<open>references.rs\<close> and
  \<^verbatim>\<open>client.rs\<close>): the signed evidence row, the binding of the instance's key to the quote, the published
  measurements, the GPU verdict, and the batch of verdicts an evidence call gives.

  The answers of Chutes, of Intel's collateral service and of NVIDIA are arguments; so are the clock
  readings. The compiled reference file is the argument \<open>references\<close>: its decoder is serde's.
\<close>

named_theorems evidence_simps

section \<open>Evidence rows\<close>

record EvidenceRow =
  row_instance :: "string option"
  row_quote :: string
  row_gpu_evidence :: "json list"
  row_certificate :: string
  row_signature :: "string option"
  attested_body :: "string option"

record SignedEvidence =
  signed_quote :: string
  signed_gpu_evidence :: "json list"
  signed_spki :: string
  certificate_expires :: u64

definition key_binding :: "tee_lib \<Rightarrow> string \<Rightarrow> string \<Rightarrow> string" where
  "key_binding T nonce_hex e2e_pubkey_b64 = sha256 T (nonce_hex @ e2e_pubkey_b64)"

definition check_attested_body :: "tee_lib \<Rightarrow> string \<Rightarrow> EvidenceRow \<Rightarrow> string \<Rightarrow> anyhow + unit" where
  "check_attested_body T bytes row nonce_hex =
     bind_r (with_context ''decode attested body'' (json_of T bytes)) (\<lambda>b.
     bind_r (ensure (get_string ''nonce'' b = Some nonce_hex) ''attested body carries a different nonce'') (\<lambda>_.
     bind_r (ensure (Option.bind (json_pointer [''evidence'', ''tdx_quote''] b) as_str = Some (row_quote row))
       ''attested body carries a different TDX quote'') (\<lambda>_.
     bind_r (case json_pointer [''evidence'', ''nvtrust_evidence''] b of
               Some (JString encoded) \<Rightarrow> with_context ''decode attested GPU evidence'' (json_of T encoded)
             | Some inline \<Rightarrow> Ok inline
             | None \<Rightarrow> Err ''attested body has no GPU evidence'') (\<lambda>gpu.
     ensure (as_array gpu = Some (row_gpu_evidence row)) ''attested body carries different GPU evidence''))))"

definition verify_signed_row :: "tee_lib \<Rightarrow> EvidenceRow \<Rightarrow> string \<Rightarrow> anyhow + SignedEvidence" where
  "verify_signed_row T row nonce_hex =
     bind_r (with_context ''decode attestation proxy certificate'' (b64std T (row_certificate row))) (\<lambda>der.
     bind_r (map_err (\<lambda>e. ''parse attestation proxy certificate: '' @ e) (parse_x509 T der)) (\<lambda>(rest, cert).
     bind_r (ensure (rest = []) ''attestation proxy certificate has trailing bytes'') (\<lambda>_.
     bind_r (ensure (currently_valid cert) ''attestation proxy certificate is outside its validity period'') (\<lambda>_.
     bind_r (ensure (is_rsa cert) ''attestation proxy certificate does not hold an RSA key'') (\<lambda>_.
     bind_r (ok_or (row_signature row) ''evidence row is unsigned'') (\<lambda>signature.
     bind_r (with_context ''decode evidence signature'' (b64std T signature)) (\<lambda>signature.
     bind_r (ok_or (attested_body row) ''evidence row has no attested body'') (\<lambda>b.
     bind_r (with_context ''decode attested body'' (b64std T b)) (\<lambda>b.
     bind_r (ensure (rsa_ok T (spki_data cert) b signature)
       ''evidence signature does not verify under the proxy certificate'') (\<lambda>_.
     bind_r (check_attested_body T b row nonce_hex) (\<lambda>_.
     bind_r (with_context ''decode TDX quote'' (b64std T (row_quote row))) (\<lambda>quote.
     bind_r (spki_sha256 T der) (\<lambda>spki.
     bind_r (ensure (0 \<le> not_after cert) ''attestation proxy certificate expires before 1970'') (\<lambda>_.
     Ok \<lparr>signed_quote = quote, signed_gpu_evidence = row_gpu_evidence row, signed_spki = spki,
          certificate_expires = word_of_int (not_after cert)\<rparr>))))))))))))))"

definition check_report_data :: "string \<Rightarrow> string \<Rightarrow> string \<Rightarrow> anyhow + unit" where
  "check_report_data data binding spki =
     bind_r (ensure (take 32 data = binding) ''TDX report_data does not bind our nonce and the instance E2E key'') (\<lambda>_.
     ensure (drop 32 data = spki) ''TDX report_data does not bind the evidence certificate key'')"

section \<open>Published references\<close>

record Reference =
  ref_version :: string
  ref_name :: string
  mrtd :: string
  rtmrs :: "string list"
  gpu_arch :: "string option"
  ref_gpu_count :: nat

record Entry =
  entry_version :: string
  entry_name :: string
  entry_mrtd :: string
  rtmr0 :: string
  rtmr1 :: string
  rtmr2 :: string
  rtmr3 :: string
  expected_gpus :: "string list"
  entry_gpu_count :: nat

definition register :: "tee_lib \<Rightarrow> string \<Rightarrow> anyhow + string" where
  "register T hex_value =
     bind_r (with_context ''decode measurement register'' (hex_decode T hex_value)) (\<lambda>r.
     bind_r (ensure (length r = 48) ''measurement register is not 48 bytes'') (\<lambda>_. Ok r))"

definition arch_of :: "string \<Rightarrow> string option" where
  "arch_of gpu =
     (let g = ascii_lower gpu in
      if g \<in> {''h100'', ''h200'', ''h20''} then Some ''HOPPER''
      else if g \<in> {''b200'', ''b300'', ''pro_6000'', ''rtx_pro_6000''} then Some ''BLACKWELL''
      else None)"

definition gpu_arch_of :: "string list \<Rightarrow> string option" where
  "gpu_arch_of gpus =
     (case map arch_of gpus of
        Some first # rest \<Rightarrow> if list_all (\<lambda>a. a = Some first) rest then Some first else None
      | _ \<Rightarrow> None)"

definition reference_of :: "tee_lib \<Rightarrow> Entry \<Rightarrow> anyhow + Reference" where
  "reference_of T e =
     bind_r (register T (entry_mrtd e)) (\<lambda>m.
     bind_r (register T (rtmr0 e)) (\<lambda>r0.
     bind_r (register T (rtmr1 e)) (\<lambda>r1.
     bind_r (register T (rtmr2 e)) (\<lambda>r2.
     bind_r (register T (rtmr3 e)) (\<lambda>r3.
     Ok \<lparr>ref_version = entry_version e, ref_name = entry_name e, mrtd = m, rtmrs = [r0, r1, r2, r3],
          gpu_arch = gpu_arch_of (expected_gpus e), ref_gpu_count = entry_gpu_count e\<rparr>)))))"

fun references_of :: "tee_lib \<Rightarrow> Entry list \<Rightarrow> anyhow + Reference list" where
  "references_of T [] = Ok []"
| "references_of T (e # es) =
     bind_r (reference_of T e) (\<lambda>r. map_r (\<lambda>rs. r # rs) (references_of T es))"

text \<open>\<^verbatim>\<open>published\<close>: \<open>entries\<close> is what serde decodes of the compiled file.\<close>

definition published :: "tee_lib \<Rightarrow> anyhow + Entry list \<Rightarrow> anyhow + Reference list" where
  "published T entries =
     map_err (\<lambda>e. ''compiled Chutes references: '' @ e)
       (bind_r (with_context ''decode measurement references'' entries) (references_of T))"

definition td_rtmrs :: "TDReport10 \<Rightarrow> string list" where
  "td_rtmrs td = [rt_mr0 td, rt_mr1 td, rt_mr2 td, rt_mr3 td]"

definition match_td :: "tee_lib \<Rightarrow> Reference list \<Rightarrow> TDReport10 \<Rightarrow> anyhow + Reference" where
  "match_td T refs td =
     (case find (\<lambda>r. mrtd r = mr_td td \<and> rtmrs r = td_rtmrs td) refs of
        Some r \<Rightarrow> Ok r
      | None \<Rightarrow>
          if list_ex (\<lambda>r. mrtd r = mr_td td) refs
          then Err (''MRTD '' @ hex_encode T (mr_td td) @ '' is published but no entry with it has these runtime RTMR0-3'')
          else Err (''MRTD '' @ hex_encode T (mr_td td) @ '' is not in the published Chutes references''))"

section \<open>The GPU request\<close>

definition nras_item :: "string \<Rightarrow> json \<Rightarrow> anyhow + json" where
  "nras_item arch item =
     (let field = (\<lambda>name. ok_or (get_string name item) ''GPU evidence item is incomplete'') in
      bind_r (field ''arch'') (\<lambda>a.
      bind_r (ensure (eq_ignore_ascii_case a arch)
        (''GPU evidence is not '' @ arch @ '' as the reference hardware requires'')) (\<lambda>_.
      bind_r (field ''evidence'') (\<lambda>ev.
      bind_r (field ''certificate'') (\<lambda>cert.
      Ok (JObject [(''evidence'', JString ev), (''certificate'', JString cert)]))))))"

fun nras_items :: "string \<Rightarrow> json list \<Rightarrow> anyhow + json list" where
  "nras_items arch [] = Ok []"
| "nras_items arch (item # rest) =
     bind_r (nras_item arch item) (\<lambda>v. map_r (\<lambda>vs. v # vs) (nras_items arch rest))"

definition nras_request :: "json list \<Rightarrow> string \<Rightarrow> string \<Rightarrow> anyhow + json" where
  "nras_request gpu_evidence nonce_hex arch =
     map_r (\<lambda>items. JObject [(''nonce'', JString nonce_hex), (''evidence_list'', JArray items),
         (''arch'', JString arch), (''claims_version'', JString ''3.0'')])
       (nras_items arch gpu_evidence)"

section \<open>Admitting one instance\<close>

text \<open>
  What one admission meets: Intel's collateral, the second it is appraised at, NVIDIA's answer and the second
  after it.
\<close>

record admit_env =
  collateral :: "anyhow + string"
  appraised_at :: "anyhow + u64"
  gpu_answer :: "anyhow + http_response"
  gpu_transport :: anyhow
  completed_at :: "anyhow + u64"

definition admit_instance :: "tee_lib \<Rightarrow> (u16 \<Rightarrow> string) \<Rightarrow> anyhow + Entry list \<Rightarrow> admit_env \<Rightarrow> DiscoveredInstance
    \<Rightarrow> EvidenceRow \<Rightarrow> string \<Rightarrow> Jwks \<Rightarrow> anyhow + u64" where
  "admit_instance T show_status entries env inst row nonce_hex jwks =
     bind_r (verify_signed_row T row nonce_hex) (\<lambda>signed.
     bind_r (verify_quote T (collateral env) (appraised_at env) (signed_quote signed)) (\<lambda>claims.
     bind_r (td_report (report claims)) (\<lambda>td.
     let binding = key_binding T nonce_hex (e2e_pubkey inst) in
     bind_r (check_report_data (report_data td) binding (signed_spki signed)) (\<lambda>_.
     bind_r (published T entries) (\<lambda>refs.
     bind_r (match_td T refs td) (\<lambda>reference.
     bind_r (ok_or (gpu_arch reference) (''reference '' @ ref_name reference @ '' names no known GPU architecture'')) (\<lambda>arch.
     let gpu_count = length (signed_gpu_evidence signed) in
     bind_r (ensure (1 \<le> gpu_count \<and> gpu_count \<le> ref_gpu_count reference)
       (nat_to_string gpu_count @ '' GPUs attested, '' @ ref_name reference @ '' carries 1..='' @
        nat_to_string (ref_gpu_count reference))) (\<lambda>_.
     let gpu_nonce = hex_encode T binding in
     bind_r (nras_request (signed_gpu_evidence signed) gpu_nonce arch) (\<lambda>_.
     bind_r (attest_v4 T show_status (gpu_transport env) (gpu_answer env)) (\<lambda>response.
     bind_r (with_context ''system clock predates the Unix epoch'' (completed_at env)) (\<lambda>now.
     bind_r (appraise_v4 T response jwks gpu_nonce gpu_count now) (\<lambda>gpus_expire.
     let expires = min (min gpus_expire (certificate_expires signed)) (earliest_expiration_date claims) in
     bind_r (ensure (expires > now) ''instance evidence expires before admission completes'') (\<lambda>_.
     Ok expires)))))))))))))"

section \<open>Laws\<close>

lemma check_attested_body_Ok [evidence_simps]:
  "check_attested_body T bytes row nonce_hex = Ok u \<longleftrightarrow>
     (\<exists>b gpu. json_of T bytes = Ok b \<and> get_string ''nonce'' b = Some nonce_hex
        \<and> json_pointer [''evidence'', ''tdx_quote''] b = Some (JString (row_quote row))
        \<and> json_pointer [''evidence'', ''nvtrust_evidence''] b = Some gpu
        \<and> (gpu = JArray (row_gpu_evidence row)
           \<or> (\<exists>encoded. gpu = JString encoded \<and> json_of T encoded = Ok (JArray (row_gpu_evidence row)))))"
proof -
  have arr: "as_array v = Some xs \<longleftrightarrow> v = JArray xs" for v xs by (cases v) auto
  have gpu: "(case x of Some (JString encoded) \<Rightarrow> with_context c (json_of T encoded) | Some inline \<Rightarrow> Ok inline
      | None \<Rightarrow> Err e) = Ok g \<longleftrightarrow>
      (\<exists>v. x = Some v \<and> (if \<exists>enc. v = JString enc then \<exists>enc. v = JString enc \<and> json_of T enc = Ok g else g = v))"
    for x c e g by (auto simp: result_simps split: option.splits json.splits)
  show ?thesis
    unfolding check_attested_body_def by (simp add: result_simps gpu arr bind_eq_Some_conv) (auto; blast)
qed

text \<open>The row is signed: its body names the nonce and its own quote and GPU evidence, under the certificate's key.\<close>

definition row_signed :: "tee_lib \<Rightarrow> EvidenceRow \<Rightarrow> string \<Rightarrow> string \<Rightarrow> certificate \<Rightarrow> bool" where
  "row_signed T row nonce_hex der cert \<longleftrightarrow>
     b64std T (row_certificate row) = Ok der \<and> parse_x509 T der = Ok ([], cert)
   \<and> currently_valid cert \<and> is_rsa cert \<and> 0 \<le> not_after cert
   \<and> (\<exists>s64 sig b64 b. row_signature row = Some s64 \<and> b64std T s64 = Ok sig \<and> attested_body row = Some b64
        \<and> b64std T b64 = Ok b \<and> rsa_ok T (spki_data cert) b sig \<and> check_attested_body T b row nonce_hex = Ok ())"

lemma verify_signed_row_Ok:
  "verify_signed_row T row nonce_hex = Ok sg \<longleftrightarrow>
     (\<exists>der cert quote. row_signed T row nonce_hex der cert \<and> b64std T (row_quote row) = Ok quote
        \<and> sg = \<lparr>signed_quote = quote, signed_gpu_evidence = row_gpu_evidence row,
                     signed_spki = sha256 T (spki_raw cert), certificate_expires = word_of_int (not_after cert)\<rparr>)"
  by (fastforce simp: verify_signed_row_def row_signed_def spki_sha256_def result_simps)

lemma check_report_data_Ok [evidence_simps]:
  "check_report_data data binding spki = Ok u \<longleftrightarrow> take 32 data = binding \<and> drop 32 data = spki"
  by (auto simp: check_report_data_def result_simps)

lemma match_td_Ok:
  "match_td T refs td = Ok r \<Longrightarrow> r \<in> set refs \<and> mrtd r = mr_td td \<and> rtmrs r = td_rtmrs td"
  by (auto simp: match_td_def find_Some_iff split: option.splits if_splits)

text \<open>The steps of an admission, in order.\<close>

lemma admit_instance_steps:
  assumes "admit_instance T show_status entries env inst row nonce_hex jwks = Ok expires"
  obtains sg claims td refs r arch v response now gpus_expire u where
    "verify_signed_row T row nonce_hex = Ok sg"
    "verify_quote T (collateral env) (appraised_at env) (signed_quote sg) = Ok claims"
    "td_report (report claims) = Ok td"
    "check_report_data (report_data td) (key_binding T nonce_hex (e2e_pubkey inst)) (signed_spki sg) = Ok u"
    "published T entries = Ok refs" "match_td T refs td = Ok r" "gpu_arch r = Some arch"
    "1 \<le> length (signed_gpu_evidence sg) \<and> length (signed_gpu_evidence sg) \<le> ref_gpu_count r"
    "nras_request (signed_gpu_evidence sg) (hex_encode T (key_binding T nonce_hex (e2e_pubkey inst))) arch = Ok v"
    "appraise_v4 T response jwks (hex_encode T (key_binding T nonce_hex (e2e_pubkey inst)))
       (length (signed_gpu_evidence sg)) now = Ok gpus_expire"
    "expires = min (min gpus_expire (certificate_expires sg)) (earliest_expiration_date claims)" "expires > now"
  using assms unfolding admit_instance_def Let_def bind_r_eq_Ok ensure_eq_Ok ok_or_eq_Ok with_context_eq_Ok
  by (elim exE conjE) (rule that, (assumption | (rule conjI, assumption, assumption) | (drule Inr_inject, simp only:))+)

lemma nras_items_Ok: "nras_items arch items = Ok vs \<Longrightarrow> list_all (\<lambda>i. \<exists>a. get_string ''arch'' i = Some a \<and> eq_ignore_ascii_case a arch) items"
  by (induction items arbitrary: vs) (auto simp: result_simps nras_item_def Let_def)

lemma nras_request_Ok:
  "nras_request gpus n arch = Ok v \<Longrightarrow> list_all (\<lambda>i. \<exists>a. get_string ''arch'' i = Some a \<and> eq_ignore_ascii_case a arch) gpus"
  by (auto simp: nras_request_def result_simps dest: nras_items_Ok)

section \<open>Properties\<close>

text \<open>
  C30: An instance is admitted only when everything about it is bound together: the evidence row is signed for
  our nonce, its quote is appraised as up to date TDX without debug, the first half of the quote's report
  data is the hash of our nonce and the instance's key and the second half the hash of the signing
  certificate's key, the measured registers are a published reference, and NVIDIA judged as many
  GPUs of the reference's architecture as were attested, for a nonce derived from that binding. The
  admission ends no later than any of the evidence.
\<close>

theorem admit_instance_bound:
  assumes "admit_instance T show_status entries env inst row nonce_hex jwks = Ok expires"
  shows "\<exists>der cert quote bundle at claims td refs r arch response now gpus_expire.
     row_signed T row nonce_hex der cert \<and> b64std T (row_quote row) = Ok quote
   \<and> verify_chain T quote bundle at = Ok claims \<and> appraise T claims at = Ok td
   \<and> take 32 (report_data td) = sha256 T (nonce_hex @ e2e_pubkey inst) \<and> drop 32 (report_data td) = sha256 T (spki_raw cert)
   \<and> published T entries = Ok refs \<and> r \<in> set refs \<and> mrtd r = mr_td td \<and> rtmrs r = td_rtmrs td
   \<and> gpu_arch r = Some arch \<and> 1 \<le> length (row_gpu_evidence row) \<and> length (row_gpu_evidence row) \<le> ref_gpu_count r
   \<and> list_all (\<lambda>i. \<exists>a. get_string ''arch'' i = Some a \<and> eq_ignore_ascii_case a arch) (row_gpu_evidence row)
   \<and> appraise_v4 T response jwks (hex_encode T (sha256 T (nonce_hex @ e2e_pubkey inst)))
        (length (row_gpu_evidence row)) now = Ok gpus_expire
   \<and> now < expires \<and> expires \<le> gpus_expire \<and> expires \<le> word_of_int (not_after cert)
   \<and> expires \<le> earliest_expiration_date claims"
proof -
  from admit_instance_steps [OF assms] obtain sg claims td refs r arch v response now gpus_expire u where a:
    "verify_signed_row T row nonce_hex = Ok sg"
    "verify_quote T (collateral env) (appraised_at env) (signed_quote sg) = Ok claims"
    "td_report (report claims) = Ok td"
    "check_report_data (report_data td) (key_binding T nonce_hex (e2e_pubkey inst)) (signed_spki sg) = Ok u"
    "published T entries = Ok refs" "match_td T refs td = Ok r" "gpu_arch r = Some arch"
    "1 \<le> length (signed_gpu_evidence sg) \<and> length (signed_gpu_evidence sg) \<le> ref_gpu_count r"
    "nras_request (signed_gpu_evidence sg) (hex_encode T (key_binding T nonce_hex (e2e_pubkey inst))) arch = Ok v"
    "appraise_v4 T response jwks (hex_encode T (key_binding T nonce_hex (e2e_pubkey inst)))
       (length (signed_gpu_evidence sg)) now = Ok gpus_expire"
    "expires = min (min gpus_expire (certificate_expires sg)) (earliest_expiration_date claims)" "now < expires" .
  from a(1) obtain der cert quote where row: "row_signed T row nonce_hex der cert" "b64std T (row_quote row) = Ok quote"
    "sg = \<lparr>signed_quote = quote, signed_gpu_evidence = row_gpu_evidence row,
             signed_spki = sha256 T (spki_raw cert), certificate_expires = word_of_int (not_after cert)\<rparr>"
    unfolding verify_signed_row_Ok by blast
  from a(2) obtain b at td' where quote: "verify_chain T quote b at = Ok claims" "appraise T claims at = Ok td'"
    by (auto simp: verify_quote_Ok row(3))
  have td: "td' = td" using quote(2) a(3) by (simp add: appraise_Ok)
  note gpus = nras_request_Ok [OF a(9), unfolded row(3) SignedEvidence.select_convs]
  note match = match_td_Ok [OF a(6)]
  have "take 32 (report_data td) = sha256 T (nonce_hex @ e2e_pubkey inst)" "drop 32 (report_data td) = sha256 T (spki_raw cert)"
    using a(4) unfolding check_report_data_Ok key_binding_def row(3) by simp_all
  moreover have "expires \<le> gpus_expire" "expires \<le> word_of_int (not_after cert)" "expires \<le> earliest_expiration_date claims"
    unfolding a(11) row(3) by (simp_all add: min.coboundedI1)
  moreover have "1 \<le> length (row_gpu_evidence row)" "length (row_gpu_evidence row) \<le> ref_gpu_count r"
    using a(8) unfolding row(3) by simp_all
  moreover note a(10) [unfolded row(3) SignedEvidence.select_convs key_binding_def]
  ultimately show ?thesis
    using row(1,2) quote(1) quote(2) [unfolded td] a(5,7,12) match gpus by blast
qed

section \<open>Witnesses\<close>

definition demo_gpu :: json where
  "demo_gpu = JObject [(''arch'', JString ''HOPPER''), (''evidence'', JString ''e''), (''certificate'', JString ''c'')]"

definition demo_token_claims :: "(string \<times> json) list" where
  "demo_token_claims = [(''iss'', JString NRAS_ORIGIN), (''eat_nonce'', JString ''n''), (''exp'', JNumber (PosInt 200))]"

definition demo_json_of :: "string \<Rightarrow> anyhow + json" where
  "demo_json_of s =
     (if s = ''B'' then Ok (JObject [(''nonce'', JString ''n''),
        (''evidence'', JObject [(''tdx_quote'', JString ''q''), (''nvtrust_evidence'', JArray [demo_gpu])])])
      else if s = ''N'' then Ok (JArray [JArray [JString ''JWT'', JString ''h.a.s''], JObject [(''GPU-0'', JString ''h.g.s'')]])
      else if s = ''h'' then Ok (JObject [(''alg'', JString ''ES384''), (''kid'', JString ''k'')])
      else if s = ''a'' then Ok (JObject (demo_token_claims @ [(''x-nvidia-overall-att-result'', JBool True),
        (''submods'', JObject [(''GPU-0'', JArray [JNull, JArray [JNull, JString ''n'']])])]))
      else Ok (JObject (demo_token_claims @ [(''measres'', JString ''success''), (''secboot'', JBool True),
        (''dbgstat'', JString ''disabled'')] @ map (\<lambda>c. (c, JBool True)) REQUIRED_GPU_CLAIMS)))"

definition demo_td :: TDReport10 where
  "demo_td = \<lparr>td_attributes = replicate 8 (CHR 0x00), mr_td = replicate 48 (CHR ''m''), mr_config_id = [],
     rt_mr0 = replicate 48 (CHR ''m''), rt_mr1 = replicate 48 (CHR ''m''), rt_mr2 = replicate 48 (CHR ''m''),
     rt_mr3 = replicate 48 (CHR ''m''), report_data = replicate 64 (CHR ''b'')\<rparr>"

definition demo_certificate :: certificate where
  "demo_certificate = \<lparr>spki_raw = [], spki_data = [], is_rsa = True, is_p256 = False, currently_valid = True, not_after = 300\<rparr>"

definition demo_claims :: QuoteClaims where
  "demo_claims = \<lparr>report = TD10 demo_td, platform_tcb = UpToDate, qe_tcb = UpToDate, earliest_expiration_date = 400\<rparr>"

definition demo_tee :: tee_lib where
  "demo_tee = \<lparr>json_of = demo_json_of, b64url = Ok, b64std = Ok, hex_encode = (\<lambda>_. ''n''),
     hex_decode = (\<lambda>_. Ok (replicate 48 (CHR ''m''))), sha256 = (\<lambda>_. replicate 32 (CHR ''b'')),
     es384_ok = (\<lambda>_ _ _. True), rsa_ok = (\<lambda>_ _ _. True), parse_x509 = (\<lambda>_. Ok ([], demo_certificate)),
     jwks_document = (\<lambda>_. Ok [JNull]),
     jwk_of_value = (\<lambda>_. Some \<lparr>kid = ''k'', kty = ''EC'', crv = ''P-384'', jwk_x = replicate 48 (CHR ''x''), jwk_y = replicate 48 (CHR ''y'')\<rparr>),
     verify_chain = (\<lambda>_ _ _. Ok demo_claims), strict_policy = (\<lambda>_ _. Ok ())\<rparr>"

definition demo_row :: EvidenceRow where
  "demo_row = \<lparr>row_instance = Some ''i'', row_quote = ''q'', row_gpu_evidence = [demo_gpu], row_certificate = [],
     row_signature = Some [], attested_body = Some ''B''\<rparr>"

definition demo_entry :: Entry where
  "demo_entry = \<lparr>entry_version = ''1'', entry_name = ''h100-8'', entry_mrtd = [], rtmr0 = [], rtmr1 = [], rtmr2 = [], rtmr3 = [],
     expected_gpus = [''H100''], entry_gpu_count = 8\<rparr>"

definition demo_env :: admit_env where
  "demo_env = \<lparr>collateral = Ok [], appraised_at = Ok 90,
     gpu_answer = Ok \<lparr>status_code = 200, response_headers = [], content_length = None, response_body = [Chunk ''N'']\<rparr>,
     gpu_transport = [], completed_at = Ok 100\<rparr>"

lemma demo_signed: "verify_signed_row demo_tee demo_row ''n'' = Ok \<lparr>signed_quote = ''q'', signed_gpu_evidence = [demo_gpu],
    signed_spki = replicate 32 (CHR ''b''), certificate_expires = 300\<rparr>"
  by (simp add: verify_signed_row_def demo_tee_def demo_row_def demo_certificate_def check_attested_body_def
      demo_json_of_def get_string_def json_get_def json_pointer.simps(2) spki_sha256_def)

lemma demo_pointer: "json_pointer [''1'', ''1''] (JArray [JNull, JArray [JNull, JString ''n'']]) = Some (JString ''n'')"
proof -
  have "pointer_index ''1'' = Some 1"
    by (simp add: pointer_index_def parse_uint_def is_ascii_digit_def byte_of_def digits_value_def)
  then show ?thesis by (simp add: json_pointer.simps(2))
qed

lemma demo_token: "token_expiry (JObject (demo_token_claims @ rest)) ''n'' 100 = Ok 200"
  by (simp add: token_expiry_def demo_token_claims_def get_string_def json_get_def eq_ignore_ascii_case_def)

lemma demo_split: "rsplit_once (CHR ''.'') (h # ''.'' @ [p] @ ''.s'') = Some (h # ''.'' @ [p], ''s'')"
  "h \<noteq> CHR ''.'' \<Longrightarrow> split_once (CHR ''.'') (h # ''.'' @ [p]) = Some ([h], [p])"
  by (simp_all add: rsplit_once_Some split_once_Some)

lemma demo_verify:
  "Jwks_verify demo_tee [(''k'', key)] (''h.'' @ [p] @ ''.s'') = demo_json_of [p]" if "p = CHR ''a'' \<or> p = CHR ''g''"
  using that demo_split(1) [of "CHR ''h''" p] demo_split(2) [of "CHR ''h''" p]
  by (auto simp: Jwks_verify_def demo_tee_def demo_json_of_def get_string_def json_get_def)

lemma demo_hex: "hex_encode demo_tee x = ''n''"
  by (simp add: demo_tee_def)

lemma demo_appraised: "appraise_v4 demo_tee (JArray [JArray [JString ''JWT'', JString ''h.a.s''], JObject [(''GPU-0'', JString ''h.g.s'')]])
    [(''k'', key)] ''n'' 1 100 = Ok 200"
proof -
  let ?agg = "demo_token_claims @ [(''x-nvidia-overall-att-result'', JBool True),
        (''submods'', JObject [(''GPU-0'', JArray [JNull, JArray [JNull, JString ''n'']])])]"
  have agg: "Jwks_verify demo_tee [(''k'', key)] ''h.a.s'' = Ok (JObject ?agg)"
    using demo_verify [of "CHR ''a''" key] by (simp add: demo_json_of_def)
  have gpu: "Jwks_verify demo_tee [(''k'', key)] ''h.g.s'' = demo_json_of ''g''"
    using demo_verify [of "CHR ''g''" key] by simp
  have good: "appraise_gpu (JObject (demo_token_claims @ [(''measres'', JString ''success''), (''secboot'', JBool True),
        (''dbgstat'', JString ''disabled'')] @ map (\<lambda>c. (c, JBool True)) REQUIRED_GPU_CLAIMS)) = Ok ()"
    by (simp add: appraise_gpu_def demo_token_claims_def get_string_def get_boolean_def json_get_def REQUIRED_GPU_CLAIMS_def)
  have "appraise_verdict demo_tee [(''k'', key)] ''n'' 100 [(''GPU-0'', JArray [JNull, JArray [JNull, JString ''n'']])]
      (''GPU-0'', JString ''h.g.s'') = Ok 200"
    using good by (simp add: appraise_verdict_def demo_pointer gpu demo_json_of_def demo_token demo_hex eq_ignore_ascii_case_def)
  moreover have "require_overall_success (JObject ?agg) = Ok ()" "json_get ''submods'' (JObject ?agg) =
      Some (JObject [(''GPU-0'', JArray [JNull, JArray [JNull, JString ''n'']])])"
    by (simp_all add: require_overall_success_def get_boolean_def json_get_def demo_token_claims_def)
  ultimately show ?thesis
    by (simp add: appraise_v4_def split_v4_def agg demo_token)
qed

lemma demo_published: "published demo_tee (Ok [demo_entry]) =
    Ok [\<lparr>ref_version = ''1'', ref_name = ''h100-8'', mrtd = replicate 48 (CHR ''m''), rtmrs = replicate 4 (replicate 48 (CHR ''m'')),
          gpu_arch = Some ''HOPPER'', ref_gpu_count = 8\<rparr>]"
proof -
  have "arch_of ''H100'' = Some ''HOPPER''" by code_simp
  then show ?thesis
    by (simp add: published_def demo_entry_def reference_of_def register_def demo_tee_def gpu_arch_of_def numeral_eq_Suc)
qed

lemma demo_admitted: "admit_instance demo_tee (\<lambda>_. []) (Ok [demo_entry]) demo_env demo_instance demo_row ''n'' [(''k'', key)] = Ok 200"
proof -
  have quote: "verify_quote demo_tee (Ok []) (Ok 90) ''q'' = Ok demo_claims"
    by (simp add: verify_quote_def verify_signature_chain_def appraise_def demo_tee_def demo_claims_def demo_td_def byte_of_def)
  have match: "match_td demo_tee [\<lparr>ref_version = ''1'', ref_name = ''h100-8'', mrtd = replicate 48 (CHR ''m''),
      rtmrs = replicate 4 (replicate 48 (CHR ''m'')), gpu_arch = Some ''HOPPER'', ref_gpu_count = 8\<rparr>] demo_td =
    Ok \<lparr>ref_version = ''1'', ref_name = ''h100-8'', mrtd = replicate 48 (CHR ''m''),
      rtmrs = replicate 4 (replicate 48 (CHR ''m'')), gpu_arch = Some ''HOPPER'', ref_gpu_count = 8\<rparr>"
    by (simp add: match_td_def demo_td_def td_rtmrs_def numeral_eq_Suc)
  have bound: "check_report_data (report_data demo_td) (key_binding demo_tee ''n'' k) (replicate 32 (CHR ''b'')) = Ok ()" for k
    by (simp add: check_report_data_def demo_td_def key_binding_def demo_tee_def)
  have request: "\<exists>v. nras_request [demo_gpu] n ''HOPPER'' = Ok v" for n
    by (simp add: nras_request_def nras_item_def demo_gpu_def get_string_def json_get_def eq_ignore_ascii_case_def)
  then obtain v where v: "nras_request [demo_gpu] (hex_encode demo_tee (key_binding demo_tee ''n'' (e2e_pubkey demo_instance))) ''HOPPER'' = Ok v"
    by blast
  have answer: "attest_v4 demo_tee (\<lambda>_. []) (gpu_transport demo_env) (gpu_answer demo_env) =
      Ok (JArray [JArray [JString ''JWT'', JString ''h.a.s''], JObject [(''GPU-0'', JString ''h.g.s'')]])"
    by (simp add: attest_v4_def nras_bounded_def demo_env_def MAX_NRAS_BYTES_def demo_tee_def demo_json_of_def)
  have env: "collateral demo_env = Ok []" "appraised_at demo_env = Ok 90" "completed_at demo_env = Ok 100"
    "report demo_claims = TD10 demo_td" "earliest_expiration_date demo_claims = 400"
    by (simp_all add: demo_env_def demo_claims_def)
  show ?thesis
    using demo_appraised [of key]
    by (simp add: admit_instance_def demo_signed env quote bound demo_published match v [unfolded demo_hex] answer demo_hex Let_def)
qed

theorem admit_instance_bound_witness:
  "\<exists>cert td. row_signed demo_tee demo_row ''n'' [] cert \<and> (200 :: u64) \<le> word_of_int (not_after cert)
     \<and> take 32 (report_data (td :: TDReport10)) = sha256 demo_tee (''n'' @ e2e_pubkey demo_instance)"
proof -
  from admit_instance_bound [OF demo_admitted [of "[]"]] obtain der cert td where
    w: "row_signed demo_tee demo_row ''n'' der cert" "(200 :: u64) \<le> word_of_int (not_after cert)"
    "take 32 (report_data (td :: TDReport10)) = sha256 demo_tee (''n'' @ e2e_pubkey demo_instance)"
    by (elim exE conjE) (rule that, assumption+)
  from w(1) have "der = []" by (auto simp: row_signed_def demo_tee_def demo_row_def)
  with w show ?thesis by blast
qed

end
