(* ===== verification/Chutes_Budget.thy ===== *)
theory Chutes_Budget
  imports Chutes_State
begin

text \<open>
  The discovery and evidence budgets of the Chutes credentials
  (\<^verbatim>\<open>attestd/src/chutes_verify/admission.rs\<close>, \<^verbatim>\<open>Budget\<close> and \<^verbatim>\<open>Discoveries\<close>): sliding one-minute
  windows, per-chute backoffs and the eviction of idle budgets.

  An operation takes the instant it reads; the wall clock and the jitter it draws are arguments.
  \<^verbatim>\<open>with_budget\<close> reads its instant before it takes the lock, so the instants of operations
  in lock order may run backwards a little: the theorems carry that skew. The single-flight
  lock is modelled by the number of references to it, the one of the map included.
\<close>

named_theorems budget_simps

section \<open>Constants and waits\<close>

definition EVIDENCE_PER_MINUTE :: nat where "EVIDENCE_PER_MINUTE = length TARGETS"
definition REFUSAL_BACKOFF :: duration where "REFUSAL_BACKOFF = secs (30 * 60)"
definition DISCOVERIES_PER_MINUTE :: nat where "DISCOVERIES_PER_MINUTE = 30"
definition DISCOVERY_WINDOW :: duration where "DISCOVERY_WINDOW = secs 60"
definition BACKOFF_START :: duration where "BACKOFF_START = secs 5"
definition BACKOFF_MAX :: duration where "BACKOFF_MAX = secs 60"
definition RATE_WINDOW :: duration where "RATE_WINDOW = secs 60"
definition RATE_WINDOW_SLACK :: duration where "RATE_WINDOW_SLACK = secs 1"
definition RATE_JITTER :: duration where "RATE_JITTER = secs 5"
definition MAX_CREDENTIALS :: nat where "MAX_CREDENTIALS = 4096"

definition until_next_window :: "duration \<Rightarrow> duration" where
  "until_next_window wall = (RATE_WINDOW - wall mod RATE_WINDOW) + RATE_WINDOW_SLACK"

definition backoff_wait :: "ChutesError \<Rightarrow> duration \<Rightarrow> duration \<Rightarrow> duration \<Rightarrow> duration" where
  "backoff_wait e step wall spread =
     (case e of
        RateLimited _ \<Rightarrow> max step (until_next_window wall + spread)
      | BelowEvidenceMinimum \<Rightarrow> REFUSAL_BACKOFF
      | _ \<Rightarrow> step)"

section \<open>Budgets\<close>

record Backoff =
  backoff_until :: instant
  backoff_step :: duration
  backoff_cause :: string

record Budget =
  in_flight :: nat
  recent :: "instant list"
  evidence :: "instant list"
  backoff :: "(string, Backoff) hash_map"
  evidence_backoff :: "(string, Backoff) hash_map"

definition Budget_default :: Budget where
  "Budget_default = \<lparr>in_flight = 1, recent = [], evidence = [], backoff = [], evidence_backoff = []\<rparr>"

definition budget_prune :: "instant \<Rightarrow> Budget \<Rightarrow> Budget" where
  "budget_prune now b = b\<lparr>
     recent := dropWhile (\<lambda>at. at + DISCOVERY_WINDOW \<le> now) (recent b),
     evidence := dropWhile (\<lambda>at. at + DISCOVERY_WINDOW \<le> now) (evidence b),
     backoff := hm_retain (\<lambda>_ held. backoff_until held + 2 * BACKOFF_MAX > now) (backoff b),
     evidence_backoff := hm_retain (\<lambda>_ held. backoff_until held + 2 * BACKOFF_MAX > now) (evidence_backoff b)\<rparr>"

definition evidence_blocked_until :: "Budget \<Rightarrow> string \<Rightarrow> instant \<Rightarrow> instant option" where
  "evidence_blocked_until b chute now =
     (case filter (\<lambda>until. until > now)
            (map backoff_until (option_list (map_of (backoff b) chute) @ option_list (map_of (evidence_backoff b) chute))) of
        [] \<Rightarrow> None
      | untils \<Rightarrow> Some (Max (set untils)))"

definition backing_off :: "string \<Rightarrow> Backoff \<Rightarrow> ChutesError" where
  "backing_off chute held = Unavailable (''chute '' @ chute @ '' is backing off after: '' @ backoff_cause held)"

definition check_backoff :: "Budget \<Rightarrow> string \<Rightarrow> instant \<Rightarrow> ChutesError + unit" where
  "check_backoff b chute now =
     (case filter_o (\<lambda>held. backoff_until held > now) (map_of (backoff b) chute) of
        Some held \<Rightarrow> Err (backing_off chute held)
      | None \<Rightarrow> Ok ())"

definition check_rate :: "Budget \<Rightarrow> ChutesError + unit" where
  "check_rate b =
     (if length (recent b) \<ge> DISCOVERIES_PER_MINUTE
      then Err (Unavailable (''discovery budget of '' @ nat_to_string DISCOVERIES_PER_MINUTE @ '' per minute is spent''))
      else Ok ())"

definition budget_idle :: "Budget \<Rightarrow> bool" where
  "budget_idle b \<longleftrightarrow> recent b = [] \<and> evidence b = [] \<and> backoff b = [] \<and> evidence_backoff b = [] \<and> in_flight b = 1"

section \<open>The budgets of all credentials\<close>

type_synonym 'c budgets = "('c, Budget) hash_map"

definition budget_of :: "'c \<Rightarrow> 'c budgets \<Rightarrow> Budget" where
  "budget_of c m = (case map_of m c of None \<Rightarrow> Budget_default | Some b \<Rightarrow> b)"

text \<open>\<^verbatim>\<open>with_budget\<close>: prune every budget, drop the idle ones, refuse a new credential past the cap,
  otherwise run the closure on the credential's budget, a new one if it has none.\<close>

definition with_budget :: "'c \<Rightarrow> (Budget \<Rightarrow> instant \<Rightarrow> (ChutesError + 'a) \<times> Budget) \<Rightarrow> instant \<Rightarrow> 'c budgets
    \<Rightarrow> (ChutesError + 'a) \<times> 'c budgets" where
  "with_budget c use now m =
     (let m1 = hm_retain (\<lambda>_ b. \<not> budget_idle b) (map (\<lambda>(k, b). (k, budget_prune now b)) m) in
      if \<not> hm_contains m1 c \<and> length m1 \<ge> MAX_CREDENTIALS then
        (Err (Unavailable (''discovery budgets for '' @ nat_to_string MAX_CREDENTIALS @ '' credentials are in use'')), m1)
      else let (r, b) = use (budget_of c m1) now in (r, hm_insert c b m1))"

definition claim :: "'c \<Rightarrow> string \<Rightarrow> instant \<Rightarrow> 'c budgets \<Rightarrow> (ChutesError + unit) \<times> 'c budgets" where
  "claim c chute = with_budget c (\<lambda>b now.
     case bind_r (check_backoff b chute now) (\<lambda>_. check_rate b) of
       Inl e \<Rightarrow> (Err e, b)
     | Inr _ \<Rightarrow> (Ok (), b\<lparr>in_flight := in_flight b + 1\<rparr>))"

text \<open>The reference a claim handed out is dropped at the end of the discovery.\<close>

definition release_claim :: "'c \<Rightarrow> 'c budgets \<Rightarrow> 'c budgets" where
  "release_claim c m =
     (case map_of m c of None \<Rightarrow> m | Some b \<Rightarrow> hm_insert c (b\<lparr>in_flight := in_flight b - 1\<rparr>) m)"

definition charge :: "'c \<Rightarrow> string \<Rightarrow> instant \<Rightarrow> 'c budgets \<Rightarrow> (ChutesError + unit) \<times> 'c budgets" where
  "charge c chute = with_budget c (\<lambda>b now.
     case bind_r (check_backoff b chute now) (\<lambda>_. check_rate b) of
       Inl e \<Rightarrow> (Err e, b)
     | Inr _ \<Rightarrow> (Ok (), b\<lparr>recent := recent b @ [now]\<rparr>))"

definition charge_evidence :: "'c \<Rightarrow> string \<Rightarrow> instant \<Rightarrow> 'c budgets \<Rightarrow> (ChutesError + unit) \<times> 'c budgets" where
  "charge_evidence c chute = with_budget c (\<lambda>b now.
     case check_backoff b chute now of
       Inl e \<Rightarrow> (Err e, b)
     | Inr _ \<Rightarrow>
         (case filter_o (\<lambda>held. backoff_until held > now) (map_of (evidence_backoff b) chute) of
            Some held \<Rightarrow> (Err (backing_off chute held), b)
          | None \<Rightarrow>
              if length (evidence b) \<ge> EVIDENCE_PER_MINUTE
              then (Err (Unavailable (''evidence budget of '' @ nat_to_string EVIDENCE_PER_MINUTE @ '' per minute is spent'')), b)
              else (Ok (), b\<lparr>evidence := evidence b @ [now]\<rparr>)))"

definition back_off :: "(u16 \<Rightarrow> string) \<Rightarrow> (string, Backoff) hash_map \<Rightarrow> string \<Rightarrow> ChutesError
    \<Rightarrow> instant \<Rightarrow> duration \<Rightarrow> duration \<Rightarrow> Backoff" where
  "back_off show_status current chute e now wall spread =
     (let step = (case map_of current chute of None \<Rightarrow> BACKOFF_START | Some held \<Rightarrow> min (backoff_step held * 2) BACKOFF_MAX);
          until = now + backoff_wait e step wall spread;
          new = \<lparr>backoff_until = until, backoff_step = step, backoff_cause = display show_status e\<rparr>
      in case map_of current chute of
           None \<Rightarrow> new
         | Some held \<Rightarrow> if backoff_until held > until
             then \<lparr>backoff_until = backoff_until held, backoff_step = step, backoff_cause = backoff_cause held\<rparr> else new)"

fun evidence_refused :: "ChutesError \<Rightarrow> bool" where
  "evidence_refused (RateLimited _) = True"
| "evidence_refused BelowEvidenceMinimum = True"
| "evidence_refused _ = False"

text \<open>\<^verbatim>\<open>failed\<close> reads the clocks once per backoff it computes.\<close>

definition failed :: "(u16 \<Rightarrow> string) \<Rightarrow> 'c \<Rightarrow> string \<Rightarrow> ChutesError \<Rightarrow> instant \<times> duration \<times> duration
    \<Rightarrow> instant \<times> duration \<times> duration \<Rightarrow> 'c budgets \<Rightarrow> 'c budgets" where
  "failed show_status c chute e clk clk' m =
     (let b = budget_of c m;
          held = (case clk of (now, wall, spread) \<Rightarrow> back_off show_status (backoff b) chute e now wall spread);
          b1 = (if evidence_refused e
                then b\<lparr>evidence_backoff := hm_insert chute
                       (case clk' of (now, wall, spread) \<Rightarrow> back_off show_status (evidence_backoff b) chute e now wall spread)
                       (evidence_backoff b)\<rparr>
                else b)
      in hm_insert c (b1\<lparr>backoff := hm_insert chute held (backoff b1)\<rparr>) m)"

definition evidence_failed :: "(u16 \<Rightarrow> string) \<Rightarrow> 'c \<Rightarrow> string \<Rightarrow> ChutesError \<Rightarrow> instant \<times> duration \<times> duration
    \<Rightarrow> 'c budgets \<Rightarrow> 'c budgets" where
  "evidence_failed show_status c chute e clk m =
     (let b = budget_of c m;
          held = (case clk of (now, wall, spread) \<Rightarrow> back_off show_status (evidence_backoff b) chute e now wall spread)
      in hm_insert c (b\<lparr>evidence_backoff := hm_insert chute held (evidence_backoff b)\<rparr>) m)"

definition discoveries_blocked_until :: "'c \<Rightarrow> string \<Rightarrow> instant \<Rightarrow> 'c budgets \<Rightarrow> instant option" where
  "discoveries_blocked_until c chute now m =
     (case map_of m c of None \<Rightarrow> None | Some b \<Rightarrow> evidence_blocked_until b chute now)"

definition succeeded :: "'c \<Rightarrow> string \<Rightarrow> 'c budgets \<Rightarrow> 'c budgets" where
  "succeeded c chute m =
     (case map_of m c of None \<Rightarrow> m | Some b \<Rightarrow> hm_insert c (b\<lparr>backoff := hm_remove chute (backoff b)\<rparr>) m)"

section \<open>Pruned budgets\<close>

lemma budget_prune_default [budget_simps]: "budget_prune now Budget_default = Budget_default"
  by (simp add: budget_prune_def Budget_default_def hm_retain_def)

lemma budget_idle_default: "budget_idle b \<longleftrightarrow> b = Budget_default"
  by (cases b) (auto simp: budget_idle_def Budget_default_def)

lemma map_of_map_snd: "map_of (map (\<lambda>(k, v). (k, f v)) m) k = map_option f (map_of m k)"
  by (induction m) auto

lemma budget_of_retained:
  assumes "hm_wf m"
  shows "hm_wf (hm_retain (\<lambda>_ b. \<not> budget_idle b) (map (\<lambda>(k, b). (k, budget_prune now b)) m))"
    and "budget_of c (hm_retain (\<lambda>_ b. \<not> budget_idle b) (map (\<lambda>(k, b). (k, budget_prune now b)) m))
      = budget_prune now (budget_of c m)"
proof -
  have wf: "hm_wf (map (\<lambda>(k, b). (k, budget_prune now b)) m)"
    using assms by (simp add: hm_wf_def comp_def case_prod_beta)
  then show "hm_wf (hm_retain (\<lambda>_ b. \<not> budget_idle b) (map (\<lambda>(k, b). (k, budget_prune now b)) m))" by simp
  show "budget_of c (hm_retain (\<lambda>_ b. \<not> budget_idle b) (map (\<lambda>(k, b). (k, budget_prune now b)) m))
      = budget_prune now (budget_of c m)"
    by (cases "map_of m c")
      (auto simp: budget_of_def map_of_hm_retain [OF wf] map_of_map_snd budget_idle_default budget_prune_default)
qed

lemma budget_of_insert [budget_simps]: "budget_of c (hm_insert c' b m) = (if c = c' then b else budget_of c m)"
  by (simp add: budget_of_def map_of_hm_insert)

text \<open>What running a closure on a budget does to the map.\<close>

lemma with_budget_wf: "hm_wf m \<Longrightarrow> hm_wf (snd (with_budget c use now m))"
  by (auto simp: with_budget_def Let_def budget_of_retained split: prod.splits)

lemma with_budget_other:
  "hm_wf m \<Longrightarrow> c' \<noteq> c \<Longrightarrow> budget_of c' (snd (with_budget c use now m)) = budget_prune now (budget_of c' m)"
  by (auto simp: with_budget_def Let_def budget_of_retained budget_simps split: prod.splits)

lemma with_budget_own:
  assumes "hm_wf m" and "with_budget c use now m = (r, m')"
  obtains e where "r = Err e" "budget_of c m' = budget_prune now (budget_of c m)"
  | "(r, budget_of c m') = use (budget_prune now (budget_of c m)) now"
  using assms(2) that
  by (auto simp: with_budget_def Let_def budget_of_retained [OF assms(1)] budget_simps split: prod.splits if_splits)

section \<open>Operations in lock order\<close>

type_synonym clock_reading = "instant \<times> duration \<times> duration"

datatype 'c budget_op =
    Claim 'c string
  | ReleaseClaim 'c
  | Charge 'c string
  | ChargeEvidence 'c string
  | Failed 'c string ChutesError clock_reading clock_reading
  | EvidenceFailed 'c string ChutesError clock_reading
  | Succeeded 'c string

fun run_budget :: "(u16 \<Rightarrow> string) \<Rightarrow> instant \<times> 'c budget_op \<Rightarrow> 'c budgets \<Rightarrow> 'c budgets" where
  "run_budget show_status (now, Claim c chute) m = snd (claim c chute now m)"
| "run_budget show_status (now, ReleaseClaim c) m = release_claim c m"
| "run_budget show_status (now, Charge c chute) m = snd (charge c chute now m)"
| "run_budget show_status (now, ChargeEvidence c chute) m = snd (charge_evidence c chute now m)"
| "run_budget show_status (now, Failed c chute e clk clk') m = failed show_status c chute e clk clk' m"
| "run_budget show_status (now, EvidenceFailed c chute e clk) m = evidence_failed show_status c chute e clk m"
| "run_budget show_status (now, Succeeded c chute) m = succeeded c chute m"

text \<open>The instants at which a credential was charged by one operation: none or one.\<close>

fun discovery_charged :: "'c \<Rightarrow> instant \<times> 'c budget_op \<Rightarrow> 'c budgets \<Rightarrow> instant list" where
  "discovery_charged c (now, Charge c' chute) m = (if c' = c \<and> fst (charge c' chute now m) = Ok () then [now] else [])"
| "discovery_charged c _ m = []"

fun evidence_charged :: "'c \<Rightarrow> instant \<times> 'c budget_op \<Rightarrow> 'c budgets \<Rightarrow> instant list" where
  "evidence_charged c (now, ChargeEvidence c' chute) m =
     (if c' = c \<and> fst (charge_evidence c' chute now m) = Ok () then [now] else [])"
| "evidence_charged c _ m = []"

lemma run_budget_wf: "hm_wf m \<Longrightarrow> hm_wf (run_budget show_status ev m)"
  by (induction show_status ev m rule: run_budget.induct)
    (auto simp: claim_def charge_def charge_evidence_def release_claim_def failed_def evidence_failed_def succeeded_def
      Let_def intro: with_budget_wf split: option.splits)

section \<open>Sliding windows\<close>

text \<open>
  What a per-minute cap needs of a queue of instants: an operation drops instants from its front
  only when they have left the window, appends the instant it charges, and charges only when the
  queue then stays within the cap.
\<close>

fun charge_log :: "('e \<Rightarrow> 's \<Rightarrow> 's) \<Rightarrow> ('e \<Rightarrow> 's \<Rightarrow> instant list) \<Rightarrow> 'e list \<Rightarrow> 's \<Rightarrow> instant list" where
  "charge_log step charged [] s = []"
| "charge_log step charged (e # es) s = charged e s @ charge_log step charged es (step e s)"

definition skewed :: "duration \<Rightarrow> instant list \<Rightarrow> bool" where
  "skewed skew ts = sorted_wrt (\<lambda>a b. a \<le> b + skew) ts"

definition spaced :: "nat \<Rightarrow> duration \<Rightarrow> duration \<Rightarrow> instant list \<Rightarrow> bool" where
  "spaced cap window skew xs \<longleftrightarrow> (\<forall>i. i + cap < length xs \<longrightarrow> xs ! i + window \<le> xs ! (i + cap) + skew)"

locale sliding_window =
  fixes ok :: "'s \<Rightarrow> bool"
    and entries :: "'s \<Rightarrow> instant list"
    and step :: "'e \<Rightarrow> 's \<Rightarrow> 's"
    and charged :: "'e \<Rightarrow> 's \<Rightarrow> instant list"
    and at_of :: "'e \<Rightarrow> instant"
    and cap :: nat
    and window :: duration
  assumes ok_step: "ok s \<Longrightarrow> ok (step e s)"
    and slide: "ok s \<Longrightarrow> \<exists>gone. entries s @ charged e s = gone @ entries (step e s) \<and> (\<forall>t \<in> set gone. t + window \<le> at_of e)"
    and charged_at: "ok s \<Longrightarrow> charged e s \<noteq> [] \<Longrightarrow> charged e s = [at_of e]"
    and capped: "ok s \<Longrightarrow> charged e s \<noteq> [] \<Longrightarrow> length (entries (step e s)) \<le> cap"
begin

lemma spaced_charge:
  assumes "spaced cap window skew pre" and "pre @ [u] = gone @ held" and "length held \<le> cap"
    and "\<forall>t \<in> set gone. t + window \<le> u + skew"
  shows "spaced cap window skew (pre @ [u])"
  unfolding spaced_def
proof (intro allI impI)
  fix i assume i: "i + cap < length (pre @ [u])"
  show "(pre @ [u]) ! i + window \<le> (pre @ [u]) ! (i + cap) + skew"
  proof (cases "i + cap < length pre")
    case True
    with assms(1) show ?thesis by (simp add: spaced_def nth_append)
  next
    case False
    with i have last: "i + cap = length pre" by simp
    have "length (pre @ [u]) = length gone + length held" using assms(2) by simp
    with last assms(3) have "i < length gone" by simp
    then have "(pre @ [u]) ! i \<in> set gone" by (simp add: assms(2) nth_append)
    with assms(4) last show ?thesis by (simp add: nth_append)
  qed
qed

lemma spaced_run:
  assumes "ok s" and "skewed skew (map at_of es)" and "spaced cap window skew pre" and "pre = gone @ entries s"
    and "\<forall>t \<in> set gone. \<forall>e \<in> set es. t + window \<le> at_of e + skew"
  shows "spaced cap window skew (pre @ charge_log step charged es s)"
  using assms
proof (induction es arbitrary: s pre gone)
  case (Cons e es)
  obtain g where g: "entries s @ charged e s = g @ entries (step e s)" "\<forall>t \<in> set g. t + window \<le> at_of e"
    using slide [OF Cons.prems(1)] by blast
  have eq: "pre @ charged e s = (gone @ g) @ entries (step e s)" using Cons.prems(4) g(1) by simp
  have now: "\<forall>t \<in> set (gone @ g). t + window \<le> at_of e + skew" using Cons.prems(5) g(2) by fastforce
  have later: "\<forall>t \<in> set (gone @ g). \<forall>e' \<in> set es. t + window \<le> at_of e' + skew"
    using Cons.prems(2,5) g(2) by (fastforce simp: skewed_def)
  have "spaced cap window skew (pre @ charged e s)"
  proof (cases "charged e s = []")
    case False
    with charged_at [OF Cons.prems(1)] have "charged e s = [at_of e]" by blast
    with spaced_charge [OF Cons.prems(3) _ capped [OF Cons.prems(1) False] now] eq show ?thesis by simp
  qed (use Cons.prems(3) in simp)
  from Cons.IH [OF ok_step [OF Cons.prems(1)] _ this eq later] Cons.prems(2) show ?case by (simp add: skewed_def)
qed simp

lemma spaced_log:
  "ok s \<Longrightarrow> entries s = [] \<Longrightarrow> skewed skew (map at_of es) \<Longrightarrow> spaced cap window skew (charge_log step charged es s)"
  using spaced_run [of s skew es "[]" "[]"] by (simp add: spaced_def)

end

section \<open>The two windows of a credential\<close>

abbreviation in_window :: "instant \<Rightarrow> instant list \<Rightarrow> instant list" where
  "in_window now ts \<equiv> dropWhile (\<lambda>at. at + DISCOVERY_WINDOW \<le> now) ts"

lemma in_window_slide: "\<exists>gone. ts = gone @ in_window now ts \<and> (\<forall>t \<in> set gone. t + DISCOVERY_WINDOW \<le> now)"
  by (rule exI [of _ "takeWhile (\<lambda>at. at + DISCOVERY_WINDOW \<le> now) ts"]) (auto dest: set_takeWhileD)

lemma budget_prune_queues [budget_simps]:
  "recent (budget_prune now b) = in_window now (recent b)" "evidence (budget_prune now b) = in_window now (evidence b)"
  by (simp_all add: budget_prune_def)

text \<open>A closure that leaves a queue alone leaves it pruned in the map.\<close>

lemma with_budget_queue:
  assumes "hm_wf m" and "\<And>b. get (snd (use b now)) = get b"
  shows "get (budget_of c (snd (with_budget c' use now m))) = get (budget_prune now (budget_of c m))"
proof (cases "c = c'")
  case True
  obtain r m' where w: "with_budget c' use now m = (r, m')" by (metis surj_pair)
  from assms(1) w show ?thesis
  proof (cases rule: with_budget_own)
    case 2
    with assms(2) [of "budget_prune now (budget_of c' m)"] w True show ?thesis by (metis snd_conv)
  qed (simp add: w True)
qed (simp add: with_budget_other [OF assms(1)])

lemma with_budget_charge:
  assumes "hm_wf m" and "\<And>b. fst (use b now) = Ok () \<Longrightarrow> get (snd (use b now)) = get b @ [now] \<and> length (get b) < n"
    and "\<And>b e. fst (use b now) = Err e \<Longrightarrow> get (snd (use b now)) = get b"
  shows "get (budget_of c (snd (with_budget c' use now m))) =
      get (budget_prune now (budget_of c m)) @ (if c' = c \<and> fst (with_budget c' use now m) = Ok () then [now] else [])"
    and "fst (with_budget c' use now m) = Ok () \<Longrightarrow> length (get (budget_of c' (snd (with_budget c' use now m)))) \<le> n"
proof -
  obtain r m' where w: "with_budget c' use now m = (r, m')" by (metis surj_pair)
  have own: "get (budget_of c' m') = get (budget_prune now (budget_of c' m)) @ (if r = Ok () then [now] else [])
      \<and> (r = Ok () \<longrightarrow> length (get (budget_of c' m')) \<le> n)"
    using assms(1) w
  proof (cases rule: with_budget_own)
    case 2
    let ?b = "budget_prune now (budget_of c' m)"
    have "fst (use ?b now) = r" "snd (use ?b now) = budget_of c' m'" using 2 by (metis fst_conv, metis snd_conv)
    with assms(2,3) [of ?b] show ?thesis by (cases r) auto
  qed simp
  then show "get (budget_of c (snd (with_budget c' use now m))) =
      get (budget_prune now (budget_of c m)) @ (if c' = c \<and> fst (with_budget c' use now m) = Ok () then [now] else [])"
    using w with_budget_other [OF assms(1), of c c' use now] by (cases "c = c'") auto
  show "fst (with_budget c' use now m) = Ok () \<Longrightarrow> length (get (budget_of c' (snd (with_budget c' use now m)))) \<le> n"
    using own w by auto
qed

lemma claim_queues:
  assumes "hm_wf m"
  shows "recent (budget_of c (snd (claim c' chute now m))) = in_window now (recent (budget_of c m))"
    and "evidence (budget_of c (snd (claim c' chute now m))) = in_window now (evidence (budget_of c m))"
  unfolding claim_def by (simp_all add: with_budget_queue [OF assms] budget_simps split: sum.splits)

lemma charge_queues:
  assumes "hm_wf m"
  shows "recent (budget_of c (snd (charge c' chute now m))) = in_window now (recent (budget_of c m))
      @ (if c' = c \<and> fst (charge c' chute now m) = Ok () then [now] else [])"
    and "fst (charge c' chute now m) = Ok () \<Longrightarrow> length (recent (budget_of c' (snd (charge c' chute now m)))) \<le> DISCOVERIES_PER_MINUTE"
    and "evidence (budget_of c (snd (charge c' chute now m))) = in_window now (evidence (budget_of c m))"
proof -
  note law = with_budget_charge [OF assms, of _ now recent DISCOVERIES_PER_MINUTE]
  show "recent (budget_of c (snd (charge c' chute now m))) = in_window now (recent (budget_of c m))
      @ (if c' = c \<and> fst (charge c' chute now m) = Ok () then [now] else [])"
    unfolding charge_def
    by (subst law) (auto simp: budget_simps result_simps check_rate_def split: sum.splits if_splits)
  show "fst (charge c' chute now m) = Ok () \<Longrightarrow> length (recent (budget_of c' (snd (charge c' chute now m)))) \<le> DISCOVERIES_PER_MINUTE"
    unfolding charge_def
    by (rule law(2)) (auto simp: result_simps check_rate_def split: sum.splits if_splits)
  show "evidence (budget_of c (snd (charge c' chute now m))) = in_window now (evidence (budget_of c m))"
    unfolding charge_def by (simp add: with_budget_queue [OF assms] budget_simps split: sum.splits)
qed

lemma charge_evidence_queues:
  assumes "hm_wf m"
  shows "evidence (budget_of c (snd (charge_evidence c' chute now m))) = in_window now (evidence (budget_of c m))
      @ (if c' = c \<and> fst (charge_evidence c' chute now m) = Ok () then [now] else [])"
    and "fst (charge_evidence c' chute now m) = Ok () \<Longrightarrow>
      length (evidence (budget_of c' (snd (charge_evidence c' chute now m)))) \<le> EVIDENCE_PER_MINUTE"
    and "recent (budget_of c (snd (charge_evidence c' chute now m))) = in_window now (recent (budget_of c m))"
proof -
  note law = with_budget_charge [OF assms, of _ now evidence EVIDENCE_PER_MINUTE]
  show "evidence (budget_of c (snd (charge_evidence c' chute now m))) = in_window now (evidence (budget_of c m))
      @ (if c' = c \<and> fst (charge_evidence c' chute now m) = Ok () then [now] else [])"
    unfolding charge_evidence_def
    by (subst law) (auto simp: budget_simps split: sum.splits option.splits if_splits)
  show "fst (charge_evidence c' chute now m) = Ok () \<Longrightarrow>
      length (evidence (budget_of c' (snd (charge_evidence c' chute now m)))) \<le> EVIDENCE_PER_MINUTE"
    unfolding charge_evidence_def
    by (rule law(2)) (auto split: sum.splits option.splits if_splits)
  show "recent (budget_of c (snd (charge_evidence c' chute now m))) = in_window now (recent (budget_of c m))"
    unfolding charge_evidence_def by (simp add: with_budget_queue [OF assms] budget_simps split: sum.splits option.splits)
qed

lemma other_queues [budget_simps]:
  "recent (budget_of c (release_claim c' m)) = recent (budget_of c m)"
  "evidence (budget_of c (release_claim c' m)) = evidence (budget_of c m)"
  "recent (budget_of c (failed show_status c' chute e clk clk' m)) = recent (budget_of c m)"
  "evidence (budget_of c (failed show_status c' chute e clk clk' m)) = evidence (budget_of c m)"
  "recent (budget_of c (evidence_failed show_status c' chute e clk m)) = recent (budget_of c m)"
  "evidence (budget_of c (evidence_failed show_status c' chute e clk m)) = evidence (budget_of c m)"
  "recent (budget_of c (succeeded c' chute m)) = recent (budget_of c m)"
  "evidence (budget_of c (succeeded c' chute m)) = evidence (budget_of c m)"
  by (auto simp: release_claim_def failed_def evidence_failed_def succeeded_def Let_def budget_of_insert)
    (auto simp: budget_of_def map_of_hm_insert split: option.splits)

lemma window_slide:
  assumes "held' = in_window now held @ new \<or> held' = held @ new"
  shows "\<exists>gone. held @ new = gone @ held' \<and> (\<forall>t \<in> set gone. t + DISCOVERY_WINDOW \<le> now)"
  using in_window_slide [of held now] assms by (metis append.assoc append_Nil empty_iff empty_set)

interpretation dw: sliding_window hm_wf "\<lambda>m. recent (budget_of c m)" "run_budget show_status" "discovery_charged c"
  fst DISCOVERIES_PER_MINUTE DISCOVERY_WINDOW
  for show_status and c
proof unfold_locales
  fix m :: "'a budgets" and ev
  assume wf: "hm_wf m"
  show "hm_wf (run_budget show_status ev m)" by (rule run_budget_wf [OF wf])
  show "\<exists>gone. recent (budget_of c m) @ discovery_charged c ev m = gone @ recent (budget_of c (run_budget show_status ev m))
      \<and> (\<forall>t \<in> set gone. t + DISCOVERY_WINDOW \<le> fst ev)"
    by (rule window_slide, cases "(c, ev, m)" rule: discovery_charged.cases)
      (auto simp: claim_queues [OF wf] charge_queues [OF wf] charge_evidence_queues [OF wf] budget_simps)
  assume "discovery_charged c ev m \<noteq> []"
  then obtain now chute where ev: "ev = (now, Charge c chute)" "fst (charge c chute now m) = Ok ()"
    by (cases "(c, ev, m)" rule: discovery_charged.cases) (auto split: if_splits)
  then show "discovery_charged c ev m = [fst ev]" by simp
  show "length (recent (budget_of c (run_budget show_status ev m))) \<le> DISCOVERIES_PER_MINUTE"
    using charge_queues(2) [OF wf ev(2)] ev(1) by simp
qed

interpretation ew: sliding_window hm_wf "\<lambda>m. evidence (budget_of c m)" "run_budget show_status" "evidence_charged c"
  fst EVIDENCE_PER_MINUTE DISCOVERY_WINDOW
  for show_status and c
proof unfold_locales
  fix m :: "'a budgets" and ev
  assume wf: "hm_wf m"
  show "hm_wf (run_budget show_status ev m)" by (rule run_budget_wf [OF wf])
  show "\<exists>gone. evidence (budget_of c m) @ evidence_charged c ev m = gone @ evidence (budget_of c (run_budget show_status ev m))
      \<and> (\<forall>t \<in> set gone. t + DISCOVERY_WINDOW \<le> fst ev)"
    by (rule window_slide, cases "(c, ev, m)" rule: evidence_charged.cases)
      (auto simp: claim_queues [OF wf] charge_queues [OF wf] charge_evidence_queues [OF wf] budget_simps)
  assume "evidence_charged c ev m \<noteq> []"
  then obtain now chute where ev: "ev = (now, ChargeEvidence c chute)" "fst (charge_evidence c chute now m) = Ok ()"
    by (cases "(c, ev, m)" rule: evidence_charged.cases) (auto split: if_splits)
  then show "evidence_charged c ev m = [fst ev]" by simp
  show "length (evidence (budget_of c (run_budget show_status ev m))) \<le> EVIDENCE_PER_MINUTE"
    using charge_evidence_queues(2) [OF wf ev(2)] ev(1) by simp
qed

section \<open>Backoffs\<close>

lemma backoff_wait_mono: "step \<le> step' \<Longrightarrow> backoff_wait e step wall spread \<le> backoff_wait e step' wall spread"
  by (auto simp: backoff_wait_def split: ChutesError.splits)

lemma back_off_until [budget_simps]:
  "backoff_until (back_off show_status current chute e now wall spread) =
     max (case map_of current chute of None \<Rightarrow> 0 | Some held \<Rightarrow> backoff_until held)
       (now + backoff_wait e (backoff_step (back_off show_status current chute e now wall spread)) wall spread)"
  by (auto simp: back_off_def Let_def split: option.splits)

lemma back_off_step [budget_simps]:
  "backoff_step (back_off show_status current chute e now wall spread) =
     (case map_of current chute of None \<Rightarrow> BACKOFF_START | Some held \<Rightarrow> min (backoff_step held * 2) BACKOFF_MAX)"
  by (auto simp: back_off_def Let_def split: option.splits)

definition backoffs_wf :: "(string, Backoff) hash_map \<Rightarrow> bool" where
  "backoffs_wf bs \<longleftrightarrow> hm_wf bs \<and> list_all (\<lambda>(_, held). BACKOFF_START \<le> backoff_step held \<and> backoff_step held \<le> BACKOFF_MAX) bs"

definition budget_wf :: "Budget \<Rightarrow> bool" where
  "budget_wf b \<longleftrightarrow> length (recent b) \<le> DISCOVERIES_PER_MINUTE \<and> length (evidence b) \<le> EVIDENCE_PER_MINUTE
     \<and> backoffs_wf (backoff b) \<and> backoffs_wf (evidence_backoff b)"

definition budgets_wf :: "'c budgets \<Rightarrow> bool" where
  "budgets_wf m \<longleftrightarrow> hm_wf m \<and> (\<forall>c. budget_wf (budget_of c m))"

lemma budget_wf_default: "budget_wf Budget_default"
  by (simp add: budget_wf_def Budget_default_def backoffs_wf_def)

lemma set_hm_insert: "set (hm_insert k v m) \<subseteq> insert (k, v) (set m)"
  by (induction m) (auto simp: hm_insert_def)

lemma backoffs_wf_retain: "backoffs_wf bs \<Longrightarrow> backoffs_wf (hm_retain P bs)"
  using hm_wf_retain [of bs P] by (auto simp: backoffs_wf_def list_all_iff hm_retain_def)

lemma backoffs_wf_remove: "backoffs_wf bs \<Longrightarrow> backoffs_wf (hm_remove k bs)"
  using hm_wf_remove [of bs k] by (auto simp: backoffs_wf_def list_all_iff hm_remove_def)

lemma backoffs_wf_insert:
  "backoffs_wf bs \<Longrightarrow> BACKOFF_START \<le> backoff_step held \<Longrightarrow> backoff_step held \<le> BACKOFF_MAX
     \<Longrightarrow> backoffs_wf (hm_insert k held bs)"
  using set_hm_insert [of k held bs] by (fastforce simp: backoffs_wf_def list_all_iff)

lemma backoffs_wf_back_off:
  assumes "backoffs_wf bs"
  shows "backoffs_wf (hm_insert chute (back_off show_status bs chute e now wall spread) bs)"
proof (rule backoffs_wf_insert [OF assms])
  have old: "BACKOFF_START \<le> backoff_step held" if "map_of bs chute = Some held" for held
    using assms map_of_SomeD [OF that] by (auto simp: backoffs_wf_def list_all_iff)
  show "BACKOFF_START \<le> backoff_step (back_off show_status bs chute e now wall spread)"
    using old by (auto simp: back_off_step BACKOFF_START_def BACKOFF_MAX_def secs_def split: option.splits dest!: old)
  show "backoff_step (back_off show_status bs chute e now wall spread) \<le> BACKOFF_MAX"
    by (auto simp: back_off_step BACKOFF_START_def BACKOFF_MAX_def secs_def split: option.splits)
qed

lemma budget_wf_prune: "budget_wf b \<Longrightarrow> budget_wf (budget_prune now b)"
proof -
  assume b: "budget_wf b"
  have "length (in_window now ts) \<le> length ts" for ts by (rule length_dropWhile_le)
  from this [of "recent b"] this [of "evidence b"] b show ?thesis
    by (auto simp: budget_wf_def budget_prune_def intro: backoffs_wf_retain)
qed

lemma budgets_wf_with:
  assumes "budgets_wf m" and "\<And>b. budget_wf b \<Longrightarrow> budget_wf (snd (use b now))"
  shows "budgets_wf (snd (with_budget c use now m))"
proof -
  have wf: "hm_wf m" and b: "\<And>c. budget_wf (budget_of c m)" using assms(1) by (simp_all add: budgets_wf_def)
  obtain r m' where w: "with_budget c use now m = (r, m')" by (metis surj_pair)
  have "budget_wf (budget_of c m')"
    using wf w
  proof (cases rule: with_budget_own)
    case 2
    with assms(2) [OF budget_wf_prune [OF b]] show ?thesis by (metis snd_conv)
  qed (simp add: budget_wf_prune b)
  then have "budget_wf (budget_of c' m')" for c'
    using with_budget_other [OF wf, of c' c use now] w budget_wf_prune [OF b] by (cases "c' = c") auto
  with with_budget_wf [OF wf, of c use now] w show ?thesis by (simp add: budgets_wf_def)
qed

lemma budgets_wf_insert: "budgets_wf m \<Longrightarrow> budget_wf b \<Longrightarrow> budgets_wf (hm_insert c b m)"
  by (simp add: budgets_wf_def budget_of_insert)

lemma budgets_wf_found: "budgets_wf m \<Longrightarrow> map_of m c = Some b \<Longrightarrow> budget_wf b"
  by (force simp: budgets_wf_def budget_of_def split: option.splits)

lemma run_budget_budgets_wf: "budgets_wf m \<Longrightarrow> budgets_wf (run_budget show_status ev m)"
proof (induction show_status ev m rule: run_budget.induct)
  case (1 show_status now c chute m)
  then show ?case
    by (auto simp: claim_def budget_wf_def intro!: budgets_wf_with split: sum.splits)
next
  case (2 show_status now c m)
  then show ?case
    by (auto simp: release_claim_def budget_wf_def intro!: budgets_wf_insert dest: budgets_wf_found split: option.splits)
next
  case (3 show_status now c chute m)
  then show ?case
    by (auto simp: charge_def budget_wf_def check_rate_def result_simps intro!: budgets_wf_with split: sum.splits if_splits)
next
  case (4 show_status now c chute m)
  then show ?case
    by (auto simp: charge_evidence_def budget_wf_def intro!: budgets_wf_with split: sum.splits option.splits if_splits)
next
  case (5 show_status now c chute e clk clk' m)
  then have "budget_wf (budget_of c m)" by (simp add: budgets_wf_def)
  with 5 show ?case
    by (cases clk; cases clk')
      (auto simp: failed_def Let_def budget_wf_def intro!: budgets_wf_insert backoffs_wf_back_off)
next
  case (6 show_status now c chute e clk m)
  then have "budget_wf (budget_of c m)" by (simp add: budgets_wf_def)
  with 6 show ?case
    by (cases clk) (auto simp: evidence_failed_def Let_def budget_wf_def intro!: budgets_wf_insert backoffs_wf_back_off)
next
  case (7 show_status now c chute m)
  then show ?case
    by (auto simp: succeeded_def budget_wf_def intro!: budgets_wf_insert backoffs_wf_remove dest: budgets_wf_found
        split: option.splits)
qed

section \<open>A refusal outlasts everything\<close>

text \<open>The instant until which evidence calls of a chute are held back.\<close>

definition evidence_held :: "'c \<Rightarrow> string \<Rightarrow> instant \<Rightarrow> 'c budgets \<Rightarrow> bool" where
  "evidence_held c chute t m = is_some_and (\<lambda>held. t \<le> backoff_until held) (map_of (evidence_backoff (budget_of c m)) chute)"

lemma held_prune:
  assumes "budget_wf b" and "is_some_and (\<lambda>held. t \<le> backoff_until held) (map_of (evidence_backoff b) chute)" and "now < t"
  shows "is_some_and (\<lambda>held. t \<le> backoff_until held) (map_of (evidence_backoff (budget_prune now b)) chute)"
proof -
  obtain held where held: "map_of (evidence_backoff b) chute = Some held" "t \<le> backoff_until held"
    using assms(2) by (cases "map_of (evidence_backoff b) chute") auto
  have "hm_wf (evidence_backoff b)" using assms(1) by (simp add: budget_wf_def backoffs_wf_def)
  with held assms(3) show ?thesis by (simp add: budget_prune_def map_of_hm_retain)
qed

lemma held_with:
  assumes "budgets_wf m" and "evidence_held c chute t m" and "now < t"
    and "\<And>b. evidence_backoff (snd (use b now)) = evidence_backoff b"
  shows "evidence_held c chute t (snd (with_budget c' use now m))"
proof -
  have wf: "hm_wf m" "budget_wf (budget_of c m)" using assms(1) by (simp_all add: budgets_wf_def)
  have "evidence_backoff (budget_of c (snd (with_budget c' use now m))) = evidence_backoff (budget_prune now (budget_of c m))"
    by (rule with_budget_queue [where get = evidence_backoff]) (simp_all add: wf assms(4))
  with held_prune [OF wf(2) _ assms(3)] assms(2) show ?thesis by (simp add: evidence_held_def)
qed

lemma held_back_off:
  "is_some_and (\<lambda>held. t \<le> backoff_until held) (map_of bs chute) \<Longrightarrow>
   t \<le> backoff_until (back_off show_status bs chute e now wall spread)"
  by (auto simp: back_off_until split: option.splits)

lemma back_off_waits: "t + backoff_wait e 0 wall spread \<le> backoff_until (back_off show_status bs chute e t wall spread)"
proof -
  have "backoff_wait e 0 wall spread \<le> backoff_wait e step wall spread" for step by (rule backoff_wait_mono) simp
  then show ?thesis unfolding back_off_until by (simp add: le_max_iff_disj)
qed

lemma held_insert:
  assumes "is_some_and P (map_of bs chute)" and "chute' = chute \<Longrightarrow> P v"
  shows "is_some_and P (map_of (hm_insert chute' v bs) chute)"
  using assms by (auto simp: map_of_hm_insert)

lemma held_run:
  assumes "budgets_wf m" and "evidence_held c chute t m" and "fst ev < t"
  shows "evidence_held c chute t (run_budget show_status ev m)"
  using assms
proof (induction show_status ev m rule: run_budget.induct)
  case (1 show_status now c' chute' m)
  then show ?case by (auto simp: claim_def intro!: held_with split: sum.splits)
next
  case (2 show_status now c' m)
  then show ?case by (auto simp: evidence_held_def release_claim_def budget_of_def map_of_hm_insert split: option.splits)
next
  case (3 show_status now c' chute' m)
  then show ?case by (auto simp: charge_def intro!: held_with split: sum.splits)
next
  case (4 show_status now c' chute' m)
  then show ?case by (auto simp: charge_evidence_def intro!: held_with split: sum.splits option.splits)
next
  case (5 show_status now c' chute' e clk clk' m)
  then show ?case
    by (cases clk') (auto simp: evidence_held_def failed_def Let_def budget_of_insert intro!: held_insert held_back_off)
next
  case (6 show_status now c' chute' e clk m)
  then show ?case
    by (cases clk) (auto simp: evidence_held_def evidence_failed_def Let_def budget_of_insert intro!: held_insert held_back_off)
next
  case (7 show_status now c' chute' m)
  then show ?case by (auto simp: evidence_held_def succeeded_def budget_of_def map_of_hm_insert split: option.splits)
qed

lemma held_fold:
  assumes "budgets_wf m" and "evidence_held c chute t m" and "list_all (\<lambda>ev. fst ev < t) evs"
  shows "budgets_wf (fold (run_budget show_status) evs m) \<and> evidence_held c chute t (fold (run_budget show_status) evs m)"
  using assms
proof (induction evs arbitrary: m)
  case (Cons ev evs)
  with held_run [OF Cons.prems(1,2), of ev show_status] run_budget_budgets_wf [OF Cons.prems(1), of show_status ev]
  show ?case by simp
qed simp

lemma held_no_charge:
  assumes "budgets_wf m" and "evidence_held c chute t m" and "now < t"
  shows "\<exists>msg. fst (charge_evidence c chute now m) = Err (Unavailable msg)"
proof -
  have wf: "hm_wf m" using assms(1) by (simp add: budgets_wf_def)
  have "\<exists>held. map_of (evidence_backoff (budget_prune now (budget_of c m))) chute = Some held \<and> now < backoff_until held"
    using held_prune [of "budget_of c m" t chute now] assms
    by (auto simp: budgets_wf_def evidence_held_def is_some_and_def split: option.splits)
  then obtain held where held: "map_of (evidence_backoff (budget_prune now (budget_of c m))) chute = Some held"
    "now < backoff_until held" by blast
  show ?thesis
    unfolding charge_evidence_def with_budget_def Let_def budget_of_retained [OF wf]
    by (auto simp: held check_backoff_def backing_off_def split: option.splits if_splits)
qed

lemma held_blocked:
  assumes "evidence_held c chute t m" and "now < t"
  shows "\<exists>until \<ge> t. discoveries_blocked_until c chute now m = Some until"
proof -
  obtain held where held: "map_of (evidence_backoff (budget_of c m)) chute = Some held" "t \<le> backoff_until held"
    using assms(1) by (auto simp: evidence_held_def is_some_and_def split: option.splits)
  then obtain b where b: "map_of m c = Some b" "budget_of c m = b"
    by (cases "map_of m c") (auto simp: budget_of_def Budget_default_def)
  with held assms(2) show ?thesis
    by (cases "map_of (backoff b) chute")
      (auto simp: discoveries_blocked_until_def evidence_blocked_until_def)
qed

section \<open>Properties\<close>

text \<open>
  C21: A credential makes at most thirty discoveries and one evidence call per target in any
  minute: between a charge and the thirtieth (or thirteenth) charge after it lies a full window, less
  the skew with which concurrent callers read the clock, over any sequence of operations of any
  credentials, evictions of idle budgets included.
\<close>

theorem rate_windows:
  fixes evs :: "(instant \<times> 'c budget_op) list"
  assumes "skewed skew (map fst evs)"
  shows "spaced 30 (secs 60) skew (charge_log (run_budget show_status) (discovery_charged c) evs [])
    \<and> spaced 13 (secs 60) skew (charge_log (run_budget show_status) (evidence_charged c) evs [])"
proof -
  have "EVIDENCE_PER_MINUTE = 13" by (simp add: EVIDENCE_PER_MINUTE_def TARGETS_def)
  with dw.spaced_log [OF hm_wf_empty _ assms, of c] ew.spaced_log [OF hm_wf_empty _ assms, of c] show ?thesis
    by (simp add: budget_of_def Budget_default_def DISCOVERIES_PER_MINUTE_def DISCOVERY_WINDOW_def)
qed

theorem rate_windows_witness:
  "spaced 30 (secs 60) 5 (charge_log (run_budget (\<lambda>_. [])) (discovery_charged True)
     [(10, Charge True ''a''), (7, Charge False ''a''), (12, Charge True ''b'')] [])
   \<and> charge_log (run_budget (\<lambda>_. [])) (discovery_charged True)
     [(10, Charge True ''a''), (7, Charge False ''a''), (12, Charge True ''b'')] [] = [10, 12]"
proof
  show "spaced 30 (secs 60) 5 (charge_log (run_budget (\<lambda>_. [])) (discovery_charged True)
     [(10, Charge True ''a''), (7, Charge False ''a''), (12, Charge True ''b'')] [])"
    by (rule conjunct1 [OF rate_windows]) (simp add: skewed_def)
  show "charge_log (run_budget (\<lambda>_. [])) (discovery_charged True)
     [(10, Charge True ''a''), (7, Charge False ''a''), (12, Charge True ''b'')] [] = [10, 12]"
    by (simp add: charge_def with_budget_def Let_def budget_of_def Budget_default_def check_backoff_def check_rate_def
        DISCOVERIES_PER_MINUTE_def MAX_CREDENTIALS_def hm_contains_def hm_retain_def hm_insert_def budget_idle_def
        budget_prune_def DISCOVERY_WINDOW_def secs_def)
qed

text \<open>
  Once Chutes has rate-limited a chute or refused it as below its evidence minimum, no evidence
  call for it is charged before the end of the rate window (or thirty minutes), and a renewal is told
  to wait at least that long, whatever operations follow: a served ticket does not lift it and a
  later failure does not shorten it.
\<close>

theorem refusal_holds_evidence:
  assumes "budgets_wf m" and "evidence_refused e"
    and "m' = fold (run_budget show_status) evs (failed show_status c chute e clk (t, wall, spread) m)"
    and "list_all (\<lambda>ev. fst ev < t + backoff_wait e 0 wall spread) evs" and "now < t + backoff_wait e 0 wall spread"
  shows "(\<exists>msg. fst (charge_evidence c chute now m') = Err (Unavailable msg))
    \<and> (\<exists>until \<ge> t + backoff_wait e 0 wall spread. discoveries_blocked_until c chute now m' = Some until)"
proof -
  let ?m = "failed show_status c chute e clk (t, wall, spread) m"
  have wf: "budgets_wf ?m"
    using run_budget_budgets_wf [OF assms(1), of show_status "(t, Failed c chute e clk (t, wall, spread))"] by simp
  have "evidence_held c chute (t + backoff_wait e 0 wall spread) ?m"
    using assms(2) back_off_waits [of t e wall spread show_status "evidence_backoff (budget_of c m)" chute]
    by (simp add: evidence_held_def failed_def Let_def budget_of_insert map_of_hm_insert)
  from held_fold [OF wf this assms(4), of show_status]
  have "budgets_wf m'" "evidence_held c chute (t + backoff_wait e 0 wall spread) m'" unfolding assms(3) by blast+
  from held_no_charge [OF this assms(5)] held_blocked [OF this(2) assms(5)] show ?thesis ..
qed

theorem refusal_holds_evidence_witness:
  "\<exists>msg. fst (charge_evidence True ''a'' 100
     (fold (run_budget (\<lambda>_. [])) [(50, Succeeded True ''a'')]
       (failed (\<lambda>_. []) True ''a'' BelowEvidenceMinimum (3, 0, 0) (3, 0, 0) []))) = Err (Unavailable msg)"
  by (rule conjunct1, rule refusal_holds_evidence [where e = BelowEvidenceMinimum and t = 3 and wall = 0 and spread = 0, OF _ _ refl])
    (simp_all add: budgets_wf_def budget_of_def budget_wf_default backoff_wait_def REFUSAL_BACKOFF_def secs_def)

text \<open>
  A rate-limited chute is retried just after the next fixed window of the wall clock opens; a
  backoff is never shortened, its step starts at five seconds, doubles with each failure and stays
  at one minute.
\<close>

theorem backoff_exact:
  "let b = back_off show_status current chute e now wall spread in
    wall + until_next_window wall = (wall div secs 60 + 1) * secs 60 + secs 1
    \<and> (case map_of current chute of
         None \<Rightarrow> backoff_step b = secs 5 \<and> backoff_until b = now + backoff_wait e (secs 5) wall spread
       | Some held \<Rightarrow> backoff_step b = min (2 * backoff_step held) (secs 60)
           \<and> backoff_until b = max (backoff_until held) (now + backoff_wait e (backoff_step b) wall spread))"
  unfolding Let_def
proof
  have le: "wall mod secs 60 \<le> secs 60" by (simp add: secs_def)
  have "wall div secs 60 * secs 60 + wall mod secs 60 = wall" by (rule div_mult_mod_eq)
  with le show "wall + until_next_window wall = (wall div secs 60 + 1) * secs 60 + secs 1"
    unfolding until_next_window_def RATE_WINDOW_def RATE_WINDOW_SLACK_def add_mult_distrib by linarith
qed (auto simp: back_off_until back_off_step BACKOFF_START_def BACKOFF_MAX_def mult.commute split: option.splits)

text \<open>
  Whatever sequence of operations runs from an empty map, in whatever order of instants, every
  budget holds at most thirty discoveries and thirteen evidence calls and every backoff step is
  between five seconds and one minute.
\<close>

theorem budgets_within_limits:
  fixes evs :: "(instant \<times> 'c budget_op) list"
  shows "let b = budget_of c (fold (run_budget show_status) evs []) in
    length (recent b) \<le> 30 \<and> length (evidence b) \<le> 13
    \<and> list_all (\<lambda>(_, held). secs 5 \<le> backoff_step held \<and> backoff_step held \<le> secs 60) (backoff b @ evidence_backoff b)"
proof -
  have "budgets_wf m \<Longrightarrow> budgets_wf (fold (run_budget show_status) evs m)" for m :: "'c budgets"
    by (induction evs arbitrary: m) (simp_all add: run_budget_budgets_wf)
  from this [of "[]"] have "budget_wf (budget_of c (fold (run_budget show_status) evs []))"
    by (simp add: budgets_wf_def budget_of_def budget_wf_default)
  then show ?thesis
    by (simp add: budget_wf_def backoffs_wf_def Let_def DISCOVERIES_PER_MINUTE_def EVIDENCE_PER_MINUTE_def TARGETS_def
        BACKOFF_START_def BACKOFF_MAX_def)
qed

end
