(* ===== verification/Chutes_Issue.thy ===== *)
theory Chutes_Issue
  imports Chutes_Budget
begin

text \<open>
  Issuing a ticket to a request and renewing a warm chute's admissions
  (\<^verbatim>\<open>attestd/src/chutes_verify/admission.rs\<close>, \<^verbatim>\<open>Issuer::issue\<close> and \<^verbatim>\<open>renew_while_warm\<close>).

  Both are asynchronous: they are modelled by the turns they take between two awaits. A turn reads
  its instants and the answers of the Chutes API as arguments. The chute's state is held under
  its lock during a whole issue; the ledger and the budgets are shared, so a run may start each
  turn on any ledger and any budgets.
\<close>

definition MAX_ADMISSIONS_PER_REQUEST :: nat where "MAX_ADMISSIONS_PER_REQUEST = 2"
definition MAX_DISCOVERIES_PER_REQUEST :: nat where "MAX_DISCOVERIES_PER_REQUEST = 2"

section \<open>Issuing\<close>

text \<open>Where an issue stands: at the head of its loop, waiting for the verdicts on some instances, for
  the single-flight lock or for a discovery, or returned.\<close>

datatype issue_pc =
    LoopHead
  | Admitting "DiscoveredInstance list"
  | AwaitingFlight
  | Discovering instant
  | Issued "ChutesError + Ticket"

record Issue =
  discoveries_made :: nat
  admissions_made :: nat
  unevidenced :: "string list"
  pc :: issue_pc

definition issue_start :: Issue where
  "issue_start = \<lparr>discoveries_made = 0, admissions_made = 0, unevidenced = [], pc = LoopHead\<rparr>"

record 'c shared =
  ledger :: NonceLedger
  budgets :: "'c budgets"

definition turn_exhausted :: "(u16 \<Rightarrow> string) \<Rightarrow> 'c \<Rightarrow> string \<Rightarrow> clock_reading \<Rightarrow> clock_reading \<Rightarrow> Issue \<Rightarrow> ChuteState
    \<Rightarrow> 'c shared \<Rightarrow> Issue \<times> ChuteState \<times> 'c shared" where
  "turn_exhausted show_status c chute clk clk' i s w =
     (let e = exhausted chute (unevidenced i) s in
      (i\<lparr>pc := Issued (Err e)\<rparr>, s,
       if discoveries_made i + admissions_made i > 0
       then w\<lparr>budgets := failed show_status c chute e clk clk' (budgets w)\<rparr> else w))"

text \<open>One turn from the head of the loop to the next await or return: \<open>t1\<close> is read by the pruning of
  the state, \<open>t2\<close> by that of the ledger, \<open>t3\<close> by the budget.\<close>

definition issue_turn :: "(u16 \<Rightarrow> string) \<Rightarrow> 'c \<Rightarrow> string \<Rightarrow> instant \<Rightarrow> instant \<Rightarrow> instant \<Rightarrow> clock_reading \<Rightarrow> clock_reading
    \<Rightarrow> Issue \<Rightarrow> ChuteState \<Rightarrow> 'c shared \<Rightarrow> Issue \<times> ChuteState \<times> 'c shared" where
  "issue_turn show_status c chute t1 t2 t3 clk clk' i s w =
     (case take_ticket t2 chute [] (prune t1 s) (ledger w) of
        (Inl e, s1, l1) \<Rightarrow> (i\<lparr>pc := Issued (Err e)\<rparr>, s1, w\<lparr>ledger := l1\<rparr>)
      | (Inr (Some t), s1, l1) \<Rightarrow>
          (i\<lparr>pc := Issued (Ok t)\<rparr>, s1, w\<lparr>ledger := l1, budgets := succeeded c chute (budgets w)\<rparr>)
      | (Inr None, s1, l1) \<Rightarrow>
          let w1 = w\<lparr>ledger := l1\<rparr>;
              todo = filter (\<lambda>x. instance_id x \<notin> set (unevidenced i)) (unjudged s1);
              may_discover = (discoveries_made i = 0 \<or> pool s1 = [])
          in if todo \<noteq> [] \<and> admissions_made i < MAX_ADMISSIONS_PER_REQUEST then
               let i1 = i\<lparr>admissions_made := admissions_made i + 1\<rparr> in
               case charge_evidence c chute t3 (budgets w1) of
                 (Inl e, m) \<Rightarrow> (i1\<lparr>pc := Issued (Err e)\<rparr>, s1, w1\<lparr>budgets := m\<rparr>)
               | (Inr _, m) \<Rightarrow> (i1\<lparr>pc := Admitting todo\<rparr>, s1, w1\<lparr>budgets := m\<rparr>)
             else if may_discover \<and> discoveries_made i < MAX_DISCOVERIES_PER_REQUEST then
               let i1 = i\<lparr>discoveries_made := discoveries_made i + 1\<rparr> in
               case claim c chute t3 (budgets w1) of
                 (Inl e, m) \<Rightarrow> (i1\<lparr>pc := Issued (Err e)\<rparr>, s1, w1\<lparr>budgets := m\<rparr>)
               | (Inr _, m) \<Rightarrow> (i1\<lparr>pc := AwaitingFlight\<rparr>, s1, w1\<lparr>budgets := m\<rparr>)
             else turn_exhausted show_status c chute clk clk' i s1 w1)"

definition undecided :: "Verdict list \<Rightarrow> string list" where
  "undecided vs = map verdict_instance (filter (\<lambda>v. outcome v = NoEvidence) vs)"

definition admit_answered :: "(u16 \<Rightarrow> string) \<Rightarrow> 'c \<Rightarrow> string \<Rightarrow> ChutesError + Verdict list \<Rightarrow> instant \<Rightarrow> clock_reading \<Rightarrow> clock_reading
    \<Rightarrow> Issue \<Rightarrow> ChuteState \<Rightarrow> 'c shared \<Rightarrow> Issue \<times> ChuteState \<times> 'c shared" where
  "admit_answered show_status c chute answer now clk clk' i s w =
     (case answer of
        Inl e \<Rightarrow> (i\<lparr>pc := Issued (Err e)\<rparr>, s, w\<lparr>budgets := failed show_status c chute e clk clk' (budgets w)\<rparr>)
      | Inr vs \<Rightarrow> (i\<lparr>unevidenced := unevidenced i @ undecided vs, pc := LoopHead\<rparr>, record_verdicts vs now None s, w))"

text \<open>The single-flight lock is taken: charge the discovery and ask. A failed charge returns, which drops
  the claim.\<close>

definition flight_taken :: "'c \<Rightarrow> string \<Rightarrow> instant \<Rightarrow> instant \<Rightarrow> Issue \<Rightarrow> ChuteState \<Rightarrow> 'c shared
    \<Rightarrow> Issue \<times> ChuteState \<times> 'c shared" where
  "flight_taken c chute now asked i s w =
     (case charge c chute now (budgets w) of
        (Inl e, m) \<Rightarrow> (i\<lparr>pc := Issued (Err e)\<rparr>, s, w\<lparr>budgets := release_claim c m\<rparr>)
      | (Inr _, m) \<Rightarrow> (i\<lparr>pc := Discovering asked\<rparr>, s, w\<lparr>budgets := m\<rparr>))"

definition discover_answered :: "(u16 \<Rightarrow> string) \<Rightarrow> 'c \<Rightarrow> string \<Rightarrow> instant \<Rightarrow> ChutesError + Discovery \<Rightarrow> instant \<Rightarrow> clock_reading
    \<Rightarrow> clock_reading \<Rightarrow> Issue \<Rightarrow> ChuteState \<Rightarrow> 'c shared \<Rightarrow> Issue \<times> ChuteState \<times> 'c shared" where
  "discover_answered show_status c chute asked answer now clk clk' i s w =
     (case answer of
        Inl e \<Rightarrow> (i\<lparr>pc := Issued (Err e)\<rparr>, s,
          w\<lparr>budgets := release_claim c (failed show_status c chute e clk clk' (budgets w))\<rparr>)
      | Inr d \<Rightarrow> (i\<lparr>pc := LoopHead\<rparr>, refill d asked now s, w\<lparr>budgets := release_claim c (budgets w)\<rparr>))"

text \<open>What one resumption of the issue reads: its instants, its clocks and the pending answer.\<close>

record resumption =
  at1 :: instant
  at2 :: instant
  at3 :: instant
  clock1 :: clock_reading
  clock2 :: clock_reading
  verdicts_answer :: "ChutesError + Verdict list"
  discovery_answer :: "ChutesError + Discovery"

definition issue_step :: "(u16 \<Rightarrow> string) \<Rightarrow> 'c \<Rightarrow> string \<Rightarrow> resumption \<Rightarrow> Issue \<Rightarrow> ChuteState \<Rightarrow> 'c shared
    \<Rightarrow> Issue \<times> ChuteState \<times> 'c shared" where
  "issue_step show_status c chute r i s w =
     (case pc i of
        LoopHead \<Rightarrow> issue_turn show_status c chute (at1 r) (at2 r) (at3 r) (clock1 r) (clock2 r) i s w
      | Admitting _ \<Rightarrow> admit_answered show_status c chute (verdicts_answer r) (at1 r) (clock1 r) (clock2 r) i s w
      | AwaitingFlight \<Rightarrow> flight_taken c chute (at1 r) (at2 r) i s w
      | Discovering asked \<Rightarrow>
          discover_answered show_status c chute asked (discovery_answer r) (at1 r) (clock1 r) (clock2 r) i s w
      | Issued _ \<Rightarrow> (i, s, w))"

text \<open>A run of an issue: each resumption finds the shared ledger and budgets as the others left them.\<close>

fun issue_run :: "(u16 \<Rightarrow> string) \<Rightarrow> 'c \<Rightarrow> string \<Rightarrow> (resumption \<times> 'c shared) list \<Rightarrow> Issue \<Rightarrow> ChuteState \<Rightarrow> Issue \<times> ChuteState" where
  "issue_run show_status c chute [] i s = (i, s)"
| "issue_run show_status c chute ((r, w) # rs) i s =
     (let (i', s', _) = issue_step show_status c chute r i s w in issue_run show_status c chute rs i' s')"

text \<open>The calls of the API a run makes: what it asks verdicts for, and its discoveries.\<close>

datatype api_call = AdmitCall "DiscoveredInstance list" | DiscoverCall

definition call_of :: "Issue \<Rightarrow> Issue \<Rightarrow> api_call list" where
  "call_of i i' =
     (case (pc i, pc i') of
        (LoopHead, Admitting xs) \<Rightarrow> [AdmitCall xs]
      | (AwaitingFlight, Discovering _) \<Rightarrow> [DiscoverCall]
      | _ \<Rightarrow> [])"

fun issue_calls :: "(u16 \<Rightarrow> string) \<Rightarrow> 'c \<Rightarrow> string \<Rightarrow> (resumption \<times> 'c shared) list \<Rightarrow> Issue \<Rightarrow> ChuteState \<Rightarrow> api_call list" where
  "issue_calls show_status c chute [] i s = []"
| "issue_calls show_status c chute ((r, w) # rs) i s =
     (let (i', s', _) = issue_step show_status c chute r i s w in
      call_of i i' @ issue_calls show_status c chute rs i' s')"

section \<open>Renewing\<close>

datatype renew_action =
    StopRenewal
  | SleepUntil instant
  | ChargeRefused
  | FetchEvidence "DiscoveredInstance list" u64

definition earliest_admission :: "ChuteState \<Rightarrow> instant option" where
  "earliest_admission s = (if admitted s = [] then None else Some (Min (snd ` set (admitted s))))"

definition renewal_target :: "instant \<Rightarrow> duration \<Rightarrow> instant" where
  "renewal_target earliest jitter =
     (if REFRESH_AHEAD + jitter \<le> earliest then earliest - (REFRESH_AHEAD + jitter) else earliest)"

definition wake_time :: "instant \<Rightarrow> ChuteState \<Rightarrow> instant option \<Rightarrow> instant" where
  "wake_time target s blocked =
     Max (set (target # map (\<lambda>at. at + MIN_RENEWAL_INTERVAL) (option_list (last_recorded s)) @ option_list blocked))"

text \<open>
  One turn of the renewal task under the scope's lock: \<open>t1\<close> is its \<open>now\<close>, \<open>t2\<close> is read by the
  backoff query, \<open>t3\<close> by the charge; \<open>planned\<close> is the target it keeps over sleeps.
\<close>

definition renew_turn :: "(u16 \<Rightarrow> string) \<Rightarrow> 'c \<Rightarrow> string \<Rightarrow> instant \<Rightarrow> instant \<Rightarrow> instant \<Rightarrow> duration \<Rightarrow> clock_reading
    \<Rightarrow> instant option \<Rightarrow> ChuteState \<Rightarrow> 'c budgets \<Rightarrow> renew_action \<times> instant option \<times> ChuteState \<times> 'c budgets" where
  "renew_turn show_status c chute t1 t2 t3 jitter clk planned s m =
     (let s1 = prune t1 s in
      case earliest_admission s1 of
        None \<Rightarrow> (StopRenewal, planned, s1\<lparr>renewal := None\<rparr>, m)
      | Some earliest \<Rightarrow>
          if \<not> warm t1 s1 then (StopRenewal, planned, s1\<lparr>renewal := None\<rparr>, m)
          else
            let target = (case planned of Some t \<Rightarrow> t | None \<Rightarrow> renewal_target earliest jitter);
                wake = wake_time target s1 (discoveries_blocked_until c chute t2 m)
            in if wake > t1 then (SleepUntil wake, Some target, s1, m)
               else
                 case charge_evidence c chute t3 m of
                   (Inl e, m1) \<Rightarrow> (ChargeRefused, None, s1, evidence_failed show_status c chute e clk m1)
                 | (Inr _, m1) \<Rightarrow>
                     (FetchEvidence (expiring (t1 + REFRESH_AHEAD + RENEW_JITTER) s1) (generation s1), None,
                      s1\<lparr>renewal_since := Some (generation s1)\<rparr>, m1))"

text \<open>After the fetch: a failure backs off before the scope is locked again; the scope may be gone.\<close>

definition renew_answered_budgets :: "(u16 \<Rightarrow> string) \<Rightarrow> 'c \<Rightarrow> string \<Rightarrow> ChutesError + Verdict list \<Rightarrow> clock_reading
    \<Rightarrow> 'c budgets \<Rightarrow> 'c budgets" where
  "renew_answered_budgets show_status c chute answer clk m =
     (case answer of Inl e \<Rightarrow> evidence_failed show_status c chute e clk m | Inr _ \<Rightarrow> m)"

definition renew_answered :: "ChutesError + Verdict list \<Rightarrow> u64 \<Rightarrow> instant \<Rightarrow> ChuteState \<Rightarrow> ChuteState" where
  "renew_answered answer since now s =
     (let s1 = s\<lparr>renewal_since := None\<rparr> in
      case answer of Inl _ \<Rightarrow> s1 | Inr vs \<Rightarrow> record_verdicts vs now (Some since) s1)"

section \<open>An issue ends\<close>

lemmas issue_unfold = issue_step_def issue_turn_def turn_exhausted_def admit_answered_def flight_taken_def
  discover_answered_def MAX_ADMISSIONS_PER_REQUEST_def MAX_DISCOVERIES_PER_REQUEST_def

lemmas issue_splits = prod.splits sum.splits option.splits if_splits

definition finished :: "Issue \<Rightarrow> bool" where
  "finished i = (case pc i of Issued _ \<Rightarrow> True | _ \<Rightarrow> False)"

text \<open>Turns left: one to return, two per admission and three per discovery still allowed.\<close>

definition turns_left :: "Issue \<Rightarrow> nat" where
  "turns_left i =
     (case pc i of Issued _ \<Rightarrow> 0 | LoopHead \<Rightarrow> 1 | Admitting _ \<Rightarrow> 2 | Discovering _ \<Rightarrow> 2 | AwaitingFlight \<Rightarrow> 3)
     + (if finished i then 0 else 2 * (2 - admissions_made i) + 3 * (2 - discoveries_made i))"

lemma issue_turn_cases:
  assumes "issue_turn show_status c chute t1 t2 t3 clk clk' i s w = (i', s', w')"
  shows "finished i'
    \<or> (\<exists>xs. i' = i\<lparr>admissions_made := admissions_made i + 1, pc := Admitting xs\<rparr> \<and> admissions_made i < 2 \<and> xs \<noteq> []
        \<and> xs = filter (\<lambda>x. instance_id x \<notin> set (unevidenced i)) (unjudged s'))
    \<or> (i' = i\<lparr>discoveries_made := discoveries_made i + 1, pc := AwaitingFlight\<rparr> \<and> discoveries_made i < 2)"
  using assms by (auto simp: issue_unfold finished_def Let_def split: issue_splits)

lemma issue_step_turns:
  assumes "issue_step show_status c chute r i s w = (i', s', w')" and "\<not> finished i"
  shows "turns_left i' < turns_left i"
proof (cases "pc i")
  case LoopHead
  with assms have "issue_turn show_status c chute (at1 r) (at2 r) (at3 r) (clock1 r) (clock2 r) i s w = (i', s', w')"
    by (simp add: issue_step_def)
  from issue_turn_cases [OF this] LoopHead show ?thesis
    by (auto simp: turns_left_def finished_def split: issue_pc.splits)
next
  case Admitting
  with assms show ?thesis
    by (auto simp: issue_step_def admit_answered_def turns_left_def finished_def split: sum.splits)
next
  case AwaitingFlight
  with assms show ?thesis
    by (auto simp: issue_step_def flight_taken_def turns_left_def finished_def split: sum.splits prod.splits)
next
  case Discovering
  with assms show ?thesis
    by (auto simp: issue_step_def discover_answered_def turns_left_def finished_def split: sum.splits)
next
  case Issued
  with assms(2) show ?thesis by (simp add: finished_def)
qed

lemma issue_step_finished: "finished i \<Longrightarrow> issue_step show_status c chute r i s w = (i, s, w)"
  by (simp add: finished_def issue_step_def split: issue_pc.splits)

lemma issue_run_finished: "finished i \<Longrightarrow> issue_run show_status c chute rs i s = (i, s)"
  by (induction show_status c chute rs i s rule: issue_run.induct) (simp_all add: issue_step_finished)

lemma issue_run_ends:
  assumes "turns_left i \<le> length rs"
  shows "finished (fst (issue_run show_status c chute rs i s))"
  using assms
proof (induction rs arbitrary: i s)
  case Nil
  then show ?case by (auto simp: turns_left_def finished_def split: issue_pc.splits)
next
  case (Cons rw rs)
  obtain r w where rw: "rw = (r, w)" by (cases rw)
  obtain i' s' w' where st: "issue_step show_status c chute r i s w = (i', s', w')" by (metis prod_cases3)
  show ?case
  proof (cases "finished i")
    case False
    with Cons issue_step_turns [OF st] rw st show ?thesis by simp
  qed (simp add: issue_run_finished)
qed

definition admit_calls :: "api_call list \<Rightarrow> nat" where
  "admit_calls cs = length (filter (\<lambda>x. x \<noteq> DiscoverCall) cs)"

definition discover_calls :: "api_call list \<Rightarrow> nat" where
  "discover_calls cs = length (filter (\<lambda>x. x = DiscoverCall) cs)"

lemma call_of_LoopHead:
  "pc i = LoopHead \<Longrightarrow> call_of i i' = (case pc i' of Admitting xs \<Rightarrow> [AdmitCall xs] | _ \<Rightarrow> [])"
  by (simp add: call_of_def split: issue_pc.splits)

text \<open>How a step changes the counters, and the call it makes.\<close>

lemma issue_step_calls:
  assumes "issue_step show_status c chute r i s w = (i', s', w')" and "admissions_made i \<le> 2"
    and "discoveries_made i \<le> 2"
  shows "admissions_made i' \<le> 2 \<and> discoveries_made i' \<le> 2
    \<and> admit_calls (call_of i i') + (2 - admissions_made i') \<le> 2 - admissions_made i
    \<and> discover_calls (call_of i i') + (2 - discoveries_made i') + (if pc i' = AwaitingFlight then 1 else 0)
      \<le> 2 - discoveries_made i + (if pc i = AwaitingFlight then 1 else 0)
    \<and> set (unevidenced i) \<subseteq> set (unevidenced i')
    \<and> (\<forall>xs. AdmitCall xs \<in> set (call_of i i') \<longrightarrow> xs \<noteq> [] \<and> (\<forall>x \<in> set xs. instance_id x \<notin> set (unevidenced i)))"
proof (cases "pc i")
  case LoopHead
  with assms(1) show ?thesis
    using assms(2,3)
    by (auto simp: issue_unfold call_of_LoopHead admit_calls_def discover_calls_def Let_def split: issue_splits)
next
  case (Admitting xs)
  with assms show ?thesis
    by (auto simp: issue_unfold call_of_def admit_calls_def discover_calls_def split: sum.splits)
next
  case AwaitingFlight
  with assms show ?thesis
    by (auto simp: issue_unfold call_of_def admit_calls_def discover_calls_def split: sum.splits prod.splits)
next
  case (Discovering asked)
  with assms show ?thesis
    by (auto simp: issue_unfold call_of_def admit_calls_def discover_calls_def split: sum.splits)
next
  case (Issued res)
  with assms show ?thesis
    by (auto simp: issue_unfold call_of_def admit_calls_def discover_calls_def)
qed

lemma admit_calls_append [simp]: "admit_calls (xs @ ys) = admit_calls xs + admit_calls ys"
  by (simp add: admit_calls_def)

lemma discover_calls_append [simp]: "discover_calls (xs @ ys) = discover_calls xs + discover_calls ys"
  by (simp add: discover_calls_def)

lemma issue_calls_bounded:
  assumes "admissions_made i \<le> 2" and "discoveries_made i \<le> 2"
  shows "admit_calls (issue_calls show_status c chute rs i s) \<le> 2 - admissions_made i
    \<and> discover_calls (issue_calls show_status c chute rs i s)
      \<le> 2 - discoveries_made i + (if pc i = AwaitingFlight then 1 else 0)
    \<and> (\<forall>xs. AdmitCall xs \<in> set (issue_calls show_status c chute rs i s) \<longrightarrow>
        xs \<noteq> [] \<and> (\<forall>x \<in> set xs. instance_id x \<notin> set (unevidenced i)))"
  using assms
proof (induction rs arbitrary: i s)
  case Nil
  then show ?case by (simp add: admit_calls_def discover_calls_def)
next
  case (Cons rw rs)
  obtain r w where rw: "rw = (r, w)" by (cases rw)
  obtain i' s' w' where st: "issue_step show_status c chute r i s w = (i', s', w')" by (metis prod_cases3)
  note step = issue_step_calls [OF st Cons.prems]
  with Cons.IH [of i' s'] have IH:
    "admit_calls (issue_calls show_status c chute rs i' s') \<le> 2 - admissions_made i'"
    "discover_calls (issue_calls show_status c chute rs i' s')
      \<le> 2 - discoveries_made i' + (if pc i' = AwaitingFlight then 1 else 0)"
    "\<And>xs. AdmitCall xs \<in> set (issue_calls show_status c chute rs i' s') \<Longrightarrow>
        xs \<noteq> [] \<and> (\<forall>x \<in> set xs. instance_id x \<notin> set (unevidenced i'))"
    by blast+
  have calls: "issue_calls show_status c chute (rw # rs) i s = call_of i i' @ issue_calls show_status c chute rs i' s'"
    using rw st by simp
  from step IH(1,2) show ?case unfolding calls set_append admit_calls_append discover_calls_append
    using IH(3) by (auto dest!: IH(3))
qed

section \<open>What a run issues\<close>

lemma chute_wf_take: "chute_wf s \<Longrightarrow> take_ticket now chute avoid s l = (r, s', l') \<Longrightarrow> chute_wf s'"
  using run_op_wf [of s "OpTake now chute avoid l"] by simp

lemma issue_step_wf:
  assumes "issue_step show_status c chute r i s w = (i', s', w')" and "chute_wf s"
  shows "chute_wf s'"
proof (cases "pc i")
  case LoopHead
  have "chute_wf (prune (at1 r) s)" by (rule chute_wf_prune [OF assms(2)])
  with assms(1) LoopHead show ?thesis
    by (auto simp: issue_unfold Let_def split: issue_splits dest: chute_wf_take)
qed (use assms in \<open>auto simp: issue_unfold chute_wf_record chute_wf_refill split: sum.splits prod.splits\<close>)

lemma issue_step_ticket:
  assumes "issue_step show_status c chute r i s w = (i', s', w')" and "\<not> finished i" and "pc i' = Issued (Ok t)"
  shows "pc i = LoopHead \<and> (\<exists>l'. take_ticket (at2 r) chute [] (prune (at1 r) s) (ledger w) = (Ok (Some t), s', l'))"
proof (cases "pc i")
  case LoopHead
  with assms(1,3) show ?thesis by (auto simp: issue_unfold Let_def split: issue_splits)
qed (use assms in \<open>auto simp: issue_unfold finished_def split: sum.splits prod.splits\<close>)

text \<open>The turn in which a run got its ticket.\<close>

lemma issue_run_ticket:
  assumes "pc (fst (issue_run show_status c chute rs i s)) = Issued (Ok t)" and "\<not> finished i" and "chute_wf s"
  shows "\<exists>before r w after i1 s1 s2 l2. rs = before @ (r, w) # after \<and> issue_run show_status c chute before i s = (i1, s1)
    \<and> chute_wf s1 \<and> take_ticket (at2 r) chute [] (prune (at1 r) s1) (ledger w) = (Ok (Some t), s2, l2)"
  using assms
proof (induction rs arbitrary: i s)
  case Nil
  then show ?case by (simp add: finished_def)
next
  case (Cons rw rs)
  obtain r w where rw: "rw = (r, w)" by (cases rw)
  obtain i' s' w' where st: "issue_step show_status c chute r i s w = (i', s', w')" by (metis prod_cases3)
  show ?case
  proof (cases "finished i'")
    case True
    with Cons.prems(1) rw st have "pc i' = Issued (Ok t)" by (simp add: issue_run_finished)
    with issue_step_ticket [OF st Cons.prems(2)] obtain l2
      where "take_ticket (at2 r) chute [] (prune (at1 r) s) (ledger w) = (Ok (Some t), s', l2)" by blast
    with rw Cons.prems(3) show ?thesis by (intro exI [of _ "[]"]) auto
  next
    case False
    from Cons.IH [OF _ False issue_step_wf [OF st Cons.prems(3)]] Cons.prems(1) rw st
    obtain before r1 w1 after i1 s1 s2 l2 where "rs = before @ (r1, w1) # after"
      "issue_run show_status c chute before i' s' = (i1, s1)" "chute_wf s1"
      "take_ticket (at2 r1) chute [] (prune (at1 r1) s1) (ledger w1) = (Ok (Some t), s2, l2)"
      by auto
    with rw st show ?thesis by (intro exI [of _ "rw # before"]) auto
  qed
qed

lemma take_ticket_live:
  assumes "take_ticket t2 chute avoid (prune t1 s) l = (Ok (Some t), s', l')" and "chute_wf s" and "ledger_wf l"
  shows "\<exists>until. map_of (admitted s) (ticket_instance t, ticket_pubkey t) = Some until \<and> t1 < until
    \<and> ledger_holds (ledger_prune t2 l) (chute, nonce t) = None"
proof -
  have "valid_until (prune t1 s) = valid_until s" by (simp add: prune_def Let_def)
  with assms(1) obtain valid where "take_loop chute avoid valid (prune t1 s) (ledger_prune t2 l) = (Ok (Some t), s', l')"
    by (auto simp: take_ticket_def split: option.splits)
  from take_loop_spec [OF this ledger_wf_prune [OF assms(3)]] show ?thesis
    by (auto simp: hm_contains_def prune_admitted [OF assms(2)] filter_o_def split: option.splits if_splits)
qed

section \<open>When a renewal fetches\<close>

lemma wake_time_bounds:
  "target \<le> wake_time target s blocked"
  "last_recorded s = Some at \<Longrightarrow> at + MIN_RENEWAL_INTERVAL \<le> wake_time target s blocked"
  "blocked = Some until \<Longrightarrow> until \<le> wake_time target s blocked"
  unfolding wake_time_def by (auto intro!: Max_ge simp del: Max_insert)

lemma earliest_in_expiring:
  assumes "earliest_admission s = Some e" and "e \<le> by_time"
  shows "expiring by_time s \<noteq> []"
proof -
  from assms(1) have ne: "admitted s \<noteq> []" and e: "e = Min (snd ` set (admitted s))"
    by (auto simp: earliest_admission_def split: if_splits)
  then have "e \<in> snd ` set (admitted s)" by (simp add: Min_in)
  with assms(2) show ?thesis by (force simp: expiring_def filter_empty_conv)
qed

section \<open>Properties\<close>

text \<open>
  C31: A request's issue always returns, after at most eleven turns, and spends at most two discovery
  and two evidence calls, whatever the API answers and whatever others do to the shared ledger and
  budgets between its turns; it never asks for no instance.
\<close>

theorem issue_bounded:
  assumes "length rs \<ge> 11"
  shows "(\<exists>res. pc (fst (issue_run show_status c chute rs issue_start s)) = Issued res)
    \<and> admit_calls (issue_calls show_status c chute rs issue_start s) \<le> 2
    \<and> discover_calls (issue_calls show_status c chute rs issue_start s) \<le> 2
    \<and> AdmitCall [] \<notin> set (issue_calls show_status c chute rs issue_start s)"
proof -
  have "finished (fst (issue_run show_status c chute rs issue_start s))"
    by (rule issue_run_ends) (use assms in \<open>simp add: turns_left_def issue_start_def finished_def\<close>)
  then have "\<exists>res. pc (fst (issue_run show_status c chute rs issue_start s)) = Issued res"
    by (auto simp: finished_def split: issue_pc.splits)
  with issue_calls_bounded [of issue_start show_status c chute rs s] show ?thesis
    by (auto simp: issue_start_def)
qed

definition demo_resumption :: resumption where
  "demo_resumption = \<lparr>at1 = 10, at2 = 10, at3 = 10, clock1 = (10, 0, 0), clock2 = (10, 0, 0),
     verdicts_answer = Ok [], discovery_answer = Ok \<lparr>instances = [], nonce_expires_in = 60\<rparr>\<rparr>"

theorem issue_bounded_witness:
  "discover_calls (issue_calls (\<lambda>_. []) True ''c''
     (replicate 11 (demo_resumption, \<lparr>ledger = demo_ledger, budgets = []\<rparr>)) issue_start ChuteState_default) \<le> 2"
proof -
  have "length (replicate 11 (demo_resumption, \<lparr>ledger = demo_ledger, budgets = ([] :: bool budgets)\<rparr>)) \<ge> 11" by simp
  from issue_bounded [OF this, of "\<lambda>_. []" True "''c''" ChuteState_default] show ?thesis by blast
qed

text \<open>
  An instance Chutes served no evidence for is not asked about again in the same request: every
  later evidence call of the run leaves it out.
\<close>

theorem unevidenced_not_asked_again:
  assumes "AdmitCall xs \<in> set (issue_calls show_status c chute rs i s)" and "x \<in> set xs"
    and "admissions_made i \<le> 2" and "discoveries_made i \<le> 2"
  shows "instance_id x \<notin> set (unevidenced i)"
  using issue_calls_bounded [OF assms(3,4), of show_status c chute rs s] assms(1,2) by blast

theorem unevidenced_not_asked_again_witness:
  "instance_id demo_instance \<notin> set (unevidenced issue_start)"
proof -
  let ?s = "demo_chute\<lparr>admitted := []\<rparr>"
  have "issue_calls (\<lambda>_. []) True ''c'' [(demo_resumption, \<lparr>ledger = demo_ledger, budgets = []\<rparr>)] issue_start ?s
      = [AdmitCall [demo_instance]]"
    by (simp add: issue_step_def issue_turn_def issue_start_def demo_resumption_def take_ticket_def demo_chute_def
        ChuteState_default_def prune_def hm_retain_def take_loop.simps choose_instance_def eligible_def hm_contains_def
        demo_instance_def unjudged_def charge_evidence_def with_budget_def Let_def budget_of_def Budget_default_def
        check_backoff_def EVIDENCE_PER_MINUTE_def TARGETS_def MAX_CREDENTIALS_def MAX_ADMISSIONS_PER_REQUEST_def call_of_def)
  from unevidenced_not_asked_again [of "[demo_instance]" "\<lambda>_. []" True "''c''"
      "[(demo_resumption, \<lparr>ledger = demo_ledger, budgets = []\<rparr>)]" issue_start ?s demo_instance] this
  show ?thesis by (simp add: issue_start_def)
qed

text \<open>
  When a run ends with a ticket, there was a turn of it at which the ticket's instance was
  admitted with the admission still running and its nonce was not in the shared ledger.
\<close>

theorem issued_ticket_admitted:
  assumes "pc (fst (issue_run show_status c chute rs issue_start s)) = Issued (Ok t)" and "chute_wf s"
    and "list_all (\<lambda>(_, w). ledger_wf (ledger w)) rs"
  shows "\<exists>before r w after i1 s1 until. rs = before @ (r, w) # after
    \<and> issue_run show_status c chute before issue_start s = (i1, s1)
    \<and> map_of (admitted s1) (ticket_instance t, ticket_pubkey t) = Some until \<and> at1 r < until
    \<and> ledger_holds (ledger_prune (at2 r) (ledger w)) (chute, nonce t) = None"
proof -
  from issue_run_ticket [OF assms(1) _ assms(2)] obtain before r w after i1 s1 s2 l2
    where run: "rs = before @ (r, w) # after" "issue_run show_status c chute before issue_start s = (i1, s1)" "chute_wf s1"
      "take_ticket (at2 r) chute [] (prune (at1 r) s1) (ledger w) = (Ok (Some t), s2, l2)"
    by (auto simp: issue_start_def finished_def)
  have "ledger_wf (ledger w)" using assms(3) run(1) by simp
  from take_ticket_live [OF run(4,3) this] run(1,2) show ?thesis by blast
qed

theorem issued_ticket_admitted_witness:
  "\<exists>t. pc (fst (issue_run (\<lambda>_. []) True ''c'' [(demo_resumption, \<lparr>ledger = demo_ledger, budgets = []\<rparr>)] issue_start demo_chute))
      = Issued (Ok t) \<and> (\<exists>until. map_of (admitted demo_chute) (ticket_instance t, ticket_pubkey t) = Some until \<and> 10 < until)"
proof -
  let ?rs = "[(demo_resumption, \<lparr>ledger = demo_ledger, budgets = ([] :: bool budgets)\<rparr>)]"
  have "issue_run (\<lambda>_. []) True ''c'' ?rs issue_start demo_chute
    = (issue_start\<lparr>pc := Issued (Ok \<lparr>ticket_instance = ''i'', ticket_pubkey = ''k'', nonce = ''n2''\<rparr>)\<rparr>, pop_nonce 0 demo_chute)"
    by (simp add: issue_step_def issue_turn_def issue_start_def demo_resumption_def take_ticket_def demo_chute_def
        ChuteState_default_def prune_def hm_retain_def take_loop.simps choose_instance_def eligible_def hm_contains_def
        demo_instance_def Let_def ledger_record_def ledger_prune_def demo_ledger_def key_of_def pop_nonce_def)
  then have run: "pc (fst (issue_run (\<lambda>_. []) True ''c'' ?rs issue_start demo_chute))
    = Issued (Ok \<lparr>ticket_instance = ''i'', ticket_pubkey = ''k'', nonce = ''n2''\<rparr>)" by simp
  have "chute_wf demo_chute" "list_all (\<lambda>(_, w). ledger_wf (ledger w)) ?rs"
    by (simp_all add: chute_wf_def demo_chute_def ChuteState_default_def hm_wf_def ledger_wf_def demo_ledger_def)
  from issued_ticket_admitted [OF run this] run show ?thesis
    by (auto simp: Cons_eq_append_conv demo_resumption_def)
qed

text \<open>
  A renewal fetches evidence only for a warm chute that holds a live admission, at least two
  minutes after the latest verdicts and outside every evidence backoff it saw; a renewal that plans
  and fetches in the same turn asks for at least one admission, and one it cannot fetch yet it
  sleeps past all three bounds.
\<close>

theorem renewal_fetch_due:
  assumes "renew_turn show_status c chute t1 t2 t3 jitter clk planned s m = (act, planned', s', m')"
  shows "case act of
      FetchEvidence due since \<Rightarrow> warm t1 s \<and> admitted (prune t1 s) \<noteq> []
        \<and> is_none_or (\<lambda>at. at + MIN_RENEWAL_INTERVAL \<le> t1) (last_recorded s)
        \<and> is_none_or (\<lambda>until. until \<le> t1) (discoveries_blocked_until c chute t2 m)
        \<and> since = generation s \<and> renewal_since s' = Some since \<and> (jitter \<le> RENEW_JITTER \<and> planned = None \<longrightarrow> due \<noteq> [])
    | SleepUntil wake \<Rightarrow> t1 < wake \<and> is_none_or (\<lambda>at. at + MIN_RENEWAL_INTERVAL \<le> wake) (last_recorded s)
        \<and> is_none_or (\<lambda>until. until \<le> wake) (discoveries_blocked_until c chute t2 m) \<and> m' = m
    | StopRenewal \<Rightarrow> renewal s' = None \<and> (\<not> warm t1 s \<or> admitted (prune t1 s) = []) \<and> m' = m
    | ChargeRefused \<Rightarrow> planned' = None \<and> s' = prune t1 s"
proof -
  have pr: "last_recorded (prune t1 s) = last_recorded s" "generation (prune t1 s) = generation s"
    "last_served (prune t1 s) = last_served s" "warm t1 (prune t1 s) = warm t1 s"
    by (simp_all add: prune_def warm_def Let_def)
  have bounds: "is_none_or (\<lambda>at. at + MIN_RENEWAL_INTERVAL \<le> wake_time target s1 blocked) (last_recorded s1)"
    "is_none_or (\<lambda>until. until \<le> wake_time target s1 blocked) blocked" for target s1 blocked
    using wake_time_bounds(2,3) by (auto simp: is_none_or_def split: option.splits)
  have le: "is_none_or (\<lambda>at. f at \<le> b) x" if "is_none_or (\<lambda>at. f at \<le> a) x" "a \<le> b" for f :: "nat \<Rightarrow> nat" and a b x
    using that by (auto simp: is_none_or_def split: option.splits)
  show ?thesis
  proof (cases "earliest_admission (prune t1 s)")
    case None
    with assms pr show ?thesis by (auto simp: renew_turn_def earliest_admission_def Let_def split: if_splits)
  next
    case (Some e)
    then have ne: "admitted (prune t1 s) \<noteq> []" by (auto simp: earliest_admission_def split: if_splits)
    have due: "expiring (t1 + REFRESH_AHEAD + RENEW_JITTER) (prune t1 s) \<noteq> []"
      if "jitter \<le> RENEW_JITTER" "wake_time (renewal_target e jitter) s1 blocked \<le> t1" for s1 blocked
      using that wake_time_bounds(1) [of "renewal_target e jitter" s1 blocked]
      by (intro earliest_in_expiring [OF Some]) (auto simp: renewal_target_def split: if_splits)
    show ?thesis
    proof (cases "warm t1 s")
      case True
      let ?target = "case planned of Some t \<Rightarrow> t | None \<Rightarrow> renewal_target e jitter"
      let ?wake = "wake_time ?target (prune t1 s) (discoveries_blocked_until c chute t2 m)"
      note b = bounds [of ?target "prune t1 s" "discoveries_blocked_until c chute t2 m", unfolded pr(1)]
      show ?thesis
      proof (cases "?wake > t1")
        case sleeping: True
        with assms Some True pr b show ?thesis by (auto simp: renew_turn_def Let_def)
      next
        case False
        with le [OF b(1)] le [OF b(2)] assms Some True pr ne due show ?thesis
          by (auto simp: renew_turn_def Let_def not_less split: sum.splits prod.splits)
      qed
    next
      case False
      with assms Some pr show ?thesis by (auto simp: renew_turn_def Let_def)
    qed
  qed
qed

theorem renewal_fetch_due_witness:
  "\<exists>due planned' s' m'. renew_turn (\<lambda>_. []) True ''c'' 10 10 10 0 (10, 0, 0) None
      (demo_chute\<lparr>admitted := [((''i'', ''k''), secs 300 + 5)], last_served := Some 9\<rparr>) []
      = (FetchEvidence due 0, planned', s', m') \<and> due \<noteq> []"
proof -
  let ?s = "demo_chute\<lparr>admitted := [((''i'', ''k''), secs 300 + 5)], last_served := Some 9\<rparr>"
  have "\<exists>due planned' s' m'. renew_turn (\<lambda>_. []) True ''c'' 10 10 10 0 (10, 0, 0) None ?s []
      = (FetchEvidence due 0, planned', s', m')"
    by (simp add: renew_turn_def Let_def prune_def demo_chute_def ChuteState_default_def hm_retain_def
        earliest_admission_def warm_def renewal_target_def wake_time_def discoveries_blocked_until_def
        charge_evidence_def with_budget_def budget_of_def Budget_default_def check_backoff_def hm_contains_def
        EVIDENCE_PER_MINUTE_def TARGETS_def MAX_CREDENTIALS_def REFRESH_AHEAD_def ADMISSION_TTL_def secs_def)
  then obtain due planned' s' m' where
    run: "renew_turn (\<lambda>_. []) True ''c'' 10 10 10 0 (10, 0, 0) None ?s [] = (FetchEvidence due 0, planned', s', m')" by blast
  from renewal_fetch_due [OF run] have "due \<noteq> []" by simp
  with run show ?thesis by blast
qed

text \<open>
  The target a renewal keeps over its sleeps is not recomputed when the admissions change meanwhile: here
  the one it planned for has expired behind a backoff and a request has admitted the instance afresh, so
  the renewal spends an evidence call that asks for no instance.
\<close>

lemma stale_plan_fetches_nothing:
  "\<exists>s' m'. renew_turn (\<lambda>_. []) True ''c'' (secs 1000) (secs 1000) (secs 1000) 0 (secs 1000, 0, 0) (Some (secs 100))
      (demo_chute\<lparr>admitted := [((''i'', ''k''), secs 1780)], last_recorded := Some (secs 880), last_served := Some (secs 990)\<rparr>) []
      = (FetchEvidence [] 0, None, s', m')"
  by (simp add: renew_turn_def Let_def prune_def demo_chute_def ChuteState_default_def hm_retain_def
      earliest_admission_def warm_def wake_time_def discoveries_blocked_until_def expiring_def
      charge_evidence_def with_budget_def budget_of_def Budget_default_def check_backoff_def hm_contains_def
      EVIDENCE_PER_MINUTE_def TARGETS_def MAX_CREDENTIALS_def REFRESH_AHEAD_def RENEW_JITTER_def MIN_RENEWAL_INTERVAL_def
      ADMISSION_TTL_def secs_def)

end
