(* ===== verification/Chutes_Scopes.thy ===== *)
theory Chutes_Scopes
  imports Chutes_Issue
begin

text \<open>
  The map of admission scopes and the requests that hold them
  (\<^verbatim>\<open>attestd/src/chutes_verify/admission.rs\<close>, \<^verbatim>\<open>Scope\<close> and \<^verbatim>\<open>Admissions\<close>).

  The shared, locked state of a scope is named by a number, its cell. What the code reads of the
  reference counts is modelled by the holders: a request or renewal task that keeps a cell has
  one reference, and one more while it owns or awaits the lock's guard. A holder is \<open>serving\<close> from
  the moment it gets its scope from the map until it has called \<^verbatim>\<open>forget\<close>; a renewal, which
  upgrades a weak reference, is not. SHA-256 is the parameter \<open>sha256\<close>.
\<close>

named_theorems scope_simps

definition MAX_SCOPES :: nat where "MAX_SCOPES = 256"

definition scope_of :: "(string \<Rightarrow> 'c) \<Rightarrow> string \<Rightarrow> string \<Rightarrow> 'c \<times> string" where
  "scope_of sha256 api_key chute = (sha256 api_key, chute)"

section \<open>The state of a scope after a request\<close>

definition keep_warm :: "nat \<Rightarrow> ChuteState \<Rightarrow> ChuteState" where
  "keep_warm task s = (if renewal s \<noteq> None \<or> admitted s = [] then s else s\<lparr>renewal := Some task\<rparr>)"

text \<open>The end of \<^verbatim>\<open>ticket\<close>: the state it leaves, and whether it goes on to forget the scope.\<close>

definition ticket_finish :: "instant \<Rightarrow> nat \<Rightarrow> ChutesError + Ticket \<Rightarrow> ChuteState \<Rightarrow> ChuteState \<times> bool" where
  "ticket_finish now task result s =
     (case result of
        Inr _ \<Rightarrow> (keep_warm task (s\<lparr>last_served := Some now\<rparr>), False)
      | Inl _ \<Rightarrow> (s, admitted s = [] \<and> rejected s = []))"

definition retry_take :: "instant \<Rightarrow> instant \<Rightarrow> instant \<Rightarrow> string \<Rightarrow> string list \<Rightarrow> ChuteState \<Rightarrow> NonceLedger
    \<Rightarrow> Ticket option \<times> ChuteState \<times> NonceLedger" where
  "retry_take t1 t2 t3 chute avoid s l =
     (case take_ticket t2 chute avoid (prune t1 s) l of
        (Inr (Some t), s1, l1) \<Rightarrow> (Some t, s1\<lparr>last_served := Some t3\<rparr>, l1)
      | (_, s1, l1) \<Rightarrow> (None, s1, l1))"

text \<open>The tasks that dropping or invalidating a state aborts.\<close>

definition aborted_renewals :: "ChuteState \<Rightarrow> nat list" where
  "aborted_renewals s = option_list (renewal s)"

definition invalidated :: "ChuteState \<Rightarrow> ChuteState \<times> nat list" where
  "invalidated s = (ChuteState_default, aborted_renewals s)"

section \<open>The map of scopes\<close>

record Scope =
  state_cell :: nat
  last_used :: instant

record 'k Hold =
  hold_scope :: 'k
  hold_cell :: nat
  guarded :: bool
  serving :: bool

record 'k Admissions =
  scopes :: "('k, Scope) hash_map"
  max_scopes :: nat
  next_cell :: nat
  holds :: "(nat, 'k Hold) hash_map"

definition Admissions_with_limits :: "nat \<Rightarrow> 'k Admissions" where
  "Admissions_with_limits n = \<lparr>scopes = [], max_scopes = n, next_cell = 0, holds = []\<rparr>"

definition Admissions_new :: "'k Admissions" where
  "Admissions_new = Admissions_with_limits MAX_SCOPES"

definition hold_refs :: "nat \<Rightarrow> nat \<times> 'k Hold \<Rightarrow> nat" where
  "hold_refs cell = (\<lambda>(_, h). if hold_cell h = cell then if guarded h then 2 else 1 else 0)"

definition strong_count :: "'k Admissions \<Rightarrow> nat \<Rightarrow> nat" where
  "strong_count a cell = length (filter (\<lambda>(_, sc). state_cell sc = cell) (scopes a)) + sum_list (map (hold_refs cell) (holds a))"

definition in_use :: "'k Admissions \<Rightarrow> Scope \<Rightarrow> bool" where
  "in_use a sc \<longleftrightarrow> strong_count a (state_cell sc) > 1"

text \<open>\<^verbatim>\<open>min_by_key\<close>: the first entry with the least instant.\<close>

definition least_recent :: "('k, Scope) hash_map \<Rightarrow> 'k option" where
  "least_recent m = map_option fst (foldl (\<lambda>best e. case best of
       None \<Rightarrow> Some e
     | Some b \<Rightarrow> if last_used (snd e) < last_used (snd b) then Some e else Some b) None m)"

definition retained :: "instant \<Rightarrow> 'k Admissions \<Rightarrow> ('k, Scope) hash_map" where
  "retained now a = hm_retain (\<lambda>_ sc. in_use a sc \<or> last_used sc + ADMISSION_TTL > now) (scopes a)"

definition evicted :: "'k Admissions \<Rightarrow> ('k, Scope) hash_map \<Rightarrow> 'k \<Rightarrow> ChutesError + ('k, Scope) hash_map" where
  "evicted a m key =
     (if \<not> hm_contains m key \<and> length m \<ge> max_scopes a then
        case least_recent (hm_retain (\<lambda>_ sc. \<not> in_use a sc) m) of
          None \<Rightarrow> Err (Unavailable (''all '' @ nat_to_string (max_scopes a) @ '' admission scopes are in use''))
        | Some idle \<Rightarrow> Ok (hm_remove idle m)
      else Ok m)"

text \<open>\<^verbatim>\<open>scope\<close>: the request \<open>rid\<close> gets the cell of its scope, a new one if the map has none.\<close>

definition acquire :: "nat \<Rightarrow> 'k \<Rightarrow> instant \<Rightarrow> 'k Admissions \<Rightarrow> (ChutesError + nat) \<times> 'k Admissions" where
  "acquire rid key now a =
     (let m = retained now a in
      case evicted a m key of
        Inl e \<Rightarrow> (Err e, a\<lparr>scopes := m\<rparr>)
      | Inr m1 \<Rightarrow>
          let (cell, fresh) = (case map_of m1 key of Some sc \<Rightarrow> (state_cell sc, next_cell a) | None \<Rightarrow> (next_cell a, next_cell a + 1))
          in (Ok cell,
              a\<lparr>scopes := hm_insert key \<lparr>state_cell = cell, last_used = now\<rparr> m1, next_cell := fresh,
                holds := hm_insert rid \<lparr>hold_scope = key, hold_cell = cell, guarded = False, serving = True\<rparr> (holds a)\<rparr>))"

text \<open>\<^verbatim>\<open>forget\<close>, the last use a request makes of its scope.\<close>

definition forget_scope :: "nat \<Rightarrow> 'k Admissions \<Rightarrow> 'k Admissions" where
  "forget_scope rid a =
     (case map_of (holds a) rid of
        None \<Rightarrow> a
      | Some h \<Rightarrow>
          let a1 = a\<lparr>holds := hm_insert rid (h\<lparr>serving := False\<rparr>) (holds a)\<rparr> in
          if strong_count a (hold_cell h) = 2
             \<and> is_some_and (\<lambda>sc. state_cell sc = hold_cell h) (map_of (scopes a) (hold_scope h))
          then a1\<lparr>scopes := hm_remove (hold_scope h) (scopes a)\<rparr> else a1)"

text \<open>The lookup of \<^verbatim>\<open>retry_ticket\<close>, which makes no scope.\<close>

definition retry_lookup :: "nat \<Rightarrow> 'k \<Rightarrow> 'k Admissions \<Rightarrow> nat option \<times> 'k Admissions" where
  "retry_lookup rid key a =
     (case map_of (scopes a) key of
        None \<Rightarrow> (None, a)
      | Some sc \<Rightarrow> (Some (state_cell sc),
          a\<lparr>holds := hm_insert rid \<lparr>hold_scope = key, hold_cell = state_cell sc, guarded = False, serving = True\<rparr> (holds a)\<rparr>))"

text \<open>A renewal upgrades its weak reference while any strong one is left.\<close>

definition upgrade :: "nat \<Rightarrow> 'k \<Rightarrow> nat \<Rightarrow> 'k Admissions \<Rightarrow> bool \<times> 'k Admissions" where
  "upgrade rid key cell a =
     (if strong_count a cell = 0 then (False, a)
      else (True, a\<lparr>holds := hm_insert rid \<lparr>hold_scope = key, hold_cell = cell, guarded = False, serving = False\<rparr> (holds a)\<rparr>))"

definition set_guard :: "nat \<Rightarrow> bool \<Rightarrow> 'k Admissions \<Rightarrow> 'k Admissions" where
  "set_guard rid g a =
     (case map_of (holds a) rid of
        None \<Rightarrow> a
      | Some h \<Rightarrow> a\<lparr>holds := hm_insert rid (h\<lparr>guarded := g\<rparr>) (holds a)\<rparr>)"

definition drop_hold :: "nat \<Rightarrow> 'k Admissions \<Rightarrow> 'k Admissions" where
  "drop_hold rid a = a\<lparr>holds := hm_remove rid (holds a)\<rparr>"

section \<open>Steps\<close>

inductive scope_step :: "'k Admissions \<Rightarrow> 'k Admissions \<Rightarrow> bool" where
  Acquire: "map_of (holds a) rid = None \<Longrightarrow> scope_step a (snd (acquire rid key now a))"
| Retry: "map_of (holds a) rid = None \<Longrightarrow> scope_step a (snd (retry_lookup rid key a))"
| Upgrade: "map_of (holds a) rid = None \<Longrightarrow> scope_step a (snd (upgrade rid key cell a))"
| Guard: "scope_step a (set_guard rid g a)"
| Forget: "scope_step a (forget_scope rid a)"
| Release: "scope_step a (drop_hold rid a)"

inductive scopes_reachable :: "nat \<Rightarrow> 'k Admissions \<Rightarrow> bool" for n where
  Start: "scopes_reachable n (Admissions_with_limits n)"
| Step: "scopes_reachable n a \<Longrightarrow> scope_step a a' \<Longrightarrow> scopes_reachable n a'"

section \<open>References\<close>

lemma scope_counted: "map_of (scopes a) k = Some sc \<Longrightarrow> length (filter (\<lambda>(_, x). state_cell x = state_cell sc) (scopes a)) \<ge> 1"
proof -
  assume "map_of (scopes a) k = Some sc"
  then have "(k, sc) \<in> set (filter (\<lambda>(_, x). state_cell x = state_cell sc) (scopes a))"
    by (auto dest: map_of_SomeD)
  then show ?thesis by (cases "filter (\<lambda>(_, x). state_cell x = state_cell sc) (scopes a)") auto
qed

lemma member_ref: "x \<in> set hs \<Longrightarrow> hold_refs cell x \<le> sum_list (map (hold_refs cell) hs)"
  by (rule member_le_sum_list) simp_all

lemma hold_counted: "map_of hs rid = Some h \<Longrightarrow> sum_list (map (hold_refs (hold_cell h)) hs) \<ge> 1"
proof -
  assume "map_of hs rid = Some h"
  then have "(rid, h) \<in> set hs" by (rule map_of_SomeD)
  from member_ref [OF this, of "hold_cell h"] show ?thesis by (auto simp: hold_refs_def split: if_splits)
qed

lemma two_holds_counted:
  assumes "map_of hs rid = Some h" and "map_of hs rid' = Some h'" and "rid \<noteq> rid'" and "hold_cell h' = hold_cell h"
  shows "sum_list (map (hold_refs (hold_cell h)) hs) \<ge> 2"
proof -
  have mem: "(rid, h) \<in> set hs" "(rid', h') \<in> set (remove1 (rid, h) hs)"
    using assms by (auto dest: map_of_SomeD)
  from member_ref [OF mem(2), of "hold_cell h"] sum_list_map_remove1 [OF mem(1), of "hold_refs (hold_cell h)"] assms(4) show ?thesis
    by (auto simp: hold_refs_def split: if_splits)
qed

lemma held_in_use:
  "map_of (scopes a) k = Some sc \<Longrightarrow> map_of (holds a) rid = Some h \<Longrightarrow> state_cell sc = hold_cell h \<Longrightarrow> in_use a sc"
  using scope_counted [of a k sc] hold_counted [of "holds a" rid h] by (simp add: in_use_def strong_count_def)

lemma counted_known:
  assumes "strong_count a cell > 0"
  shows "(\<exists>k sc. (k, sc) \<in> set (scopes a) \<and> state_cell sc = cell) \<or> (\<exists>rid h. (rid, h) \<in> set (holds a) \<and> hold_cell h = cell)"
proof (rule ccontr)
  assume none: "\<not> ?thesis"
  then have "filter (\<lambda>(_, sc). state_cell sc = cell) (scopes a) = []" by (auto simp: filter_empty_conv)
  moreover have "sum_list (map (hold_refs cell) (holds a)) = 0" using none by (auto simp: hold_refs_def sum_list_eq_0_iff)
  ultimately show False using assms by (simp only: strong_count_def list.size add_0 less_irrefl)
qed

section \<open>Eviction\<close>

lemma least_recent_fold:
  "case foldl (\<lambda>best e. case best of
       None \<Rightarrow> Some e
     | Some b \<Rightarrow> if last_used (snd e) < last_used (snd b) then Some e else Some b) acc m of
     None \<Rightarrow> acc = None \<and> m = []
   | Some b \<Rightarrow> (b \<in> set m \<or> acc = Some b) \<and> (\<forall>e \<in> set m \<union> set_option acc. last_used (snd b) \<le> last_used (snd e))"
proof (induction m arbitrary: acc)
  case (Cons e m)
  show ?case
  proof (cases acc)
    case None
    with Cons [of "Some e"] show ?thesis by (auto split: option.splits)
  next
    case (Some b)
    with Cons [of "Some e"] Cons [of "Some b"] show ?thesis by (auto split: option.splits if_splits)
  qed
qed (auto split: option.splits)

lemma least_recent_None: "least_recent m = None \<longleftrightarrow> m = []"
  using least_recent_fold [of None m] by (auto simp: least_recent_def split: option.splits)

lemma least_recent_Some:
  "least_recent m = Some k \<Longrightarrow> \<exists>sc. (k, sc) \<in> set m \<and> (\<forall>e \<in> set m. last_used sc \<le> last_used (snd e))"
  using least_recent_fold [of None m] by (force simp: least_recent_def split: option.splits)

lemma length_hm_remove: "hm_contains m k \<Longrightarrow> length (hm_remove k m) < length m"
proof (induction m)
  case (Cons e m)
  have "length (hm_remove k m) \<le> length m" by (simp add: hm_remove_def)
  then have "length (filter (\<lambda>(k', _). k' \<noteq> k) m) < Suc (length m)" by (simp add: less_Suc_eq_le)
  with Cons show ?case by (cases e) (auto simp: hm_remove_def hm_contains_def split: if_splits)
qed (simp add: hm_contains_def)

text \<open>What eviction leaves: room for the key, every scope in use, no new entry.\<close>

lemma evicted_Ok:
  assumes "evicted a m key = Ok m'" and "hm_wf m" and "length m \<le> max_scopes a"
  shows "hm_wf m'" and "hm_contains m' key \<or> length m' < max_scopes a" and "length m' \<le> max_scopes a"
    and "map_of m' k = Some sc \<Longrightarrow> map_of m k = Some sc"
    and "map_of m k = Some sc \<Longrightarrow> in_use a sc \<Longrightarrow> map_of m' k = Some sc"
proof -
  consider (same) "m' = m" "hm_contains m key \<or> length m < max_scopes a"
    | (evict) idle where "m' = hm_remove idle m" "least_recent (hm_retain (\<lambda>_ sc. \<not> in_use a sc) m) = Some idle"
    using assms(1) by (auto simp: evicted_def not_le split: if_splits option.splits)
  then have "hm_wf m' \<and> (hm_contains m' key \<or> length m' < max_scopes a) \<and> length m' \<le> max_scopes a
    \<and> (map_of m' k = Some sc \<longrightarrow> map_of m k = Some sc) \<and> (map_of m k = Some sc \<and> in_use a sc \<longrightarrow> map_of m' k = Some sc)"
  proof cases
    case same
    with assms show ?thesis by auto
  next
    case evict
    from least_recent_Some [OF evict(2)] obtain sc' where "(idle, sc') \<in> set m" "\<not> in_use a sc'"
      by (auto simp: hm_retain_def)
    then have idle: "map_of m idle = Some sc'" "\<not> in_use a sc'"
      using assms(2) by (simp_all add: hm_wf_def)
    then have "length m' < length m" using evict(1) by (simp add: length_hm_remove hm_contains_def)
    with evict(1) idle assms show ?thesis by (auto simp: map_of_hm_remove)
  qed
  then show "hm_wf m'" "hm_contains m' key \<or> length m' < max_scopes a" "length m' \<le> max_scopes a"
    "map_of m' k = Some sc \<Longrightarrow> map_of m k = Some sc" "map_of m k = Some sc \<Longrightarrow> in_use a sc \<Longrightarrow> map_of m' k = Some sc"
    by blast+
qed

lemma retained_facts:
  assumes "hm_wf (scopes a)"
  shows "hm_wf (retained now a)" and "length (retained now a) \<le> length (scopes a)"
    and "map_of (retained now a) k = Some sc \<Longrightarrow> map_of (scopes a) k = Some sc"
    and "map_of (scopes a) k = Some sc \<Longrightarrow> in_use a sc \<Longrightarrow> map_of (retained now a) k = Some sc"
  using assms length_hm_retain [of "\<lambda>_ sc. in_use a sc \<or> last_used sc + ADMISSION_TTL > now" "scopes a"]
  by (auto simp: retained_def map_of_hm_retain result_simps)

section \<open>The invariant\<close>

definition scopes_inv :: "nat \<Rightarrow> 'k Admissions \<Rightarrow> bool" where
  "scopes_inv n a \<longleftrightarrow> hm_wf (scopes a) \<and> hm_wf (holds a) \<and> max_scopes a = n \<and> length (scopes a) \<le> n
     \<and> (\<forall>k sc. map_of (scopes a) k = Some sc \<longrightarrow> state_cell sc < next_cell a
          \<and> (\<forall>k' sc'. map_of (scopes a) k' = Some sc' \<and> state_cell sc' = state_cell sc \<longrightarrow> k' = k))
     \<and> (\<forall>rid h. map_of (holds a) rid = Some h \<longrightarrow> hold_cell h < next_cell a
          \<and> (serving h \<longrightarrow> (\<exists>sc. map_of (scopes a) (hold_scope h) = Some sc \<and> state_cell sc = hold_cell h)))"

lemma scopes_invI:
  assumes "hm_wf (scopes a)" "hm_wf (holds a)" "max_scopes a = n" "length (scopes a) \<le> n"
    and "\<And>k sc. map_of (scopes a) k = Some sc \<Longrightarrow> state_cell sc < next_cell a"
    and "\<And>k sc k' sc'. map_of (scopes a) k = Some sc \<Longrightarrow> map_of (scopes a) k' = Some sc' \<Longrightarrow> state_cell sc' = state_cell sc
        \<Longrightarrow> k' = k"
    and "\<And>rid h. map_of (holds a) rid = Some h \<Longrightarrow> hold_cell h < next_cell a"
    and "\<And>rid h. map_of (holds a) rid = Some h \<Longrightarrow> serving h \<Longrightarrow>
        \<exists>sc. map_of (scopes a) (hold_scope h) = Some sc \<and> state_cell sc = hold_cell h"
  shows "scopes_inv n a"
  using assms unfolding scopes_inv_def by blast

lemma scopes_invD:
  assumes "scopes_inv n a"
  shows "hm_wf (scopes a)" "hm_wf (holds a)" "max_scopes a = n" "length (scopes a) \<le> n"
    and "map_of (scopes a) k = Some sc \<Longrightarrow> state_cell sc < next_cell a"
    and "map_of (scopes a) k = Some sc \<Longrightarrow> map_of (scopes a) k' = Some sc' \<Longrightarrow> state_cell sc' = state_cell sc \<Longrightarrow> k' = k"
    and "map_of (holds a) rid = Some h \<Longrightarrow> hold_cell h < next_cell a"
    and "map_of (holds a) rid = Some h \<Longrightarrow> serving h \<Longrightarrow>
        \<exists>sc. map_of (scopes a) (hold_scope h) = Some sc \<and> state_cell sc = hold_cell h"
  using assms unfolding scopes_inv_def by blast+

text \<open>Replacing the holds keeps the invariant when the new hold is known and backed by the map.\<close>

lemma inv_hold:
  assumes "scopes_inv n a" and "hold_cell h < next_cell a"
    and "serving h \<Longrightarrow> \<exists>sc. map_of (scopes a) (hold_scope h) = Some sc \<and> state_cell sc = hold_cell h"
  shows "scopes_inv n (a\<lparr>holds := hm_insert rid h (holds a)\<rparr>)"
  by (rule scopes_invI)
    (use assms scopes_invD [OF assms(1)] in \<open>auto simp: map_of_hm_insert split: if_splits\<close>)

text \<open>Dropping scopes keeps it when no serving hold needs them.\<close>

lemma inv_scopes:
  assumes "scopes_inv n a" and "hm_wf m" and "length m \<le> n"
    and "\<And>k sc. map_of m k = Some sc \<Longrightarrow> map_of (scopes a) k = Some sc"
    and "\<And>k sc rid h. map_of (scopes a) k = Some sc \<Longrightarrow> map_of (holds a) rid = Some h \<Longrightarrow> serving h
        \<Longrightarrow> hold_scope h = k \<Longrightarrow> state_cell sc = hold_cell h \<Longrightarrow> map_of m k = Some sc"
  shows "scopes_inv n (a\<lparr>scopes := m\<rparr>)"
proof (rule scopes_invI)
  note inv = scopes_invD [OF assms(1)]
  fix k sc k' sc' rid h
  show "map_of (scopes (a\<lparr>scopes := m\<rparr>)) k = Some sc \<Longrightarrow> state_cell sc < next_cell (a\<lparr>scopes := m\<rparr>)"
    using inv(5) [OF assms(4)] by simp
  show "map_of (scopes (a\<lparr>scopes := m\<rparr>)) k = Some sc \<Longrightarrow> map_of (scopes (a\<lparr>scopes := m\<rparr>)) k' = Some sc' \<Longrightarrow>
      state_cell sc' = state_cell sc \<Longrightarrow> k' = k"
    using inv(6) [OF assms(4) assms(4)] by simp
  show "map_of (holds (a\<lparr>scopes := m\<rparr>)) rid = Some h \<Longrightarrow> serving h \<Longrightarrow>
      \<exists>sc. map_of (scopes (a\<lparr>scopes := m\<rparr>)) (hold_scope h) = Some sc \<and> state_cell sc = hold_cell h"
    using inv(8) [of rid h] assms(5) by fastforce
qed (use assms(2,3) scopes_invD [OF assms(1)] in auto)

text \<open>Mapping a key to a cell keeps it when no other key and no serving hold of the key has another cell.\<close>

lemma inv_insert:
  assumes "scopes_inv n a" and "length (hm_insert key v (scopes a)) \<le> n" and "next_cell a \<le> fresh" and "state_cell v < fresh"
    and "\<And>k sc. map_of (scopes a) k = Some sc \<Longrightarrow> state_cell sc = state_cell v \<Longrightarrow> k = key"
    and "\<And>rid h. map_of (holds a) rid = Some h \<Longrightarrow> serving h \<Longrightarrow> hold_scope h = key \<Longrightarrow> hold_cell h = state_cell v"
  shows "scopes_inv n (a\<lparr>scopes := hm_insert key v (scopes a), next_cell := fresh\<rparr>)"
    (is "scopes_inv n ?a")
proof (rule scopes_invI)
  note inv = scopes_invD [OF assms(1)]
  fix k sc k' sc' rid h
  show "hm_wf (scopes ?a)" "hm_wf (holds ?a)" "max_scopes ?a = n" "length (scopes ?a) \<le> n"
    using inv(1-3) assms(2) by simp_all
  show "state_cell sc < next_cell ?a" if "map_of (scopes ?a) k = Some sc"
    using that inv(5) [of k sc] assms(3,4) by (auto simp: map_of_hm_insert split: if_splits)
  show "k' = k" if "map_of (scopes ?a) k = Some sc" "map_of (scopes ?a) k' = Some sc'" "state_cell sc' = state_cell sc"
  proof (cases "k = key"; cases "k' = key")
    assume "k = key" "k' \<noteq> key"
    with that have "map_of (scopes a) k' = Some sc'" "state_cell sc' = state_cell v" by (simp_all add: map_of_hm_insert)
    with assms(5) [of k' sc'] \<open>k = key\<close> show ?thesis by blast
  next
    assume "k \<noteq> key" "k' = key"
    with that have "map_of (scopes a) k = Some sc" "state_cell sc = state_cell v" by (simp_all add: map_of_hm_insert)
    with assms(5) [of k sc] \<open>k' = key\<close> show ?thesis by blast
  next
    assume "k \<noteq> key" "k' \<noteq> key"
    with that have "map_of (scopes a) k = Some sc" "map_of (scopes a) k' = Some sc'" by (simp_all add: map_of_hm_insert)
    from inv(6) [OF this that(3)] show ?thesis .
  qed simp
  show "hold_cell h < next_cell ?a" if "map_of (holds ?a) rid = Some h"
    using that inv(7) [of rid h] assms(3) by simp
  show "\<exists>sc. map_of (scopes ?a) (hold_scope h) = Some sc \<and> state_cell sc = hold_cell h"
    if "map_of (holds ?a) rid = Some h" "serving h"
    using that inv(8) [of rid h] assms(6) [of rid h] by (auto simp: map_of_hm_insert)
qed

lemma inv_acquire:
  assumes "scopes_inv n a"
  shows "scopes_inv n (snd (acquire rid key now a))"
proof -
  note inv = scopes_invD [OF assms]
  note kept = retained_facts [OF inv(1), where now = now]
  have needed: "map_of (retained now a) k = Some sc"
    if "map_of (scopes a) k = Some sc" "map_of (holds a) r = Some h" "state_cell sc = hold_cell h" for k sc r h
    by (rule kept(4) [OF that(1) held_in_use [OF that]])
  show ?thesis
  proof (cases "evicted a (retained now a) key")
    case (Inl e)
    have "scopes_inv n (a\<lparr>scopes := retained now a\<rparr>)"
      by (rule inv_scopes [OF assms kept(1) _ kept(3)]) (use kept(2) inv(4) needed in auto)
    with Inl show ?thesis by (simp add: acquire_def Let_def)
  next
    case (Inr m1)
    have len: "length (retained now a) \<le> max_scopes a" using kept(2) inv(3,4) by simp
    note ev = evicted_Ok [OF Inr kept(1) len]
    have base: "scopes_inv n (a\<lparr>scopes := m1\<rparr>)"
    proof (rule inv_scopes [OF assms ev(1)])
      show "length m1 \<le> n" using ev(3) inv(3) by simp
      show "map_of m1 k = Some sc \<Longrightarrow> map_of (scopes a) k = Some sc" for k sc by (rule kept(3) [OF ev(4)])
      fix k sc r h
      assume h: "map_of (scopes a) k = Some sc" "map_of (holds a) r = Some h" "state_cell sc = hold_cell h"
      show "map_of m1 k = Some sc" by (rule ev(5) [OF needed [OF h] held_in_use [OF h]])
    qed
    note binv = scopes_invD [OF base, simplified]
    let ?h = "\<lambda>cell. \<lparr>hold_scope = key, hold_cell = cell, guarded = False, serving = True\<rparr>"
    have room: "length (hm_insert key v m1) \<le> n" for v
      using ev(2,3) inv(3) by (auto simp: length_hm_insert)
    show ?thesis
    proof (cases "map_of m1 key")
      case None
      have "scopes_inv n (a\<lparr>scopes := hm_insert key \<lparr>state_cell = next_cell a, last_used = now\<rparr> m1, next_cell := Suc (next_cell a)\<rparr>)"
        by (rule inv_insert [OF base, of key "\<lparr>state_cell = next_cell a, last_used = now\<rparr>" "next_cell a + 1", simplified])
          (use binv(5) binv(8) None room in fastforce)+
      from inv_hold [OF this, of "?h (next_cell a)" rid] None Inr show ?thesis
        by (simp add: acquire_def Let_def map_of_hm_insert)
    next
      case (Some sc)
      have "scopes_inv n (a\<lparr>scopes := hm_insert key \<lparr>state_cell = state_cell sc, last_used = now\<rparr> m1\<rparr>)"
      proof (rule inv_insert [OF base, of key "\<lparr>state_cell = state_cell sc, last_used = now\<rparr>" "next_cell a", simplified])
        fix k sc' rid' h
        show "k = key" if "map_of m1 k = Some sc'" "state_cell sc' = state_cell sc" by (rule binv(6) [OF Some that])
        show "hold_cell h = state_cell sc" if "map_of (holds a) rid' = Some h" "serving h" "hold_scope h = key"
          using binv(8) [OF that(1,2)] that(3) Some by simp
      qed (rule room, rule binv(5) [OF Some])
      from inv_hold [OF this, of "?h (state_cell sc)" rid] binv(5) [OF Some] Some Inr show ?thesis
        by (simp add: acquire_def Let_def map_of_hm_insert)
    qed
  qed
qed

lemma inv_forget:
  assumes "scopes_inv n a"
  shows "scopes_inv n (forget_scope rid a)"
proof (cases "map_of (holds a) rid")
  case None
  with assms show ?thesis by (simp add: forget_scope_def)
next
  case (Some h)
  note inv = scopes_invD [OF assms]
  let ?h = "h\<lparr>serving := False\<rparr>"
  have a1: "scopes_inv n (a\<lparr>holds := hm_insert rid ?h (holds a)\<rparr>)"
    by (rule inv_hold [OF assms]) (use inv(7) [OF Some] in simp_all)
  show ?thesis
  proof (cases "strong_count a (hold_cell h) = 2
      \<and> is_some_and (\<lambda>sc. state_cell sc = hold_cell h) (map_of (scopes a) (hold_scope h))")
    case True
    then obtain sc where sc: "map_of (scopes a) (hold_scope h) = Some sc" "state_cell sc = hold_cell h"
      by (auto simp: is_some_and_def split: option.splits)
    have alone: "rid' = rid" if "map_of (holds a) rid' = Some h'" "hold_cell h' = hold_cell h" for rid' h'
      using two_holds_counted [OF Some that(1)] that(2) True scope_counted [OF sc(1)] sc(2)
      by (auto simp: strong_count_def)
    have "scopes_inv n ((a\<lparr>holds := hm_insert rid ?h (holds a)\<rparr>)\<lparr>scopes := hm_remove (hold_scope h) (scopes a)\<rparr>)"
    proof (rule inv_scopes [OF a1])
      show "hm_wf (hm_remove (hold_scope h) (scopes a))" using inv(1) by simp
      show "length (hm_remove (hold_scope h) (scopes a)) \<le> n"
        using inv(4) by (auto simp: hm_remove_def intro: order_trans [OF length_filter_le])
    next
      fix k sc' rid' h'
      assume "map_of (holds (a\<lparr>holds := hm_insert rid ?h (holds a)\<rparr>)) rid' = Some h'" "serving h'" "hold_scope h' = k"
        and k: "map_of (scopes (a\<lparr>holds := hm_insert rid ?h (holds a)\<rparr>)) k = Some sc'" "state_cell sc' = hold_cell h'"
      then have "map_of (holds a) rid' = Some h'" "rid' \<noteq> rid" by (auto simp: map_of_hm_insert split: if_splits)
      with alone have "hold_cell h' \<noteq> hold_cell h" by blast
      with k sc show "map_of (hm_remove (hold_scope h) (scopes a)) k = Some sc'" by (auto simp: map_of_hm_remove)
    qed (auto simp: map_of_hm_remove split: if_splits)
    with Some True show ?thesis by (simp add: forget_scope_def Let_def)
  next
    case False
    with Some a1 show ?thesis by (auto simp: forget_scope_def Let_def)
  qed
qed

lemma inv_scope_step:
  assumes "scope_step a a'" and "scopes_inv n a"
  shows "scopes_inv n a'"
  using assms(1)
proof cases
  case (Acquire rid key now)
  then show ?thesis using inv_acquire [OF assms(2)] by simp
next
  case (Retry rid key)
  show ?thesis
  proof (cases "map_of (scopes a) key")
    case None
    with Retry assms(2) show ?thesis by (simp add: retry_lookup_def)
  next
    case (Some sc)
    with Retry scopes_invD(5) [OF assms(2) Some] show ?thesis
      by (auto simp: retry_lookup_def intro!: inv_hold [OF assms(2)])
  qed
next
  case (Upgrade rid key cell)
  have "hold_cell h < next_cell a" if "(r, h) \<in> set (holds a)" for r h
    using that scopes_invD(2,7) [OF assms(2)] by (auto simp: hm_wf_def)
  moreover have "state_cell sc < next_cell a" if "(k, sc) \<in> set (scopes a)" for k sc
    using that scopes_invD(1,5) [OF assms(2)] by (auto simp: hm_wf_def)
  ultimately have "strong_count a cell > 0 \<Longrightarrow> cell < next_cell a" using counted_known [of a cell] by blast
  with Upgrade assms(2) show ?thesis by (auto simp: upgrade_def intro!: inv_hold)
next
  case (Guard rid g)
  show ?thesis
  proof (cases "map_of (holds a) rid")
    case (Some h)
    with Guard scopes_invD(7,8) [OF assms(2) Some] show ?thesis
      by (auto simp: set_guard_def intro!: inv_hold [OF assms(2)])
  qed (use Guard assms(2) in \<open>simp add: set_guard_def\<close>)
next
  case (Forget rid)
  then show ?thesis using inv_forget [OF assms(2)] by simp
next
  case (Release rid)
  have "scopes_inv n (drop_hold rid a)"
    by (rule scopes_invI)
      (use scopes_invD [OF assms(2)] in \<open>auto simp: drop_hold_def map_of_hm_remove split: if_splits\<close>)
  with Release show ?thesis by simp
qed

lemma reachable_inv: "scopes_reachable n a \<Longrightarrow> scopes_inv n a"
proof (induction rule: scopes_reachable.induct)
  case Start
  show ?case by (simp add: scopes_inv_def Admissions_with_limits_def)
qed (rule inv_scope_step)

lemma evicted_gone:
  assumes "evicted a m key = Ok m'" and "hm_wf m" and "map_of m k = Some sc" and "map_of m' k = None"
    and "map_of m' k' = Some sc'" and "\<not> in_use a sc'"
  shows "\<not> in_use a sc \<and> last_used sc \<le> last_used sc'"
proof -
  let ?idle = "hm_retain (\<lambda>_ sc. \<not> in_use a sc) m"
  obtain idle where idle: "m' = hm_remove idle m" "least_recent ?idle = Some idle"
    using assms by (auto simp: evicted_def split: if_splits option.splits)
  with assms(3,4) have "k = idle" by (auto simp: map_of_hm_remove split: if_splits)
  from least_recent_Some [OF idle(2)] obtain sc0 where
    sc0: "(idle, sc0) \<in> set ?idle" "\<forall>e \<in> set ?idle. last_used sc0 \<le> last_used (snd e)" by blast
  then have "(idle, sc0) \<in> set m" "\<not> in_use a sc0" by (auto simp: hm_retain_def)
  with assms(2,3) \<open>k = idle\<close> have "sc0 = sc" by (simp add: hm_wf_def)
  moreover have "(k', sc') \<in> set ?idle"
    using assms(5,6) idle(1) by (auto simp: hm_retain_def map_of_hm_remove split: if_splits dest: map_of_SomeD)
  ultimately show ?thesis using sc0(2) \<open>\<not> in_use a sc0\<close> by fastforce
qed

section \<open>Properties\<close>

text \<open>
  C32: The lock of a scope is never split: in every reachable state, over any interleaving of requests,
  retries, renewals and evictions, two requests that serve the same scope hold the same state, requests
  of different scopes hold different states, a state that is being served is in the map, and the map
  stays within its cap.
\<close>

theorem scope_lock_never_split:
  assumes "scopes_reachable n a" and "map_of (holds a) rid = Some h" and "map_of (holds a) rid' = Some h'"
    and "serving h" and "serving h'"
  shows "(hold_scope h = hold_scope h' \<longleftrightarrow> hold_cell h = hold_cell h')
    \<and> (\<exists>sc. map_of (scopes a) (hold_scope h) = Some sc \<and> state_cell sc = hold_cell h)
    \<and> length (scopes a) \<le> n"
proof -
  note inv = scopes_invD [OF reachable_inv [OF assms(1)]]
  from inv(8) [OF assms(2,4)] inv(8) [OF assms(3,5)] obtain sc sc' where
    sc: "map_of (scopes a) (hold_scope h) = Some sc" "state_cell sc = hold_cell h"
      "map_of (scopes a) (hold_scope h') = Some sc'" "state_cell sc' = hold_cell h'"
    by blast
  with inv(6) [OF sc(3,1)] inv(4) show ?thesis by auto
qed

definition demo_scopes :: "string Admissions" where
  "demo_scopes = snd (acquire 1 ''a'' 20 (snd (acquire 0 ''a'' 10 (Admissions_with_limits 1))))"

lemma demo_scopes_eval:
  "demo_scopes = \<lparr>scopes = [(''a'', \<lparr>state_cell = 0, last_used = 20\<rparr>)], max_scopes = 1, next_cell = 1,
     holds = [(0, \<lparr>hold_scope = ''a'', hold_cell = 0, guarded = False, serving = True\<rparr>),
              (1, \<lparr>hold_scope = ''a'', hold_cell = 0, guarded = False, serving = True\<rparr>)]\<rparr>"
  by (simp add: demo_scopes_def acquire_def retained_def evicted_def Admissions_with_limits_def hm_retain_def
      hm_insert_def hm_contains_def in_use_def strong_count_def hold_refs_def Let_def)

lemma demo_scopes_reachable: "scopes_reachable 1 demo_scopes"
proof -
  have "scopes_reachable 1 (snd (acquire 0 ''a'' 10 (Admissions_with_limits 1)))"
    by (rule scopes_reachable.Step [OF scopes_reachable.Start]) (simp add: scope_step.Acquire Admissions_with_limits_def)
  then show ?thesis
    unfolding demo_scopes_def
    by (rule scopes_reachable.Step)
      (rule scope_step.Acquire, simp add: acquire_def retained_def evicted_def Admissions_with_limits_def hm_retain_def
        hm_insert_def hm_contains_def Let_def)
qed

theorem scope_lock_never_split_witness:
  "length (scopes demo_scopes) \<le> 1 \<and> map_option hold_cell (map_of (holds demo_scopes) 1) = map_option hold_cell (map_of (holds demo_scopes) 0)"
proof -
  let ?h = "\<lparr>hold_scope = ''a'', hold_cell = 0, guarded = False, serving = True\<rparr>"
  have "map_of (holds demo_scopes) 0 = Some ?h" "map_of (holds demo_scopes) 1 = Some ?h"
    by (simp_all add: demo_scopes_eval)
  with scope_lock_never_split [OF demo_scopes_reachable this] show ?thesis by simp
qed

text \<open>
  Getting a scope drops only scopes no one uses, those unused for a quarter of an hour and at most one
  more when the map is full, which is the least recently used; it fails only when every scope left is in
  use and the map is full.
\<close>

theorem scope_evicts_least_recent:
  assumes "scopes_reachable n a" and "acquire rid key now a = (r, a')" and "map_of (scopes a) k = Some sc"
  shows "case r of
      Inl _ \<Rightarrow> n \<le> length (scopes a') \<and> (\<forall>k' sc'. map_of (scopes a') k' = Some sc' \<longrightarrow> in_use a sc')
    | Inr cell \<Rightarrow> map_of (scopes a') key = Some \<lparr>state_cell = cell, last_used = now\<rparr>
        \<and> (map_of (scopes a') k = None \<longrightarrow> \<not> in_use a sc \<and>
            (last_used sc + ADMISSION_TTL \<le> now
             \<or> (\<forall>k' sc'. k' \<noteq> key \<and> map_of (scopes a') k' = Some sc' \<and> \<not> in_use a sc' \<longrightarrow> last_used sc \<le> last_used sc')))"
proof -
  note inv = scopes_invD [OF reachable_inv [OF assms(1)]]
  note kept = retained_facts [OF inv(1), where now = now]
  show ?thesis
  proof (cases "evicted a (retained now a) key")
    case (Inl e)
    then have "hm_retain (\<lambda>_ sc. \<not> in_use a sc) (retained now a) = []" "length (retained now a) \<ge> n"
      using inv(3) by (auto simp: evicted_def least_recent_None split: if_splits option.splits)
    moreover from this(1) have "in_use a sc'" if "map_of (retained now a) k' = Some sc'" for k' sc'
      using map_of_SomeD [OF that] by (auto simp: hm_retain_def filter_empty_conv)
    ultimately show ?thesis using assms(2) Inl by (auto simp: acquire_def Let_def)
  next
    case (Inr m1)
    then obtain cell where cell: "r = Ok cell" "scopes a' = hm_insert key \<lparr>state_cell = cell, last_used = now\<rparr> m1"
      using assms(2) by (auto simp: acquire_def Let_def split: option.splits)
    have "\<not> in_use a sc \<and> (last_used sc + ADMISSION_TTL \<le> now
        \<or> (\<forall>k' sc'. k' \<noteq> key \<and> map_of (scopes a') k' = Some sc' \<and> \<not> in_use a sc' \<longrightarrow> last_used sc \<le> last_used sc'))"
      if gone: "map_of (scopes a') k = None"
    proof (cases "map_of (retained now a) k")
      case None
      with assms(3) inv(1) show ?thesis by (auto simp: retained_def map_of_hm_retain not_less split: if_splits)
    next
      case (Some sc0)
      with kept(3) assms(3) have Some: "map_of (retained now a) k = Some sc" by simp
      have m1: "map_of m1 k = None" using gone cell(2) by (auto simp: map_of_hm_insert split: if_splits)
      have "length (retained now a) \<le> max_scopes a" using kept(2) inv(3,4) by simp
      from evicted_Ok(5) [OF Inr kept(1) this Some] m1 have "\<not> in_use a sc" by auto
      moreover have "last_used sc \<le> last_used sc'"
        if "k' \<noteq> key" "map_of (scopes a') k' = Some sc'" "\<not> in_use a sc'" for k' sc'
        using evicted_gone [OF Inr kept(1) Some m1 _ that(3)] that(1,2) cell(2) by (auto simp: map_of_hm_insert)
      ultimately show ?thesis by blast
    qed
    with cell show ?thesis by (simp add: map_of_hm_insert)
  qed
qed

theorem scope_evicts_least_recent_witness:
  "\<exists>e a'. acquire 2 ''b'' 30 demo_scopes = (Err e, a') \<and> length (scopes a') \<ge> 1"
proof -
  obtain r a' where run: "acquire 2 ''b'' 30 demo_scopes = (r, a')" by (metis surj_pair)
  have "\<exists>e. r = Err e"
    using run by (auto simp: demo_scopes_eval acquire_def retained_def evicted_def hm_retain_def hm_contains_def in_use_def
        strong_count_def hold_refs_def least_recent_def Let_def)
  moreover from scope_evicts_least_recent [OF demo_scopes_reachable run, of "''a''" "\<lparr>state_cell = 0, last_used = 20\<rparr>"] this
  have "length (scopes a') \<ge> 1" by (auto simp: demo_scopes_eval)
  ultimately show ?thesis using run by blast
qed

end
