(* ===== verification/Chutes_Stream.thy ===== *)
theory Chutes_Stream
  imports Chutes_Crypto
begin

text \<open>
  The decryptor of a Chutes event stream (\<^verbatim>\<open>attestd/src/chutes_verify/stream.rs\<close>): it cuts the
  upstream bytes into lines, opens the \<^verbatim>\<open>e2e\<close> events under the key of the one \<^verbatim>\<open>e2e_init\<close>, and
  releases the events inside them, holding the last content-free usage frame until the encrypted
  \<^verbatim>\<open>[DONE]\<close>.

  \<open>feed\<close> returns the bytes to forward or the error that ends the stream (then the decryptor is
  dropped with the bytes of that call). \<^verbatim>\<open>serde_json::from_str\<close> and \<^verbatim>\<open>Value::to_string\<close> are the
  parameter \<open>json_lib\<close>, the cryptography the parameter \<open>e2e_lib\<close>. The laws compare a run on
  arbitrary pieces with one pass over the lines of the whole body.
\<close>

named_theorems stream_simps

section \<open>The decryptor\<close>

definition MAX_LINE_BYTES :: nat where "MAX_LINE_BYTES = 8 * 1024 * 1024"

record json_lib =
  from_str :: "string \<Rightarrow> anyhow + json"
  json_text :: "json \<Rightarrow> string"

record ('sk, 'k) StreamDecryptor =
  sd_response_key :: 'sk
  sd_model :: string
  sd_stream_key :: "'k option"
  pending :: string
  usage_seen :: u64
  held_usage :: "string option"
  sd_done :: bool

definition StreamDecryptor_new :: "'sk \<Rightarrow> string \<Rightarrow> ('sk, 'k) StreamDecryptor" where
  "StreamDecryptor_new rk m = \<lparr>sd_response_key = rk, sd_model = m, sd_stream_key = None, pending = [],
     usage_seen = 0, held_usage = None, sd_done = False\<rparr>"

section \<open>Usage\<close>

definition usage_count :: "json \<Rightarrow> string \<Rightarrow> u64 option" where
  "usage_count u name = Option.bind (json_get name u) as_u64"

definition checked_add64 :: "u64 \<Rightarrow> u64 \<Rightarrow> u64 option" where
  "checked_add64 a b = (if unat a + unat b < 2 ^ 64 then Some (a + b) else None)"

definition saturating_add64 :: "u64 \<Rightarrow> u64 \<Rightarrow> u64" where
  "saturating_add64 a b = (if unat a + unat b < 2 ^ 64 then a + b else - 1)"

definition required_count :: "json \<Rightarrow> string \<Rightarrow> anyhow + u64" where
  "required_count u name = ok_or (usage_count u name) (''terminal usage has no integer '' @ name)"

definition require_billable :: "json \<Rightarrow> anyhow + unit" where
  "require_billable u =
     bind_r (required_count u ''prompt_tokens'') (\<lambda>prompt.
     bind_r (required_count u ''completion_tokens'') (\<lambda>completion.
     if json_get ''total_tokens'' u \<noteq> None then
       bind_r (required_count u ''total_tokens'') (\<lambda>tot.
       ensure (Some tot = checked_add64 prompt completion)
         ''terminal usage total_tokens is not prompt_tokens + completion_tokens'')
     else Ok ()))"

definition usage_total :: "json \<Rightarrow> u64" where
  "usage_total u =
     (case usage_count u ''total_tokens'' of
        Some tot \<Rightarrow> tot
      | None \<Rightarrow>
          saturating_add64 (case usage_count u ''prompt_tokens'' of Some n \<Rightarrow> n | None \<Rightarrow> 0)
            (case usage_count u ''completion_tokens'' of Some n \<Rightarrow> n | None \<Rightarrow> 0))"

definition chunk_usage :: "json \<Rightarrow> json option" where
  "chunk_usage chunk = filter_o (\<lambda>u. u \<noteq> JNull) (json_get ''usage'' chunk)"

definition content_free :: "json \<Rightarrow> bool" where
  "content_free chunk = is_some_and (\<lambda>xs. xs = []) (Option.bind (json_get ''choices'' chunk) as_array)"

section \<open>Releasing an authenticated line\<close>

definition emit :: "string \<Rightarrow> string" where
  "emit data = ''data: '' @ data @ [LF, LF]"

definition check_chunk :: "json_lib \<Rightarrow> json \<Rightarrow> ('sk, 'k) StreamDecryptor
    \<Rightarrow> anyhow + ('sk, 'k) StreamDecryptor" where
  "check_chunk jl chunk sd =
     bind_r (case json_get ''model'' chunk of
               None \<Rightarrow> Ok ()
             | Some m \<Rightarrow> ensure (as_str m = Some (sd_model sd))
                 (''decrypted chunk names model '' @ json_text jl m @ '', expected '' @ sd_model sd)) (\<lambda>_.
     case chunk_usage chunk of
       None \<Rightarrow> Ok sd
     | Some u \<Rightarrow>
         let tot = usage_total u in
         bind_r (ensure (tot \<ge> usage_seen sd)
           (''cumulative usage fell from '' @ u64_to_string (usage_seen sd) @ '' to '' @ u64_to_string tot)) (\<lambda>_.
         Ok (sd\<lparr>usage_seen := tot\<rparr>)))"

definition without_usage :: "json \<Rightarrow> json" where
  "without_usage chunk = (case chunk of JObject m \<Rightarrow> JObject (hm_remove ''usage'' m) | v \<Rightarrow> v)"

definition release :: "json_lib \<Rightarrow> string \<Rightarrow> ('sk, 'k) StreamDecryptor \<Rightarrow> string
    \<Rightarrow> anyhow + ('sk, 'k) StreamDecryptor \<times> string" where
  "release jl line sd out =
     (case strip_prefix ''data:'' line of
        None \<Rightarrow> Ok (sd, out)
      | Some rest \<Rightarrow>
          let data = trim_start rest in
          if data = ''[DONE]'' then
            bind_r (ok_or (held_usage sd) ''encrypted [DONE] without a preceding content-free usage frame'') (\<lambda>u.
            Ok (sd\<lparr>held_usage := None, sd_done := True\<rparr>, out @ emit u @ emit ''[DONE]''))
          else
            bind_r (with_context ''decrypted chunk is not JSON'' (from_str jl data)) (\<lambda>chunk.
            case (chunk_usage chunk, content_free chunk) of
              (Some u, True) \<Rightarrow>
                bind_r (require_billable u) (\<lambda>_.
                bind_r (check_chunk jl chunk sd) (\<lambda>sd.
                Ok (sd\<lparr>held_usage := Some data\<rparr>, out)))
            | _ \<Rightarrow>
                bind_r (check_chunk jl chunk sd) (\<lambda>sd.
                Ok (sd\<lparr>held_usage := None\<rparr>, out @ emit (json_text jl (without_usage chunk))))))"

fun release_lines :: "json_lib \<Rightarrow> string list \<Rightarrow> ('sk, 'k) StreamDecryptor \<Rightarrow> string
    \<Rightarrow> anyhow + ('sk, 'k) StreamDecryptor \<times> string" where
  "release_lines jl [] sd out = Ok (sd, out)"
| "release_lines jl (inner # ls) sd out =
     bind_r (release jl (trim_end inner) sd out) (\<lambda>(sd, out). release_lines jl ls sd out)"

section \<open>Relaying an upstream line\<close>

definition relay_event :: "('sk, 'k) e2e_lib \<Rightarrow> json_lib \<Rightarrow> string \<Rightarrow> ('sk, 'k) StreamDecryptor \<Rightarrow> string
    \<Rightarrow> anyhow + ('sk, 'k) StreamDecryptor \<times> string" where
  "relay_event lib jl line sd out =
     (case strip_prefix ''data:'' line of
        None \<Rightarrow> Ok (sd, out)
      | Some rest \<Rightarrow>
          let data = trim_start rest in
          if data = ''[DONE]'' then
            bind_r (ensure (sd_done sd) ''relay sent a plaintext [DONE] before the encrypted [DONE]'') (\<lambda>_.
            Ok (sd, out))
          else (case from_str jl data of
              Ok (JObject event) \<Rightarrow>
                (case map_of event ''e2e_init'' of
                   Some init \<Rightarrow>
                     bind_r (ensure (sd_stream_key sd = None) ''upstream sent a second e2e_init'') (\<lambda>_.
                     bind_r (ok_or (as_str init) ''e2e_init is not a string'') (\<lambda>init.
                     bind_r (stream_key lib (sd_response_key sd) init) (\<lambda>key.
                     Ok (sd\<lparr>sd_stream_key := Some key\<rparr>, out))))
                 | None \<Rightarrow>
                (case map_of event ''e2e'' of
                   Some chunk \<Rightarrow>
                     bind_r (ok_or (sd_stream_key sd) ''e2e chunk before e2e_init'') (\<lambda>key.
                     bind_r (ok_or (as_str chunk) ''e2e chunk is not a string'') (\<lambda>chunk.
                     bind_r (decrypt_chunk lib key chunk) (\<lambda>text.
                     bind_r (ensure (\<not> sd_done sd \<or> trim text = []) ''encrypted chunk after the encrypted [DONE]'') (\<lambda>_.
                     release_lines jl (lines text) sd out))))
                 | None \<Rightarrow>
                (case map_of event ''e2e_error'' of
                   Some e \<Rightarrow> Err (''upstream reported e2e_error: '' @ json_text jl e)
                 | None \<Rightarrow> Ok (sd, out))))
            | _ \<Rightarrow> Ok (sd, out)))"

section \<open>Feeding bytes\<close>

text \<open>The loop that drains complete lines from the buffer; what is left stays pending.\<close>

function drain_lines :: "('sk, 'k) e2e_lib \<Rightarrow> json_lib \<Rightarrow> string \<Rightarrow> ('sk, 'k) StreamDecryptor \<Rightarrow> string
    \<Rightarrow> anyhow + ('sk, 'k) StreamDecryptor \<times> string" where
  "drain_lines lib jl buf sd out =
     (case dropWhile (\<lambda>c. c \<noteq> LF) buf of
        [] \<Rightarrow> Ok (sd\<lparr>pending := buf\<rparr>, out)
      | _ # rest \<Rightarrow>
          let line = takeWhile (\<lambda>c. c \<noteq> LF) buf @ [LF] in
          bind_r (ensure (utf8_valid line) ''upstream event is not UTF-8'') (\<lambda>_.
          bind_r (relay_event lib jl (trim_end line) sd out) (\<lambda>(sd, out).
          drain_lines lib jl rest sd out)))"
  by pat_completeness auto
termination
proof (relation "measure (\<lambda>(lib, jl, buf, sd, out). length buf)")
  fix buf :: string and x rest
  assume "dropWhile (\<lambda>c. c \<noteq> LF) buf = x # rest"
  then have "length (x # rest) \<le> length buf" by (metis length_dropWhile_le)
  then show "((lib, jl, rest, sd', out'), lib, jl, buf, sd, out) \<in> measure (\<lambda>(lib, jl, buf, sd, out). length buf)"
    for lib jl sd sd' out out' by simp
qed simp

declare drain_lines.simps [simp del]

definition feed :: "('sk, 'k) e2e_lib \<Rightarrow> json_lib \<Rightarrow> string \<Rightarrow> ('sk, 'k) StreamDecryptor
    \<Rightarrow> anyhow + ('sk, 'k) StreamDecryptor \<times> string" where
  "feed lib jl bytes sd =
     bind_r (drain_lines lib jl (pending sd @ bytes) sd []) (\<lambda>(sd, out).
     bind_r (ensure (length (pending sd) \<le> MAX_LINE_BYTES)
       (''upstream event exceeds '' @ nat_to_string MAX_LINE_BYTES @ '' bytes'')) (\<lambda>_.
     Ok (sd, out)))"

definition finish_stream :: "('sk, 'k) StreamDecryptor \<Rightarrow> anyhow + unit" where
  "finish_stream sd = ensure (sd_done sd) ''upstream stream ended before the encrypted [DONE]''"

section \<open>Laws\<close>

subsection \<open>What a step does not touch\<close>

text \<open>
  Releasing neither reads nor writes the stream key and the buffer, and only appends to the
  output: \<open>framed\<close> states it of a step, and every step built from such steps has it.
\<close>

definition moved :: "'k option \<Rightarrow> string \<Rightarrow> string \<Rightarrow> ('sk, 'k) StreamDecryptor \<times> string
    \<Rightarrow> ('sk, 'k) StreamDecryptor \<times> string" where
  "moved k p pre = (\<lambda>(sd, out). (sd\<lparr>sd_stream_key := k, pending := p\<rparr>, pre @ out))"

lemma check_chunk_moved:
  "check_chunk jl chunk (sd\<lparr>sd_stream_key := k, pending := p\<rparr>) =
     map_r (\<lambda>sd. sd\<lparr>sd_stream_key := k, pending := p\<rparr>) (check_chunk jl chunk sd)"
  by (auto simp: check_chunk_def Let_def ensure_def split: option.splits)

lemma release_moved:
  "release jl line (sd\<lparr>sd_stream_key := k, pending := p\<rparr>) (pre @ out) =
     map_r (moved k p pre) (release jl line sd out)"
proof (cases "strip_prefix ''data:'' line")
  case (Some rest)
  show ?thesis
  proof (cases "trim_start rest = ''[DONE]''")
    case True
    with Some show ?thesis by (cases "held_usage sd") (simp_all add: release_def moved_def)
  next
    case False
    show ?thesis
    proof (cases "from_str jl (trim_start rest)")
      case (Inr chunk)
      with Some False show ?thesis
        by (cases "check_chunk jl chunk sd"; cases "chunk_usage chunk"; cases "content_free chunk";
            cases "require_billable (the (chunk_usage chunk))")
          (simp_all add: release_def moved_def check_chunk_moved)
    qed (use Some False in \<open>simp add: release_def\<close>)
  qed
qed (simp add: release_def moved_def)

lemma release_lines_moved:
  "release_lines jl ls (sd\<lparr>sd_stream_key := k, pending := p\<rparr>) (pre @ out) =
     map_r (moved k p pre) (release_lines jl ls sd out)"
proof (induction ls arbitrary: sd out)
  case (Cons l ls)
  show ?case
    by (cases "release jl (trim_end l) sd out") (auto simp: release_moved Cons.IH moved_def split: prod.splits)
qed (simp add: moved_def)

lemma release_lines_append:
  "release_lines jl (a @ b) sd out = bind_r (release_lines jl a sd out) (\<lambda>(sd, out). release_lines jl b sd out)"
proof (induction a arbitrary: sd out)
  case (Cons l a)
  then show ?case by (cases "release jl (trim_end l) sd out") auto
qed simp

text \<open>Relaying a line reads the key, but not the buffer.\<close>

definition rebuffered :: "string \<Rightarrow> string \<Rightarrow> ('sk, 'k) StreamDecryptor \<times> string
    \<Rightarrow> ('sk, 'k) StreamDecryptor \<times> string" where
  "rebuffered p pre = (\<lambda>(sd, out). (sd\<lparr>pending := p\<rparr>, pre @ out))"

lemma release_lines_key: "release_lines jl ls sd out = Ok (sd', out') \<Longrightarrow> sd_stream_key sd' = sd_stream_key sd"
proof -
  assume r: "release_lines jl ls sd out = Ok (sd', out')"
  have "release_lines jl ls (sd\<lparr>sd_stream_key := sd_stream_key sd, pending := pending sd\<rparr>) ([] @ out) =
      map_r (moved (sd_stream_key sd) (pending sd) []) (release_lines jl ls sd out)"
    by (rule release_lines_moved)
  with r show ?thesis by (auto simp: moved_def) (metis StreamDecryptor.select_convs(3) StreamDecryptor.surjective
      StreamDecryptor.update_convs(3,4) StreamDecryptor.select_convs(3))
qed

lemma release_lines_rebuffered:
  "release_lines jl ls (sd\<lparr>pending := p\<rparr>) (pre @ out) = map_r (rebuffered p pre) (release_lines jl ls sd out)"
proof -
  have "release_lines jl ls (sd\<lparr>pending := p\<rparr>) (pre @ out) =
      map_r (moved (sd_stream_key sd) p pre) (release_lines jl ls sd out)"
    using release_lines_moved [where k = "sd_stream_key sd" and sd = sd] by simp
  also have "\<dots> = map_r (rebuffered p pre) (release_lines jl ls sd out)"
  proof (cases "release_lines jl ls sd out")
    case (Inr r)
    obtain sd' out' where r: "r = (sd', out')" by fastforce
    with Inr have "sd_stream_key sd' = sd_stream_key sd" by (auto dest: release_lines_key)
    then have "sd'\<lparr>sd_stream_key := sd_stream_key sd, pending := p\<rparr> = sd'\<lparr>pending := p\<rparr>"
      by (metis StreamDecryptor.surjective StreamDecryptor.update_convs(3))
    with Inr r show ?thesis by (simp add: moved_def rebuffered_def)
  qed simp
  finally show ?thesis .
qed

lemma relay_event_rebuffered:
  "relay_event lib jl line (sd\<lparr>pending := p\<rparr>) (pre @ out) =
     map_r (rebuffered p pre) (relay_event lib jl line sd out)"
proof (cases "strip_prefix ''data:'' line")
  case (Some rest)
  show ?thesis
  proof (cases "trim_start rest = ''[DONE]''")
    case True
    with Some show ?thesis by (cases "sd_done sd") (simp_all add: relay_event_def rebuffered_def)
  next
    case False
    show ?thesis
    proof (cases "\<exists>event. from_str jl (trim_start rest) = Ok (JObject event)")
      case True
      then obtain event where event: "from_str jl (trim_start rest) = Ok (JObject event)" by blast
      note branch = relay_event_def Some False event
      show ?thesis
      proof (cases "map_of event ''e2e_init''")
        case None
        show ?thesis
        proof (cases "map_of event ''e2e''")
          case e2e: (Some chunk)
          show ?thesis
            by (cases "sd_stream_key sd"; cases "as_str chunk")
              (simp_all add: branch None e2e map_r_bind_r release_lines_rebuffered)
        next
          case none: None
          then show ?thesis by (cases "map_of event ''e2e_error''") (simp_all add: branch None rebuffered_def)
        qed
      next
        case init: (Some i)
        show ?thesis
          by (cases "sd_stream_key sd"; cases "as_str i"; cases "stream_key lib (sd_response_key sd) (the (as_str i))")
              (simp_all add: branch init rebuffered_def)
      qed
    next
      case none: False
      show ?thesis
      proof (cases "from_str jl (trim_start rest)")
        case (Inr v)
        with none Some False show ?thesis by (cases v) (simp_all add: relay_event_def rebuffered_def)
      qed (use Some False in \<open>simp add: relay_event_def rebuffered_def\<close>)
    qed
  qed
qed (simp add: relay_event_def rebuffered_def)

subsection \<open>Pieces and wholes\<close>

lemma drain_lines_tail:
  "LF \<notin> set buf \<Longrightarrow> drain_lines lib jl buf sd out = Ok (sd\<lparr>pending := buf\<rparr>, out)"
  by (subst drain_lines.simps) (simp add: no_line(2) del: dropWhile_eq_Nil_conv)

lemma drain_lines_line:
  "LF \<notin> set l \<Longrightarrow> drain_lines lib jl (l @ LF # rest) sd out =
     bind_r (ensure (utf8_valid (l @ [LF])) ''upstream event is not UTF-8'') (\<lambda>_.
     bind_r (relay_event lib jl (trim_end (l @ [LF])) sd out) (\<lambda>(sd, out). drain_lines lib jl rest sd out))"
  by (subst drain_lines.simps) (simp add: first_line Let_def)

lemma drain_lines_rebuffered:
  "drain_lines lib jl buf (sd\<lparr>pending := p\<rparr>) (pre @ out) =
     map_r (\<lambda>(sd, out). (sd, pre @ out)) (drain_lines lib jl buf sd out)"
proof (induction buf arbitrary: p pre sd out rule: line_induct)
  case (line l rest)
  show ?case
    by (cases "utf8_valid (l @ [LF])"; cases "relay_event lib jl (trim_end (l @ [LF])) sd out")
      (auto simp: line drain_lines_line relay_event_rebuffered rebuffered_def split: prod.splits)
qed (simp add: drain_lines_tail)

lemma drain_lines_append:
  "drain_lines lib jl (a @ b) sd out =
     bind_r (drain_lines lib jl a sd out) (\<lambda>(sd, out). drain_lines lib jl (pending sd @ b) sd out)"
proof (induction a arbitrary: sd out rule: line_induct)
  case (tail a)
  have "drain_lines lib jl (a @ b) (sd\<lparr>pending := a\<rparr>) ([] @ out) = drain_lines lib jl (a @ b) sd out"
    by (subst drain_lines_rebuffered) (cases "drain_lines lib jl (a @ b) sd out"; auto)
  with tail show ?case by (simp add: drain_lines_tail)
next
  case (line l rest)
  show ?case
    by (cases "utf8_valid (l @ [LF])"; cases "relay_event lib jl (trim_end (l @ [LF])) sd out")
      (auto simp: line drain_lines_line split: prod.splits)
qed

text \<open>The text after the last line feed.\<close>

definition unfinished :: "string \<Rightarrow> string" where
  "unfinished s = last (split_on LF s)"

lemma unfinished_tail [stream_simps]: "LF \<notin> set s \<Longrightarrow> unfinished s = s"
  by (simp add: unfinished_def split_on_single)

lemma unfinished_line [stream_simps]: "LF \<notin> set l \<Longrightarrow> unfinished (l @ LF # s) = unfinished s"
  by (simp add: unfinished_def split_on_append)

lemma unfinished_append [stream_simps]: "unfinished (unfinished a @ b) = unfinished (a @ b)"
  by (induction a rule: line_induct) (simp_all add: stream_simps)

lemma drain_lines_pending: "drain_lines lib jl buf sd out = Ok (sd', out') \<Longrightarrow> pending sd' = unfinished buf"
proof (induction buf arbitrary: sd out rule: line_induct)
  case (line l rest)
  then show ?case by (auto simp: drain_lines_line result_simps stream_simps split: prod.splits)
qed (auto simp: drain_lines_tail stream_simps)

text \<open>A body fed piece by piece, its output joined.\<close>

fun feed_all :: "('sk, 'k) e2e_lib \<Rightarrow> json_lib \<Rightarrow> string list \<Rightarrow> ('sk, 'k) StreamDecryptor
    \<Rightarrow> anyhow + ('sk, 'k) StreamDecryptor \<times> string" where
  "feed_all lib jl [] sd = Ok (sd, [])"
| "feed_all lib jl (c # cs) sd =
     bind_r (feed lib jl c sd) (\<lambda>(sd, out). map_r (\<lambda>(sd, more_out). (sd, out @ more_out)) (feed_all lib jl cs sd))"

lemma feed_eq_Ok:
  "feed lib jl c sd = Ok (sd', out) \<longleftrightarrow> drain_lines lib jl (pending sd @ c) sd [] = Ok (sd', out)
     \<and> length (unfinished (pending sd @ c)) \<le> MAX_LINE_BYTES"
  by (auto simp: feed_def result_simps drain_lines_pending split: prod.splits)

lemma drain_lines_start:
  "drain_lines lib jl buf sd out = map_r (\<lambda>(sd, more_out). (sd, out @ more_out)) (drain_lines lib jl buf sd [])"
  using drain_lines_rebuffered [where sd = sd and p = "pending sd" and pre = out and out = "[]"] by simp

lemma all_prefixes_Cons:
  "(\<forall>n. P (concat (take n (c # cs)))) \<longleftrightarrow> P [] \<and> (\<forall>n. P (c @ concat (take n cs)))"
proof -
  have "(\<forall>n. Q n) \<longleftrightarrow> Q 0 \<and> (\<forall>n. Q (Suc n))" for Q :: "nat \<Rightarrow> bool"
    by (metis not0_implies_Suc)
  from this [of "\<lambda>n. P (concat (take n (c # cs)))"] show ?thesis by simp
qed

lemma feed_all_eq_Ok:
  assumes "length (unfinished (pending sd)) \<le> MAX_LINE_BYTES" and "LF \<notin> set (pending sd)"
  shows "feed_all lib jl cs sd = Ok (sd', out) \<longleftrightarrow>
     drain_lines lib jl (pending sd @ concat cs) sd [] = Ok (sd', out)
     \<and> (\<forall>n. length (unfinished (pending sd @ concat (take n cs))) \<le> MAX_LINE_BYTES)"
  using assms
proof (induction cs arbitrary: sd out)
  case Nil
  then show ?case by (simp add: drain_lines_tail stream_simps)
next
  case (Cons c cs)
  show ?case
  proof (cases "drain_lines lib jl (pending sd @ c) sd []")
    case (Inl e)
    then show ?thesis by (auto simp: feed_eq_Ok result_simps drain_lines_append [of _ _ "pending sd @ c", simplified])
  next
    case (Inr r)
    obtain s1 o1 where r: "r = (s1, o1)" by fastforce
    with Inr have s1: "drain_lines lib jl (pending sd @ c) sd [] = Ok (s1, o1)" by simp
    then have p1: "pending s1 = unfinished (pending sd @ c)" by (rule drain_lines_pending)
    then have "LF \<notin> set (pending s1)"
      using split_on_no_sep [of _ LF "pending sd @ c"] by (simp add: unfinished_def)
    then have limit: "length (unfinished (pending s1)) = length (unfinished (pending sd @ c))"
      by (simp add: stream_simps p1)
    have whole: "drain_lines lib jl (pending sd @ concat (c # cs)) sd [] =
        map_r (\<lambda>(sd, more_out). (sd, o1 @ more_out)) (drain_lines lib jl (pending s1 @ concat cs) s1 [])"
      using drain_lines_append [of lib jl "pending sd @ c" "concat cs" sd "[]"] drain_lines_start [of lib jl _ s1 o1]
      by (simp add: s1)
    have prefixes: "unfinished (pending s1 @ x) = unfinished (pending sd @ c @ x)" for x
      by (simp add: p1 stream_simps)
    show ?thesis
    proof (cases "length (unfinished (pending sd @ c)) \<le> MAX_LINE_BYTES")
      case True
      note IH = Cons.IH [OF _ \<open>LF \<notin> set (pending s1)\<close>, unfolded limit, OF True, unfolded prefixes]
      show ?thesis
        unfolding whole all_prefixes_Cons [of "\<lambda>s. length (unfinished (pending sd @ s)) \<le> MAX_LINE_BYTES"]
        using True Cons.prems s1 by (auto simp: feed_def p1 result_simps IH)
    next
      case False
      then have "\<not> (\<forall>n. length (unfinished (pending sd @ concat (take n (c # cs)))) \<le> MAX_LINE_BYTES)"
        by (intro notI) (drule spec [of _ 1], simp)
      with False s1 show ?thesis by (simp add: feed_def p1)
    qed
  qed
qed

subsection \<open>What is released is what was sealed\<close>

text \<open>
  What a body itself holds, read line by line without a decryptor: the values of its init events and of its
  encrypted chunks, in order. Only complete lines count.
\<close>

definition event_of :: "json_lib \<Rightarrow> string \<Rightarrow> (string \<times> json) list option" where
  "event_of jl line =
     Option.bind (strip_prefix ''data:'' line) (\<lambda>rest.
       if trim_start rest = ''[DONE]'' then None
       else case from_str jl (trim_start rest) of Inr (JObject event) \<Rightarrow> Some event | _ \<Rightarrow> None)"

definition line_init :: "json_lib \<Rightarrow> string \<Rightarrow> string option" where
  "line_init jl line = Option.bind (event_of jl line) (\<lambda>event. Option.bind (map_of event ''e2e_init'') as_str)"

definition line_chunk :: "json_lib \<Rightarrow> string \<Rightarrow> string option" where
  "line_chunk jl line =
     Option.bind (event_of jl line) (\<lambda>event.
       if map_of event ''e2e_init'' = None then Option.bind (map_of event ''e2e'') as_str else None)"

definition body_lines :: "string \<Rightarrow> string list" where
  "body_lines body = map (\<lambda>l. trim_end (l @ [LF])) (butlast (split_on LF body))"

definition body_inits :: "json_lib \<Rightarrow> string \<Rightarrow> string list" where
  "body_inits jl body = List.map_filter (line_init jl) (body_lines body)"

definition body_chunks :: "json_lib \<Rightarrow> string \<Rightarrow> string list" where
  "body_chunks jl body = List.map_filter (line_chunk jl) (body_lines body)"

lemma body_lines_tail: "LF \<notin> set s \<Longrightarrow> body_lines s = []"
  by (simp add: body_lines_def split_on_single)

lemma body_lines_line: "LF \<notin> set l \<Longrightarrow> body_lines (l @ LF # rest) = trim_end (l @ [LF]) # body_lines rest"
  by (simp add: body_lines_def split_on_append)

lemma body_events_tail: "LF \<notin> set s \<Longrightarrow> body_inits jl s = [] \<and> body_chunks jl s = []"
  by (simp add: body_inits_def body_chunks_def body_lines_tail map_filter_simps)

lemma body_events_line:
  assumes "LF \<notin> set l"
  shows "body_inits jl (l @ LF # rest) = option_list (line_init jl (trim_end (l @ [LF]))) @ body_inits jl rest"
    and "body_chunks jl (l @ LF # rest) = option_list (line_chunk jl (trim_end (l @ [LF]))) @ body_chunks jl rest"
  using assms
  by (simp_all add: body_inits_def body_chunks_def body_lines_line map_filter_simps option_list_def split: option.split)

text \<open>
  The texts are what the chunks open to, one for one, under the key of the only init, derived with the secret of
  this request; without a key there is nothing.
\<close>

definition opened_chunks :: "('sk, 'k) e2e_lib \<Rightarrow> 'sk \<Rightarrow> 'k option \<Rightarrow> string list \<Rightarrow> string list \<Rightarrow> string list \<Rightarrow> bool" where
  "opened_chunks lib rk k inits chunks texts =
     (case k of
        None \<Rightarrow> inits = [] \<and> chunks = [] \<and> texts = []
      | Some key \<Rightarrow> \<exists>init. inits = [init] \<and> stream_key lib rk init = Ok key
          \<and> map (decrypt_chunk lib key) chunks = map Ok texts)"

lemma relay_event_Ok:
  assumes "relay_event lib jl line sd out = Ok (sd', out')"
  obtains "(sd', out') = (sd, out)" and "line_init jl line = None" and "line_chunk jl line = None"
  | init key where "line_init jl line = Some init" and "line_chunk jl line = None" and "sd_stream_key sd = None"
      and "stream_key lib (sd_response_key sd) init = Ok key" and "sd' = sd\<lparr>sd_stream_key := Some key\<rparr>" and "out' = out"
  | key chunk t where "line_init jl line = None" and "line_chunk jl line = Some chunk" and "sd_stream_key sd = Some key"
      and "decrypt_chunk lib key chunk = Ok t" and "release_lines jl (lines t) sd out = Ok (sd', out')"
  using assms
  by (auto simp: relay_event_def Let_def result_simps line_init_def line_chunk_def event_of_def
      split: option.splits if_splits sum.splits json.splits)

text \<open>Two decryptors that differ at most in their stream key and buffer.\<close>

definition same_core :: "('sk, 'k) StreamDecryptor \<Rightarrow> ('sk, 'k) StreamDecryptor \<Rightarrow> bool" where
  "same_core sd s0 \<longleftrightarrow> sd_response_key sd = sd_response_key s0 \<and> sd_model sd = sd_model s0
     \<and> usage_seen sd = usage_seen s0 \<and> held_usage sd = held_usage s0 \<and> sd_done sd = sd_done s0"

lemma same_core_eq: "same_core sd s0 \<Longrightarrow> sd = s0\<lparr>sd_stream_key := sd_stream_key sd, pending := pending sd\<rparr>"
  by (cases sd; cases s0) (simp add: same_core_def)

definition authentic :: "('sk, 'k) e2e_lib \<Rightarrow> json_lib \<Rightarrow> 'sk \<Rightarrow> string \<Rightarrow> string list \<Rightarrow> string list \<Rightarrow> string list
    \<Rightarrow> ('sk, 'k) StreamDecryptor \<Rightarrow> string \<Rightarrow> bool" where
  "authentic lib jl rk m inits chunks texts sd out \<longleftrightarrow> sd_response_key sd = rk
     \<and> opened_chunks lib rk (sd_stream_key sd) inits chunks texts
     \<and> (\<exists>s0. release_lines jl (concat (map lines texts)) (StreamDecryptor_new rk m) [] = Ok (s0, out)
          \<and> same_core sd s0)"

lemma authentic_init: "authentic lib jl rk m [] [] [] (StreamDecryptor_new rk m) []"
  by (simp add: authentic_def opened_chunks_def StreamDecryptor_new_def same_core_def)

lemma authentic_key:
  assumes "authentic lib jl rk m inits chunks texts sd out" and "sd_stream_key sd = None" and "stream_key lib rk init = Ok key"
  shows "authentic lib jl rk m (inits @ [init]) chunks texts (sd\<lparr>sd_stream_key := Some key\<rparr>) out"
  using assms by (auto simp: authentic_def opened_chunks_def same_core_def)

lemma authentic_pending:
  "authentic lib jl rk m inits chunks texts sd out \<Longrightarrow> authentic lib jl rk m inits chunks texts (sd\<lparr>pending := p\<rparr>) out"
  by (auto simp: authentic_def same_core_def)

lemma release_lines_fixed:
  assumes "release_lines jl ls sd out = Ok (sd', out')"
  shows "sd_response_key sd' = sd_response_key sd" and "pending sd' = pending sd"
  using assms
  by (induction jl ls sd out rule: release_lines.induct)
    (auto simp: release_def check_chunk_def Let_def result_simps split: option.splits if_splits bool.splits)

lemma authentic_text:
  assumes "authentic lib jl rk m inits chunks texts sd out" and "sd_stream_key sd = Some key"
    and "decrypt_chunk lib key chunk = Ok t" and "release_lines jl (lines t) sd out = Ok (sd', out')"
  shows "authentic lib jl rk m inits (chunks @ [chunk]) (texts @ [t]) sd' out'"
proof -
  from assms(1) obtain s0 where s0: "sd_response_key sd = rk"
    "release_lines jl (concat (map lines texts)) (StreamDecryptor_new rk m) [] = Ok (s0, out)"
    "same_core sd s0"
    unfolding authentic_def by blast
  have "release_lines jl (lines t) sd ([] @ out) =
      map_r (moved (sd_stream_key sd) (pending sd) []) (release_lines jl (lines t) s0 out)"
    by (subst same_core_eq [OF s0(3)]) (rule release_lines_moved)
  then obtain r where r: "release_lines jl (lines t) s0 out = Ok r"
    "(sd', out') = moved (sd_stream_key sd) (pending sd) [] r"
    using assms(4) by (cases "release_lines jl (lines t) s0 out") simp_all
  obtain s1 o1 where "r = (s1, o1)" by fastforce
  with r have s1: "release_lines jl (lines t) s0 out = Ok (s1, out')" "same_core sd' s1"
    by (simp_all add: moved_def same_core_def)
  have fixed: "sd_stream_key sd' = sd_stream_key sd" "sd_response_key sd' = rk"
    using release_lines_key [OF assms(4)] release_lines_fixed [OF assms(4)] s0(1) by simp_all
  have run: "release_lines jl (concat (map lines (texts @ [t]))) (StreamDecryptor_new rk m) [] = Ok (s1, out')"
    using s0(2) s1(1) by (simp add: release_lines_append)
  have "opened_chunks lib rk (sd_stream_key sd') inits (chunks @ [chunk]) (texts @ [t])"
    using assms(1-3) fixed(1) by (auto simp: authentic_def opened_chunks_def)
  with run s1(2) fixed(2) show ?thesis
    unfolding authentic_def by (intro conjI exI [of _ s1])
qed

lemma authentic_relay:
  assumes "authentic lib jl rk m inits chunks texts sd out" and "relay_event lib jl line sd out = Ok (sd', out')"
  shows "\<exists>texts'. authentic lib jl rk m (inits @ option_list (line_init jl line)) (chunks @ option_list (line_chunk jl line))
    texts' sd' out'"
proof -
  have rk: "sd_response_key sd = rk" using assms(1) by (simp add: authentic_def)
  from assms(2) show ?thesis
  proof (cases rule: relay_event_Ok)
    case 1
    with assms(1) show ?thesis by (auto simp: option_list_def)
  next
    case (2 init key)
    with authentic_key [OF assms(1)] show ?thesis by (auto simp: rk option_list_def)
  next
    case (3 key chunk t)
    from authentic_text [OF assms(1) 3(3-5)] show ?thesis unfolding 3(1,2) by auto
  qed
qed

lemma authentic_drain:
  assumes "authentic lib jl rk m inits chunks texts sd out" and "drain_lines lib jl buf sd out = Ok (sd', out')"
  shows "\<exists>texts'. authentic lib jl rk m (inits @ body_inits jl buf) (chunks @ body_chunks jl buf) texts' sd' out'"
  using assms
proof (induction buf arbitrary: inits chunks texts sd out rule: line_induct)
  case (tail s)
  then show ?case by (auto simp: drain_lines_tail body_events_tail intro: authentic_pending)
next
  case (line l rest)
  from line.prems(2) line.hyps obtain s1 o1 where s1:
    "relay_event lib jl (trim_end (l @ [LF])) sd out = Ok (s1, o1)"
    "drain_lines lib jl rest s1 o1 = Ok (sd', out')"
    by (auto simp: drain_lines_line result_simps)
  from authentic_relay [OF line.prems(1) s1(1)] obtain texts1 where
    "authentic lib jl rk m (inits @ option_list (line_init jl (trim_end (l @ [LF]))))
       (chunks @ option_list (line_chunk jl (trim_end (l @ [LF])))) texts1 s1 o1" ..
  from line.IH [OF this s1(2)] show ?case by (simp add: body_events_line line.hyps)
qed

subsection \<open>What the caller is billed on\<close>

definition model_agrees :: "string \<Rightarrow> json \<Rightarrow> bool" where
  "model_agrees m v = is_none_or (\<lambda>x. as_str x = Some m) (json_get ''model'' v)"

text \<open>A content-free frame of the model whose usage can be billed, with its total.\<close>

definition terminal_frame :: "json_lib \<Rightarrow> string \<Rightarrow> string \<Rightarrow> u64 \<Rightarrow> bool" where
  "terminal_frame jl m data tot \<longleftrightarrow>
     (\<exists>chunk u. from_str jl data = Ok chunk \<and> content_free chunk \<and> chunk_usage chunk = Some u
        \<and> require_billable u = Ok () \<and> model_agrees m chunk \<and> usage_total u = tot)"

text \<open>The events of the output: a content chunk, or the held usage frame with the \<^verbatim>\<open>[DONE]\<close>.\<close>

datatype released = Content json | Completion string

fun released_bytes :: "json_lib \<Rightarrow> released \<Rightarrow> string" where
  "released_bytes jl (Content v) = emit (json_text jl v)"
| "released_bytes jl (Completion u) = emit u @ emit ''[DONE]''"

fun released_ok :: "json_lib \<Rightarrow> string \<Rightarrow> released \<Rightarrow> bool" where
  "released_ok jl m (Content v) = (json_get ''usage'' v = None \<and> model_agrees m v)"
| "released_ok jl m (Completion u) = (\<exists>tot. terminal_frame jl m u tot)"

text \<open>The cumulative totals that a list of inner lines shows, in order.\<close>

definition observed_total :: "json_lib \<Rightarrow> string \<Rightarrow> u64 option" where
  "observed_total jl l =
     (case strip_prefix ''data:'' (trim_end l) of
        None \<Rightarrow> None
      | Some rest \<Rightarrow>
          if trim_start rest = ''[DONE]'' then None
          else (case from_str jl (trim_start rest) of
                  Err _ \<Rightarrow> None
                | Ok chunk \<Rightarrow> map_option usage_total (chunk_usage chunk)))"

definition observed :: "json_lib \<Rightarrow> string list \<Rightarrow> u64 list" where
  "observed jl ls = concat (map (option_list \<circ> observed_total jl) ls)"

lemma check_chunk_Ok:
  "check_chunk jl chunk sd = Ok sd' \<longleftrightarrow> model_agrees (sd_model sd) chunk
     \<and> (case chunk_usage chunk of None \<Rightarrow> sd' = sd
        | Some u \<Rightarrow> usage_seen sd \<le> usage_total u \<and> sd' = sd\<lparr>usage_seen := usage_total u\<rparr>)"
  by (auto simp: check_chunk_def model_agrees_def Let_def result_simps split: option.splits)

lemma without_usage_get:
  "json_get ''usage'' (without_usage v) = None" "json_get ''model'' (without_usage v) = json_get ''model'' v"
  by (cases v; simp add: json_get_def without_usage_def map_simps)+

definition billed :: "json_lib \<Rightarrow> string \<Rightarrow> released list \<Rightarrow> ('sk, 'k) StreamDecryptor \<Rightarrow> bool" where
  "billed jl m items sd \<longleftrightarrow> sd_model sd = m \<and> list_all (released_ok jl m) items
     \<and> (sd_done sd \<longleftrightarrow> (\<exists>u. Completion u \<in> set items))
     \<and> (\<forall>u. held_usage sd = Some u \<longrightarrow> terminal_frame jl m u (usage_seen sd))"

lemma release_cases:
  assumes "release jl (trim_end l) sd out = Ok (sd', out')"
  obtains "sd' = sd" "out' = out" "observed_total jl l = None"
  | u where "held_usage sd = Some u" "sd' = sd\<lparr>held_usage := None, sd_done := True\<rparr>"
      "out' = out @ released_bytes jl (Completion u)" "observed_total jl l = None"
  | data tot where "terminal_frame jl (sd_model sd) data tot" "usage_seen sd \<le> tot" "out' = out"
      "sd' = sd\<lparr>usage_seen := tot, held_usage := Some data\<rparr>" "observed_total jl l = Some tot"
  | v tot where "released_ok jl (sd_model sd) (Content v)" "out' = out @ released_bytes jl (Content v)"
      "sd' = sd\<lparr>usage_seen := tot, held_usage := None\<rparr>" "usage_seen sd \<le> tot"
      "observed_total jl l = Some tot \<or> observed_total jl l = None \<and> tot = usage_seen sd"
proof (cases "strip_prefix ''data:'' (trim_end l)")
  case None
  with assms that(1) show ?thesis by (auto simp: release_def observed_total_def)
next
  case (Some rest)
  show ?thesis
  proof (cases "trim_start rest = ''[DONE]''")
    case True
    with assms Some that(2) show ?thesis by (auto simp: release_def observed_total_def result_simps)
  next
    case False
    with assms Some obtain chunk where chunk: "from_str jl (trim_start rest) = Ok chunk"
      by (cases "from_str jl (trim_start rest)") (auto simp: release_def)
    have obs: "observed_total jl l = map_option usage_total (chunk_usage chunk)"
      using Some False chunk by (auto simp: observed_total_def)
    show ?thesis
    proof (cases "content_free chunk \<and> chunk_usage chunk \<noteq> None")
      case True
      then obtain u where u: "chunk_usage chunk = Some u" "content_free chunk" by auto
      with assms Some False chunk have "require_billable u = Ok ()" "usage_seen sd \<le> usage_total u"
        "model_agrees (sd_model sd) chunk" "out' = out"
        "sd' = sd\<lparr>usage_seen := usage_total u, held_usage := Some (trim_start rest)\<rparr>"
        by (auto simp: release_def result_simps check_chunk_Ok)
      with u chunk obs that(3) [of "trim_start rest" "usage_total u"] show ?thesis
        by (auto simp: terminal_frame_def)
    next
      case False
      define tot where "tot = (case chunk_usage chunk of None \<Rightarrow> usage_seen sd | Some u \<Rightarrow> usage_total u)"
      from False assms Some \<open>trim_start rest \<noteq> ''[DONE]''\<close> chunk
      have "model_agrees (sd_model sd) chunk" "out' = out @ emit (json_text jl (without_usage chunk))"
        "sd' = sd\<lparr>usage_seen := tot, held_usage := None\<rparr>" "usage_seen sd \<le> tot"
        by (auto simp: release_def result_simps check_chunk_Ok tot_def split: option.splits bool.splits)
      moreover have "released_ok jl (sd_model sd) (Content (without_usage chunk))"
        using calculation(1) by (simp add: without_usage_get model_agrees_def)
      moreover have "observed_total jl l = Some tot \<or> observed_total jl l = None \<and> tot = usage_seen sd
         "
        using obs by (auto simp: tot_def split: option.splits)
      ultimately show ?thesis using that(4) by simp
    qed
  qed
qed

lemma billed_release:
  assumes "billed jl m items sd" and "release jl (trim_end l) sd out = Ok (sd', out')"
  shows "\<exists>new. out' = out @ concat (map (released_bytes jl) new) \<and> billed jl m (items @ new) sd'"
  using assms(2)
proof (cases jl l sd out sd' out' rule: release_cases)
  case 1
  with assms(1) show ?thesis by (intro exI [of _ "[]"]) simp
next
  case (2 u)
  with assms(1) show ?thesis by (intro exI [of _ "[Completion u]"]) (auto simp: billed_def)
next
  case (3 data tot)
  with assms(1) show ?thesis by (intro exI [of _ "[]"]) (auto simp: billed_def)
next
  case (4 v tot)
  with assms(1) show ?thesis by (intro exI [of _ "[Content v]"]) (auto simp: billed_def)
qed

lemma billed_release_lines:
  assumes "billed jl m items sd" and "release_lines jl ls sd out = Ok (sd', out')"
  shows "\<exists>new. out' = out @ concat (map (released_bytes jl) new) \<and> billed jl m (items @ new) sd'"
  using assms
proof (induction ls arbitrary: items sd out)
  case (Cons l ls)
  from Cons.prems(2) obtain s1 o1 where s1: "release jl (trim_end l) sd out = Ok (s1, o1)"
    "release_lines jl ls s1 o1 = Ok (sd', out')"
    by (auto simp: result_simps)
  from billed_release [OF Cons.prems(1) s1(1)] obtain n1 where n1:
    "o1 = out @ concat (map (released_bytes jl) n1)" "billed jl m (items @ n1) s1"
    by blast
  from Cons.IH [OF n1(2) s1(2)] obtain n2 where
    "out' = o1 @ concat (map (released_bytes jl) n2)" "billed jl m ((items @ n1) @ n2) sd'"
    by blast
  with n1(1) show ?case by (intro exI [of _ "n1 @ n2"]) simp
qed (auto intro!: exI [of _ "[]"])

lemma observed_step:
  assumes "release jl (trim_end l) sd out = Ok (sd', out')"
  shows "usage_seen sd \<le> usage_seen sd'"
    and "case observed_total jl l of None \<Rightarrow> usage_seen sd' = usage_seen sd | Some t \<Rightarrow> usage_seen sd' = t"
  using assms by (cases jl l sd out sd' out' rule: release_cases; auto)+

lemma observed_sorted:
  "release_lines jl ls sd out = Ok (sd', out') \<Longrightarrow>
     sorted (usage_seen sd # observed jl ls) \<and> usage_seen sd' = last (usage_seen sd # observed jl ls)"
proof (induction ls arbitrary: sd out)
  case Nil
  then show ?case by (simp add: observed_def)
next
  case (Cons l ls)
  then obtain s1 o1 where s1: "release jl (trim_end l) sd out = Ok (s1, o1)"
    "release_lines jl ls s1 o1 = Ok (sd', out')"
    by (auto simp: result_simps)
  note IH = Cons.IH [OF s1(2)]
  have obs: "observed jl (l # ls) = option_list (observed_total jl l) @ observed jl ls"
    by (simp add: observed_def)
  from observed_step [OF s1(1)] IH show ?case
    by (cases "observed_total jl l") (auto simp: obs dest: order_trans)
qed

section \<open>Properties\<close>

text \<open>
  C26: What a stream releases does not depend on how the network cuts it: feeding the pieces of a body
  yields an output exactly when one pass over the lines of the whole body yields it and no
  prefix of the pieces leaves an unfinished line of more than 8 MiB.
\<close>

theorem stream_chunking_exact:
  "feed_all lib jl cs (StreamDecryptor_new rk m) = Ok (sd, out) \<longleftrightarrow>
     drain_lines lib jl (concat cs) (StreamDecryptor_new rk m) [] = Ok (sd, out)
     \<and> (\<forall>n. length (unfinished (concat (take n cs))) \<le> MAX_LINE_BYTES)"
  using feed_all_eq_Ok [of "StreamDecryptor_new rk m" lib jl cs sd out]
  by (simp add: StreamDecryptor_new_def stream_simps)

lemma fed_authentic:
  assumes "feed_all lib jl cs (StreamDecryptor_new rk m) = Ok (sd, out)"
  obtains texts where "authentic lib jl rk m (body_inits jl (concat cs)) (body_chunks jl (concat cs)) texts sd out"
proof -
  from assms feed_all_eq_Ok [of "StreamDecryptor_new rk m" lib jl cs sd out]
  have "drain_lines lib jl (concat cs) (StreamDecryptor_new rk m) [] = Ok (sd, out)"
    by (simp add: StreamDecryptor_new_def stream_simps)
  from authentic_drain [OF authentic_init this] that show ?thesis by auto
qed

text \<open>
  C27: Only this response's sealed content is forwarded, whole and in order: the output is what releasing, one after
  the other, the texts of the body's own encrypted chunks yields, each opened under the key its single init event
  derives with this request's secret, and the cumulative usage totals in those texts never fall. Plaintext relay
  events contribute nothing.
\<close>

theorem stream_releases_authentic:
  assumes "feed_all lib jl cs (StreamDecryptor_new rk m) = Ok (sd, out)"
  shows "\<exists>texts s0. opened_chunks lib rk (sd_stream_key sd) (body_inits jl (concat cs)) (body_chunks jl (concat cs)) texts
     \<and> release_lines jl (concat (map lines texts)) (StreamDecryptor_new rk m) [] = Ok (s0, out)
     \<and> same_core sd s0 \<and> sorted (observed jl (concat (map lines texts)))"
proof -
  from fed_authentic [OF assms] obtain texts where
    texts: "authentic lib jl rk m (body_inits jl (concat cs)) (body_chunks jl (concat cs)) texts sd out" .
  then obtain s0 where s0: "release_lines jl (concat (map lines texts)) (StreamDecryptor_new rk m) [] = Ok (s0, out)"
    "same_core sd s0"
    unfolding authentic_def by blast
  with observed_sorted [OF s0(1)] texts show ?thesis
    unfolding authentic_def by (intro exI [of _ texts] exI [of _ s0]) simp
qed

lemma fed_billed:
  assumes "feed_all lib jl cs (StreamDecryptor_new rk m) = Ok (sd, out)"
  shows "\<exists>items. out = concat (map (released_bytes jl) items) \<and> list_all (released_ok jl m) items
     \<and> (finish_stream sd = Ok () \<longleftrightarrow> (\<exists>u. Completion u \<in> set items))"
proof -
  from fed_authentic [OF assms] obtain texts where
    "authentic lib jl rk m (body_inits jl (concat cs)) (body_chunks jl (concat cs)) texts sd out" .
  then obtain s0 where s0: "release_lines jl (concat (map lines texts)) (StreamDecryptor_new rk m) [] = Ok (s0, out)"
    "same_core sd s0"
    unfolding authentic_def by blast
  have "billed jl m [] (StreamDecryptor_new rk m)"
    by (simp add: billed_def StreamDecryptor_new_def)
  from billed_release_lines [OF this s0(1)] obtain items where
    "out = concat (map (released_bytes jl) items)" "billed jl m items s0"
    by auto
  with s0(2) show ?thesis
    by (intro exI [of _ items]) (simp add: billed_def same_core_def finish_stream_def ensure_eq_Ok)
qed

text \<open>
  A stream that ends well has been billed: its output is a sequence of content chunks of the requested
  model without usage, and of content-free usage frames of that model with billable counts, each
  directly followed by \<^verbatim>\<open>[DONE]\<close>; the stream finishes without error exactly when there is such a frame.
\<close>

theorem stream_billed:
  assumes "feed_all lib jl cs (StreamDecryptor_new rk m) = Ok (sd, out)"
  shows "\<exists>items. out = concat (map (released_bytes jl) items) \<and> list_all (released_ok jl m) items
     \<and> (finish_stream sd = Ok () \<longleftrightarrow> (\<exists>u. Completion u \<in> set items))"
  using assms by (rule fed_billed)

text \<open>
  The guard against an encrypted chunk after \<^verbatim>\<open>[DONE]\<close> looks at a sealed text as a whole, before its lines are
  released: content that follows \<^verbatim>\<open>[DONE]\<close> in the same sealed text is still emitted.
\<close>

lemma released_after_done:
  assumes "held_usage sd = Some u" and "from_str jl data = Ok chunk" and "chunk_usage chunk = None"
    and "json_get ''model'' chunk = None" and "data \<noteq> ''[DONE]''" and "trim_start data = data"
    and "trim_end ''data:[DONE]'' = ''data:[DONE]''" and "trim_end (''data:'' @ data) = ''data:'' @ data"
    and "trim_start ''[DONE]'' = ''[DONE]''"
  shows "release_lines jl [''data:[DONE]'', ''data:'' @ data] sd out =
    Ok (sd\<lparr>held_usage := None, sd_done := True\<rparr>, out @ emit u @ emit ''[DONE]'' @ emit (json_text jl (without_usage chunk)))"
  using assms by (simp add: release_def strip_prefix_def check_chunk_def chunk_usage_def)

section \<open>Witnesses\<close>

definition demo_usage :: json where
  "demo_usage = JObject [(''choices'', JArray []), (''usage'', JObject [(''prompt_tokens'', JNumber (PosInt 1)),
     (''completion_tokens'', JNumber (PosInt 2))])]"

definition demo_sealed :: "string \<Rightarrow> string" where
  "demo_sealed t = replicate NONCE_LEN (CHR ''n'') @ t @ replicate TAG_BYTES (CHR ''t'')"

definition demo_text :: string where
  "demo_text = ''data: u'' @ [LF] @ ''data: [DONE]''"

definition demo_json :: json_lib where
  "demo_json = \<lparr>from_str = (\<lambda>s. if s = ''i'' then Ok (JObject [(''e2e_init'', JString ''0123456789abcdef'')])
       else if s = ''c'' then Ok (JObject [(''e2e'', JString (demo_sealed demo_text))])
       else if s = ''u'' then Ok demo_usage else Err ''expected value''), json_text = (\<lambda>_. [])\<rparr>"

definition demo_body :: "string list" where
  "demo_body = [''data: i'' @ [LF] @ ''da'', ''ta: c'' @ [LF]]"

definition demo_end :: "(unit, unit) StreamDecryptor" where
  "demo_end = \<lparr>sd_response_key = (), sd_model = ''m'', sd_stream_key = Some (), pending = [],
     usage_seen = 3, held_usage = None, sd_done = True\<rparr>"

lemma demo_trims:
  "trim_end (''data: i'' @ [LF]) = ''data: i''" "trim_end (''data: c'' @ [LF]) = ''data: c''"
  "trim_end ''data: u'' = ''data: u''" "trim_end ''data: [DONE]'' = ''data: [DONE]''"
  "trim_start '' i'' = ''i''" "trim_start '' c'' = ''c''" "trim_start '' u'' = ''u''" "trim_start '' [DONE]'' = ''[DONE]''"
  "lines demo_text = [''data: u'', ''data: [DONE]'']" "utf8_valid demo_text"
  "utf8_valid (''data: i'' @ [LF])" "utf8_valid (''data: c'' @ [LF])"
  by code_simp+

lemma demo_relay_init:
  "relay_event demo_lib demo_json ''data: i'' (StreamDecryptor_new () ''m'') [] =
     Ok ((StreamDecryptor_new () ''m'')\<lparr>sd_stream_key := Some ()\<rparr>, [])"
  by (simp add: relay_event_def strip_prefix_def demo_trims demo_json_def StreamDecryptor_new_def
      stream_key_def derive_response_def derive_key_def demo_lib_def)

lemma demo_decrypt: "decrypt_chunk demo_lib () (demo_sealed demo_text) = Ok demo_text"
  by (simp add: decrypt_chunk_def open_sealed_def demo_lib_def demo_sealed_def demo_trims)

lemma demo_release:
  "release_lines demo_json [''data: u'', ''data: [DONE]''] ((StreamDecryptor_new () ''m'')\<lparr>sd_stream_key := Some ()\<rparr>) [] =
     Ok (demo_end, emit ''u'' @ emit ''[DONE]'')"
  by (simp add: release_def strip_prefix_def demo_trims demo_json_def demo_usage_def StreamDecryptor_new_def
      chunk_usage_def json_get_def content_free_def require_billable_def required_count_def usage_count_def
      check_chunk_def usage_total_def saturating_add64_def demo_end_def)

lemma demo_fed:
  "feed_all demo_lib demo_json demo_body (StreamDecryptor_new () ''m'') = Ok (demo_end, emit ''u'' @ emit ''[DONE]'')"
proof -
  let ?k = "(StreamDecryptor_new () ''m'')\<lparr>sd_stream_key := Some ()\<rparr>"
  have "relay_event demo_lib demo_json ''data: c'' ?k [] = Ok (demo_end, emit ''u'' @ emit ''[DONE]'')"
    using demo_release
    by (simp add: relay_event_def strip_prefix_def demo_trims demo_json_def StreamDecryptor_new_def
        demo_decrypt [unfolded demo_json_def])
  then have tail: "drain_lines demo_lib demo_json (''data: c'' @ LF # []) ?k [] = Ok (demo_end, emit ''u'' @ emit ''[DONE]'')"
    by (subst drain_lines_line) (simp_all only: demo_trims, simp_all add: drain_lines_tail demo_end_def)
  have whole: "concat demo_body = ''data: i'' @ LF # (''data: c'' @ LF # [])"
    by (simp add: demo_body_def)
  have "drain_lines demo_lib demo_json (concat demo_body) (StreamDecryptor_new () ''m'') [] =
      Ok (demo_end, emit ''u'' @ emit ''[DONE]'')"
    unfolding whole by (subst drain_lines_line) (simp_all only: demo_trims demo_relay_init, simp_all add: tail [simplified])
  moreover have "length (unfinished (concat (take n demo_body))) \<le> MAX_LINE_BYTES" for n
  proof -
    have "length (split_on LF s) \<noteq> 0 \<and> length (last (split_on LF s)) \<le> length s" for s
      by (induction s) (auto split: list.splits)
    then have "length (unfinished (concat (take n demo_body))) \<le> length (concat (take n demo_body))"
      by (simp add: unfinished_def)
    also have "\<dots> \<le> length (concat demo_body)"
      by (metis append_take_drop_id concat_append le_add1 length_append)
    also have "\<dots> \<le> MAX_LINE_BYTES"
      by (simp add: demo_body_def MAX_LINE_BYTES_def)
    finally show ?thesis .
  qed
  ultimately show ?thesis
    by (subst feed_all_eq_Ok) (simp_all add: StreamDecryptor_new_def stream_simps)
qed

theorem stream_releases_authentic_witness:
  "\<exists>texts s0. opened_chunks demo_lib () (sd_stream_key demo_end) (body_inits demo_json (concat demo_body))
        (body_chunks demo_json (concat demo_body)) texts
     \<and> release_lines demo_json (concat (map lines texts)) (StreamDecryptor_new () ''m'') [] =
         Ok (s0, emit ''u'' @ emit ''[DONE]'')
     \<and> same_core demo_end s0 \<and> sorted (observed demo_json (concat (map lines texts)))"
  by (rule stream_releases_authentic [OF demo_fed])

theorem stream_billed_witness:
  "\<exists>items. emit ''u'' @ emit ''[DONE]'' = concat (map (released_bytes demo_json) items)
     \<and> list_all (released_ok demo_json ''m'') items \<and> (\<exists>u. Completion u \<in> set items)"
  using stream_billed [OF demo_fed] by (simp add: finish_stream_def demo_end_def)

end
