(* ===== verification/Chutes_Forward.thy ===== *)
theory Chutes_Forward
  imports Chutes_Scopes Chutes_Stream Http_Messages
begin

text \<open>
  The loopback service of the Chutes transport (\<^verbatim>\<open>attestd/src/chutes_verify/forward.rs\<close>): a chat
  request is validated, encrypted to an admitted instance, offered to another instance when one
  is at capacity, and answered with what the instance authenticated.

  The network's answers, the randomness and what the shared admission state holds at each retry
  are the arguments of the loop, one \<open>turn\<close> per invocation; the invocations it sends are returned
  as a list beside its result. \<^verbatim>\<open>serde_json::from_slice\<close> reads as \<^verbatim>\<open>from_str\<close> does. The operator log and
  the error detail read for it are left out.
\<close>

named_theorems forward_simps

definition MAX_REQUEST_BYTES :: nat where "MAX_REQUEST_BYTES = 16 * 1024 * 1024"
definition MAX_INVOKE_INSTANCES :: nat where "MAX_INVOKE_INSTANCES = 3"
definition SELECTOR_HEADER :: string where "SELECTOR_HEADER = ''x-gm-upstream-model''"
definition CHAT_COMPLETIONS :: string where "CHAT_COMPLETIONS = ''/v1/chat/completions''"

section \<open>Libraries, requests, responses\<close>

record ('sk, 'k) forward_lib =
  e2e :: "('sk, 'k) e2e_lib"
  jlib :: json_lib
  header_str :: "string \<Rightarrow> string option"
  json_debug :: "json option \<Rightarrow> string"
  transport_error :: string

record chat_request =
  chat_method :: string
  chat_path :: string
  chat_headers :: header_map
  chat_body :: "source_item list"

record Prepared =
  prep_target :: ChutesTarget
  prep_key :: string
  payload :: "(string \<times> json) list"
  prep_stream :: bool

record Invocation =
  inv_chute :: string
  inv_ticket :: Ticket
  inv_stream :: bool
  inv_blob :: string

datatype stream_event = Sent string | Aborted string

datatype chat_body = Complete string | Events "stream_event list"

record chat_response =
  chat_status :: u16
  chat_type :: string
  chat_content :: chat_body

section \<open>Validating a request\<close>

definition stream_flag :: "(string \<times> json) list \<Rightarrow> ChutesError + bool" where
  "stream_flag fs =
     (case map_of fs ''stream'' of
        None \<Rightarrow> Ok False
      | Some JNull \<Rightarrow> Ok False
      | Some (JBool b) \<Rightarrow> Ok b
      | Some _ \<Rightarrow> Err (BadRequest ''stream must be a boolean''))"

definition with_stream_usage :: "(string \<times> json) list \<Rightarrow> ChutesError + (string \<times> json) list" where
  "with_stream_usage fs =
     (case (case map_of fs ''stream_options'' of None \<Rightarrow> JObject [] | Some opts \<Rightarrow> opts) of
        JObject opts \<Rightarrow> Ok (hm_insert ''stream_options'' (JObject (hm_insert ''include_usage'' (JBool True) opts)) fs)
      | _ \<Rightarrow> Err (BadRequest ''stream_options must be an object''))"

definition bearer_key :: "(string \<Rightarrow> string option) \<Rightarrow> header_map \<Rightarrow> string option" where
  "bearer_key to_str hs =
     filter_o (\<lambda>key. key \<noteq> []) (Option.bind (Option.bind (map_of hs ''authorization'') to_str) (strip_prefix ''Bearer ''))"

definition prepare :: "('sk, 'k) forward_lib \<Rightarrow> chat_request \<Rightarrow> ChutesError + Prepared" where
  "prepare L r =
     bind_r (ok_or (map_of (chat_headers r) SELECTOR_HEADER) (BadRequest (''missing '' @ SELECTOR_HEADER))) (\<lambda>v.
     bind_r (ok_or (header_str L v) (BadRequest (SELECTOR_HEADER @ '' is not ASCII''))) (\<lambda>selector.
     bind_r (ok_or (target_for_model selector) (BadRequest (selector @ '' is not a verified Chutes model''))) (\<lambda>target.
     bind_r (ensure (chat_method r = ''POST'' \<and> chat_path r = CHAT_COMPLETIONS)
       (BadRequest (target_model target @ '' is served only at POST '' @ CHAT_COMPLETIONS @ '', not '' @
          chat_method r @ '' '' @ chat_path r))) (\<lambda>_.
     bind_r (ok_or (bearer_key (header_str L) (chat_headers r)) MissingCredential) (\<lambda>api_key.
     let oversized = BadRequest (''request body exceeds '' @ nat_to_string MAX_REQUEST_BYTES @ '' bytes'') in
     bind_r (read_bounded oversized oversized MAX_REQUEST_BYTES (chat_body r) []) (\<lambda>bytes.
     bind_r (ok_or (object_of (from_str (jlib L) bytes)) (BadRequest ''request body is not a JSON object'')) (\<lambda>fs.
     bind_r (ensure (\<not> list_ex (starts_e2e \<circ> fst) fs) (BadRequest ''e2e_ fields are reserved for the transport'')) (\<lambda>_.
     bind_r (ensure (Option.bind (map_of fs ''model'') as_str = Some (target_model target))
           (BadRequest (''body model must equal the selector '' @ target_model target))) (\<lambda>_.
     bind_r (stream_flag fs) (\<lambda>stream.
     bind_r (if stream then with_stream_usage fs else Ok fs) (\<lambda>fs.
     Ok \<lparr>prep_target = target, prep_key = api_key, payload = fs, prep_stream = stream\<rparr>)))))))))))"

section \<open>Answering\<close>

definition with_content_type :: "chat_body \<Rightarrow> string \<Rightarrow> chat_response" where
  "with_content_type b content_type = \<lparr>chat_status = 200, chat_type = content_type, chat_content = b\<rparr>"

definition complete_response :: "('sk, 'k) forward_lib \<Rightarrow> source_item list \<Rightarrow> 'sk \<Rightarrow> string
    \<Rightarrow> ChutesError + chat_response" where
  "complete_response L source key m =
     bind_r (read_bounded (BadResponse (''read Chutes response: '' @ transport_error L))
       (BadResponse (''encrypted response exceeds '' @ nat_to_string MAX_PLAINTEXT_BYTES @ '' bytes''))
       MAX_PLAINTEXT_BYTES source []) (\<lambda>b.
     bind_r (map_err BadResponse (decrypt_response (e2e L) key b)) (\<lambda>bytes.
     bind_r (ok_or (object_of (from_str (jlib L) bytes)) (BadResponse ''decrypted response is not a JSON object'')) (\<lambda>completion.
     bind_r (ensure (Option.bind (map_of completion ''model'') as_str = Some m)
           (BadResponse (''decrypted response names model '' @ json_debug L (map_of completion ''model'') @
              '', expected '' @ m))) (\<lambda>_.
     Ok (with_content_type (Complete bytes) ''application/json'')))))"

text \<open>The unfolded body of a streamed answer: one event per non-empty output, ended by the first error.\<close>

fun stream_events :: "('sk, 'k) forward_lib \<Rightarrow> source_item list \<Rightarrow> ('sk, 'k) StreamDecryptor \<Rightarrow> stream_event list" where
  "stream_events L [] sd = (case finish_stream sd of Inl e \<Rightarrow> [Aborted e] | Inr _ \<Rightarrow> [])"
| "stream_events L (Broken # source) sd = [Aborted (''read Chutes stream: '' @ transport_error L)]"
| "stream_events L (Chunk bytes # source) sd =
     (case feed (e2e L) (jlib L) bytes sd of
        Inl e \<Rightarrow> [Aborted e]
      | Inr (sd', out) \<Rightarrow> (if out = [] then [] else [Sent out]) @ stream_events L source sd')"

definition stream_response :: "('sk, 'k) forward_lib \<Rightarrow> source_item list \<Rightarrow> 'sk \<Rightarrow> string \<Rightarrow> chat_response" where
  "stream_response L source key m =
     with_content_type (Events (stream_events L source (StreamDecryptor_new key m))) ''text/event-stream''"

section \<open>Invoking instances\<close>

text \<open>
  What one turn of the loop meets: the random bytes, the answer to the invocation, and, when a retry ticket
  is asked for, the scope's state and the ledger at that moment with the three clock readings
  (none when the scope is gone or stays busy).
\<close>

record turn =
  turn_entropy :: entropy
  turn_answer :: "ChutesError + http_response"
  turn_retry :: "(instant \<times> instant \<times> instant \<times> ChuteState \<times> NonceLedger) option"

definition retry_ticket :: "string \<Rightarrow> string list \<Rightarrow> turn \<Rightarrow> Ticket option" where
  "retry_ticket chute avoid t =
     (case turn_retry t of
        None \<Rightarrow> None
      | Some (t1, t2, t3, s, l) \<Rightarrow> fst (retry_take t1 t2 t3 chute avoid s l))"

definition is_success :: "u16 \<Rightarrow> bool" where
  "is_success code \<longleftrightarrow> 200 \<le> code \<and> code < 300"

function invoke_loop :: "('sk, 'k) forward_lib \<Rightarrow> (nat \<Rightarrow> turn) \<Rightarrow> Prepared \<Rightarrow> Ticket \<Rightarrow> string list
    \<Rightarrow> Invocation list \<times> (ChutesError + chat_response)" where
  "invoke_loop L env p ticket turned_away =
     (let t = env (length turned_away) in
      case encrypt_request (e2e L) (turn_entropy t) (ticket_pubkey ticket) (payload p) of
        Inl e \<Rightarrow> ([], Err (AttestationRejected e))
      | Inr encrypted \<Rightarrow>
          let call = \<lparr>inv_chute = chute_id (prep_target p), inv_ticket = ticket, inv_stream = prep_stream p,
                      inv_blob = blob encrypted\<rparr> in
          case turn_answer t of
            Inl e \<Rightarrow> ([call], Err e)
          | Inr r \<Rightarrow>
              if is_success (status_code r) then
                ([call],
                 if prep_stream p then Ok (stream_response L (response_body r) (response_key encrypted) (target_model (prep_target p)))
                 else complete_response L (response_body r) (response_key encrypted) (target_model (prep_target p)))
              else
                let failure = UpstreamStatus ''invoke'' (status_code r);
                    away = turned_away @ [ticket_instance ticket]
                in if status_code r \<noteq> 429 \<or> length away \<ge> MAX_INVOKE_INSTANCES then ([call], Err failure)
                   else (case retry_ticket (chute_id (prep_target p)) away t of
                           None \<Rightarrow> ([call], Err failure)
                         | Some other \<Rightarrow>
                             let (sent, result) = invoke_loop L env p other away in (call # sent, result)))"
  by pat_completeness auto
termination
  by (relation "measure (\<lambda>(L, env, p, ticket, turned_away). MAX_INVOKE_INSTANCES - length turned_away)") auto

declare invoke_loop.simps [simp del]

text \<open>\<^verbatim>\<open>try_forward\<close>: \<open>admission\<close> is what \<^verbatim>\<open>Admissions::ticket\<close> returns for a key and a chute.\<close>

definition try_forward :: "('sk, 'k) forward_lib \<Rightarrow> (string \<Rightarrow> string \<Rightarrow> ChutesError + Ticket) \<Rightarrow> (nat \<Rightarrow> turn) \<Rightarrow> chat_request
    \<Rightarrow> Invocation list \<times> (ChutesError + chat_response)" where
  "try_forward L admission env r =
     (case prepare L r of
        Inl e \<Rightarrow> ([], Err e)
      | Inr p \<Rightarrow>
          (case admission (prep_key p) (chute_id (prep_target p)) of
             Inl e \<Rightarrow> ([], Err e)
           | Inr ticket \<Rightarrow> invoke_loop L env p ticket []))"

definition forward :: "(u16 \<Rightarrow> string) \<Rightarrow> ('sk, 'k) forward_lib \<Rightarrow> (string \<Rightarrow> string \<Rightarrow> ChutesError + Ticket) \<Rightarrow> (nat \<Rightarrow> turn)
    \<Rightarrow> chat_request \<Rightarrow> Invocation list \<times> chat_response" where
  "forward show_status L admission env r =
     (let (sent, result) = try_forward L admission env r in
      (sent, case result of
         Inr response \<Rightarrow> response
       | Inl e \<Rightarrow> \<lparr>chat_status = fst (chutes_error_response show_status e), chat_type = ''application/json'',
                   chat_content = Complete (json_text (jlib L) (snd (chutes_error_response show_status e)))\<rparr>))"

section \<open>Laws\<close>

lemma take_loop_avoids:
  "take_loop chute avoid valid s l = (Ok (Some t), s', l') \<Longrightarrow> ticket_instance t \<notin> set avoid"
proof (induction chute avoid valid s l rule: take_loop.induct)
  case (1 chute avoid valid s l)
  from "1.prems" obtain i where i: "choose_instance (eligible s avoid) (pool s) = Some i"
    by (subst (asm) take_loop.simps) (auto split: option.splits)
  then have "eligible s avoid (pool s ! i)"
    using choose_Some by blast
  then have new: "instance_id (pool s ! i) \<notin> set avoid"
    by (simp add: eligible_def)
  note turn = "1.prems" [unfolded take_loop.simps [of chute avoid valid s l] Let_def i option.case]
  show ?case
  proof (cases "ledger_record (chute, last (nonces (pool s ! i))) valid l")
    case (Inl e)
    with turn show ?thesis by simp
  next
    case (Inr r)
    obtain fresh l1 where r: "r = (fresh, l1)" by fastforce
    show ?thesis
    proof (cases fresh)
      case True
      with turn Inr r new show ?thesis by auto
    next
      case False
      with turn Inr r "1.IH" [OF i refl refl refl Inr] show ?thesis by simp
    qed
  qed
qed

lemma retry_ticket_avoids: "retry_ticket chute avoid t = Some other \<Longrightarrow> ticket_instance other \<notin> set avoid"
  by (auto simp: retry_ticket_def retry_take_def take_ticket_def dest: take_loop_avoids
      split: option.splits prod.splits sum.splits)

text \<open>Every call of the loop: the invocations it sends and what it answers with.\<close>

definition invoked_with :: "('sk, 'k) forward_lib \<Rightarrow> (nat \<Rightarrow> turn) \<Rightarrow> Prepared \<Rightarrow> nat \<Rightarrow> Invocation \<Rightarrow> 'sk EncryptedRequest \<Rightarrow> bool" where
  "invoked_with L env p n call er \<longleftrightarrow>
     encrypt_request (e2e L) (turn_entropy (env n)) (ticket_pubkey (inv_ticket call)) (payload p) = Ok er
     \<and> call = \<lparr>inv_chute = chute_id (prep_target p), inv_ticket = inv_ticket call, inv_stream = prep_stream p, inv_blob = blob er\<rparr>"

lemma invoke_loop_cases:
  assumes "invoke_loop L env p ticket away = (sent, result)"
  obtains "sent = []" "\<exists>e. result = Err e"
  | er call where "invoked_with L env p (length away) call er" "inv_ticket call = ticket" "sent = [call]" "\<exists>e. result = Err e"
  | er call r where "invoked_with L env p (length away) call er" "inv_ticket call = ticket" "sent = [call]"
      "turn_answer (env (length away)) = Ok r" "is_success (status_code r)"
      "result = (if prep_stream p then Ok (stream_response L (response_body r) (response_key er) (target_model (prep_target p)))
         else complete_response L (response_body r) (response_key er) (target_model (prep_target p)))"
  | er call r other later where "invoked_with L env p (length away) call er" "inv_ticket call = ticket" "sent = call # later"
      "turn_answer (env (length away)) = Ok r" "status_code r = 429" "Suc (length away) < MAX_INVOKE_INSTANCES"
      "retry_ticket (chute_id (prep_target p)) (away @ [ticket_instance ticket]) (env (length away)) = Some other"
      "invoke_loop L env p other (away @ [ticket_instance ticket]) = (later, result)"
proof -
  let ?t = "env (length away)"
  let ?call = "\<lambda>er. \<lparr>inv_chute = chute_id (prep_target p), inv_ticket = ticket, inv_stream = prep_stream p, inv_blob = blob er\<rparr>"
  show ?thesis
  proof (cases "encrypt_request (e2e L) (turn_entropy ?t) (ticket_pubkey ticket) (payload p)")
    case (Inl e)
    with assms that(1) show ?thesis by (subst (asm) invoke_loop.simps) (auto simp: Let_def)
  next
    case (Inr er)
    then have call: "invoked_with L env p (length away) (?call er) er"
      by (simp add: invoked_with_def)
    show ?thesis
    proof (cases "turn_answer ?t")
      case (Inl e)
      with assms Inr that(2) [OF call] show ?thesis by (subst (asm) invoke_loop.simps) (auto simp: Let_def)
    next
      case r: (Inr r)
      show ?thesis
      proof (cases "is_success (status_code r)")
        case True
        with assms Inr r that(3) [OF call _ _ r True] show ?thesis
          by (subst (asm) invoke_loop.simps) (auto simp: Let_def)
      next
        case False
        note turn = assms [unfolded invoke_loop.simps [of L env p ticket away] Let_def Inr r sum.case if_not_P [OF False]]
        show ?thesis
        proof (cases "status_code r \<noteq> 429 \<or> length (away @ [ticket_instance ticket]) \<ge> MAX_INVOKE_INSTANCES")
          case True
          with turn that(2) [OF call] show ?thesis by auto
        next
          case more: False
          with turn that(2) [OF call] that(4) [OF call _ _ r] show ?thesis
            by (cases "retry_ticket (chute_id (prep_target p)) (away @ [ticket_instance ticket]) ?t")
              (auto split: prod.splits)
        qed
      qed
    qed
  qed
qed

text \<open>The whole run of the loop, call by call.\<close>

lemma invoke_loop_calls:
  assumes "invoke_loop L env p ticket away = (sent, result)" and "length away < MAX_INVOKE_INSTANCES"
  shows "length away + length sent \<le> MAX_INVOKE_INSTANCES
    \<and> set (map (ticket_instance \<circ> inv_ticket) (drop 1 sent)) \<inter> set away = {}
    \<and> (sent \<noteq> [] \<longrightarrow> inv_ticket (hd sent) = ticket)
    \<and> distinct (map (ticket_instance \<circ> inv_ticket) sent)
    \<and> (\<forall>i < length sent. \<exists>er. invoked_with L env p (length away + i) (sent ! i) er)
    \<and> (\<forall>i < length sent - 1. \<exists>r. turn_answer (env (length away + i)) = Ok r \<and> status_code r = 429)"
  using assms
proof (induction "MAX_INVOKE_INSTANCES - length away" arbitrary: away ticket sent rule: less_induct)
  case less
  from less.prems(1) show ?case
  proof (cases L env p ticket away sent result rule: invoke_loop_cases)
    case (4 er call r other later)
    let ?away = "away @ [ticket_instance ticket]"
    have later: "length ?away + length later \<le> MAX_INVOKE_INSTANCES
        \<and> set (map (ticket_instance \<circ> inv_ticket) (drop 1 later)) \<inter> set ?away = {}
        \<and> (later \<noteq> [] \<longrightarrow> inv_ticket (hd later) = other)
        \<and> distinct (map (ticket_instance \<circ> inv_ticket) later)
        \<and> (\<forall>i < length later. \<exists>er. invoked_with L env p (length ?away + i) (later ! i) er)
        \<and> (\<forall>i < length later - 1. \<exists>r. turn_answer (env (length ?away + i)) = Ok r \<and> status_code r = 429)"
      using less.prems(2) 4(6) by (intro less.hyps [OF _ 4(8)]) auto
    have new: "ticket_instance other \<notin> set ?away"
      using retry_ticket_avoids [OF 4(7)] .
    have all_new: "set (map (ticket_instance \<circ> inv_ticket) later) \<inter> set ?away = {}"
      using later new by (cases later) auto
    have "\<exists>er. invoked_with L env p (length away + i) (sent ! i) er" if "i < length sent" for i
      using that later 4(1,3) by (cases i) auto
    moreover have "\<exists>r. turn_answer (env (length away + i)) = Ok r \<and> status_code r = 429" if "i < length sent - 1" for i
      using that later 4(3-5) by (cases i) auto
    ultimately show ?thesis
      using 4(2,3) later all_new by auto
  qed (use less.prems(2) in auto)
qed

text \<open>Where a successful answer comes from.\<close>

definition answered_by :: "('sk, 'k) forward_lib \<Rightarrow> Prepared \<Rightarrow> 'sk EncryptedRequest \<Rightarrow> http_response \<Rightarrow> chat_response \<Rightarrow> bool" where
  "answered_by L p er r resp \<longleftrightarrow>
     (if prep_stream p
      then resp = stream_response L (response_body r) (response_key er) (target_model (prep_target p))
      else \<exists>cs bytes fs. response_body r = map Chunk cs
        \<and> decrypt_response (e2e L) (response_key er) (concat cs) = Ok bytes
        \<and> from_str (jlib L) bytes = Ok (JObject fs)
        \<and> Option.bind (map_of fs ''model'') as_str = Some (target_model (prep_target p))
        \<and> resp = \<lparr>chat_status = 200, chat_type = ''application/json'', chat_content = Complete bytes\<rparr>)"

lemma complete_response_Ok:
  "complete_response L source key m = Ok resp \<longleftrightarrow>
     (\<exists>cs bytes fs. source = map Chunk cs \<and> length (concat cs) \<le> MAX_PLAINTEXT_BYTES
        \<and> decrypt_response (e2e L) key (concat cs) = Ok bytes
        \<and> from_str (jlib L) bytes = Ok (JObject fs) \<and> Option.bind (map_of fs ''model'') as_str = Some m
        \<and> resp = \<lparr>chat_status = 200, chat_type = ''application/json'', chat_content = Complete bytes\<rparr>)"
  by (auto simp: complete_response_def with_content_type_def result_simps read_bounded_Ok)

lemma invoke_loop_answer:
  assumes "invoke_loop L env p ticket away = (sent, Ok resp)"
  shows "sent \<noteq> [] \<and> (\<exists>er r. invoked_with L env p (length away + length sent - 1) (last sent) er
     \<and> turn_answer (env (length away + length sent - 1)) = Ok r \<and> is_success (status_code r)
     \<and> answered_by L p er r resp)"
  using assms
proof (induction "MAX_INVOKE_INSTANCES - length away" arbitrary: away ticket sent rule: less_induct)
  case less
  from less.prems(1) show ?case
  proof (cases L env p ticket away sent "Ok resp :: ChutesError + chat_response" rule: invoke_loop_cases)
    case (3 er call r)
    then have "answered_by L p er r resp"
    proof (cases "prep_stream p")
      case False
      with 3(6) have "complete_response L (response_body r) (response_key er) (target_model (prep_target p)) = Ok resp"
        by simp
      with False show ?thesis by (auto simp: answered_by_def complete_response_Ok)
    qed (simp add: answered_by_def)
    with 3 show ?thesis by auto
  next
    case (4 er call r other later)
    have "later \<noteq> [] \<and> (\<exists>er r. invoked_with L env p (length (away @ [ticket_instance ticket]) + length later - 1) (last later) er
     \<and> turn_answer (env (length (away @ [ticket_instance ticket]) + length later - 1)) = Ok r \<and> is_success (status_code r)
     \<and> answered_by L p er r resp)"
      using 4(6) by (intro less.hyps [OF _ 4(8)]) auto
    with 4(3) show ?thesis by auto
  qed auto
qed

text \<open>The bytes of a streamed body.\<close>

fun sent_bytes :: "stream_event list \<Rightarrow> string" where
  "sent_bytes [] = []"
| "sent_bytes (Sent b # es) = b @ sent_bytes es"
| "sent_bytes (Aborted _ # es) = sent_bytes es"

fun aborted :: "stream_event list \<Rightarrow> bool" where
  "aborted [] = False"
| "aborted (Sent _ # es) = aborted es"
| "aborted (Aborted _ # es) = True"

lemma stream_events_fed:
  "\<exists>cs rest sd' out. source = map Chunk cs @ rest \<and> feed_all (e2e L) (jlib L) cs sd = Ok (sd', out)
     \<and> sent_bytes (stream_events L source sd) = out
     \<and> (\<not> aborted (stream_events L source sd) \<longrightarrow> rest = [] \<and> finish_stream sd' = Ok ())"
proof (induction L source sd rule: stream_events.induct)
  case (1 L sd)
  show ?case
    by (cases "finish_stream sd") (auto intro!: exI [of _ "[]"])
next
  case (2 L source sd)
  show ?case by (intro exI [of _ "[]"] exI [of _ "Broken # source"]) auto
next
  case (3 L bytes source sd)
  show ?case
  proof (cases "feed (e2e L) (jlib L) bytes sd")
    case (Inl e)
    then show ?thesis by (intro exI [of _ "[]"] exI [of _ "Chunk bytes # source"]) auto
  next
    case (Inr r)
    obtain s1 o1 where r: "r = (s1, o1)" by fastforce
    from "3.IH" [OF Inr r [symmetric]] obtain cs rest s2 o2 where
      "source = map Chunk cs @ rest" "feed_all (e2e L) (jlib L) cs s1 = Ok (s2, o2)"
      "sent_bytes (stream_events L source s1) = o2"
      "\<not> aborted (stream_events L source s1) \<longrightarrow> rest = [] \<and> finish_stream s2 = Ok ()"
      by blast
    with Inr r show ?thesis
      by (intro exI [of _ "bytes # cs"] exI [of _ rest] exI [of _ s2] exI [of _ "o1 @ o2"]) auto
  qed
qed

lemma fed_unaborted:
  assumes "feed_all (e2e L) (jlib L) cs sd = Ok (sd', out)" and "finish_stream sd' = Ok ()"
  shows "\<not> aborted (stream_events L (map Chunk cs) sd)"
  using assms by (induction cs arbitrary: sd out) (auto simp: result_simps split: prod.splits if_splits)

lemma stream_flag_Ok:
  "stream_flag fs = Ok b \<longleftrightarrow>
     (if b then map_of fs ''stream'' = Some (JBool True) else map_of fs ''stream'' \<in> {None, Some JNull, Some (JBool False)})"
  by (auto simp: stream_flag_def split: option.splits json.splits)

lemma with_stream_usage_Ok:
  "with_stream_usage fs = Ok fs' \<longleftrightarrow>
     (\<exists>opts. map_of fs ''stream_options'' \<in> {if opts = [] then None else Some (JObject opts), Some (JObject opts)}
        \<and> fs' = hm_insert ''stream_options'' (JObject (hm_insert ''include_usage'' (JBool True) opts)) fs)"
  by (auto simp: with_stream_usage_def split: option.splits json.splits)

section \<open>Properties\<close>

text \<open>
  C28: A request is served exactly when it selects a listed target, is a POST to the chat completions path
  with a non-empty bearer key, and carries at most 16 MiB of a JSON object that names the selected
  model, uses no reserved field and has a boolean (or null) stream flag; a streamed one must have
  an object for its stream options, to which the usage flag is added, and nothing else of the
  payload is changed.
\<close>

theorem prepare_exact:
  "prepare L r = Ok p \<longleftrightarrow>
     (\<exists>v cs fs opts.
        map_of (chat_headers r) SELECTOR_HEADER = Some v
      \<and> header_str L v = Some (target_model (prep_target p)) \<and> prep_target p \<in> set TARGETS
      \<and> chat_method r = ''POST'' \<and> chat_path r = CHAT_COMPLETIONS
      \<and> bearer_key (header_str L) (chat_headers r) = Some (prep_key p)
      \<and> chat_body r = map Chunk cs \<and> length (concat cs) \<le> MAX_REQUEST_BYTES
      \<and> from_str (jlib L) (concat cs) = Ok (JObject fs)
      \<and> \<not> list_ex (starts_e2e \<circ> fst) fs \<and> map_of fs ''model'' = Some (JString (target_model (prep_target p)))
      \<and> (if prep_stream p then map_of fs ''stream'' = Some (JBool True)
           \<and> map_of fs ''stream_options'' \<in> {if opts = [] then None else Some (JObject opts), Some (JObject opts)}
           \<and> payload p = hm_insert ''stream_options'' (JObject (hm_insert ''include_usage'' (JBool True) opts)) fs
         else map_of fs ''stream'' \<in> {None, Some JNull, Some (JBool False)} \<and> payload p = fs))"
proof -
  have target: "target_for_model m = Some t \<longleftrightarrow> m = target_model t \<and> t \<in> set TARGETS" for m t
  proof -
    have "distinct (map target_model TARGETS)" by (simp add: TARGETS_def)
    then have "find (\<lambda>t. target_model t = m) ts = Some t \<longleftrightarrow> m = target_model t \<and> t \<in> set ts"
      if "distinct (map target_model ts)" for ts
      using that by (induction ts) auto
    then show ?thesis by (simp add: target_for_model_def \<open>distinct (map target_model TARGETS)\<close>)
  qed
  have model: "Option.bind x as_str = Some m \<longleftrightarrow> x = Some (JString m)" for x m
    by (cases x) (auto simp: as_str_Some)
  have unit: "r = Ok u \<longleftrightarrow> r = Ok ()" for r :: "ChutesError + unit" and u by simp
  have steps: "prepare L r = Ok p \<longleftrightarrow>
     (\<exists>v. map_of (chat_headers r) SELECTOR_HEADER = Some v \<and>
     (\<exists>selector. header_str L v = Some selector \<and>
     (\<exists>t. target_for_model selector = Some t \<and> (chat_method r = ''POST'' \<and> chat_path r = CHAT_COMPLETIONS) \<and>
     (\<exists>k. bearer_key (header_str L) (chat_headers r) = Some k \<and>
     (\<exists>bytes. (\<exists>cs. chat_body r = map Chunk cs \<and> bytes = concat cs \<and> length bytes \<le> MAX_REQUEST_BYTES) \<and>
     (\<exists>fs. from_str (jlib L) bytes = Ok (JObject fs) \<and> \<not> list_ex (starts_e2e \<circ> fst) fs
        \<and> Option.bind (map_of fs ''model'') as_str = Some (target_model t) \<and>
     (\<exists>s. stream_flag fs = Ok s \<and>
     (\<exists>fs'. (if s then with_stream_usage fs else Ok fs) = Ok fs'
        \<and> \<lparr>prep_target = t, prep_key = k, payload = fs', prep_stream = s\<rparr> = p))))))))"
    unfolding prepare_def Let_def by (simp add: result_simps read_bounded_Ok)
  have parts: "\<lparr>prep_target = t, prep_key = k, payload = fs', prep_stream = s\<rparr> = p \<longleftrightarrow>
      t = prep_target p \<and> k = prep_key p \<and> fs' = payload p \<and> s = prep_stream p" for t k fs' s
    by (cases p) auto
  show ?thesis
    unfolding steps parts target model stream_flag_Ok
    by (cases "prep_stream p") (simp_all add: with_stream_usage_Ok, blast+)
qed

text \<open>
  C24: One request is offered to at most three instances, each at most once; each offer is the prepared
  payload encrypted to the key of that instance's ticket, and another offer is made only after the
  previous instance answered 429.
\<close>

theorem invocations_bounded:
  assumes "prepare L r = Ok p" and "try_forward L admission env r = (sent, result)"
  shows "length sent \<le> MAX_INVOKE_INSTANCES \<and> distinct (map (ticket_instance \<circ> inv_ticket) sent)
    \<and> (\<forall>i < length sent. \<exists>er. invoked_with L env p i (sent ! i) er)
    \<and> (\<forall>i < length sent - 1. \<exists>rsp. turn_answer (env i) = Ok rsp \<and> status_code rsp = 429)"
proof (cases "admission (prep_key p) (chute_id (prep_target p))")
  case (Inr ticket)
  with assms have "invoke_loop L env p ticket [] = (sent, result)"
    by (simp add: try_forward_def)
  from invoke_loop_calls [OF this] show ?thesis
    by (simp add: MAX_INVOKE_INSTANCES_def)
qed (use assms in \<open>simp add: try_forward_def\<close>)

text \<open>
  C23: A success is always what an instance authenticated: the request was valid and admitted, its last
  invocation was answered with success, and the answer is either the stream decrypted under that
  invocation's response key, or the decrypted completion, a JSON object naming the requested model.
\<close>

theorem forward_answer_authenticated:
  assumes "try_forward L admission env r = (sent, Ok resp)"
  shows "\<exists>p ticket er rsp. prepare L r = Ok p \<and> admission (prep_key p) (chute_id (prep_target p)) = Ok ticket
    \<and> sent \<noteq> [] \<and> invoked_with L env p (length sent - 1) (last sent) er
    \<and> turn_answer (env (length sent - 1)) = Ok rsp \<and> is_success (status_code rsp) \<and> answered_by L p er rsp resp"
proof -
  from assms obtain p ticket where "prepare L r = Ok p" "admission (prep_key p) (chute_id (prep_target p)) = Ok ticket"
    and loop: "invoke_loop L env p ticket [] = (sent, Ok resp)"
    by (auto simp: try_forward_def split: sum.splits)
  with invoke_loop_answer [OF loop] show ?thesis by auto
qed

text \<open>
  C25: A streamed body that ends without an abort is complete and billed: the network delivered all of it, its
  bytes are content chunks and billable usage frames each followed by \<^verbatim>\<open>[DONE]\<close>, and there is at
  least one such frame.
\<close>

theorem unaborted_stream_billed:
  assumes "\<not> aborted (stream_events L source (StreamDecryptor_new key m))"
  shows "\<exists>cs items u. source = map Chunk cs
    \<and> sent_bytes (stream_events L source (StreamDecryptor_new key m)) = concat (map (released_bytes (jlib L)) items)
    \<and> list_all (released_ok (jlib L) m) items \<and> Completion u \<in> set items"
proof -
  from stream_events_fed [of source L "StreamDecryptor_new key m"] assms obtain cs sd out where
    "source = map Chunk cs" "feed_all (e2e L) (jlib L) cs (StreamDecryptor_new key m) = Ok (sd, out)"
    "sent_bytes (stream_events L source (StreamDecryptor_new key m)) = out" "finish_stream sd = Ok ()"
    by auto
  with fed_billed [OF this(2)] show ?thesis by auto
qed

section \<open>Witnesses\<close>

definition demo_model :: string where "demo_model = ''zai-org/GLM-5.2-TEE''"
definition demo_kem :: string where "demo_kem = replicate MLKEM768_PUBLIC_KEY_BYTES (CHR ''k'')"

definition demo_forward :: "(unit, unit) forward_lib" where
  "demo_forward = \<lparr>e2e = demo_lib,
     jlib = \<lparr>from_str = (\<lambda>s. if s = ''b'' then Ok (JObject [(''model'', JString demo_model)]) else from_str demo_json s),
             json_text = (\<lambda>_. [])\<rparr>,
     header_str = Some, json_debug = (\<lambda>_. []), transport_error = ''reset''\<rparr>"

definition demo_chat :: chat_request where
  "demo_chat = \<lparr>chat_method = ''POST'', chat_path = CHAT_COMPLETIONS,
     chat_headers = [(SELECTOR_HEADER, demo_model), (''authorization'', ''Bearer cpk'')], chat_body = [Chunk ''b'']\<rparr>"

definition demo_ticket :: "string \<Rightarrow> string \<Rightarrow> Ticket" where
  "demo_ticket i n = \<lparr>ticket_instance = i, ticket_pubkey = demo_kem, nonce = n\<rparr>"

definition demo_other :: ChuteState where
  "demo_other = ChuteState_default\<lparr>pool := [\<lparr>instance_id = ''j'', e2e_pubkey = demo_kem, nonces = [''n2'']\<rparr>],
     issue_until := Some 50, valid_until := Some 70, admitted := [((''j'', demo_kem), 100)]\<rparr>"

definition demo_answer :: "u16 \<Rightarrow> string \<Rightarrow> http_response" where
  "demo_answer code b = \<lparr>status_code = code, response_headers = [], content_length = None, response_body = [Chunk b]\<rparr>"

definition demo_turns :: "nat \<Rightarrow> turn" where
  "demo_turns n = \<lparr>turn_entropy = demo_entropy,
     turn_answer = Ok (if n = 0 then demo_answer 429 [] else demo_answer 200 (demo_blob ''b'')),
     turn_retry = Some (10, 10, 10, demo_other, demo_ledger)\<rparr>"

definition demo_prepared :: Prepared where
  "demo_prepared = \<lparr>prep_target = \<lparr>target_model = demo_model, chute_id = ''08901219-159f-55a7-87cf-9d0d02744668''\<rparr>,
     prep_key = ''cpk'', payload = [(''model'', JString demo_model)], prep_stream = False\<rparr>"

definition demo_call :: "string \<Rightarrow> string \<Rightarrow> Invocation" where
  "demo_call i n = \<lparr>inv_chute = ''08901219-159f-55a7-87cf-9d0d02744668'', inv_ticket = demo_ticket i n,
     inv_stream = False, inv_blob = demo_blob ''{}''\<rparr>"

lemma demo_prepare: "prepare demo_forward demo_chat = Ok demo_prepared"
  by (simp add: prepare_def demo_forward_def demo_chat_def demo_prepared_def SELECTOR_HEADER_def CHAT_COMPLETIONS_def
      target_for_model_def TARGETS_def demo_model_def bearer_key_def strip_prefix_def MAX_REQUEST_BYTES_def
      object_of_def starts_e2e_def stream_flag_def)

lemma demo_encrypt:
  "encrypt_request demo_lib demo_entropy demo_kem [(''model'', JString demo_model)] =
     Ok \<lparr>blob = demo_blob ''{}'', response_key = ()\<rparr>"
  by (simp add: encrypt_request_def demo_lib_def demo_entropy_def demo_blob_def decode_public_key_def gzip_def
      derive_key_def seal_def demo_kem_def starts_e2e_def) (simp add: MLKEM768_CIPHERTEXT_BYTES_def)

lemma demo_decrypts: "decrypt_response demo_lib () (demo_blob ''b'') = Ok ''b''"
  by (simp add: decrypt_response_def demo_blob_def derive_response_def derive_key_def open_sealed_def gunzip_def demo_lib_def)
    (simp add: MLKEM768_CIPHERTEXT_BYTES_def MAX_PLAINTEXT_BYTES_def)

lemma demo_retry: "retry_ticket ch [''i''] (demo_turns 0) = Some (demo_ticket ''j'' ''n2'')"
  by (simp add: retry_ticket_def demo_turns_def retry_take_def demo_other_def take_ticket_def
      ChuteState_default_def prune_def hm_retain_def take_loop.simps choose_instance_def eligible_def hm_contains_def
      Let_def ledger_record_def ledger_prune_def demo_ledger_def key_of_def demo_ticket_def)

lemma demo_selectors:
  "e2e demo_forward = demo_lib" "turn_entropy (demo_turns n) = demo_entropy"
  "turn_answer (demo_turns 0) = Ok (demo_answer 429 [])"
  "turn_answer (demo_turns (Suc n)) = Ok (demo_answer 200 (demo_blob ''b''))"
  "target_model (prep_target demo_prepared) = demo_model" "\<not> prep_stream demo_prepared"
  "payload demo_prepared = [(''model'', JString demo_model)]"
  "chute_id (prep_target demo_prepared) = ''08901219-159f-55a7-87cf-9d0d02744668''"
  "ticket_instance (demo_ticket i k) = i" "ticket_pubkey (demo_ticket i k) = demo_kem"
  "status_code (demo_answer code b) = code" "response_body (demo_answer code b) = [Chunk b]"
  by (simp_all add: demo_forward_def demo_turns_def demo_prepared_def demo_ticket_def demo_answer_def)

lemma demo_completes:
  "complete_response demo_forward [Chunk (demo_blob ''b'')] () demo_model =
     Ok \<lparr>chat_status = 200, chat_type = ''application/json'', chat_content = Complete ''b''\<rparr>"
proof -
  have "length (demo_blob ''b'') \<le> MAX_PLAINTEXT_BYTES"
    by (simp add: demo_blob_def MLKEM768_CIPHERTEXT_BYTES_def NONCE_LEN_def TAG_BYTES_def MAX_PLAINTEXT_BYTES_def)
  moreover have "from_str (jlib demo_forward) ''b'' = Ok (JObject [(''model'', JString demo_model)])"
    by (simp add: demo_forward_def)
  ultimately show ?thesis
    by (simp add: complete_response_def demo_selectors demo_decrypts object_of_def with_content_type_def)
qed

lemma demo_run:
  "try_forward demo_forward (\<lambda>_ _. Ok (demo_ticket ''i'' ''n1'')) demo_turns demo_chat =
     ([demo_call ''i'' ''n1'', demo_call ''j'' ''n2''],
      Ok \<lparr>chat_status = 200, chat_type = ''application/json'', chat_content = Complete ''b''\<rparr>)"
proof -
  have second: "invoke_loop demo_forward demo_turns demo_prepared (demo_ticket ''j'' ''n2'') [''i''] =
      ([demo_call ''j'' ''n2''], Ok \<lparr>chat_status = 200, chat_type = ''application/json'', chat_content = Complete ''b''\<rparr>)"
    by (subst invoke_loop.simps)
      (simp add: demo_selectors demo_encrypt demo_call_def demo_completes is_success_def Let_def)
  have "invoke_loop demo_forward demo_turns demo_prepared (demo_ticket ''i'' ''n1'') [] =
      ([demo_call ''i'' ''n1'', demo_call ''j'' ''n2''],
       Ok \<lparr>chat_status = 200, chat_type = ''application/json'', chat_content = Complete ''b''\<rparr>)"
    by (subst invoke_loop.simps)
      (simp add: demo_selectors demo_encrypt demo_retry second MAX_INVOKE_INSTANCES_def is_success_def Let_def demo_call_def)
  then show ?thesis by (simp add: try_forward_def demo_prepare)
qed

theorem invocations_bounded_witness:
  "length [demo_call ''i'' ''n1'', demo_call ''j'' ''n2''] \<le> MAX_INVOKE_INSTANCES
   \<and> distinct (map (ticket_instance \<circ> inv_ticket) [demo_call ''i'' ''n1'', demo_call ''j'' ''n2''])
   \<and> (\<exists>rsp. turn_answer (demo_turns 0) = Ok rsp \<and> status_code rsp = 429)"
  using invocations_bounded [OF demo_prepare demo_run] by simp

theorem forward_answer_authenticated_witness:
  "\<exists>p er rsp. prepare demo_forward demo_chat = Ok p
     \<and> turn_answer (demo_turns 1) = Ok rsp \<and> is_success (status_code rsp)
     \<and> answered_by demo_forward p er rsp
         \<lparr>chat_status = 200, chat_type = ''application/json'', chat_content = Complete ''b''\<rparr>"
  using forward_answer_authenticated [OF demo_run] by auto

theorem unaborted_stream_billed_witness:
  "\<exists>items u. sent_bytes (stream_events (demo_forward\<lparr>jlib := demo_json\<rparr>) (map Chunk demo_body) (StreamDecryptor_new () ''m''))
       = concat (map (released_bytes demo_json) items)
     \<and> list_all (released_ok demo_json ''m'') items \<and> Completion u \<in> set items"
proof -
  have "\<not> aborted (stream_events (demo_forward\<lparr>jlib := demo_json\<rparr>) (map Chunk demo_body) (StreamDecryptor_new () ''m''))"
    using demo_fed by (intro fed_unaborted) (auto simp: demo_selectors finish_stream_def demo_end_def)
  from unaborted_stream_billed [OF this] show ?thesis by auto
qed

end
