(* ===== verification/Chutes_Client.thy ===== *)
theory Chutes_Client
  imports Chutes_Evidence Chutes_Forward
begin

text \<open>
  The live Chutes API (\<^verbatim>\<open>attestd/src/chutes_verify/client.rs\<close>): how its answers become discoveries,
  verdicts and errors, and what an invocation sends.

  An answer of the network is \<open>anyhow + http_response\<close>. serde's decoder of an evidence response and the
  texts of discovery errors are parameters; logging is left out.
\<close>

definition API_ORIGIN :: string where "API_ORIGIN = ''https://api.chutes.ai''"
definition MAX_DISCOVERY_BYTES :: nat where "MAX_DISCOVERY_BYTES = 512 * 1024"
definition MAX_EVIDENCE_BYTES :: nat where "MAX_EVIDENCE_BYTES = 16 * 1024 * 1024"
definition DETAIL_READ_BYTES :: nat where "DETAIL_READ_BYTES = 4096"
definition BELOW_EVIDENCE_MINIMUM :: string where "BELOW_EVIDENCE_MINIMUM = ''chute version below the evidence minimum''"
definition DETAIL_WITHHELD :: string where "DETAIL_WITHHELD = ''upstream detail withheld''"

definition KNOWN_DETAILS :: "(string \<times> string) list" where
  "KNOWN_DETAILS = [
     (''Instances requires chutes_version >= 0.6.0'', BELOW_EVIDENCE_MINIMUM),
     (''Rate limit exceeded'', ''Chutes rate limit reached''),
     (''Chute not found'', ''chute not found''),
     (''No active instances found'', ''chute has no active instances''),
     (''No E2E-capable instances'', ''chute has no E2E-capable instances''),
     (''Instance is at maximum capacity'', ''instance at capacity''),
     (''Instance has no deployment_id'', ''instance not yet TEE-verified'')]"

section \<open>Error answers\<close>

text \<open>The loop of \<^verbatim>\<open>error_detail\<close>: at most 4096 bytes are kept, a read error ends it.\<close>

fun detail_body :: "source_item list \<Rightarrow> string \<Rightarrow> string" where
  "detail_body [] acc = acc"
| "detail_body (item # source) acc =
     (if length acc < DETAIL_READ_BYTES then
        (case item of
           Broken \<Rightarrow> acc
         | Chunk c \<Rightarrow> detail_body source (acc @ take (min (length c) (DETAIL_READ_BYTES - length acc)) c))
      else acc)"

definition describe_detail :: "tee_lib \<Rightarrow> string \<Rightarrow> string" where
  "describe_detail T b =
     (case Option.bind (case json_of T b of Inl _ \<Rightarrow> None | Inr v \<Rightarrow> get_string ''detail'' v)
             (\<lambda>d. map_option snd (find (\<lambda>(prefix, _). starts_with prefix d) KNOWN_DETAILS)) of
        Some description \<Rightarrow> description
      | None \<Rightarrow> DETAIL_WITHHELD)"

definition error_detail :: "tee_lib \<Rightarrow> http_response \<Rightarrow> string" where
  "error_detail T r = describe_detail T (detail_body (response_body r) [])"

definition upstream_error :: "string \<Rightarrow> u16 \<Rightarrow> string \<Rightarrow> ChutesError" where
  "upstream_error stage code detail =
     (if stage = ''evidence'' \<and> detail = BELOW_EVIDENCE_MINIMUM then BelowEvidenceMinimum
      else UpstreamStatus stage code)"

definition upstream_failure :: "tee_lib \<Rightarrow> string \<Rightarrow> http_response \<Rightarrow> ChutesError" where
  "upstream_failure T stage r =
     (if stage = ''evidence'' \<and> status_code r = 429 then RateLimited stage
      else upstream_error stage (status_code r) (error_detail T r))"

section \<open>Calls\<close>

definition chutes_get :: "tee_lib \<Rightarrow> anyhow \<Rightarrow> anyhow + http_response \<Rightarrow> string \<Rightarrow> nat \<Rightarrow> ChutesError + string" where
  "chutes_get T transport answer stage limit =
     bind_r (map_err (\<lambda>e. Unavailable (''reach Chutes '' @ stage @ '': '' @ e)) answer) (\<lambda>r.
     if \<not> is_success (status_code r) then Err (upstream_failure T stage r)
     else read_bounded (Unavailable (''read Chutes '' @ stage @ '': '' @ transport))
            (Unavailable (''read Chutes '' @ stage @ '': response exceeds '' @ nat_to_string limit @ '' bytes''))
            limit (response_body r) [])"

definition discover :: "('sk, 'k) e2e_lib \<Rightarrow> tee_lib \<Rightarrow> (string \<Rightarrow> Discovery option) \<Rightarrow> (discovery_error \<Rightarrow> string) \<Rightarrow> anyhow
    \<Rightarrow> anyhow + http_response \<Rightarrow> ChutesError + Discovery" where
  "discover lib T decode show_discovery transport answer =
     bind_r (chutes_get T transport answer ''discovery'' MAX_DISCOVERY_BYTES) (\<lambda>b.
     map_err (AttestationRejected \<circ> show_discovery)
       (Discovery_parse decode (\<lambda>key. validate_public_key lib key = Ok ()) b))"

text \<open>\<^verbatim>\<open>admit\<close>: the clocks it reads first, and what each admission meets, by its place in the list.\<close>

fun service_error :: "(u16 \<Rightarrow> string) \<Rightarrow> ChutesError \<Rightarrow> ChutesError" where
  "service_error show_status (UpstreamStatus stage code) = Unavailable (''Chutes '' @ stage @ '' answered '' @ show_status code)"
| "service_error show_status e = e"

definition verdict_of :: "tee_lib \<Rightarrow> (u16 \<Rightarrow> string) \<Rightarrow> anyhow + Entry list \<Rightarrow> instant \<Rightarrow> duration \<Rightarrow> EvidenceRow list
    \<Rightarrow> string \<Rightarrow> Jwks \<Rightarrow> admit_env \<Rightarrow> DiscoveredInstance \<Rightarrow> Verdict" where
  "verdict_of T show_status entries anchor anchor_wall rows nonce_hex jwks env inst =
     \<lparr>verdict_instance = instance_id inst, verdict_pubkey = e2e_pubkey inst,
      outcome =
        (case find (\<lambda>row. row_instance row = Some (instance_id inst)) rows of
           None \<Rightarrow> NoEvidence
         | Some row \<Rightarrow>
             (case admit_instance T show_status entries env inst row nonce_hex jwks of
                Inr expires \<Rightarrow> Admitted (deadline anchor anchor_wall expires)
              | Inl cause \<Rightarrow> Rejected cause))\<rparr>"

definition admit :: "tee_lib \<Rightarrow> (u16 \<Rightarrow> string) \<Rightarrow> anyhow + Entry list \<Rightarrow> (string \<Rightarrow> anyhow + EvidenceRow list) \<Rightarrow> anyhow
    \<Rightarrow> instant \<Rightarrow> anyhow + duration \<Rightarrow> string \<Rightarrow> anyhow + http_response \<Rightarrow> anyhow + http_response \<Rightarrow> (nat \<Rightarrow> admit_env)
    \<Rightarrow> DiscoveredInstance list \<Rightarrow> ChutesError + Verdict list" where
  "admit T show_status entries decode transport anchor wall random answer jwks_answer env insts =
     bind_r (map_err Unavailable wall) (\<lambda>anchor_wall.
     let nonce_hex = hex_encode T random in
     bind_r (map_err (service_error show_status) (chutes_get T transport answer ''evidence'' MAX_EVIDENCE_BYTES)) (\<lambda>b.
     bind_r (map_err AttestationRejected (with_context ''decode Chutes evidence'' (decode b))) (\<lambda>rows.
     bind_r (map_err (\<lambda>e. Unavailable (''fetch NVIDIA NRAS keys: '' @ e)) (nras_jwks T show_status transport jwks_answer)) (\<lambda>jwks.
     Ok (map (\<lambda>(i, inst). verdict_of T show_status entries anchor anchor_wall rows nonce_hex jwks (env i) inst)
           (enumerate 0 insts))))))"

text \<open>What an invocation sends: the address, the headers, the encrypted body.\<close>

definition invoke_request :: "string \<Rightarrow> Invocation \<Rightarrow> string \<times> (string \<times> string) list \<times> string" where
  "invoke_request api_key i =
     (API_ORIGIN @ ''/e2e/invoke'',
      [(''authorization'', ''Bearer '' @ api_key), (''x-chute-id'', inv_chute i),
       (''x-instance-id'', ticket_instance (inv_ticket i)), (''x-e2e-nonce'', nonce (inv_ticket i)),
       (''x-e2e-stream'', if inv_stream i then ''true'' else ''false''), (''x-e2e-path'', CHAT_COMPLETIONS),
       (''content-type'', ''application/octet-stream'')],
      inv_blob i)"

definition check_target_ids :: "anyhow + json \<Rightarrow> (string option \<Rightarrow> string) \<Rightarrow> ChutesTarget list \<Rightarrow> anyhow + unit" where
  "check_target_ids listed show_id targets =
     bind_r (with_context ''decode llm.chutes.ai model list'' listed) (\<lambda>listed.
     bind_r (ok_or (Option.bind (json_get ''data'' listed) as_array) ''llm.chutes.ai lists no models'') (\<lambda>models.
     foldl (\<lambda>acc t. bind_r acc (\<lambda>_.
       let listed_id = Option.bind (find (\<lambda>m. json_get ''id'' m = Some (JString (target_model t))) models)
                         (\<lambda>m. get_string ''chute_id'' m) in
       ensure (listed_id = Some (chute_id t))
         (target_model t @ '' is served by chute '' @ show_id listed_id @ '', compiled '' @ chute_id t)))
       (Ok ()) targets))"

section \<open>Laws\<close>

text \<open>An admission a batch gives rests on an evidence row of that instance, and ends with its evidence.\<close>

lemma verdict_of_admitted:
  "outcome (verdict_of T show_status entries anchor wall rows nonce_hex jwks env inst) = Admitted until \<longleftrightarrow>
     (\<exists>row expires. find (\<lambda>row. row_instance row = Some (instance_id inst)) rows = Some row
        \<and> admit_instance T show_status entries env inst row nonce_hex jwks = Ok expires
        \<and> until = deadline anchor wall expires)"
  by (auto simp: verdict_of_def split: option.splits sum.splits)

lemma deadline_bounds:
  "deadline anchor wall expires \<le> anchor + ADMISSION_TTL"
  "wall \<le> secs (unat expires) \<Longrightarrow> wall + (deadline anchor wall expires - anchor) \<le> secs (unat expires)"
  by (simp_all add: deadline_def)

section \<open>Properties\<close>

text \<open>
  One evidence call judges exactly the instances it was asked about, in order and under their own keys; an
  instance is admitted only by an evidence row served for it that passes every check under the
  nonce of this call, and then at most for fifteen minutes from before the call, and never beyond
  the wall-clock expiry of that evidence.
\<close>

theorem admit_batch_exact:
  assumes "admit T show_status entries decode transport anchor (Ok wall) random answer jwks_answer env insts = Ok vs"
  shows "\<exists>b rows jwks. decode b = Ok rows \<and> nras_jwks T show_status transport jwks_answer = Ok jwks
    \<and> map (\<lambda>v. (verdict_instance v, verdict_pubkey v)) vs = map key_of insts
    \<and> (\<forall>i < length insts. \<forall>until. outcome (vs ! i) = Admitted until \<longrightarrow>
         (\<exists>row expires. row \<in> set rows \<and> row_instance row = Some (instance_id (insts ! i))
            \<and> admit_instance T show_status entries (env i) (insts ! i) row (hex_encode T random) jwks = Ok expires
            \<and> until \<le> anchor + ADMISSION_TTL
            \<and> (wall \<le> secs (unat expires) \<longrightarrow> wall + (until - anchor) \<le> secs (unat expires))))"
proof -
  from assms obtain b rows jwks where b: "decode b = Ok rows" "nras_jwks T show_status transport jwks_answer = Ok jwks"
    and vs: "vs = map (\<lambda>(i, inst). verdict_of T show_status entries anchor wall rows (hex_encode T random) jwks (env i) inst)
        (enumerate 0 insts)"
    by (auto simp: admit_def Let_def result_simps)
  have at: "vs ! i = verdict_of T show_status entries anchor wall rows (hex_encode T random) jwks (env i) (insts ! i)"
    if "i < length insts" for i
    using that by (simp add: vs nth_enumerate_eq)
  have "map (\<lambda>v. (verdict_instance v, verdict_pubkey v)) vs = map key_of insts"
    by (intro nth_equalityI) (simp_all add: vs nth_enumerate_eq verdict_of_def key_of_def)
  moreover have "\<exists>row expires. row \<in> set rows \<and> row_instance row = Some (instance_id (insts ! i))
            \<and> admit_instance T show_status entries (env i) (insts ! i) row (hex_encode T random) jwks = Ok expires
            \<and> until \<le> anchor + ADMISSION_TTL
            \<and> (wall \<le> secs (unat expires) \<longrightarrow> wall + (until - anchor) \<le> secs (unat expires))"
    if i: "i < length insts" and out: "outcome (vs ! i) = Admitted until" for i until
  proof -
    from out obtain row expires where r: "find (\<lambda>row. row_instance row = Some (instance_id (insts ! i))) rows = Some row"
      "admit_instance T show_status entries (env i) (insts ! i) row (hex_encode T random) jwks = Ok expires"
      "until = deadline anchor wall expires"
      unfolding at [OF i] verdict_of_admitted by blast
    from r(1) have "row \<in> set rows" "row_instance row = Some (instance_id (insts ! i))"
      by (auto simp: find_Some_iff)
    with r(2) deadline_bounds [where anchor = anchor and wall = wall and expires = expires] show ?thesis
      unfolding r(3) by blast
  qed
  ultimately show ?thesis using b by blast
qed

theorem admit_batch_exact_witness:
  "\<exists>vs row. admit demo_tee (\<lambda>_. []) (Ok [demo_entry]) (\<lambda>_. Ok [demo_row]) [] 10 (Ok (secs 100)) [] (gpu_answer demo_env)
      (gpu_answer demo_env) (\<lambda>_. demo_env) [demo_instance] = Ok vs
     \<and> outcome (vs ! 0) = Admitted (10 + secs 100) \<and> row \<in> set [demo_row] \<and> 10 + secs 100 \<le> 10 + ADMISSION_TTL"
proof -
  let ?jwks = "[(''k'', CHR 0x04 # replicate 48 (CHR ''x'') @ replicate 48 (CHR ''y''))]"
  have r: "gpu_answer demo_env = Ok \<lparr>status_code = 200, response_headers = [], content_length = None, response_body = [Chunk ''N'']\<rparr>"
    by (simp add: demo_env_def)
  have jwks: "nras_jwks demo_tee (\<lambda>_. []) [] (gpu_answer demo_env) = Ok ?jwks"
    by (simp add: nras_jwks_def nras_bounded_def r MAX_NRAS_BYTES_def Jwks_parse_def demo_tee_def)
  have found: "row_instance demo_row = Some (instance_id demo_instance)"
    by (simp add: demo_row_def demo_instance_def)
  have "deadline 10 (secs 100) 200 = 10 + secs 100"
    by (simp add: deadline_def secs_def ADMISSION_TTL_def)
  then have "admit demo_tee (\<lambda>_. []) (Ok [demo_entry]) (\<lambda>_. Ok [demo_row]) [] 10 (Ok (secs 100)) [] (gpu_answer demo_env)
      (gpu_answer demo_env) (\<lambda>_. demo_env) [demo_instance] =
    Ok [\<lparr>verdict_instance = instance_id demo_instance, verdict_pubkey = e2e_pubkey demo_instance,
         outcome = Admitted (10 + secs 100)\<rparr>]"
    by (simp add: admit_def jwks [unfolded r] chutes_get_def is_success_def MAX_EVIDENCE_BYTES_def verdict_of_def
        found demo_hex demo_admitted Let_def r)
  from admit_batch_exact [OF this] this show ?thesis by auto
qed

end
