(* ===== verification/Attested_Pool.thy ===== *)
theory Attested_Pool
  imports Prelude
begin

text \<open>
  The pool of attested upstream connections (\<^verbatim>\<open>attestd/src/attested_pool.rs\<close>) and the limits
  the KubeTEE verifier gives it (\<^verbatim>\<open>attestd/src/kubetee_verify/pool.rs\<close>).

  A connection is a hyper sender and the tokio task that drives it; both are handles here, and
  what the code asks of them (\<^verbatim>\<open>is_closed\<close>, \<^verbatim>\<open>is_finished\<close>) together with the two clocks is
  the \<open>world\<close> an operation observes. Dropping a connection aborts its driver task, so every
  operation also returns the drivers it aborted. \<open>give_back\<close> observes the world twice, once
  before and once under the pool lock. The interface the callers rely on is the locale
  \<open>connection_pool\<close>: no connection is duplicated or lost, checkouts are usable, the idle list
  stays within its cap.
\<close>

section \<open>Connections, limits and the pool\<close>

record world =
  mono_now :: instant
  utc_now :: int
  is_closed :: "nat \<Rightarrow> bool"
  is_finished :: "nat \<Rightarrow> bool"

definition MAX_AGE :: duration where "MAX_AGE = secs (10 * 60)"
definition MAX_IDLE_AGE :: duration where "MAX_IDLE_AGE = secs 90"
definition MAX_REQUESTS :: nat where "MAX_REQUESTS = 100"
definition MAX_IDLE :: nat where "MAX_IDLE = 8"

record PoolLimits =
  age_limit :: duration
  idle_age_limit :: "duration option"
  requests_limit :: nat
  idle_limit :: nat

definition PoolLimits_default :: PoolLimits where
  "PoolLimits_default = \<lparr>age_limit = MAX_AGE, idle_age_limit = Some MAX_IDLE_AGE,
     requests_limit = MAX_REQUESTS, idle_limit = MAX_IDLE\<rparr>"

record Limits =
  max_age :: duration
  max_requests :: nat
  max_idle :: nat

definition Limits_default :: Limits where
  "Limits_default = \<lparr>max_age = MAX_AGE, max_requests = MAX_REQUESTS, max_idle = MAX_IDLE\<rparr>"

definition kubetee_pool_limits :: "Limits \<Rightarrow> PoolLimits" where
  "kubetee_pool_limits l = \<lparr>age_limit = max_age l, idle_age_limit = None,
     requests_limit = max_requests l, idle_limit = max_idle l\<rparr>"

record Attested =
  sender :: nat
  driver :: nat
  attested_at :: instant
  idle_since :: "instant option"
  expires_at :: "int option"
  requests :: nat

text \<open>\<^verbatim>\<open>Instant::elapsed\<close> saturates at zero, as subtraction on \<open>nat\<close> does.\<close>

definition elapsed :: "world \<Rightarrow> instant \<Rightarrow> duration" where
  "elapsed w t = mono_now w - t"

definition usable_at :: "world \<Rightarrow> PoolLimits \<Rightarrow> int \<Rightarrow> Attested \<Rightarrow> bool" where
  "usable_at w l now c =
     (is_none_or (\<lambda>deadline. now < deadline) (expires_at c)
      \<and> elapsed w (attested_at c) < age_limit l
      \<and> is_none_or (\<lambda>since. is_none_or (\<lambda>m. elapsed w since < m) (idle_age_limit l)) (idle_since c)
      \<and> requests c < requests_limit l
      \<and> \<not> is_closed w (sender c)
      \<and> \<not> is_finished w (driver c))"

definition usable :: "world \<Rightarrow> PoolLimits \<Rightarrow> Attested \<Rightarrow> bool" where
  "usable w l c = usable_at w l (utc_now w) c"

text \<open>\<open>retire\<close> drops the connection, and \<^verbatim>\<open>Drop\<close> aborts its driver.\<close>

definition retire :: "Attested \<Rightarrow> nat list" where
  "retire c = [driver c]"

record Pool =
  idle :: "Attested list"
  limits :: PoolLimits

definition Pool_new :: "PoolLimits \<Rightarrow> Pool" where
  "Pool_new l = \<lparr>idle = [], limits = l\<rparr>"

text \<open>\<^verbatim>\<open>idle.retain(usable)\<close>: the survivors, and the drivers the dropped entries aborted.\<close>

definition sweep :: "world \<Rightarrow> Pool \<Rightarrow> Attested list \<times> nat list" where
  "sweep w p = (filter (usable w (limits p)) (idle p),
     concat (map retire (filter (\<lambda>c. \<not> usable w (limits p) c) (idle p))))"

definition pool_take :: "world \<Rightarrow> Pool \<Rightarrow> Attested option \<times> Pool \<times> nat list" where
  "pool_take w p =
     (let (kept, aborted) = sweep w p
      in if kept = [] then (None, p\<lparr>idle := []\<rparr>, aborted)
         else (Some (last kept), p\<lparr>idle := butlast kept\<rparr>, aborted))"

definition give_back :: "world \<Rightarrow> world \<Rightarrow> Attested \<Rightarrow> Pool \<Rightarrow> Pool \<times> nat list" where
  "give_back w1 w2 c p =
     (let c' = c\<lparr>idle_since := Some (mono_now w1)\<rparr>
      in if \<not> usable w1 (limits p) c' then (p, retire c')
         else let (kept, aborted) = sweep w2 p
              in if length kept < idle_limit (limits p)
                 then (p\<lparr>idle := kept @ [c']\<rparr>, aborted)
                 else (p\<lparr>idle := kept\<rparr>, aborted @ retire c'))"

definition pool_idle :: "Pool \<Rightarrow> nat" where
  "pool_idle p = length (idle p)"

section \<open>Leases\<close>

text \<open>
  A lease holds the connection while its response body is read. \<open>ended\<close> is the answer of the
  body's \<^verbatim>\<open>is_end_stream\<close> when the code asks for it.
\<close>

record Lease =
  connection :: "Attested option"

datatype polled = Pending | ReadyNone | ReadyErr | ReadyFrame

definition give_back_connection ::
    "world \<Rightarrow> world \<Rightarrow> Lease \<Rightarrow> Pool \<Rightarrow> Lease \<times> Pool \<times> nat list" where
  "give_back_connection w1 w2 l p =
     (case connection l of
        None \<Rightarrow> (l, p, [])
      | Some c \<Rightarrow> (let (p', aborted) = give_back w1 w2 c p in (l\<lparr>connection := None\<rparr>, p', aborted)))"

definition give_back_if_read ::
    "world \<Rightarrow> world \<Rightarrow> bool \<Rightarrow> Lease \<Rightarrow> Pool \<Rightarrow> Lease \<times> Pool \<times> nat list" where
  "give_back_if_read w1 w2 ended l p =
     (if ended then give_back_connection w1 w2 l p else (l, p, []))"

definition Lease_new ::
    "world \<Rightarrow> world \<Rightarrow> bool \<Rightarrow> Attested \<Rightarrow> Pool \<Rightarrow> Lease \<times> Pool \<times> nat list" where
  "Lease_new w1 w2 ended c p = give_back_if_read w1 w2 ended \<lparr>connection = Some c\<rparr> p"

fun poll_frame ::
    "world \<Rightarrow> world \<Rightarrow> polled \<Rightarrow> bool \<Rightarrow> Lease \<Rightarrow> Pool \<Rightarrow> Lease \<times> Pool \<times> nat list" where
  "poll_frame w1 w2 ReadyNone ended l p = give_back_connection w1 w2 l p"
| "poll_frame w1 w2 ReadyErr ended l p =
     (case connection l of
        None \<Rightarrow> (l, p, [])
      | Some c \<Rightarrow> (l\<lparr>connection := None\<rparr>, p, retire c))"
| "poll_frame w1 w2 ReadyFrame ended l p = give_back_if_read w1 w2 ended l p"
| "poll_frame w1 w2 Pending ended l p = (l, p, [])"

definition Lease_drop :: "Lease \<Rightarrow> nat list" where
  "Lease_drop l = (case connection l of None \<Rightarrow> [] | Some c \<Rightarrow> retire c)"

section \<open>The interface of a pool, and what follows for any run of it\<close>

datatype ('w, 'c) pool_op = Checkout 'w | Checkin 'w 'w 'c

locale connection_pool =
  fixes contents :: "'p \<Rightarrow> 'c list"
    and capacity :: "'p \<Rightarrow> nat"
    and fit :: "'w \<Rightarrow> 'p \<Rightarrow> 'c \<Rightarrow> bool"
    and handle :: "'c \<Rightarrow> 'h"
    and checkout :: "'w \<Rightarrow> 'p \<Rightarrow> 'c option \<times> 'p \<times> 'h list"
    and checkin :: "'w \<Rightarrow> 'w \<Rightarrow> 'c \<Rightarrow> 'p \<Rightarrow> 'p \<times> 'h list"
  assumes checkout_conserves: "checkout w p = (r, p', d) \<Longrightarrow>
      mset (map handle (contents p)) =
        mset (map handle (contents p')) + mset d + image_mset handle (mset (option_list r))"
    and checkout_fit: "checkout w p = (Some c, p', d) \<Longrightarrow> fit w p c"
    and checkout_bounded: "checkout w p = (r, p', d) \<Longrightarrow>
      length (contents p) \<le> capacity p \<Longrightarrow> length (contents p') \<le> capacity p'"
    and checkin_conserves: "checkin w w' c p = (p', d) \<Longrightarrow>
      add_mset (handle c) (mset (map handle (contents p))) =
        mset (map handle (contents p')) + mset d"
    and checkin_bounded: "checkin w w' c p = (p', d) \<Longrightarrow>
      length (contents p) \<le> capacity p \<Longrightarrow> length (contents p') \<le> capacity p'"
begin

text \<open>
  A run of operations returns the final pool, the handles checked out, the handles checked in
  and the handles aborted.
\<close>

fun run_ops :: "('w, 'c) pool_op list \<Rightarrow> 'p \<Rightarrow> 'p \<times> 'h multiset \<times> 'h multiset \<times> 'h multiset" where
  "run_ops [] p = (p, {#}, {#}, {#})"
| "run_ops (Checkout w # ops) p =
     (let (r, p', d) = checkout w p; (q, handed, returned, aborted) = run_ops ops p'
      in (q, image_mset handle (mset (option_list r)) + handed, returned, mset d + aborted))"
| "run_ops (Checkin w w' c # ops) p =
     (let (p', d) = checkin w w' c p; (q, handed, returned, aborted) = run_ops ops p'
      in (q, handed, add_mset (handle c) returned, mset d + aborted))"

lemma run_ops_conserves:
  "run_ops ops p = (q, handed, returned, aborted) \<Longrightarrow>
     mset (map handle (contents p)) + returned = mset (map handle (contents q)) + handed + aborted"
proof (induction ops p arbitrary: q handed returned aborted rule: run_ops.induct)
  case (2 w ops p)
  obtain r p' d where co: "checkout w p = (r, p', d)" by (metis prod_cases3)
  obtain q' h' t' a' where run: "run_ops ops p' = (q', h', t', a')" by (metis prod_cases4)
  from "2.IH" [OF co [symmetric] refl refl run] checkout_conserves [OF co] "2.prems"
  show ?case by (auto simp: co run ac_simps)
next
  case (3 w w' c ops p)
  obtain p' d where ci: "checkin w w' c p = (p', d)" by (metis surj_pair)
  obtain q' h' t' a' where run: "run_ops ops p' = (q', h', t', a')" by (metis prod_cases4)
  have "mset (map handle (contents p)) + add_mset (handle c) t' =
      add_mset (handle c) (mset (map handle (contents p))) + t'"
    by simp
  also have "\<dots> = mset (map handle (contents p')) + t' + mset d"
    by (simp only: checkin_conserves [OF ci] ac_simps)
  also have "\<dots> = mset (map handle (contents q')) + h' + (mset d + a')"
    by (subst "3.IH" [OF ci [symmetric] refl run]) (simp only: ac_simps)
  finally show ?case
    using "3.prems" by (simp only: run_ops.simps ci run prod.case Let_def prod.inject)
qed simp

lemma run_ops_bounded:
  "run_ops ops p = (q, rest) \<Longrightarrow> length (contents p) \<le> capacity p \<Longrightarrow>
     length (contents q) \<le> capacity q"
proof (induction ops p arbitrary: q rest rule: run_ops.induct)
  case (2 w ops p)
  obtain r p' d where co: "checkout w p = (r, p', d)" by (metis prod_cases3)
  obtain q' rest' where run: "run_ops ops p' = (q', rest')" by (metis surj_pair)
  from "2.IH" [OF co [symmetric] refl refl run] checkout_bounded [OF co] "2.prems"
  show ?case by (auto simp: co run split: prod.splits)
next
  case (3 w w' c ops p)
  obtain p' d where ci: "checkin w w' c p = (p', d)" by (metis surj_pair)
  obtain q' rest' where run: "run_ops ops p' = (q', rest')" by (metis surj_pair)
  from "3.IH" [OF ci [symmetric] refl run] checkin_bounded [OF ci] "3.prems"
  show ?case by (auto simp: ci run split: prod.splits)
qed simp

end

section \<open>The model provides the interface\<close>

lemma concat_retire: "concat (map retire cs) = map driver cs"
  by (induction cs) (simp_all add: retire_def)

lemma sweep_conserves:
  "sweep w p = (kept, aborted) \<Longrightarrow>
     mset (map driver (idle p)) = mset (map driver kept) + mset aborted"
proof -
  have "mset (map driver (filter P xs)) + mset (concat (map retire (filter (\<lambda>x. \<not> P x) xs))) =
      mset (map driver xs)" for P and xs :: "Attested list"
    by (induction xs) (simp_all add: retire_def)
  then show "sweep w p = (kept, aborted) \<Longrightarrow> ?thesis"
    by (auto simp: sweep_def)
qed

lemma sweep_usable: "sweep w p = (kept, aborted) \<Longrightarrow> c \<in> set kept \<Longrightarrow> usable w (limits p) c"
  by (auto simp: sweep_def)

lemma sweep_subset: "sweep w p = (kept, aborted) \<Longrightarrow> length kept \<le> length (idle p)"
  by (auto simp: sweep_def)

lemma pool_take_conserves:
  assumes "pool_take w p = (r, p', d)"
  shows "mset (map driver (idle p)) =
    mset (map driver (idle p')) + mset d + image_mset driver (mset (option_list r))"
proof -
  obtain kept aborted where sw: "sweep w p = (kept, aborted)" by (metis surj_pair)
  show ?thesis
    using sweep_conserves [OF sw] assms mset_last_butlast [of kept]
    by (auto simp: pool_take_def sw option_list_def split: if_splits)
qed

lemma pool_take_usable: "pool_take w p = (Some c, p', d) \<Longrightarrow> usable w (limits p) c"
  by (auto simp: pool_take_def split: prod.splits if_splits intro: sweep_usable)

lemma pool_take_bounded:
  "pool_take w p = (r, p', d) \<Longrightarrow> length (idle p') \<le> length (idle p) \<and> limits p' = limits p"
  by (auto simp: pool_take_def split: prod.splits if_splits dest: sweep_subset)

lemma give_back_conserves:
  assumes "give_back w1 w2 c p = (p', d)"
  shows "add_mset (driver c) (mset (map driver (idle p))) = mset (map driver (idle p')) + mset d"
proof -
  obtain kept aborted where sw: "sweep w2 p = (kept, aborted)" by (metis surj_pair)
  show ?thesis
    using sweep_conserves [OF sw] assms
    by (auto simp: give_back_def sw retire_def Let_def split: if_splits)
qed

lemma give_back_bounded:
  assumes "give_back w1 w2 c p = (p', d)"
  shows "limits p' = limits p"
    and "length (idle p) \<le> idle_limit (limits p) \<Longrightarrow> length (idle p') \<le> idle_limit (limits p)"
proof -
  obtain kept aborted where sw: "sweep w2 p = (kept, aborted)" by (metis surj_pair)
  show "limits p' = limits p"
    using assms by (auto simp: give_back_def sw Let_def split: if_splits)
  show "length (idle p) \<le> idle_limit (limits p) \<Longrightarrow> length (idle p') \<le> idle_limit (limits p)"
    using assms sweep_subset [OF sw] by (auto simp: give_back_def sw Let_def split: if_splits)
qed

interpretation ap: connection_pool idle "\<lambda>p. idle_limit (limits p)" "\<lambda>w p. usable w (limits p)"
  driver pool_take give_back
proof unfold_locales
  fix w p r p' d
  assume "pool_take w p = (r, p', d)"
  then show "mset (map driver (idle p)) =
      mset (map driver (idle p')) + mset d + image_mset driver (mset (option_list r))"
    by (rule pool_take_conserves)
next
  fix w p c p' d
  assume "pool_take w p = (Some c, p', d)"
  then show "usable w (limits p) c"
    by (rule pool_take_usable)
next
  fix w p r p' d
  assume "pool_take w p = (r, p', d)" and "length (idle p) \<le> idle_limit (limits p)"
  then show "length (idle p') \<le> idle_limit (limits p')"
    using pool_take_bounded [of w p r p' d] by simp
next
  fix w w' c p p' d
  assume "give_back w w' c p = (p', d)"
  then show "add_mset (driver c) (mset (map driver (idle p))) = mset (map driver (idle p')) + mset d"
    by (rule give_back_conserves)
next
  fix w w' c p p' d
  assume "give_back w w' c p = (p', d)" and "length (idle p) \<le> idle_limit (limits p)"
  then show "length (idle p') \<le> idle_limit (limits p')"
    using give_back_bounded [of w w' c p p' d] by simp
qed

section \<open>Connections, requests and leases together\<close>

text \<open>
  The system around one pool: connections a request holds, leases that still read a body, the
  drivers aborted so far and the drivers ever created. Every step is one call of the code above;
  which call comes next is the choice of the requests.
\<close>

record pool_sys =
  pool :: Pool
  held :: "Attested list"
  leases :: "Lease list"
  aborted :: "nat list"
  created :: "nat list"

definition pool_sys_init :: "PoolLimits \<Rightarrow> pool_sys" where
  "pool_sys_init l = \<lparr>pool = Pool_new l, held = [], leases = [], aborted = [], created = []\<rparr>"

inductive pool_step :: "pool_sys \<Rightarrow> pool_sys \<Rightarrow> bool" where
  connect: "driver c \<notin> set (created s) \<Longrightarrow>
    pool_step s (s\<lparr>held := c # held s, created := driver c # created s\<rparr>)"
| checkout: "pool_take w (pool s) = (r, p', d) \<Longrightarrow>
    pool_step s (s\<lparr>pool := p', held := (case r of None \<Rightarrow> held s | Some c \<Rightarrow> c # held s),
      aborted := d @ aborted s\<rparr>)"
| send: "held s = xs @ c # ys \<Longrightarrow>
    pool_step s (s\<lparr>held := xs @ c\<lparr>requests := requests c + 1\<rparr> # ys\<rparr>)"
| retire: "held s = xs @ c # ys \<Longrightarrow>
    pool_step s (s\<lparr>held := xs @ ys, aborted := retire c @ aborted s\<rparr>)"
| return: "held s = xs @ c # ys \<Longrightarrow> give_back w1 w2 c (pool s) = (p', d) \<Longrightarrow>
    pool_step s (s\<lparr>pool := p', held := xs @ ys, aborted := d @ aborted s\<rparr>)"
| lease: "held s = xs @ c # ys \<Longrightarrow> Lease_new w1 w2 ended c (pool s) = (l, p', d) \<Longrightarrow>
    pool_step s (s\<lparr>pool := p', held := xs @ ys, leases := l # leases s, aborted := d @ aborted s\<rparr>)"
| poll: "leases s = xs @ l # ys \<Longrightarrow> poll_frame w1 w2 r ended l (pool s) = (l', p', d) \<Longrightarrow>
    pool_step s (s\<lparr>pool := p', leases := xs @ l' # ys, aborted := d @ aborted s\<rparr>)"
| drop: "leases s = xs @ l # ys \<Longrightarrow>
    pool_step s (s\<lparr>leases := xs @ ys, aborted := Lease_drop l @ aborted s\<rparr>)"

inductive pool_reach :: "PoolLimits \<Rightarrow> pool_sys \<Rightarrow> bool" for l where
  start: "pool_reach l (pool_sys_init l)"
| step: "pool_reach l s \<Longrightarrow> pool_step s t \<Longrightarrow> pool_reach l t"

text \<open>The driver a lease still owns.\<close>

definition lease_drivers :: "Lease \<Rightarrow> nat list" where
  "lease_drivers l = (case connection l of None \<Rightarrow> [] | Some c \<Rightarrow> [driver c])"

text \<open>Every place a driver can be: idle, held, leased, aborted.\<close>

definition owned :: "pool_sys \<Rightarrow> nat list" where
  "owned s = map driver (idle (pool s)) @ map driver (held s) @
     concat (map lease_drivers (leases s)) @ aborted s"

definition pool_inv :: "PoolLimits \<Rightarrow> pool_sys \<Rightarrow> bool" where
  "pool_inv l s \<longleftrightarrow> mset (owned s) = mset (created s) \<and> distinct (created s)
     \<and> limits (pool s) = l \<and> length (idle (pool s)) \<le> idle_limit l"

text \<open>
  One pool call with the drivers it takes in (\<open>a\<close>) and the drivers it lets out (\<open>b\<close>): nothing
  is created or lost, the limits stay, the idle list stays within its cap.
\<close>

definition moves :: "Pool \<Rightarrow> nat multiset \<Rightarrow> Pool \<Rightarrow> nat multiset \<Rightarrow> bool" where
  "moves p a p' b \<longleftrightarrow> mset (map driver (idle p)) + a = mset (map driver (idle p')) + b
     \<and> limits p' = limits p
     \<and> (length (idle p) \<le> idle_limit (limits p) \<longrightarrow> length (idle p') \<le> idle_limit (limits p))"

lemma moves_refl: "a = b \<Longrightarrow> moves p a p b"
  by (simp add: moves_def)

lemma take_moves:
  "pool_take w p = (r, p', d) \<Longrightarrow>
     moves p {#} p' (mset d + image_mset driver (mset (option_list r)))"
  using pool_take_conserves [of w p r p' d] pool_take_bounded [of w p r p' d]
  by (simp add: moves_def ac_simps)

lemma give_back_moves:
  "give_back w1 w2 c p = (p', d) \<Longrightarrow> moves p {#driver c#} p' (mset d)"
  using give_back_conserves [of w1 w2 c p p' d] give_back_bounded [of w1 w2 c p p' d]
  by (simp add: moves_def)

lemma give_back_connection_moves:
  "give_back_connection w1 w2 l p = (l', p', d) \<Longrightarrow>
     moves p (mset (lease_drivers l)) p' (mset (lease_drivers l') + mset d)"
  by (auto simp: give_back_connection_def lease_drivers_def moves_refl
      split: option.splits prod.splits dest: give_back_moves)

lemma poll_frame_moves:
  "poll_frame w1 w2 r ended l p = (l', p', d) \<Longrightarrow>
     moves p (mset (lease_drivers l)) p' (mset (lease_drivers l') + mset d)"
  by (cases r) (auto simp: give_back_if_read_def retire_def lease_drivers_def moves_refl
      split: if_splits option.splits dest: give_back_connection_moves)

lemma Lease_new_moves:
  "Lease_new w1 w2 ended c p = (l', p', d) \<Longrightarrow>
     moves p {#driver c#} p' (mset (lease_drivers l') + mset d)"
  using give_back_connection_moves [of w1 w2 "\<lparr>connection = Some c\<rparr>" p l' p' d]
  by (auto simp: Lease_new_def give_back_if_read_def lease_drivers_def moves_refl
      split: if_splits)

lemma pool_inv_transfer:
  assumes "moves (pool s) a (pool t) b" and "pool_inv l s" and "created t = created s"
    and "mset (owned s) = mset (map driver (idle (pool s))) + a + rest"
    and "mset (owned t) = mset (map driver (idle (pool t))) + b + rest"
  shows "pool_inv l t"
  using assms by (simp add: pool_inv_def moves_def)

lemma pool_step_inv:
  assumes "pool_step s t" and "pool_inv l s"
  shows "pool_inv l t"
  using assms
proof (induction rule: pool_step.induct)
  case (connect c s)
  then show ?case by (simp add: pool_inv_def owned_def)
next
  case (checkout w s r p' d)
  show ?case
    by (rule pool_inv_transfer
        [of s "{#}" _ "mset d + image_mset driver (mset (option_list r))" l, OF _ checkout(2)])
      (use take_moves [OF checkout(1)] in
        \<open>auto simp: owned_def option_list_def ac_simps split: option.splits\<close>)
next
  case (send s xs c ys)
  then show ?case by (simp add: pool_inv_def owned_def)
next
  case (retire s xs c ys)
  then show ?case by (simp add: pool_inv_def owned_def retire_def)
next
  case (return s xs c ys w1 w2 p' d)
  show ?case
    by (rule pool_inv_transfer [of s "{#driver c#}" _ "mset d" l, OF _ return(3)])
      (use give_back_moves [OF return(2)] return(1) in \<open>simp_all add: owned_def ac_simps\<close>)
next
  case (lease s xs c ys w1 w2 ended la p' d)
  show ?case
    by (rule pool_inv_transfer [of s "{#driver c#}" _ "mset (lease_drivers la) + mset d" l, OF _ lease(3)])
      (use Lease_new_moves [OF lease(2)] lease(1) in \<open>simp_all add: owned_def ac_simps\<close>)
next
  case (poll s xs la ys w1 w2 r ended l' p' d)
  show ?case
    by (rule pool_inv_transfer
        [of s "mset (lease_drivers la)" _ "mset (lease_drivers l') + mset d" l, OF _ poll(3)])
      (use poll_frame_moves [OF poll(2)] poll(1) in \<open>simp_all add: owned_def ac_simps\<close>)
next
  case (drop s xs la ys)
  then show ?case
    by (auto simp: pool_inv_def owned_def Lease_drop_def lease_drivers_def retire_def
        split: option.splits)
qed

lemma pool_reach_inv: "pool_reach l s \<Longrightarrow> pool_inv l s"
proof (induction rule: pool_reach.induct)
  case start
  show ?case by (simp add: pool_inv_def pool_sys_init_def owned_def Pool_new_def)
next
  case (step s t)
  then show ?case by (blast intro: pool_step_inv)
qed

section \<open>Properties\<close>

text \<open>
  C3: In every state the requests can reach, each upstream connection ever attested is in
  exactly one place: idle in the pool, held by one request, leased by one response body, or
  closed. No connection is handed to two requests and none leaks, and the pool never holds more
  idle connections than its limit.
\<close>

theorem pool_exclusive_ownership:
  assumes "pool_reach l s"
  shows "distinct (owned s) \<and> set (owned s) = set (created s)
    \<and> length (idle (pool s)) \<le> idle_limit l"
proof -
  have inv: "pool_inv l s" using assms by (rule pool_reach_inv)
  then have "mset (owned s) = mset (created s)" "distinct (created s)"
    by (simp_all add: pool_inv_def)
  then have "distinct (owned s)" "set (owned s) = set (created s)"
    by (metis mset_eq_imp_distinct_iff, metis mset_eq_setD)
  with inv show ?thesis by (simp add: pool_inv_def)
qed

theorem pool_exclusive_ownership_witness:
  "let c = \<lparr>sender = 1, driver = 7, attested_at = 0, idle_since = None, expires_at = None, requests = 0\<rparr>;
       s = (pool_sys_init PoolLimits_default)\<lparr>held := [c], created := [7]\<rparr>
   in pool_reach PoolLimits_default s \<and> distinct (owned s) \<and> owned s = [7]"
proof -
  let ?c = "\<lparr>sender = 1, driver = 7, attested_at = 0, idle_since = None, expires_at = None, requests = 0\<rparr>"
  let ?s = "(pool_sys_init PoolLimits_default)\<lparr>held := [?c], created := [7]\<rparr>"
  have "pool_step (pool_sys_init PoolLimits_default) ?s"
    using pool_step.connect [of ?c "pool_sys_init PoolLimits_default"]
    by (simp add: pool_sys_init_def)
  then have reach: "pool_reach PoolLimits_default ?s"
    by (rule pool_reach.step [OF pool_reach.start])
  from pool_exclusive_ownership [OF reach] reach show ?thesis
    by (simp add: Let_def owned_def pool_sys_init_def Pool_new_def)
qed

text \<open>
  A checkout returns the most recently returned connection that is still usable: everything
  returned after it was unusable and is closed, what stays idle is exactly the usable part of
  what was returned before it, and nothing else changes.
\<close>

theorem pool_take_most_recent:
  assumes "pool_take w p = (Some c, p', d)"
  shows "\<exists>older newer. idle p = older @ c # newer \<and> usable w (limits p) c
    \<and> (\<forall>x \<in> set newer. \<not> usable w (limits p) x)
    \<and> p' = p\<lparr>idle := filter (usable w (limits p)) older\<rparr>
    \<and> mset d = mset (map driver (filter (\<lambda>x. \<not> usable w (limits p) x) (idle p)))"
proof -
  let ?U = "usable w (limits p)"
  have ne: "filter ?U (idle p) \<noteq> []" and c: "c = last (filter ?U (idle p))"
    and p': "p' = p\<lparr>idle := butlast (filter ?U (idle p))\<rparr>"
    and d: "d = concat (map retire (filter (\<lambda>x. \<not> ?U x) (idle p)))"
    using assms by (auto simp: pool_take_def sweep_def split: if_splits)
  have "mset d = mset (map driver (filter (\<lambda>x. \<not> ?U x) (idle p)))"
    by (simp add: d concat_retire)
  moreover from last_filter_split [OF ne] obtain older newer where "idle p = older @ c # newer"
    and "?U c" and "\<forall>x \<in> set newer. \<not> ?U x" and "butlast (filter ?U (idle p)) = filter ?U older"
    unfolding c [symmetric] by blast
  ultimately show ?thesis
    unfolding p' by metis
qed

theorem pool_take_most_recent_witness:
  "let w = \<lparr>mono_now = 5, utc_now = 5, is_closed = (\<lambda>_. False), is_finished = (\<lambda>i. i = 9)\<rparr>;
       a = \<lparr>sender = 1, driver = 7, attested_at = 0, idle_since = None, expires_at = None, requests = 0\<rparr>;
       b = \<lparr>sender = 2, driver = 9, attested_at = 0, idle_since = None, expires_at = None, requests = 0\<rparr>;
       p = \<lparr>idle = [a, b], limits = PoolLimits_default\<rparr>
   in pool_take w p = (Some a, p\<lparr>idle := []\<rparr>, [9]) \<and> \<not> usable w (limits p) b"
proof -
  let ?w = "\<lparr>mono_now = 5, utc_now = 5, is_closed = (\<lambda>_. False), is_finished = (\<lambda>i. i = 9)\<rparr>"
  let ?a = "\<lparr>sender = 1, driver = 7, attested_at = 0, idle_since = None, expires_at = None, requests = 0\<rparr>"
  let ?b = "\<lparr>sender = 2, driver = 9, attested_at = 0, idle_since = None, expires_at = None, requests = 0\<rparr>"
  let ?p = "\<lparr>idle = [?a, ?b], limits = PoolLimits_default\<rparr>"
  have taken: "pool_take ?w ?p = (Some ?a, ?p\<lparr>idle := []\<rparr>, [9])"
    by (simp add: pool_take_def sweep_def usable_def usable_at_def elapsed_def retire_def
        PoolLimits_default_def MAX_AGE_def MAX_REQUESTS_def secs_def)
  from pool_take_most_recent [OF taken] have "\<not> usable ?w (limits ?p) ?b"
    by (auto simp: Cons_eq_append_conv)
  with taken show ?thesis by (simp add: Let_def)
qed

text \<open>
  A connection that is returned and still within every limit is the one the next checkout
  gives out, with the idle mark it got and everything else unchanged, when the pool has room
  after its sweep; the idle list is then the usable connections it had and the returned one last.
\<close>

theorem give_back_then_take:
  assumes "give_back w1 w2 c p = (p', d)"
    and "usable w1 (limits p) (c\<lparr>idle_since := Some (mono_now w1)\<rparr>)"
    and "usable w3 (limits p) (c\<lparr>idle_since := Some (mono_now w1)\<rparr>)"
    and "length (filter (usable w2 (limits p)) (idle p)) < idle_limit (limits p)"
  shows "fst (pool_take w3 p') = Some (c\<lparr>idle_since := Some (mono_now w1)\<rparr>)
    \<and> idle p' = filter (usable w2 (limits p)) (idle p) @ [c\<lparr>idle_since := Some (mono_now w1)\<rparr>]"
  using assms
  by (auto simp: give_back_def pool_take_def sweep_def Let_def concat_retire)

theorem give_back_then_take_witness:
  "let w = \<lparr>mono_now = 5, utc_now = 5, is_closed = (\<lambda>_. False), is_finished = (\<lambda>_. False)\<rparr>;
       c = \<lparr>sender = 1, driver = 7, attested_at = 0, idle_since = None, expires_at = None, requests = 3\<rparr>
   in fst (pool_take w (fst (give_back w w c (Pool_new PoolLimits_default)))) = Some (c\<lparr>idle_since := Some 5\<rparr>)"
proof -
  let ?w = "\<lparr>mono_now = 5, utc_now = 5, is_closed = (\<lambda>_. False), is_finished = (\<lambda>_. False)\<rparr>"
  let ?c = "\<lparr>sender = 1, driver = 7, attested_at = 0, idle_since = None, expires_at = None, requests = 3\<rparr>"
  obtain p' d where gb: "give_back ?w ?w ?c (Pool_new PoolLimits_default) = (p', d)"
    by (metis surj_pair)
  have u: "usable ?w (limits (Pool_new PoolLimits_default)) (?c\<lparr>idle_since := Some (mono_now ?w)\<rparr>)"
    by (simp add: usable_def usable_at_def elapsed_def Pool_new_def PoolLimits_default_def
        MAX_AGE_def MAX_IDLE_AGE_def MAX_REQUESTS_def secs_def)
  have room: "length (filter (usable ?w (limits (Pool_new PoolLimits_default)))
      (idle (Pool_new PoolLimits_default))) < idle_limit (limits (Pool_new PoolLimits_default))"
    by (simp add: Pool_new_def PoolLimits_default_def MAX_IDLE_def)
  from give_back_then_take [OF gb u u room] gb show ?thesis
    by (simp add: Let_def)
qed

end
