(* ===== verification/Upstream_Proxy.thy ===== *)
theory Upstream_Proxy
  imports Attested_Pool Tee_Evidence Gateway_Contract
begin

text \<open>
  What the verifiers of attested upstreams share (\<^verbatim>\<open>attestd/src/upstream_proxy.rs\<close>): connecting, bounded attestation
  retries, header hygiene, the refusal every failure becomes; and the checkout of a pooled or fresh connection
  both verifiers run.

  The network is what each call meets. A \<^verbatim>\<open>timeout(limit, future)\<close> is a result in a result: the outer error is
  the deadline, the inner one the future's own. Addresses are a linear order with a text. A connection's sender
  and driver are the numbers of the pool.
\<close>

named_theorems proxy_simps

definition ATTESTATION_ATTEMPTS :: nat where "ATTESTATION_ATTEMPTS = 3"

definition timed :: "string \<Rightarrow> string \<Rightarrow> anyhow + anyhow + 'a \<Rightarrow> anyhow + 'a" where
  "timed late failed r = bind_r (with_context late r) (\<lambda>r. with_context failed r)"

lemma timed_Ok [result_simps]: "timed late failed r = Ok x \<longleftrightarrow> r = Ok (Ok x)"
  by (auto simp: timed_def result_simps)

section \<open>Connecting\<close>

record 'a dial =
  show_address :: "'a \<Rightarrow> string"
  resolved :: "anyhow + anyhow + 'a list"
  tcp :: "'a \<Rightarrow> anyhow + anyhow + unit"
  keepalive :: "anyhow + unit"
  user_timeout :: "anyhow + unit"
  peer_addr :: "anyhow + 'a"
  server_name :: "string \<Rightarrow> anyhow + unit"
  handshake :: "anyhow + anyhow + string list option"
  http1 :: "anyhow + nat \<times> nat"

record 'a UpstreamConnection =
  up_sender :: nat
  up_driver :: nat
  leaf :: string
  peer :: 'a

definition sorted_addresses :: "'a::linorder list \<Rightarrow> 'a list" where
  "sorted_addresses addresses = remdups_adj (sort addresses)"

definition pick_address :: "'a::linorder list \<Rightarrow> nat \<Rightarrow> 'a option" where
  "pick_address addresses attempt =
     (let as = sorted_addresses addresses in nth_o (attempt mod max (length as) 1) as)"

definition connect :: "'a dial \<Rightarrow> string \<Rightarrow> string \<Rightarrow> 'a::linorder option \<Rightarrow> nat \<Rightarrow> anyhow + 'a UpstreamConnection" where
  "connect D provider host address attempt =
     bind_r (case address of
         Some a \<Rightarrow> Ok a
       | None \<Rightarrow>
           bind_r (timed (''resolving '' @ host @ '' timed out'') (''resolve '' @ host) (resolved D)) (\<lambda>addresses.
           ok_or (pick_address addresses attempt) (host @ '' resolved to no addresses''))) (\<lambda>a.
     bind_r (timed (provider @ '' TCP connect timed out'') (''connect to '' @ host @ '' via '' @ show_address D a) (tcp D a)) (\<lambda>_.
     bind_r (with_context (''enable '' @ provider @ '' TCP keepalive'') (keepalive D)) (\<lambda>_.
     bind_r (with_context (''enable '' @ provider @ '' TCP user timeout'') (user_timeout D)) (\<lambda>_.
     bind_r (with_context (''read '' @ provider @ '' peer address for '' @ host) (peer_addr D)) (\<lambda>peer.
     bind_r (with_context (''invalid '' @ provider @ '' TLS server name'') (server_name D host)) (\<lambda>_.
     bind_r (timed (provider @ '' TLS handshake timed out'') (''complete '' @ provider @ '' TLS handshake'') (handshake D)) (\<lambda>certificates.
     bind_r (ok_or (Option.bind certificates (nth_o 0)) (provider @ '' TLS peer sent no certificate'')) (\<lambda>leaf.
     bind_r (with_context (''start HTTP/1.1 over '' @ provider @ '' TLS'') (http1 D)) (\<lambda>(sender, driver).
     Ok \<lparr>up_sender = sender, up_driver = driver, leaf = leaf, peer = peer\<rparr>)))))))))"

section \<open>Attempts\<close>

text \<open>The attempts left, and the pauses in milliseconds taken between them.\<close>

fun attempts :: "(nat \<Rightarrow> anyhow + 'a) \<Rightarrow> nat list \<Rightarrow> string list \<Rightarrow> nat list \<times> (string list + 'a)" where
  "attempts operation [] failures = ([], Err failures)"
| "attempts operation (attempt # as) failures =
     (case operation (attempt - 1) of
        Inr v \<Rightarrow> ([], Ok v)
      | Inl e \<Rightarrow>
          let (pauses, result) = attempts operation as (failures @ [''attempt '' @ nat_to_string attempt @ '': '' @ e])
          in (if attempt < ATTESTATION_ATTEMPTS then 100 * attempt # pauses else pauses, result))"

definition retry_attestation :: "string \<Rightarrow> (nat \<Rightarrow> anyhow + 'a) \<Rightarrow> nat list \<times> (anyhow + 'a)" where
  "retry_attestation provider operation =
     (let (pauses, result) = attempts operation [1..<ATTESTATION_ATTEMPTS + 1] []
      in (pauses, map_err (\<lambda>failures. provider @ '' attestation failed after '' @ nat_to_string ATTESTATION_ATTEMPTS @
            '' attempts: '' @ join ''; '' failures) result))"

section \<open>Messages\<close>

definition HOP_BY_HOP :: "string list" where
  "HOP_BY_HOP = [''connection'', ''transfer-encoding'', ''upgrade'', ''keep-alive'', ''proxy-authenticate'', ''proxy-authorization'']"

definition remove_header :: "string \<Rightarrow> header_map \<Rightarrow> header_map" where
  "remove_header name hs = filter (\<lambda>h. fst h \<noteq> name) hs"

text \<open>\<^verbatim>\<open>HeaderMap::insert\<close>: the new value replaces every old one.\<close>

definition set_header :: "string \<Rightarrow> string \<Rightarrow> header_map \<Rightarrow> header_map" where
  "set_header name v hs = remove_header name hs @ [(name, v)]"

definition strip_hop_by_hop :: "header_map \<Rightarrow> header_map" where
  "strip_hop_by_hop hs = foldl (\<lambda>hs name. remove_header name hs) hs HOP_BY_HOP"

definition finish_connection :: "string \<Rightarrow> anyhow + anyhow + anyhow + unit \<Rightarrow> anyhow + unit" where
  "finish_connection provider outcome =
     (case outcome of
        Inl _ \<Rightarrow> Ok ()
      | Inr joined \<Rightarrow>
          bind_r (with_context (''join '' @ provider @ '' HTTP connection'') joined) (\<lambda>r.
          with_context (provider @ '' HTTP connection'') r))"

record proxy_response =
  proxy_status :: u16
  proxy_headers :: header_map
  proxy_body :: string

definition error_response :: "(json \<Rightarrow> string) \<Rightarrow> string \<Rightarrow> proxy_response" where
  "error_response show_json provider =
     \<lparr>proxy_status = 502, proxy_headers = [(''content-type'', ''application/json'')],
      proxy_body = show_json (JObject [(''error'', JString (provider @ '' upstream attestation failed''))])\<rparr>"

fun option_value :: "string list \<Rightarrow> string \<Rightarrow> anyhow + string option" where
  "option_value [] opt = Ok None"
| "option_value (a # as) opt =
     (if a = opt then map_r Some (ok_or (nth_o 0 as) (opt @ '' requires a value'')) else option_value as opt)"

section \<open>Laws\<close>

text \<open>
  A retry reaches a different peer when there is one: over as many consecutive attempts as there are addresses,
  each is dialled exactly once.
\<close>

lemma sorted_addresses [simp]: "distinct (sorted_addresses as)" "set (sorted_addresses as) = set as"
proof -
  have "sorted xs \<Longrightarrow> distinct (remdups_adj xs)" for xs :: "'a list"
    by (induction xs rule: remdups_adj.induct) (auto simp: less_le)
  then show "distinct (sorted_addresses as)" by (simp add: sorted_addresses_def)
qed (simp add: sorted_addresses_def)

lemma pick_address_mod: "as \<noteq> [] \<Longrightarrow> pick_address as i = Some (sorted_addresses as ! (i mod length (sorted_addresses as)))"
proof -
  assume "as \<noteq> []"
  then have "sorted_addresses as \<noteq> []" by (metis list.set(1) set_empty sorted_addresses(2))
  then have "0 < length (sorted_addresses as)" by simp
  then have "max (length (sorted_addresses as)) 1 = length (sorted_addresses as)" by linarith
  with \<open>0 < length (sorted_addresses as)\<close> show ?thesis by (simp add: pick_address_def Let_def nth_o_def)
qed

lemma mod_window: "bij_betw (\<lambda>i. i mod n) {a ..< a + n} {..< n :: nat}" if "0 < n"
proof -
  have "inj_on (\<lambda>i. i mod n) {a ..< a + n}"
  proof (rule inj_onI)
    fix i j assume i: "i \<in> {a ..< a + n}" and j: "j \<in> {a ..< a + n}" and eq: "i mod n = j mod n"
    have "n dvd (if i \<le> j then j - i else i - j)"
      using mod_eq_dvd_iff_nat [of i j n] mod_eq_dvd_iff_nat [of j i n] eq by (simp split: if_split)
    then show "i = j" using i j by (auto dest: dvd_imp_le split: if_splits)
  qed
  moreover from this have "card ((\<lambda>i. i mod n) ` {a ..< a + n}) = n" by (simp add: card_image)
  then have "(\<lambda>i. i mod n) ` {a ..< a + n} = {..< n}"
    using that by (intro card_subset_eq) auto
  ultimately show ?thesis by (simp add: bij_betw_def)
qed

text \<open>
  Over as many consecutive attempts as a host has distinct addresses, each address is dialled exactly once.
\<close>

theorem attempts_rotate_addresses:
  assumes "as \<noteq> []"
  shows "bij_betw (\<lambda>i. the (pick_address as i)) {a ..< a + card (set as)} (set as)"
proof -
  let ?s = "sorted_addresses as"
  have n: "length ?s = card (set as)" using distinct_card [of ?s] by simp
  then have pos: "0 < length ?s" using assms by (simp add: card_gt_0_iff)
  have "bij_betw (\<lambda>i. ?s ! (i mod length ?s)) {a ..< a + length ?s} (set ?s)"
    using bij_betw_trans [OF mod_window [OF pos] bij_betw_nth [OF sorted_addresses(1) refl refl]]
    by (simp add: comp_def)
  then show ?thesis
    using pick_address_mod [OF assms] n by simp
qed

theorem attempts_rotate_addresses_witness:
  "bij_betw (\<lambda>i. the (pick_address [3, 1, 3 :: nat] i)) {1 ..< 3} {1, 3}"
  using attempts_rotate_addresses [of "[3, 1, 3 :: nat]" 1] by (simp add: insert_commute numeral_3_eq_3)

text \<open>Attempts end with the first success, and with every failure when none succeeds.\<close>

lemma attempts_Ok:
  "attempts f as fs = (pauses, Ok v) \<Longrightarrow>
     \<exists>pre a post. as = pre @ a # post \<and> f (a - 1) = Ok v \<and> (\<forall>b \<in> set pre. \<exists>e. f (b - 1) = Err e)"
proof (induction as arbitrary: fs pauses)
  case (Cons a as)
  show ?case
  proof (cases "f (a - 1)")
    case (Inl e)
    with Cons.prems obtain ps where "attempts f as (fs @ [''attempt '' @ nat_to_string a @ '': '' @ e]) = (ps, Ok v)"
      by (auto simp: Let_def split: prod.splits if_splits)
    with Cons.IH obtain pre b post where "as = pre @ b # post" "f (b - 1) = Ok v" "\<forall>b \<in> set pre. \<exists>e. f (b - 1) = Err e"
      by blast
    with Inl show ?thesis by (intro exI [of _ "a # pre"]) auto
  next
    case (Inr w)
    with Cons.prems show ?thesis by (intro exI [of _ "[]"]) auto
  qed
qed simp

lemma attempt_list: "[1 ..< ATTESTATION_ATTEMPTS + 1] = [1, 2, 3]"
  by (simp add: ATTESTATION_ATTEMPTS_def upt_rec)

lemma retry_attestation_Ok:
  assumes "retry_attestation provider f = (pauses, Ok v)"
  shows "\<exists>i < ATTESTATION_ATTEMPTS. f i = Ok v \<and> (\<forall>j < i. \<exists>e. f j = Err e)"
proof -
  from assms have "\<exists>ps. attempts f [1, 2, 3] [] = (ps, Ok v)"
    unfolding retry_attestation_def attempt_list
    by (cases "attempts f [1, 2, 3] []") (simp add: result_simps del: attempts.simps)
  then obtain ps where ps: "attempts f [1, 2, 3] [] = (ps, Ok v)" ..
  from attempts_Ok [OF ps] obtain pre a post where as: "[1, 2, 3] = pre @ a # post" "f (a - 1) = Ok v"
    and pre: "\<forall>b \<in> set pre. \<exists>e. f (b - 1) = Err e"
    by (elim exE conjE) (rule that)
  have "length pre + Suc (length post) = length [1, 2, 3 :: nat]" unfolding as(1) by simp
  then have "length pre < 3" by (simp only: list.size)
  moreover have "pre = take (length pre) [1, 2, 3]" "a = [1, 2, 3] ! length pre"
    unfolding as(1) by simp_all
  ultimately consider "pre = []" "a = 1" | "pre = [1]" "a = 2" | "pre = [1, 2]" "a = 3"
    by (auto simp: less_Suc_eq numeral_3_eq_3)
  then show ?thesis
  proof cases
    case 1
    with as(2) show ?thesis by (intro exI [of _ 0]) (simp add: ATTESTATION_ATTEMPTS_def)
  next
    case 2
    with as(2) pre show ?thesis by (intro exI [of _ 1]) (simp add: ATTESTATION_ATTEMPTS_def)
  next
    case 3
    with as(2) pre show ?thesis
      by (intro exI [of _ 2]) (simp add: ATTESTATION_ATTEMPTS_def less_2_cases_iff)
  qed
qed

lemma snd_retry_attestation:
  assumes "snd (retry_attestation provider f) = Ok v"
  shows "\<exists>i < ATTESTATION_ATTEMPTS. f i = Ok v \<and> (\<forall>j < i. \<exists>e. f j = Err e)"
proof -
  obtain pauses r where r: "retry_attestation provider f = (pauses, r)" by (cases "retry_attestation provider f")
  with assms have "retry_attestation provider f = (pauses, Ok v)" by simp
  then show ?thesis by (rule retry_attestation_Ok)
qed

text \<open>Stripping removes the connection's own headers and nothing else.\<close>

lemma strip_hop_by_hop: "strip_hop_by_hop hs = filter (\<lambda>h. fst h \<notin> set HOP_BY_HOP) hs"
  by (simp add: strip_hop_by_hop_def HOP_BY_HOP_def remove_header_def conj_ac)

end
