(* ===== verification/Attested_Checkout.thy ===== *)
theory Attested_Checkout
  imports Upstream_Proxy
begin

text \<open>
  The loop both verifiers run to find a pooled connection (\<^verbatim>\<open>checkout\<close> of \<^verbatim>\<open>near_verify.rs\<close> and of
  \<^verbatim>\<open>kubetee_verify/mod.rs\<close>): connections are taken from the pool until one accepts a request within a second and is
  still usable; the others are retired.

  Waiting for readiness is an await: other requests use the pool meanwhile. Turn \<open>k\<close> of the environment says what
  the loop observes, and what the pool has become when it resumes. Nothing bounds how often others return
  connections, so the loop is a partial function and its end is a lemma of its own.
\<close>

named_theorems checkout_simps

record take_turn =
  take_world :: world
  ready :: bool
  ready_world :: world
  meanwhile :: "Pool \<Rightarrow> Pool"

partial_function (option) take_ready ::
    "(nat \<Rightarrow> take_turn) \<Rightarrow> nat \<Rightarrow> Pool \<Rightarrow> (Attested option \<times> Pool \<times> nat list) option" where
  "take_ready env k p =
     (case pool_take (take_world (env k)) p of
        (found, p, dropped) \<Rightarrow>
          (case found of
             None \<Rightarrow> Some (None, p, dropped)
           | Some c \<Rightarrow>
               if ready (env k) \<and> usable (ready_world (env k)) (limits p) c
               then Some (Some c, meanwhile (env k) p, dropped)
               else Option.bind (take_ready env (Suc k) (meanwhile (env k) p)) (\<lambda>(r, q, later).
                    Some (r, q, dropped @ retire c @ later))))"

text \<open>Every idle connection of a pool has the property.\<close>

definition idle_all :: "(Attested \<Rightarrow> bool) \<Rightarrow> Pool \<Rightarrow> bool" where
  "idle_all G p \<longleftrightarrow> (\<forall>c \<in> set (idle p). G c)"

lemma idle_all_mono: "idle_all G p \<Longrightarrow> (\<And>c. G c \<Longrightarrow> G' c) \<Longrightarrow> idle_all G' p"
  by (auto simp: idle_all_def)

text \<open>A property that ignores since when a connection has been idle is kept by returning and leasing one.\<close>

lemma give_back_idle:
  assumes "give_back w1 w2 c p = (q, d)" and "idle_all G p" and "G c" and "\<And>c t. G c \<Longrightarrow> G (c\<lparr>idle_since := t\<rparr>)"
  shows "idle_all G q"
  using assms by (auto simp: give_back_def idle_all_def Let_def sweep_def split: if_splits prod.splits)

lemma Lease_new_idle:
  assumes "Lease_new w1 w2 ended c p = (lease, q, d)" and "idle_all G p" and "G c" and "\<And>c t. G c \<Longrightarrow> G (c\<lparr>idle_since := t\<rparr>)"
  shows "idle_all G q"
  using assms give_back_idle [of w1 w2 c p _ _ G]
  by (auto simp: Lease_new_def give_back_if_read_def give_back_connection_def split: if_splits prod.splits)

lemma pool_take_parts:
  assumes "pool_take w p = (found, q, dropped)"
  shows "limits q = limits p" and "set (idle q) \<subseteq> set (idle p)"
    and "found = Some c \<Longrightarrow> c \<in> set (idle p)"
    and "found = Some c \<Longrightarrow> length (idle q) < length (idle p)"
proof -
  let ?kept = "filter (usable w (limits p)) (idle p)"
  from assms have q: "q = (if ?kept = [] then p\<lparr>idle := []\<rparr> else p\<lparr>idle := butlast ?kept\<rparr>)"
    and f: "found = (if ?kept = [] then None else Some (last ?kept))"
    by (auto simp: pool_take_def sweep_def Let_def split: if_splits)
  show "limits q = limits p" using q by simp
  show "set (idle q) \<subseteq> set (idle p)"
    using q by (auto dest!: in_set_butlastD)
  show "c \<in> set (idle p)" if "found = Some c"
  proof -
    from that f have "c \<in> set ?kept" using last_in_set [of ?kept] by (auto split: if_splits)
    then show ?thesis by simp
  qed
  show "length (idle q) < length (idle p)" if "found = Some c"
  proof -
    from that f have ne: "?kept \<noteq> []" by (auto split: if_splits)
    then have "length (idle q) < length ?kept" using q by simp
    also have "\<dots> \<le> length (idle p)" by (rule length_filter_le)
    finally show ?thesis .
  qed
qed

text \<open>What the loop hands out was ready and usable, and came from the pool.\<close>

lemma take_ready_result:
  assumes "take_ready env k p = Some (found, q, dropped)" and "idle_all G p"
    and "\<And>k p. idle_all G p \<Longrightarrow> idle_all G (meanwhile (env k) p)" and "\<And>k p. limits (meanwhile (env k) p) = limits p"
  shows "idle_all G q \<and> limits q = limits p
    \<and> (\<forall>c. found = Some c \<longrightarrow> G c \<and> (\<exists>j \<ge> k. ready (env j) \<and> usable (ready_world (env j)) (limits p) c))"
proof -
  let ?Q = "\<lambda>k p r. idle_all G p \<longrightarrow> (case r of (found, q, dropped) \<Rightarrow> idle_all G q \<and> limits q = limits p
      \<and> (\<forall>c. found = Some c \<longrightarrow> G c \<and> (\<exists>j \<ge> k. ready (env j) \<and> usable (ready_world (env j)) (limits p) c)))"
  have "env' = env \<longrightarrow> ?Q k p r" if ret: "take_ready env' k p = Some r" for env' k p r
  proof (rule take_ready.raw_induct [where P = "\<lambda>env' k p r. env' = env \<longrightarrow> ?Q k p r", OF _ ret], intro impI)
    fix f env' k p r
    assume IH: "\<And>env' k p r. f env' k p = Some r \<Longrightarrow> env' = env \<longrightarrow> ?Q k p r" and "env' = env" and good: "idle_all G p"
      and eq: "(case pool_take (take_world (env' k)) p of
        (found, p, dropped) \<Rightarrow>
          (case found of
             None \<Rightarrow> Some (None, p, dropped)
           | Some c \<Rightarrow>
               if ready (env' k) \<and> usable (ready_world (env' k)) (limits p) c
               then Some (Some c, meanwhile (env' k) p, dropped)
               else Option.bind (f env' (Suc k) (meanwhile (env' k) p)) (\<lambda>(r, q, later).
                    Some (r, q, dropped @ retire c @ later)))) = Some r"
    obtain found p1 d where take: "pool_take (take_world (env k)) p = (found, p1, d)" by (metis prod_cases3)
    note parts = pool_take_parts [OF take]
    have good1: "idle_all G p1" using parts(2) good by (auto simp: idle_all_def)
    show "case r of (found, q, dropped) \<Rightarrow> idle_all G q \<and> limits q = limits p
      \<and> (\<forall>c. found = Some c \<longrightarrow> G c \<and> (\<exists>j \<ge> k. ready (env j) \<and> usable (ready_world (env j)) (limits p) c))"
    proof (cases found)
      case None
      with eq take \<open>env' = env\<close> good1 parts(1) show ?thesis by auto
    next
      case (Some c)
      with good parts(3) [OF Some] have "G c" by (auto simp: idle_all_def)
      have p2: "idle_all G (meanwhile (env k) p1)" "limits (meanwhile (env k) p1) = limits p"
        using assms(3,4) good1 parts(1) by auto
      show ?thesis
      proof (cases "ready (env k) \<and> usable (ready_world (env k)) (limits p1) c")
        case True
        with eq take \<open>env' = env\<close> Some p2 \<open>G c\<close> parts(1) show ?thesis by auto
      next
        case False
        with eq take \<open>env' = env\<close> Some obtain r' q' l where
          "f env (Suc k) (meanwhile (env k) p1) = Some (r', q', l)" and r: "r = (r', q', d @ retire c @ l)"
          by (auto simp: bind_eq_Some_conv)
        with IH [of env "Suc k" "meanwhile (env k) p1" "(r', q', l)"] p2 show ?thesis
          by (auto intro: Suc_leD)
      qed
    qed
  qed
  from this [OF assms(1)] assms(2) show ?thesis by simp
qed

text \<open>It ends when no other request returns a connection while it waits.\<close>

lemma take_ready_ends:
  assumes "\<And>k p. length (idle (meanwhile (env k) p)) \<le> length (idle p)"
  shows "\<exists>r. take_ready env k p = Some r"
proof (induction "length (idle p)" arbitrary: k p rule: less_induct)
  case less
  obtain found p1 d where take: "pool_take (take_world (env k)) p = (found, p1, d)" by (metis prod_cases3)
  show ?case
  proof (cases found)
    case None
    with take show ?thesis by (subst take_ready.simps) simp
  next
    case (Some c)
    with pool_take_parts(4) [OF take] assms [of k p1] have "length (idle (meanwhile (env k) p1)) < length (idle p)"
      by fastforce
    from less [OF this, of "Suc k"] obtain r where "take_ready env (Suc k) (meanwhile (env k) p1) = Some r" by blast
    with take Some show ?thesis by (subst take_ready.simps) (cases r; simp)
  qed
qed

end
