(* ===== verification/Near_Verify.thy ===== *)
theory Near_Verify
  imports Attested_Checkout
begin

text \<open>
  The NEAR verifier (\<^verbatim>\<open>attestd/src/near_verify.rs\<close>): connecting to a model's endpoint, attesting the connection,
  and forwarding a request on an attested connection, again on a fresh one when the first never took it.

  What a connection attempt, a send or an await meets is in the environment records. Dropping a connection whose
  attestation failed only ends it, so an attempt returns its result alone; retired connections of the pool are
  returned as drivers, as in \<open>Attested_Pool\<close>.
\<close>

named_theorems near_simps

definition NEAR_PROVIDER :: string where "NEAR_PROVIDER = ''NEAR''"
definition NEAR_SELECTOR :: string where "NEAR_SELECTOR = ''x-gm-upstream-model''"
definition ATTESTATION_LIMIT :: nat where "ATTESTATION_LIMIT = 2 * 1024 * 1024"
definition NEAR_CHAT :: string where "NEAR_CHAT = ''/v1/chat/completions''"
definition IMAGES_GENERATIONS :: string where "IMAGES_GENERATIONS = ''/v1/images/generations''"

record NearTarget =
  near_model :: string
  near_host :: string
  near_path :: string

definition NEAR_TARGETS :: "NearTarget list" where
  "NEAR_TARGETS =
    [\<lparr>near_model = ''Qwen/Qwen3.8-27B'', near_host = ''qwen3-8-27b.completions.near.ai'', near_path = NEAR_CHAT\<rparr>,
     \<lparr>near_model = ''z-ai/glm-5.3-flash'', near_host = ''glm-5-3-flash.completions.near.ai'', near_path = NEAR_CHAT\<rparr>,
     \<lparr>near_model = ''black-forest-labs/FLUX.2-klein-4B'', near_host = ''flux2-klein.completions.near.ai'',
        near_path = IMAGES_GENERATIONS\<rparr>]"

type_synonym near_pools = "(NearTarget, Pool) hash_map"

definition make_pools :: near_pools where
  "make_pools = map (\<lambda>t. (t, Pool_new PoolLimits_default)) NEAR_TARGETS"

definition near_target_for_model :: "string \<Rightarrow> NearTarget option" where
  "near_target_for_model m = find (\<lambda>t. near_model t = m) NEAR_TARGETS"

section \<open>Evidence\<close>

record NearAttestation =
  model_name :: string
  signing_address :: string
  signing_algo :: string
  request_nonce :: string
  intel_quote :: string
  nvidia_payload :: string
  tls_cert_fingerprint :: string
  tcb_info :: json

record AttestedFields =
  quoted_data :: string
  quoted_config :: string

record near_lib =
  near_tee :: tee_lib
  attestation_slice :: "string \<Rightarrow> anyhow + NearAttestation"
  app_compose_str :: "string \<Rightarrow> anyhow + string"
  header_text :: "string \<Rightarrow> anyhow + string"
  parse_value :: "string \<Rightarrow> anyhow + string"
  parse_uri :: "string \<Rightarrow> anyhow + string \<times> string option"
  near_status :: "u16 \<Rightarrow> string"
  body_error :: anyhow
  length_limit_error :: anyhow

definition verify_compose_binding :: "near_lib \<Rightarrow> NearAttestation \<Rightarrow> string \<Rightarrow> anyhow + unit" where
  "verify_compose_binding N att config =
     bind_r (case tcb_info att of
         JObject m \<Rightarrow> Ok (JObject m)
       | JString encoded \<Rightarrow> with_context ''decode TCB info'' (json_of (near_tee N) encoded)
       | _ \<Rightarrow> Err ''NEAR attestation TCB info has an invalid shape'') (\<lambda>info.
     bind_r (ok_or (Option.bind (json_get ''app_compose'' info) as_str) ''NEAR attestation has no app_compose'') (\<lambda>app_compose.
     bind_r (with_context ''decode app_compose'' (app_compose_str N app_compose)) (\<lambda>compose.
     bind_r (ensure (trim compose \<noteq> []) ''NEAR attested compose file is empty'') (\<lambda>_.
     ensure (config ! 0 = CHR 0x01 \<and> take 32 (drop 1 config) = sha256 (near_tee N) app_compose)
       ''NEAR app_compose does not match the verified TDX mr_config_id''))))"

definition hex32 :: "near_lib \<Rightarrow> string \<Rightarrow> string \<Rightarrow> string \<Rightarrow> anyhow + string" where
  "hex32 N context wrong_length s =
     bind_r (with_context context (hex_decode (near_tee N) s)) (\<lambda>b.
     bind_r (ensure (length b = 32) wrong_length) (\<lambda>_. Ok b))"

definition verify_identity :: "near_lib \<Rightarrow> NearAttestation \<Rightarrow> NearTarget \<Rightarrow> string \<Rightarrow> string \<Rightarrow> AttestedFields \<Rightarrow> anyhow + unit" where
  "verify_identity N att target nonce live_spki fs =
     bind_r (ensure (model_name att = near_model target) ''attested model does not match the selected NEAR model'') (\<lambda>_.
     bind_r (ensure (signing_algo att = ''ed25519'') ''NEAR attestation did not use the requested ed25519 signing key'') (\<lambda>_.
     bind_r (ensure (eq_ignore_ascii_case (request_nonce att) (hex_encode (near_tee N) nonce))
       ''NEAR attestation response nonce is stale or mismatched'') (\<lambda>_.
     bind_r (hex32 N ''decode attested TLS fingerprint'' ''attested TLS fingerprint is not 32 bytes'' (tls_cert_fingerprint att)) (\<lambda>attested_spki.
     bind_r (ensure (attested_spki = live_spki) ''live NEAR TLS key does not match the attested fingerprint'') (\<lambda>_.
     bind_r (hex32 N ''decode attested ed25519 signing key'' ''attested ed25519 signing key is not 32 bytes'' (signing_address att)) (\<lambda>signing_key.
     bind_r (ensure (take 32 (quoted_data fs) = sha256 (near_tee N) (signing_key @ live_spki) \<and> drop 32 (quoted_data fs) = nonce)
       ''TDX report_data does not bind the signing key, live TLS key, and fresh nonce'') (\<lambda>_.
     verify_compose_binding N att (quoted_config fs))))))))"

definition verify_nras_response :: "near_lib \<Rightarrow> json \<Rightarrow> anyhow + unit" where
  "verify_nras_response N response =
     bind_r (aggregate_token response) (\<lambda>token.
     bind_r (unverified_claims (near_tee N) token) (\<lambda>verdict.
     require_overall_success verdict))"

text \<open>\<^verbatim>\<open>gpu_verdict\<close>: sending, the status, decoding.\<close>

definition gpu_verdict :: "anyhow + anyhow + anyhow + json \<Rightarrow> anyhow + json" where
  "gpu_verdict answer =
     bind_r (with_context ''submit GPU evidence to NVIDIA NRAS'' answer) (\<lambda>r.
     bind_r (with_context ''NVIDIA NRAS rejected GPU evidence'' r) (\<lambda>r.
     with_context ''decode NVIDIA NRAS verdict'' r))"

definition verify_gpu :: "near_lib \<Rightarrow> NearAttestation \<Rightarrow> string \<Rightarrow> anyhow + anyhow + anyhow + json \<Rightarrow> anyhow + unit" where
  "verify_gpu N att nonce answer =
     bind_r (with_context ''decode NVIDIA evidence'' (json_of (near_tee N) (nvidia_payload att))) (\<lambda>payload.
     bind_r (ok_or (Option.bind (json_get ''nonce'' payload) as_str) ''NVIDIA evidence has no nonce'') (\<lambda>payload_nonce.
     bind_r (ensure (eq_ignore_ascii_case payload_nonce (hex_encode (near_tee N) nonce))
       ''NVIDIA evidence nonce does not match the fresh TDX nonce'') (\<lambda>_.
     bind_r (gpu_verdict answer) (\<lambda>response.
     verify_nras_response N response))))"

section \<open>Attesting a connection\<close>

record 'a near_attempt =
  dialled :: "'a dial"
  opened_at :: instant
  fresh_nonce :: string
  report_deadline :: "anyhow + unit"
  report_answer :: "anyhow + http_response"
  near_collateral :: "anyhow + string"
  near_clock :: "anyhow + u64"
  nras_verdict :: "anyhow + anyhow + anyhow + json"

definition fetch_attestation :: "near_lib \<Rightarrow> anyhow + unit \<Rightarrow> anyhow + http_response \<Rightarrow> anyhow + string" where
  "fetch_attestation N deadline answer =
     bind_r (with_context ''NEAR attestation request timed out'' deadline) (\<lambda>_.
     bind_r (with_context ''send NEAR attestation request'' answer) (\<lambda>r.
     bind_r (ensure (status_code r = 200) (''NEAR attestation endpoint returned '' @ near_status N (status_code r))) (\<lambda>_.
     read_bounded (''read NEAR attestation response: '' @ body_error N) (''read NEAR attestation response: '' @ length_limit_error N)
       ATTESTATION_LIMIT (response_body r) [])))"

definition quote_fields :: "near_lib \<Rightarrow> 'a near_attempt \<Rightarrow> string \<Rightarrow> anyhow + AttestedFields" where
  "quote_fields N a raw_quote =
     bind_r (with_context ''verify NEAR TDX quote against Intel collateral''
       (verify_quote (near_tee N) (near_collateral a) (near_clock a) raw_quote)) (\<lambda>claims.
     bind_r (with_context ''NEAR attestation'' (td_report (report claims))) (\<lambda>td.
     Ok \<lparr>quoted_data = report_data td, quoted_config = mr_config_id td\<rparr>))"

definition attest_near :: "near_lib \<Rightarrow> 'a near_attempt \<Rightarrow> NearTarget \<Rightarrow> string \<Rightarrow> anyhow + unit" where
  "attest_near N a target live_spki =
     bind_r (fetch_attestation N (report_deadline a) (report_answer a)) (\<lambda>body.
     bind_r (with_context ''decode NEAR attestation response'' (attestation_slice N body)) (\<lambda>att.
     bind_r (with_context ''decode NEAR TDX quote'' (hex_decode (near_tee N) (intel_quote att))) (\<lambda>raw_quote.
     bind_r (quote_fields N a raw_quote) (\<lambda>fs.
     bind_r (verify_identity N att target (fresh_nonce a) live_spki fs) (\<lambda>_.
     verify_gpu N att (fresh_nonce a) (nras_verdict a))))))"

definition connect_near :: "near_lib \<Rightarrow> 'a::linorder near_attempt \<Rightarrow> NearTarget \<Rightarrow> 'a option \<Rightarrow> nat \<Rightarrow> anyhow + 'a UpstreamConnection \<times> string" where
  "connect_near N a target address attempt =
     bind_r (connect (dialled a) NEAR_PROVIDER (near_host target) address attempt) (\<lambda>up.
     bind_r (with_context ''hash NEAR TLS certificate key'' (spki_sha256 (near_tee N) (leaf up))) (\<lambda>live_spki.
     Ok (up, live_spki)))"

definition connect_and_attest_once :: "near_lib \<Rightarrow> 'a::linorder near_attempt \<Rightarrow> NearTarget \<Rightarrow> 'a option \<Rightarrow> nat \<Rightarrow> anyhow + Attested" where
  "connect_and_attest_once N a target address attempt =
     bind_r (connect_near N a target address attempt) (\<lambda>(up, live_spki).
     bind_r (with_context (''attest '' @ near_host target @ '' via '' @ show_address (dialled a) (peer up))
       (attest_near N a target live_spki)) (\<lambda>_.
     Ok \<lparr>sender = up_sender up, driver = up_driver up, attested_at = opened_at a, idle_since = None,
         expires_at = None, requests = 0\<rparr>))"

definition connect_and_attest :: "near_lib \<Rightarrow> (nat \<Rightarrow> 'a::linorder near_attempt) \<Rightarrow> NearTarget \<Rightarrow> anyhow + Attested" where
  "connect_and_attest N env target =
     snd (retry_attestation NEAR_PROVIDER (\<lambda>i. connect_and_attest_once N (env i) target None i))"

text \<open>\<^verbatim>\<open>finish_preflight\<close> waits for the driver after dropping the sender; \<open>placeholder\<close> is the dummy sender's handshake.\<close>

definition finish_preflight :: "anyhow + unit \<Rightarrow> anyhow + anyhow + anyhow + unit \<Rightarrow> Attested \<Rightarrow> anyhow + unit" where
  "finish_preflight placeholder outcome c =
     bind_r (with_context ''prepare NEAR preflight connection shutdown'' placeholder) (\<lambda>_.
     case outcome of
       Inl _ \<Rightarrow> Ok ()
     | Inr joined \<Rightarrow>
         bind_r (with_context ''join NEAR HTTP connection'' joined) (\<lambda>r. with_context ''NEAR HTTP connection'' r))"

definition preflight :: "near_lib \<Rightarrow> (nat \<Rightarrow> 'a::linorder near_attempt) \<Rightarrow> NearTarget \<Rightarrow> anyhow + unit
    \<Rightarrow> anyhow + anyhow + anyhow + unit \<Rightarrow> anyhow + unit" where
  "preflight N env target placeholder outcome =
     bind_r (connect_and_attest N env target) (finish_preflight placeholder outcome)"

definition preflight_at :: "near_lib \<Rightarrow> 'a::linorder near_attempt \<Rightarrow> NearTarget \<Rightarrow> 'a \<Rightarrow> anyhow + unit
    \<Rightarrow> anyhow + anyhow + anyhow + unit \<Rightarrow> anyhow + unit" where
  "preflight_at N a target address placeholder outcome =
     bind_r (connect_and_attest_once N a target (Some address) 0) (finish_preflight placeholder outcome)"

section \<open>Laws\<close>

lemma hex32_Ok [near_simps]: "hex32 N c w s = Ok b \<longleftrightarrow> hex_decode (near_tee N) s = Ok b \<and> length b = 32"
  by (auto simp: hex32_def result_simps)

text \<open>The compose file whose hash the quote's \<^verbatim>\<open>mr_config_id\<close> carries.\<close>

definition compose_bound :: "near_lib \<Rightarrow> NearAttestation \<Rightarrow> string \<Rightarrow> bool" where
  "compose_bound N att config \<longleftrightarrow> (\<exists>info app_compose compose.
     (tcb_info att = info \<and> as_object info \<noteq> None \<or> (\<exists>s. tcb_info att = JString s \<and> json_of (near_tee N) s = Ok info))
     \<and> json_get ''app_compose'' info = Some (JString app_compose) \<and> app_compose_str N app_compose = Ok compose
     \<and> trim compose \<noteq> [] \<and> config ! 0 = CHR 0x01 \<and> take 32 (drop 1 config) = sha256 (near_tee N) app_compose)"

lemma verify_compose_binding_Ok [near_simps]: "verify_compose_binding N att config = Ok u \<longleftrightarrow> compose_bound N att config"
  by (cases "tcb_info att") (auto simp: verify_compose_binding_def compose_bound_def result_simps bind_eq_Some_conv json_get_def)

text \<open>The quoted report data binds the signing key and this connection's TLS key, and then our nonce.\<close>

definition identity_bound :: "near_lib \<Rightarrow> NearAttestation \<Rightarrow> NearTarget \<Rightarrow> string \<Rightarrow> string \<Rightarrow> AttestedFields \<Rightarrow> bool" where
  "identity_bound N att target nonce live_spki fs \<longleftrightarrow>
     model_name att = near_model target \<and> signing_algo att = ''ed25519''
     \<and> eq_ignore_ascii_case (request_nonce att) (hex_encode (near_tee N) nonce)
     \<and> hex_decode (near_tee N) (tls_cert_fingerprint att) = Ok live_spki \<and> length live_spki = 32
     \<and> (\<exists>key. hex_decode (near_tee N) (signing_address att) = Ok key \<and> length key = 32
          \<and> quoted_data fs = sha256 (near_tee N) (key @ live_spki) @ nonce)
     \<and> compose_bound N att (quoted_config fs)"

lemma verify_identity_Ok [near_simps]:
  assumes "\<And>x. length (sha256 (near_tee N) x) = 32"
  shows "verify_identity N att target nonce live_spki fs = Ok u \<longleftrightarrow> identity_bound N att target nonce live_spki fs"
proof -
  have "take 32 d = sha256 (near_tee N) x \<and> drop 32 d = nonce \<longleftrightarrow> d = sha256 (near_tee N) x @ nonce" for d x
    using assms [of x] by (metis append_eq_conv_conj append_take_drop_id)
  then show ?thesis
    by (auto simp: verify_identity_def identity_bound_def result_simps near_simps)
qed

definition gpu_bound :: "near_lib \<Rightarrow> NearAttestation \<Rightarrow> string \<Rightarrow> anyhow + anyhow + anyhow + json \<Rightarrow> bool" where
  "gpu_bound N att nonce answer \<longleftrightarrow> (\<exists>payload n response token verdict.
     json_of (near_tee N) (nvidia_payload att) = Ok payload \<and> json_get ''nonce'' payload = Some (JString n)
     \<and> eq_ignore_ascii_case n (hex_encode (near_tee N) nonce) \<and> answer = Ok (Ok (Ok response))
     \<and> aggregate_token response = Ok token \<and> unverified_claims (near_tee N) token = Ok verdict
     \<and> require_overall_success verdict = Ok ())"

lemma verify_gpu_Ok [near_simps]: "verify_gpu N att nonce answer = Ok u \<longleftrightarrow> gpu_bound N att nonce answer"
  by (auto simp: verify_gpu_def gpu_bound_def gpu_verdict_def verify_nras_response_def result_simps bind_eq_Some_conv)

text \<open>
  C14: A connection NEAR attestation accepts is the one the evidence describes: its leaf certificate's key is the
  attested fingerprint; a quote whose chain verified and whose TCB is up to date, with debug off, carries the hash
  of an ed25519 key and that TLS key followed by our nonce, names the selected model, and commits to a non-empty
  compose file; and the GPU evidence for our nonce has a passing verdict.
\<close>

theorem near_connection_bound:
  assumes "connect_and_attest_once N a target address attempt = Ok c"
    and "\<And>x. length (sha256 (near_tee N) x) = 32"
  shows "\<exists>up live_spki body att raw claims td.
     connect (dialled a) NEAR_PROVIDER (near_host target) address attempt = Ok up \<and> driver c = up_driver up \<and> requests c = 0
     \<and> spki_sha256 (near_tee N) (leaf up) = Ok live_spki
     \<and> fetch_attestation N (report_deadline a) (report_answer a) = Ok body \<and> attestation_slice N body = Ok att
     \<and> hex_decode (near_tee N) (intel_quote att) = Ok raw
     \<and> verify_quote (near_tee N) (near_collateral a) (near_clock a) raw = Ok claims
     \<and> td_report (report claims) = Ok td \<and> platform_tcb claims = UpToDate \<and> qe_tcb claims = UpToDate
     \<and> byte_of (td_attributes td ! 0) mod 2 = 0
     \<and> identity_bound N att target (fresh_nonce a) live_spki \<lparr>quoted_data = report_data td, quoted_config = mr_config_id td\<rparr>
     \<and> gpu_bound N att (fresh_nonce a) (nras_verdict a)"
proof -
  from assms(1) obtain up live_spki where up: "connect (dialled a) NEAR_PROVIDER (near_host target) address attempt = Ok up"
      "spki_sha256 (near_tee N) (leaf up) = Ok live_spki" "driver c = up_driver up" "requests c = 0"
    and att: "attest_near N a target live_spki = Ok ()"
    by (auto simp: connect_and_attest_once_def connect_near_def result_simps)
  from att obtain body att raw claims td where "fetch_attestation N (report_deadline a) (report_answer a) = Ok body"
    "attestation_slice N body = Ok att" "hex_decode (near_tee N) (intel_quote att) = Ok raw"
    and q: "verify_quote (near_tee N) (near_collateral a) (near_clock a) raw = Ok claims" "td_report (report claims) = Ok td"
    and "verify_identity N att target (fresh_nonce a) live_spki \<lparr>quoted_data = report_data td, quoted_config = mr_config_id td\<rparr> = Ok ()"
    and "verify_gpu N att (fresh_nonce a) (nras_verdict a) = Ok ()"
    unfolding attest_near_def quote_fields_def bind_r_eq_Ok with_context_eq_Ok sum.inject
    by (elim exE conjE, hypsubst) (rule that, assumption, assumption, assumption, assumption, assumption, simp_all)
  moreover from q have "platform_tcb claims = UpToDate \<and> qe_tcb claims = UpToDate \<and> byte_of (td_attributes td ! 0) mod 2 = 0"
    by (auto simp: verify_quote_def appraise_def result_simps)
  ultimately show ?thesis
    using up assms(2) by (auto simp: near_simps)
qed

section \<open>Witness\<close>

text \<open>A library in which every hash is the same 32 bytes, hex and base64 are the identity, and the evidence is fixed.\<close>

definition demo_hash :: string where "demo_hash = replicate 32 (CHR ''h'')"
definition demo_nonce :: string where "demo_nonce = replicate 32 (CHR ''n'')"
definition demo_target :: NearTarget where
  "demo_target = \<lparr>near_model = ''z-ai/glm-5.3-flash'', near_host = ''glm-5-3-flash.completions.near.ai'', near_path = NEAR_CHAT\<rparr>"

definition demo_quote_td :: TDReport10 where
  "demo_quote_td = \<lparr>td_attributes = [CHR 0x00], mr_td = [], mr_config_id = CHR 0x01 # demo_hash, rt_mr0 = [], rt_mr1 = [],
     rt_mr2 = [], rt_mr3 = [], report_data = demo_hash @ demo_nonce\<rparr>"

definition demo_quote :: QuoteClaims where
  "demo_quote = \<lparr>report = TD10 demo_quote_td, platform_tcb = UpToDate, qe_tcb = UpToDate, earliest_expiration_date = 300\<rparr>"

definition demo_leaf :: certificate where
  "demo_leaf = \<lparr>spki_raw = [], spki_data = [], is_rsa = True, is_p256 = False, currently_valid = True, not_after = 300\<rparr>"

definition demo_json_str :: "string \<Rightarrow> anyhow + json" where
  "demo_json_str s = (if s = ''P'' then Ok (JObject [(''nonce'', JString demo_nonce)])
     else if s = ''V'' then Ok (JObject [(''x-nvidia-overall-att-result'', JBool True)]) else Err [])"

definition demo_near_tee :: tee_lib where
  "demo_near_tee = \<lparr>json_of = demo_json_str, b64url = Ok, b64std = Ok, hex_encode = id, hex_decode = Ok,
     sha256 = (\<lambda>_. demo_hash), es384_ok = (\<lambda>_ _ _. True), rsa_ok = (\<lambda>_ _ _. True), parse_x509 = (\<lambda>_. Ok ([], demo_leaf)),
     jwks_document = (\<lambda>_. Err []), jwk_of_value = (\<lambda>_. None), verify_chain = (\<lambda>_ _ _. Ok demo_quote), strict_policy = (\<lambda>_ _. Ok ())\<rparr>"

definition demo_attestation :: NearAttestation where
  "demo_attestation = \<lparr>model_name = ''z-ai/glm-5.3-flash'', signing_address = replicate 32 (CHR ''k''), signing_algo = ''ed25519'',
     request_nonce = demo_nonce, intel_quote = ''q'', nvidia_payload = ''P'', tls_cert_fingerprint = demo_hash,
     tcb_info = JObject [(''app_compose'', JString ''c'')]\<rparr>"

definition demo_near :: near_lib where
  "demo_near = \<lparr>near_tee = demo_near_tee, attestation_slice = (\<lambda>_. Ok demo_attestation), app_compose_str = (\<lambda>_. Ok ''x''),
     header_text = Ok, parse_value = Ok, parse_uri = (\<lambda>p. Ok (p, Some p)), near_status = (\<lambda>_. []), body_error = [],
     length_limit_error = []\<rparr>"

definition demo_dial :: "nat dial" where
  "demo_dial = \<lparr>show_address = (\<lambda>_. []), resolved = Ok (Ok [1]), tcp = (\<lambda>_. Ok (Ok ())), keepalive = Ok (), user_timeout = Ok (),
     peer_addr = Ok 1, server_name = (\<lambda>_. Ok ()), handshake = Ok (Ok (Some [''leaf''])), http1 = Ok (4, 7)\<rparr>"

definition demo_attempt :: "nat near_attempt" where
  "demo_attempt = \<lparr>dialled = demo_dial, opened_at = 0, fresh_nonce = demo_nonce, report_deadline = Ok (),
     report_answer = Ok \<lparr>status_code = 200, response_headers = [], content_length = None, response_body = [Chunk ''r'']\<rparr>,
     near_collateral = Ok [], near_clock = Ok 100, nras_verdict = Ok (Ok (Ok (JArray [JArray [JString ''JWT'', JString ''h.V.s'']])))\<rparr>"

definition demo_connection :: Attested where
  "demo_connection = \<lparr>sender = 4, driver = 7, attested_at = 0, idle_since = None, expires_at = None, requests = 0\<rparr>"

lemma demo_hash_length [simp]: "length demo_hash = 32" by (simp add: demo_hash_def)

lemma demo_tee_fields [simp]:
  "near_tee demo_near = demo_near_tee" "sha256 demo_near_tee = (\<lambda>_. demo_hash)" "hex_decode demo_near_tee = Ok"
  "hex_encode demo_near_tee = id" "json_of demo_near_tee = demo_json_str" "b64url demo_near_tee = Ok"
  by (simp_all add: demo_near_def demo_near_tee_def)

lemma demo_connect: "connect demo_dial provider host None 0 = Ok \<lparr>up_sender = 4, up_driver = 7, leaf = ''leaf'', peer = 1\<rparr>"
  by (simp add: connect_def demo_dial_def timed_def pick_address_def sorted_addresses_def nth_o_def)

lemma demo_compose: "compose_bound demo_near demo_attestation (CHR 0x01 # demo_hash)"
proof -
  have "trim ''x'' \<noteq> []" by code_simp
  then show ?thesis
    unfolding compose_bound_def
    by (intro exI [of _ "tcb_info demo_attestation"] exI [of _ "''c''"] exI [of _ "''x''"])
       (simp add: demo_attestation_def demo_near_def json_get_def demo_near_tee_def)
qed

lemma demo_identity: "verify_identity demo_near demo_attestation demo_target demo_nonce demo_hash
    \<lparr>quoted_data = demo_hash @ demo_nonce, quoted_config = CHR 0x01 # demo_hash\<rparr> = Ok ()"
proof -
  have "identity_bound demo_near demo_attestation demo_target demo_nonce demo_hash
      \<lparr>quoted_data = demo_hash @ demo_nonce, quoted_config = CHR 0x01 # demo_hash\<rparr>"
    using demo_compose by (simp add: identity_bound_def demo_attestation_def demo_target_def eq_ignore_ascii_case_def)
  then show ?thesis by (simp add: verify_identity_Ok)
qed

lemma demo_gpu: "verify_gpu demo_near demo_attestation demo_nonce
    (Ok (Ok (Ok (JArray [JArray [JString ''JWT'', JString ''h.V.s'']])))) = Ok ()"
  by (simp add: verify_gpu_def gpu_verdict_def verify_nras_response_def aggregate_token_def unverified_claims_def
      demo_attestation_def demo_json_str_def json_get_def eq_ignore_ascii_case_def nth_o_def require_overall_success_def get_boolean_def)

lemma demo_fetch: "fetch_attestation demo_near (Ok ()) (report_answer demo_attempt) = Ok ''r''"
  by (simp add: fetch_attestation_def demo_attempt_def ATTESTATION_LIMIT_def)

lemma demo_quoted: "quote_fields demo_near demo_attempt raw =
    Ok \<lparr>quoted_data = demo_hash @ demo_nonce, quoted_config = CHR 0x01 # demo_hash\<rparr>"
  by (simp add: quote_fields_def verify_quote_def verify_signature_chain_def appraise_def demo_near_tee_def demo_attempt_def
      demo_quote_def demo_quote_td_def byte_of_def)

lemma demo_attested: "attest_near demo_near demo_attempt demo_target demo_hash = Ok ()"
proof -
  have "report_deadline demo_attempt = Ok ()" "fresh_nonce demo_attempt = demo_nonce"
    "nras_verdict demo_attempt = Ok (Ok (Ok (JArray [JArray [JString ''JWT'', JString ''h.V.s'']])))"
    "attestation_slice demo_near b = Ok demo_attestation" for b
    by (simp_all add: demo_attempt_def demo_near_def)
  then show ?thesis
    by (simp add: attest_near_def demo_fetch demo_quoted demo_identity demo_gpu del: near_attempt.simps)
qed

lemma demo_connected: "connect_and_attest_once demo_near demo_attempt demo_target None 0 = Ok demo_connection"
proof -
  have "dialled demo_attempt = demo_dial" "opened_at demo_attempt = 0" by (simp_all add: demo_attempt_def)
  moreover have "spki_sha256 demo_near_tee x = Ok demo_hash" for x
    by (simp add: spki_sha256_def demo_near_tee_def demo_leaf_def)
  ultimately show ?thesis
    by (simp add: connect_and_attest_once_def connect_near_def demo_connect demo_attested demo_connection_def)
qed

theorem near_connection_bound_witness:
  "\<exists>up. connect demo_dial NEAR_PROVIDER (near_host demo_target) None 0 = Ok up \<and> driver demo_connection = up_driver up
     \<and> spki_sha256 demo_near_tee (leaf up) = Ok demo_hash"
  using near_connection_bound [OF demo_connected]
  by (auto simp: demo_attempt_def identity_bound_def spki_sha256_def demo_near_tee_def result_simps)

end
