(* ===== verification/Near_Forward.thy ===== *)
theory Near_Forward
  imports Near_Verify
begin

text \<open>
  Forwarding on attested NEAR connections (\<^verbatim>\<open>forward\<close> and what it calls in \<^verbatim>\<open>attestd/src/near_verify.rs\<close>): the
  request is checked and rewritten before any connection is used, then sent on a pooled or fresh connection. Only
  a request hyper returns unsent is sent again, once, on a fresh connection.

  \<open>near_env\<close> is what one call meets; \<open>settled\<close> is what other requests made of the pool between checkout and lease.
  \<open>near_forward\<close> returns what it sent, on which driver, beside the pools, the retired drivers and the result.
\<close>

section \<open>Requests\<close>

record near_request =
  near_method :: string
  uri_path :: string
  path_and_query :: "string option"
  near_headers :: header_map
  near_body :: "source_item list"

definition validate_near_request :: "near_request \<Rightarrow> NearTarget \<Rightarrow> anyhow + unit" where
  "validate_near_request r target =
     ensure (near_method r = ''POST'' \<and> uri_path r = near_path target)
       (near_model target @ '' is served only at POST '' @ near_path target @ '', not '' @ near_method r @ '' '' @ uri_path r)"

definition upstream_near_request :: "near_lib \<Rightarrow> near_request \<Rightarrow> NearTarget \<Rightarrow> anyhow + near_request" where
  "upstream_near_request N r target =
     (let hs = strip_hop_by_hop (remove_header NEAR_SELECTOR (near_headers r)) in
      bind_r (with_context ''encode NEAR Host header'' (parse_value N (near_host target))) (\<lambda>host.
      let path = (case path_and_query r of None \<Rightarrow> near_path target | Some pq \<Rightarrow> pq) in
      bind_r (with_context ''encode NEAR upstream URI'' (parse_uri N path)) (\<lambda>(p, pq).
      Ok (r\<lparr>near_headers := set_header ''host'' host hs, uri_path := p, path_and_query := pq\<rparr>))))"

section \<open>Sending\<close>

datatype near_outcome = Late | Answered http_response | Returned near_request anyhow | Broke anyhow

datatype InferenceSendError = Unsent near_request anyhow | Failed anyhow

fun into_anyhow :: "InferenceSendError \<Rightarrow> anyhow" where
  "into_anyhow (Unsent r source) = source"
| "into_anyhow (Failed source) = source"

fun send_inference :: "near_outcome \<Rightarrow> InferenceSendError + http_response" where
  "send_inference Late = Err (Failed ''NEAR inference timed out'')"
| "send_inference (Answered r) = Ok r"
| "send_inference (Returned request e) = Err (Unsent request (''send NEAR inference on attested TLS connection: '' @ e))"
| "send_inference (Broke e) = Err (Failed (''send NEAR inference on attested TLS connection: '' @ e))"

section \<open>Connections\<close>

record 'a near_fresh =
  fresh_attempts :: "nat \<Rightarrow> 'a near_attempt"
  fresh_ready :: "anyhow + anyhow + unit"
  fresh_world :: world

definition wait_for_readiness :: "anyhow + anyhow + unit \<Rightarrow> anyhow + unit" where
  "wait_for_readiness r = timed ''NEAR connection readiness timed out'' ''NEAR connection closed before inference'' r"

text \<open>A fresh connection, ready and still usable, and the drivers retired on the way.\<close>

definition fresh_connection :: "near_lib \<Rightarrow> 'a::linorder near_fresh \<Rightarrow> NearTarget \<Rightarrow> PoolLimits \<Rightarrow> (anyhow + Attested \<Rightarrow> anyhow + Attested)
    \<Rightarrow> string \<Rightarrow> string \<Rightarrow> (anyhow + Attested) \<times> nat list" where
  "fresh_connection N F target l context not_ready expired =
     (case context (connect_and_attest N (fresh_attempts F) target) of
        Inl e \<Rightarrow> (Err e, [])
      | Inr c \<Rightarrow>
          (case wait_for_readiness (fresh_ready F) of
             Inl e \<Rightarrow> (Err (not_ready @ '': '' @ e), retire c)
           | Inr _ \<Rightarrow> if \<not> usable (fresh_world F) l c then (Err expired, retire c) else (Ok c, [])))"

definition near_checkout :: "near_lib \<Rightarrow> (nat \<Rightarrow> take_turn) \<Rightarrow> 'a::linorder near_fresh \<Rightarrow> NearTarget \<Rightarrow> Pool
    \<Rightarrow> ((anyhow + Attested) \<times> Pool \<times> nat list) option" where
  "near_checkout N turns F target p =
     Option.bind (take_ready turns 0 p) (\<lambda>(found, p, dropped).
     case found of
       Some c \<Rightarrow> Some (Ok c, p, dropped)
     | None \<Rightarrow>
         (case fresh_connection N F target (limits p) id ''fresh NEAR connection is not ready''
                 ''NEAR connection expired or closed before its first request'' of
            (r, d) \<Rightarrow> Some (r, p, dropped @ d)))"

section \<open>Forwarding\<close>

record 'a near_env =
  checkout_turns :: "nat \<Rightarrow> take_turn"
  checkout_fresh :: "'a near_fresh"
  first_send :: near_outcome
  retry_fresh :: "'a near_fresh"
  retry_send :: near_outcome
  settled :: "Pool \<Rightarrow> Pool"
  lease_worlds :: "world \<times> world"
  body_ended :: bool

type_synonym near_sends = "(nat \<times> near_request) list"
type_synonym near_result = "anyhow + http_response \<times> Lease"

text \<open>The response leases its connection until its body has been read.\<close>

definition lease_response :: "'a near_env \<Rightarrow> Pool \<Rightarrow> Attested \<Rightarrow> http_response \<Rightarrow> Pool \<times> nat list \<times> near_result" where
  "lease_response env p c r =
     (case Lease_new (fst (lease_worlds env)) (snd (lease_worlds env)) (body_ended env) c p of
        (lease, p, d) \<Rightarrow> (p, d, Ok (r, lease)))"

definition counted :: "Attested \<Rightarrow> Attested" where
  "counted c = c\<lparr>requests := requests c + 1\<rparr>"

definition retry_unsent :: "near_lib \<Rightarrow> 'a::linorder near_env \<Rightarrow> NearTarget \<Rightarrow> Pool \<Rightarrow> near_request \<Rightarrow> anyhow
    \<Rightarrow> near_sends \<times> Pool \<times> nat list \<times> near_result" where
  "retry_unsent N env target p request source =
     (case fresh_connection N (retry_fresh env) target (limits p)
             (with_context (''freshly attest NEAR connection after unsent request: '' @ source))
             ''fresh NEAR retry connection is not ready''
             ''fresh NEAR retry connection expired or closed before inference'' of
        (Inl e, d) \<Rightarrow> ([], p, d, Err e)
      | (Inr c, d) \<Rightarrow>
          let c = counted c in
          (case send_inference (retry_send env) of
             Inr r \<Rightarrow> (case lease_response env p c r of (p, d', result) \<Rightarrow> ([(driver c, request)], p, d @ d', result))
           | Inl e \<Rightarrow> ([(driver c, request)], p, d @ retire c,
                 Err (''fresh NEAR inference retry after unsent request: '' @ source @ '': '' @ into_anyhow e))))"

definition forward_on :: "near_lib \<Rightarrow> 'a::linorder near_env \<Rightarrow> NearTarget \<Rightarrow> near_request \<Rightarrow> Pool
    \<Rightarrow> (near_sends \<times> Pool \<times> nat list \<times> near_result) option" where
  "forward_on N env target request p =
     Option.bind (near_checkout N (checkout_turns env) (checkout_fresh env) target p) (\<lambda>(r, p, dropped).
     case r of
       Inl e \<Rightarrow> Some ([], p, dropped, Err e)
     | Inr c \<Rightarrow>
         let c = counted c; p = settled env p in
         (case send_inference (first_send env) of
            Inr r \<Rightarrow> (case lease_response env p c r of (p, d, result) \<Rightarrow> Some ([(driver c, request)], p, dropped @ d, result))
          | Inl (Unsent request' source) \<Rightarrow>
              (case retry_unsent N env target p request' source of
                 (sends, p, d, result) \<Rightarrow> Some ((driver c, request) # sends, p, dropped @ retire c @ d, result))
          | Inl (Failed e) \<Rightarrow> Some ([(driver c, request)], p, dropped @ retire c, Err e)))"

definition near_prepare :: "near_lib \<Rightarrow> near_request \<Rightarrow> anyhow + NearTarget \<times> near_request" where
  "near_prepare N request =
     bind_r (ok_or (map_of (near_headers request) NEAR_SELECTOR) ''missing NEAR model selector'') (\<lambda>v.
     bind_r (with_context ''NEAR model selector is not valid ASCII'' (header_text N v)) (\<lambda>selector.
     bind_r (ok_or (near_target_for_model selector) ''unsupported NEAR model selector'') (\<lambda>target.
     bind_r (validate_near_request request target) (\<lambda>_.
     bind_r (upstream_near_request N request target) (\<lambda>upstream.
     Ok (target, upstream))))))"

definition near_forward :: "near_lib \<Rightarrow> 'a::linorder near_env \<Rightarrow> near_request \<Rightarrow> near_pools
    \<Rightarrow> (near_sends \<times> near_pools \<times> nat list \<times> near_result) option" where
  "near_forward N env request pools =
     (case near_prepare N request of
        Inl e \<Rightarrow> Some ([], pools, [], Err e)
      | Inr (target, upstream) \<Rightarrow>
          (case map_of pools target of
             None \<Rightarrow> Some ([], pools, [], Err (''no NEAR connection pool for '' @ near_host target))
           | Some p \<Rightarrow>
               map_option (\<lambda>(sends, p, dropped, result). (sends, hm_insert target p pools, dropped, result))
                 (forward_on N env target upstream p)))"

definition idle_connections :: "near_pools \<Rightarrow> NearTarget \<Rightarrow> nat" where
  "idle_connections pools target = (case map_of pools target of None \<Rightarrow> 0 | Some p \<Rightarrow> pool_idle p)"

definition near_error_response :: "(json \<Rightarrow> string) \<Rightarrow> anyhow \<Rightarrow> proxy_response" where
  "near_error_response show_json e = error_response show_json NEAR_PROVIDER"

section \<open>What is sent, and on which connection\<close>














text \<open>The upstream request: the caller's, without the selector and connection headers, for the attested host.\<close>

lemma upstream_near_request_Ok:
  assumes "upstream_near_request N r target = Ok u"
  shows "near_body u = near_body r \<and> near_method u = near_method r
    \<and> (\<exists>host. parse_value N (near_host target) = Ok host
        \<and> near_headers u = filter (\<lambda>h. fst h \<notin> insert ''host'' (insert NEAR_SELECTOR (set HOP_BY_HOP))) (near_headers r) @ [(''host'', host)])"
  using assms
  by (auto simp: upstream_near_request_def Let_def result_simps strip_hop_by_hop set_header_def remove_header_def
      intro!: filter_cong split: prod.splits)


text \<open>
  C16: A request is answered or refused, whatever the network does, unless other requests keep returning
  connections to the pool it searches.
\<close>

theorem near_forward_ends:
  assumes "\<And>k p. length (idle (meanwhile (checkout_turns env k) p)) \<le> length (idle p)"
  shows "\<exists>sends pools' dropped result. near_forward N env request pools = Some (sends, pools', dropped, result)"
proof -
  have "\<exists>sends q dropped result. forward_on N env target upstream p = Some (sends, q, dropped, result)" for target upstream p
  proof -
    from take_ready_ends [of "checkout_turns env" 0 p] assms
    obtain found p1 d1 where "take_ready (checkout_turns env) 0 p = Some (found, p1, d1)" by auto
    then have "\<exists>r p2 d2. near_checkout N (checkout_turns env) (checkout_fresh env) target p = Some (r, p2, d2)"
      by (cases found) (simp_all add: near_checkout_def split: prod.split)
    then obtain r p2 d2 where ck: "near_checkout N (checkout_turns env) (checkout_fresh env) target p = Some (r, p2, d2)"
      by blast
    show ?thesis
    proof (cases r)
      case (Inr c)
      with ck show ?thesis
        by (cases "send_inference (first_send env)") (auto simp: forward_on_def Let_def split: prod.split InferenceSendError.split)
    qed (simp add: forward_on_def ck)
  qed
  then show ?thesis
    unfolding near_forward_def
    by (cases "near_prepare N request") (auto split: option.split, metis)
qed

section \<open>Witnesses\<close>

definition demo_world :: world where
  "demo_world = \<lparr>mono_now = 1, utc_now = 0, is_closed = (\<lambda>_. False), is_finished = (\<lambda>_. False)\<rparr>"

definition demo_answer :: http_response where
  "demo_answer = \<lparr>status_code = 200, response_headers = [], content_length = None, response_body = []\<rparr>"

definition demo_fresh :: "nat near_fresh" where
  "demo_fresh = \<lparr>fresh_attempts = (\<lambda>_. demo_attempt), fresh_ready = Ok (Ok ()), fresh_world = demo_world\<rparr>"

definition demo_near_env :: "nat near_env" where
  "demo_near_env = \<lparr>checkout_turns = (\<lambda>_. \<lparr>take_world = demo_world, ready = True, ready_world = demo_world, meanwhile = id\<rparr>),
     checkout_fresh = demo_fresh, first_send = Answered demo_answer, retry_fresh = demo_fresh, retry_send = Late,
     settled = id, lease_worlds = (demo_world, demo_world), body_ended = True\<rparr>"

definition demo_request :: near_request where
  "demo_request = \<lparr>near_method = ''POST'', uri_path = NEAR_CHAT, path_and_query = Some NEAR_CHAT,
     near_headers = [(NEAR_SELECTOR, ''z-ai/glm-5.3-flash''), (''connection'', ''close'')], near_body = []\<rparr>"









theorem near_forward_ends_witness:
  "\<exists>sends pools' dropped result. near_forward demo_near demo_near_env demo_request make_pools = Some (sends, pools', dropped, result)"
  by (rule near_forward_ends) (simp add: demo_near_env_def)

end
