(* ===== verification/Kubetee_Binding.thy ===== *)
theory Kubetee_Binding
  imports Tee_Evidence
begin

text \<open>
  The report-data construction of \<^verbatim>\<open>kubetee.attestation.v1\<close>
  (\<^verbatim>\<open>attestd/src/kubetee_verify/binding.rs\<close>): the canonical JSON text of a served keyset, its digest, and the
  statement a quote must carry. Text is its UTF-8 bytes; only the order of member names looks at code points.
\<close>

named_theorems jcs_simps

definition PURPOSE :: string where "PURPOSE = ''kubetee.attestation.v1''"
definition KEYSET_DIGEST_PREFIX :: string where "KEYSET_DIGEST_PREFIX = ''sha256:''"
definition STATEMENT_DIGEST_PREFIX :: string where
  "STATEMENT_DIGEST_PREFIX = [CHR 0x22] @ ''keyset_digest'' @ [CHR 0x22] @ '':'' @ [CHR 0x22]"
definition STATEMENT_NONCE_PREFIX :: string where
  "STATEMENT_NONCE_PREFIX = [CHR 0x22] @ '','' @ [CHR 0x22] @ ''nonce'' @ [CHR 0x22] @ '':'' @ [CHR 0x22]"
definition STATEMENT_SUFFIX :: string where
  "STATEMENT_SUFFIX = [CHR 0x22] @ '','' @ [CHR 0x22] @ ''purpose'' @ [CHR 0x22] @ '':'' @ [CHR 0x22] @
     ''kubetee.attestation.v1'' @ [CHR 0x22] @ ''}''"

section \<open>Canonical JSON\<close>

datatype Json = CString string | CArray "Json list" | CObject "(string \<times> Json) list"

text \<open>The code units \<^verbatim>\<open>encode_utf16\<close> yields for valid UTF-8.\<close>

definition char_width :: "char \<Rightarrow> nat" where
  "char_width a = (if byte_of a < 0x80 then 1 else if byte_of a < 0xE0 then 2 else if byte_of a < 0xF0 then 3 else 4)"

definition lead_bits :: "char \<Rightarrow> nat" where
  "lead_bits a = (if byte_of a < 0x80 then byte_of a else if byte_of a < 0xE0 then byte_of a - 0xC0
     else if byte_of a < 0xF0 then byte_of a - 0xE0 else byte_of a - 0xF0)"

fun code_points :: "string \<Rightarrow> nat list" where
  "code_points [] = []"
| "code_points (a # s) =
     foldl (\<lambda>v c. v * 64 + (byte_of c - 0x80)) (lead_bits a) (take (char_width a - 1) s)
       # code_points (drop (char_width a - 1) s)"

definition utf16_units :: "nat \<Rightarrow> nat list" where
  "utf16_units p = (if p < 0x10000 then [p] else [0xD800 + (p - 0x10000) div 1024, 0xDC00 + (p - 0x10000) mod 1024])"

definition encode_utf16 :: "string \<Rightarrow> nat list" where
  "encode_utf16 s = concat (map utf16_units (code_points s))"

definition hex_char :: "nat \<Rightarrow> char" where
  "hex_char d = (if d < 10 then char_of (48 + d) else char_of (87 + d))"

definition jcs_char :: "char \<Rightarrow> string" where
  "jcs_char c =
     (if c = CHR 0x22 then [CHR 0x5C, CHR 0x22]
      else if c = CHR 0x5C then [CHR 0x5C, CHR 0x5C]
      else if c = CHR 0x08 then [CHR 0x5C, CHR ''b'']
      else if c = CHR 0x0C then [CHR 0x5C, CHR ''f'']
      else if c = CHR 0x0A then [CHR 0x5C, CHR ''n'']
      else if c = CHR 0x0D then [CHR 0x5C, CHR ''r'']
      else if c = CHR 0x09 then [CHR 0x5C, CHR ''t'']
      else if byte_of c \<le> 0x1F then [CHR 0x5C, CHR ''u'', CHR ''0'', CHR ''0'', hex_char (byte_of c div 16), hex_char (byte_of c mod 16)]
      else [c])"

definition jcs_string :: "string \<Rightarrow> string" where
  "jcs_string t = [CHR 0x22] @ concat (map jcs_char t) @ [CHR 0x22]"

text \<open>Names are sorted by their UTF-16 code units at every level.\<close>

definition by_utf16 :: "(string \<times> 'a) list \<Rightarrow> (string \<times> 'a) list" where
  "by_utf16 fs = sort_key (encode_utf16 \<circ> fst) fs"

lemma set_by_utf16 [simp]: "set (by_utf16 fs) = set fs"
  by (simp add: by_utf16_def)

function jcs :: "Json \<Rightarrow> string" where
  "jcs (CString t) = jcs_string t"
| "jcs (CArray items) = ''['' @ join '','' (map jcs items) @ '']''"
| "jcs (CObject fs) = ''{'' @ join '','' (map (\<lambda>(k, v). jcs_string k @ '':'' @ jcs v) (by_utf16 fs)) @ ''}''"
  by pat_completeness auto
termination
proof (relation "measure size")
  fix fs :: "(string \<times> Json) list" and x k v
  assume "x \<in> set (by_utf16 fs)" "(k, v) = x"
  then have "(k, v) \<in> set fs" by simp
  then have "size v < Suc (size_list (size_prod (\<lambda>x. 0) size) fs)"
    by (induction fs) auto
  then show "(v, CObject fs) \<in> measure size" by simp
qed (auto simp: less_Suc_eq_le intro: size_list_estimation')

section \<open>Digest and statement\<close>

definition keyset_digest :: "tee_lib \<Rightarrow> Json \<Rightarrow> string" where
  "keyset_digest T keyset = KEYSET_DIGEST_PREFIX @ hex_encode T (sha256 T (jcs keyset))"

fun collect_r :: "('e + 'a) list \<Rightarrow> 'e + 'a list" where
  "collect_r [] = Ok []"
| "collect_r (r # rs) = bind_r r (\<lambda>x. map_r ((#) x) (collect_r rs))"

fun json_tree :: "(json \<Rightarrow> string) \<Rightarrow> json \<Rightarrow> anyhow + Json" where
  "json_tree show_json (JString t) = Ok (CString t)"
| "json_tree show_json (JArray items) = map_r CArray (collect_r (map (json_tree show_json) items))"
| "json_tree show_json (JObject fs) =
     map_r (CObject \<circ> foldl (\<lambda>m (k, v). bt_insert k v m) [])
       (collect_r (map (\<lambda>(k, v). map_r (Pair k) (json_tree show_json v)) fs))"
| "json_tree show_json other =
     Err (''kubetee.attestation.v1 keyset holds '' @ show_json other @ '', outside the attestation input class'')"

definition recompute_keyset_digest :: "tee_lib \<Rightarrow> (json \<Rightarrow> string) \<Rightarrow> json \<Rightarrow> anyhow + string" where
  "recompute_keyset_digest T show_json keyset = map_r (keyset_digest T) (json_tree show_json keyset)"

text \<open>\<^verbatim>\<open>copy_from_slice\<close> fills the first 32 bytes; a SHA-256 has exactly these.\<close>

definition report_data_of_statement :: "tee_lib \<Rightarrow> string \<Rightarrow> string \<Rightarrow> string \<Rightarrow> anyhow + string" where
  "report_data_of_statement T statement digest_value nonce_hex =
     bind_r (ok_or (Option.bind (Option.bind (strip_prefix ''{'' statement) (strip_prefix STATEMENT_DIGEST_PREFIX))
         (strip_prefix KEYSET_DIGEST_PREFIX)) ''kubetee.attestation.v1 statement is not the fixed template'') (\<lambda>tail.
     bind_r (ok_or (Option.bind
         (strip_prefix (case strip_prefix KEYSET_DIGEST_PREFIX digest_value of None \<Rightarrow> digest_value | Some d \<Rightarrow> d) tail)
         (strip_prefix STATEMENT_NONCE_PREFIX)) ''kubetee.attestation.v1 statement names a different keyset digest'') (\<lambda>tail.
     bind_r (ok_or (strip_prefix nonce_hex tail) ''kubetee.attestation.v1 statement names a different nonce'') (\<lambda>tail.
     bind_r (ensure (tail = STATEMENT_SUFFIX) ''kubetee.attestation.v1 statement has no kubetee.attestation.v1 purpose'') (\<lambda>_.
     Ok (sha256 T statement @ replicate 32 (CHR 0x00))))))"

section \<open>The canonical text determines the value\<close>

lemma hex_char_inj: "hex_char d = hex_char e \<Longrightarrow> d < 16 \<Longrightarrow> e < 16 \<Longrightarrow> d = e"
proof -
  assume eq: "hex_char d = hex_char e" and d: "d < 16" and e: "e < 16"
  have "byte_of (hex_char k) = (if k < 10 then 48 + k else 87 + k)" if "k < 16" for k
    using that by (simp add: hex_char_def byte_of_def)
  from this [OF d] this [OF e] have "(if d < 10 then 48 + d else 87 + d) = (if e < 10 then 48 + e else 87 + e)"
    unfolding eq by argo
  with d e show "d = e" by (cases "d < 10"; cases "e < 10"; simp)
qed

definition escapes :: "(char \<times> char) list" where
  "escapes = [(CHR 0x22, CHR 0x22), (CHR 0x5C, CHR 0x5C), (CHR 0x08, CHR ''b''), (CHR 0x0C, CHR ''f''),
     (CHR 0x0A, CHR ''n''), (CHR 0x0D, CHR ''r''), (CHR 0x09, CHR ''t'')]"

lemma escapes_inj:
  assumes "(c, k) \<in> set escapes" and "(d, k) \<in> set escapes"
  shows "c = d"
proof -
  have "map_of (map prod.swap escapes) k = Some c" if "(c, k) \<in> set escapes" for c
    using that by (auto simp: escapes_def)
  from this [OF assms(1)] this [OF assms(2)] show ?thesis by simp
qed

lemma jcs_char_escape: "(c, k) \<in> set escapes \<Longrightarrow> jcs_char c = [CHR 0x5C, k] \<and> k \<noteq> CHR ''u''"
  by (auto simp: escapes_def jcs_char_def)

lemma jcs_char_other:
  "c \<notin> fst ` set escapes \<Longrightarrow> jcs_char c =
     (if byte_of c \<le> 0x1F then [CHR 0x5C, CHR ''u'', CHR ''0'', CHR ''0'', hex_char (byte_of c div 16), hex_char (byte_of c mod 16)]
      else [c])"
  by (simp add: escapes_def jcs_char_def)

lemma jcs_char_cases:
  obtains (escape) k where "jcs_char c = [CHR 0x5C, k]" "k \<noteq> CHR ''u''" "(c, k) \<in> set escapes"
    | (control) "jcs_char c = [CHR 0x5C, CHR ''u'', CHR ''0'', CHR ''0'', hex_char (byte_of c div 16), hex_char (byte_of c mod 16)]"
      "byte_of c \<le> 0x1F"
    | (plain) "jcs_char c = [c]" "c \<noteq> CHR 0x22" "c \<noteq> CHR 0x5C"
proof (cases "c \<in> fst ` set escapes")
  case True
  then obtain k where "(c, k) \<in> set escapes" by auto
  with jcs_char_escape [OF this] show ?thesis by (intro escape) auto
next
  case False
  then have "c \<noteq> CHR 0x22" "c \<noteq> CHR 0x5C" by (auto simp: escapes_def)
  with jcs_char_other [OF False] control plain show ?thesis by (simp split: if_splits)
qed

text \<open>Each encoded character is read back, and none starts with the closing quote.\<close>

lemma jcs_char_unique:
  assumes "jcs_char c @ x = jcs_char d @ y"
  shows "c = d \<and> x = y"
proof (cases c rule: jcs_char_cases)
  case (escape k)
  note c = escape
  show ?thesis
  proof (cases d rule: jcs_char_cases)
    case (escape k')
    with c assms have "k = k'" "x = y" by auto
    with escapes_inj [OF c(3)] escape(3) show ?thesis by auto
  qed (use assms c in auto)
next
  case control
  note c = control
  show ?thesis
  proof (cases d rule: jcs_char_cases)
    case control
    with c assms have eq: "hex_char (byte_of c div 16) = hex_char (byte_of d div 16)"
      "hex_char (byte_of c mod 16) = hex_char (byte_of d mod 16)" and "x = y" by auto
    have "byte_of c div 16 = byte_of d div 16" "byte_of c mod 16 = byte_of d mod 16"
      by (rule hex_char_inj [OF eq(1)] hex_char_inj [OF eq(2)]; use control(2) c(2) in simp)+
    then have "byte_of c = byte_of d" by (metis div_mult_mod_eq)
    with \<open>x = y\<close> show ?thesis by (simp add: byte_of_def)
  qed (use assms c in auto)
next
  case plain
  then show ?thesis
    by (cases d rule: jcs_char_cases) (use assms plain in auto)
qed

lemma jcs_char_no_quote: "jcs_char c @ x \<noteq> CHR 0x22 # y"
  by (cases c rule: jcs_char_cases) auto

lemma jcs_chars_unique:
  "concat (map jcs_char s) @ CHR 0x22 # x = concat (map jcs_char t) @ CHR 0x22 # y \<Longrightarrow> s = t \<and> x = y"
proof (induction s arbitrary: t)
  case Nil
  then show ?case using jcs_char_no_quote by (cases t) (auto, metis)
next
  case (Cons c s)
  show ?case
  proof (cases t)
    case Nil
    with Cons.prems jcs_char_no_quote show ?thesis by auto
  next
    case (Cons d t')
    with Cons.prems jcs_char_unique [of c "concat (map jcs_char s) @ CHR 0x22 # x" d "concat (map jcs_char t') @ CHR 0x22 # y"]
    have "c = d" "concat (map jcs_char s) @ CHR 0x22 # x = concat (map jcs_char t') @ CHR 0x22 # y" by auto
    with Cons.IH Cons show ?thesis by simp
  qed
qed

lemma jcs_string_unique: "jcs_string s @ x = jcs_string t @ y \<Longrightarrow> s = t \<and> x = y"
  using jcs_chars_unique [of s x t y] by (simp add: jcs_string_def)

text \<open>A comma-separated list of texts that are each recognised from their start is recognised too.\<close>

lemma join_unique:
  assumes "\<And>v w x y. v \<in> set xs \<Longrightarrow> w \<in> set ys \<Longrightarrow> f v @ x = f w @ y \<Longrightarrow> v = w \<and> x = y"
    and "\<And>v x y. v \<in> set xs \<union> set ys \<Longrightarrow> f v @ x \<noteq> close # y" and "close \<noteq> CHR '','' "
    and "join '','' (map f xs) @ close # x = join '','' (map f ys) @ close # y"
  shows "xs = ys \<and> x = y"
  using assms
proof (induction xs arbitrary: ys)
  case Nil
  then show ?case
  proof (cases ys)
    case (Cons w ys')
    have "f w @ z \<noteq> close # x" for z using Nil.prems(2) [of w] Cons by simp
    with Cons Nil.prems(4) show ?thesis by (cases ys') (auto dest: sym)
  qed simp
next
  case (Cons v xs)
  define tail where "tail f zs z = (if zs = [] then close # z else CHR '','' # join '','' (map f zs) @ close # z)"
    for f :: "'a \<Rightarrow> string" and zs z
  have split: "join '','' (map f (u # zs)) @ close # z = f u @ tail f zs z" for u zs z
    by (cases zs) (simp_all add: tail_def)
  have "ys \<noteq> []"
  proof
    assume "ys = []"
    with Cons.prems(4) have "f v @ tail f xs x = close # y" unfolding split by simp
    moreover have "f v @ tail f xs x \<noteq> close # y" by (rule Cons.prems(2)) simp
    ultimately show False by simp
  qed
  then obtain w ys' where ys: "ys = w # ys'" by (cases ys) auto
  from Cons.prems(4) have "f v @ tail f xs x = f w @ tail f ys' y"
    unfolding ys split .
  with Cons.prems(1) [of v w] ys have "v = w" and eq: "tail f xs x = tail f ys' y" by auto
  show ?case
  proof (cases "xs = [] \<or> ys' = []")
    case True
    with eq \<open>close \<noteq> CHR '','' \<close> have "xs = [] \<and> ys' = [] \<and> x = y"
      unfolding tail_def by (cases "xs = []"; cases "ys' = []") simp_all
    with ys \<open>v = w\<close> show ?thesis by simp
  next
    case False
    with eq have "join '','' (map f xs) @ close # x = join '','' (map f ys') @ close # y"
      by (simp add: tail_def)
    with Cons.IH [of ys'] Cons.prems(1-3) ys \<open>v = w\<close> show ?thesis by auto
  qed
qed

text \<open>The trees the code builds keep every object strictly sorted.\<close>

fun tree_wf :: "Json \<Rightarrow> bool" where
  "tree_wf (CString t) = True"
| "tree_wf (CArray items) = list_all tree_wf items"
| "tree_wf (CObject fs) = (bt_wf fs \<and> list_all (\<lambda>(k, v). tree_wf v) fs)"

lemma jcs_start: "jcs v @ x = c # y \<Longrightarrow> c \<in> {CHR 0x22, CHR ''['', CHR ''{''}"
  by (cases v) (auto simp: jcs_string_def)

lemma by_utf16_eq: "by_utf16 fs = by_utf16 gs \<Longrightarrow> bt_wf fs \<Longrightarrow> bt_wf gs \<Longrightarrow> fs = gs"
proof (rule bt_wf_ext)
  assume eq: "by_utf16 fs = by_utf16 gs" and wf: "bt_wf fs" "bt_wf gs"
  from eq have "mset fs = mset gs" by (metis by_utf16_def mset_sort)
  with wf show "map_of fs = map_of gs"
    by (intro map_of_eqI) (auto dest!: mset_eq_setD bt_wf_distinct simp: map_of_eq_Some_iff intro: ext)
qed

lemma jcs_unique: "tree_wf a \<Longrightarrow> tree_wf b \<Longrightarrow> jcs a @ x = jcs b @ y \<Longrightarrow> a = b \<and> x = y"
proof (induction a arbitrary: b x y)
  case (CString s)
  then show ?case
  proof (cases b)
    case (CString t)
    with jcs_string_unique [of s x t y] CString.prems show ?thesis by simp
  qed (auto simp: jcs_string_def)
next
  case (CArray vs)
  then show ?case
  proof (cases b)
    case (CArray ws)
    with CArray.prems have "join '','' (map jcs vs) @ CHR '']'' # x = join '','' (map jcs ws) @ CHR '']'' # y" by simp
    then have "vs = ws \<and> x = y"
    proof (rule join_unique [rotated 3])
      fix v w x y
      assume "v \<in> set vs" "w \<in> set ws" "jcs v @ x = jcs w @ y"
      with CArray.IH CArray.prems CArray show "v = w \<and> x = y" by (auto simp: list_all_iff)
    qed (auto dest!: jcs_start)
    with CArray show ?thesis by simp
  qed (auto simp: jcs_string_def)
next
  case (CObject fs)
  then show ?case
  proof (cases b)
    case (CObject gs)
    let ?f = "\<lambda>(k, v). jcs_string k @ '':'' @ jcs v"
    from CObject CObject.prems have "join '','' (map ?f (by_utf16 fs)) @ CHR ''}'' # x = join '','' (map ?f (by_utf16 gs)) @ CHR ''}'' # y"
      by simp
    then have "by_utf16 fs = by_utf16 gs \<and> x = y"
    proof (rule join_unique [rotated 3])
      fix v w x y
      assume vw: "v \<in> set (by_utf16 fs)" "w \<in> set (by_utf16 gs)" "?f v @ x = ?f w @ y"
      obtain k u where v: "v = (k, u)" by (cases v)
      obtain l r where w: "w = (l, r)" by (cases w)
      from vw(3) v w jcs_string_unique [of k "CHR '':'' # jcs u @ x" l "CHR '':'' # jcs r @ y"]
      have "k = l" "jcs u @ x = jcs r @ y" by auto
      have wf: "tree_wf u" "tree_wf r"
        using vw CObject.prems CObject v w by (auto simp: list_all_iff)
      have "u = r \<and> x = y"
      proof (rule CObject.IH [of v u])
        show "v \<in> set fs" "u \<in> Basic_BNFs.snds v" using vw(1) v by simp_all
      qed fact+
      with \<open>k = l\<close> v w show "v = w \<and> x = y" by simp
    qed (auto simp: jcs_string_def split: prod.splits)
    moreover have "bt_wf fs" "bt_wf gs" using CObject CObject.prems(1,2) by simp_all
    ultimately have "fs = gs \<and> x = y" using by_utf16_eq by blast
    with CObject show ?thesis by simp
  qed (auto simp: jcs_string_def)
qed

lemma collect_r_Ok: "collect_r rs = Ok xs \<longleftrightarrow> rs = map Ok xs"
proof (induction rs arbitrary: xs)
  case (Cons r rs)
  then show ?case by (cases xs) (auto simp: result_simps)
qed auto

lemma list_all_bt_insert: "list_all P m \<Longrightarrow> P (k, v) \<Longrightarrow> list_all P (bt_insert k v m)"
  by (induction k v m rule: bt_insert.induct) auto

lemma inserted_wf: "bt_wf m \<Longrightarrow> list_all (\<lambda>(k, v). tree_wf v) m \<Longrightarrow> list_all (\<lambda>(k, v). tree_wf v) kvs \<Longrightarrow>
  bt_wf (foldl (\<lambda>m (k, v). bt_insert k v m) m kvs) \<and> list_all (\<lambda>(k, v). tree_wf v) (foldl (\<lambda>m (k, v). bt_insert k v m) m kvs)"
proof (induction kvs arbitrary: m)
  case (Cons kv kvs)
  obtain k v where kv: "kv = (k, v)" by (cases kv)
  have "list_all (\<lambda>(k, v). tree_wf v) (bt_insert k v m)"
    using Cons.prems kv by (intro list_all_bt_insert) auto
  with Cons kv show ?case by auto
qed simp

lemma json_tree_wf: "json_tree show_json v = Ok t \<Longrightarrow> tree_wf t"
proof (induction v arbitrary: t)
  case (JArray items)
  then obtain ts where ts: "t = CArray ts" "map (json_tree show_json) items = map Ok ts"
    by (auto simp: result_simps collect_r_Ok)
  have "tree_wf u" if "u \<in> set ts" for u
  proof -
    from that ts(2) obtain i where "i \<in> set items" "json_tree show_json i = Ok u"
      by (metis (no_types, lifting) imageE image_eqI list.set_map)
    with JArray.IH show ?thesis by blast
  qed
  with ts show ?case by (simp add: list_all_iff)
next
  case (JObject fs)
  then obtain kvs where kvs: "t = CObject (foldl (\<lambda>m (k, v). bt_insert k v m) [] kvs)"
    "map (\<lambda>(k, v). map_r (Pair k) (json_tree show_json v)) fs = map Ok kvs"
    by (auto simp: result_simps collect_r_Ok)
  have "tree_wf u" if "(k, u) \<in> set kvs" for k u
  proof -
    from that have "Ok (k, u) \<in> set (map (\<lambda>(k, v). map_r (Pair k) (json_tree show_json v)) fs)"
      unfolding kvs(2) by auto
    then obtain l v where "(l, v) \<in> set fs" "map_r (Pair l) (json_tree show_json v) = Ok (k, u)"
      by auto
    then have "json_tree show_json v = Ok u" by (cases "json_tree show_json v") auto
    note \<open>(l, v) \<in> set fs\<close> this
    with JObject.IH [of "(l, v)" v] show ?thesis by auto
  qed
  then have "list_all (\<lambda>(k, v). tree_wf v) kvs" by (auto simp: list_all_iff)
  with inserted_wf [of "[]" kvs] kvs(1) show ?case by simp
qed auto

lemma statement_template:
  "report_data_of_statement T statement (KEYSET_DIGEST_PREFIX @ d) nonce_hex = Ok data \<longleftrightarrow>
     statement = ''{'' @ STATEMENT_DIGEST_PREFIX @ KEYSET_DIGEST_PREFIX @ d @ STATEMENT_NONCE_PREFIX @ nonce_hex @ STATEMENT_SUFFIX
     \<and> data = sha256 T statement @ replicate 32 (CHR 0x00)"
proof -
  have "(case strip_prefix KEYSET_DIGEST_PREFIX (KEYSET_DIGEST_PREFIX @ d) of
      None \<Rightarrow> KEYSET_DIGEST_PREFIX @ d | Some d \<Rightarrow> d) = d"
    by (simp add: strip_prefix_def)
  then show ?thesis
    by (auto simp: report_data_of_statement_def result_simps strip_prefix_Some bind_eq_Some_conv)
qed

section \<open>Properties\<close>

text \<open>
  C20: The digest of a keyset commits to it: two served keysets inside the attestation input class have the same
  canonical text exactly when they are the same tree, whatever the order of their members.
\<close>

theorem canonical_text_commits:
  assumes "json_tree show_json v = Ok t" and "json_tree show_json w = Ok u"
  shows "jcs t = jcs u \<longleftrightarrow> t = u"
  using jcs_unique [OF assms [THEN json_tree_wf], of "[]" "[]"] by auto

theorem canonical_text_commits_witness:
  "json_tree (\<lambda>_. []) (JObject [(''b'', JArray [JString ''x'']), (''a'', JString [CHR 0x22])])
     = Ok (CObject [(''a'', CString [CHR 0x22]), (''b'', CArray [CString ''x''])])
   \<and> jcs (CObject [(''a'', CString [CHR 0x22]), (''b'', CArray [CString ''x''])]) \<noteq> jcs (CString ''a'')"
proof -
  have tree: "json_tree (\<lambda>_. []) (JObject [(''b'', JArray [JString ''x'']), (''a'', JString [CHR 0x22])])
     = Ok (CObject [(''a'', CString [CHR 0x22]), (''b'', CArray [CString ''x''])])"
    by (simp add: less_char_def)
  have "json_tree (\<lambda>_. []) (JString ''a'') = Ok (CString ''a'')" by simp
  from canonical_text_commits [OF tree this] tree show ?thesis by simp
qed

text \<open>
  A statement is accepted exactly when it is the fixed template over the stated digest and our nonce; the
  report data is its SHA-256 followed by 32 zero bytes.
\<close>

theorem statement_exact:
  "report_data_of_statement T statement (KEYSET_DIGEST_PREFIX @ d) nonce_hex = Ok data \<longleftrightarrow>
     statement = ''{'' @ STATEMENT_DIGEST_PREFIX @ KEYSET_DIGEST_PREFIX @ d @ STATEMENT_NONCE_PREFIX @ nonce_hex @ STATEMENT_SUFFIX
     \<and> data = sha256 T statement @ replicate 32 (CHR 0x00)"
  by (rule statement_template)

end
