(* ===== verification/Event_Log.thy ===== *)
theory Event_Log
  imports Prelude
begin

text \<open>
  The TDX event log: the CCEL parser and the replay of its records into the four RTMRs
  (\<^verbatim>\<open>attestd/src/eventlog.rs\<close>).

  Bytes are 8-bit words and the cursor is the buffer with its offset, as in the code. An
  \<^verbatim>\<open>anyhow\<close> error is a constructor with the values its text prints. SHA-384 is the parameter
  \<open>sha384\<close>. Offsets are natural numbers: the overflow \<^verbatim>\<open>checked_add\<close> guards against cannot occur
  for a buffer in memory and is reported, as in the code, as truncation.
\<close>

named_theorems log_simps

type_synonym bytes = "u8 list"
type_synonym Register = bytes

definition SPEC_ID_SIGNATURE :: bytes where
  "SPEC_ID_SIGNATURE = map (\<lambda>c. word_of_nat (of_char c)) (''Spec ID Event03'' @ [CHR 0x00])"

definition EV_NO_ACTION :: u32 where "EV_NO_ACTION = 3"
definition TPM_ALG_SHA384 :: u16 where "TPM_ALG_SHA384 = 0x0C"
definition SHA1_DIGEST_LEN :: nat where "SHA1_DIGEST_LEN = 20"
definition MAX_EVENTS :: nat where "MAX_EVENTS = 4096"
definition MAX_ALGORITHMS :: nat where "MAX_ALGORITHMS = 16"
definition PADDING :: u32 where "PADDING = - 1"

record Event =
  rtmr :: nat
  event_type :: u32
  digest :: Register
  event_data :: bytes

datatype log_error =
    Truncated nat
  | HeaderType u32
  | NotSpecId
  | AlgorithmCount nat
  | NoSha384Listed
  | DigestCount nat
  | UnlistedAlgorithm u16
  | RepeatedSha384
  | NotAnRtmr u32
  | NoSha384Digest
  | DigestLength
  | DataAfterPadding
  | TooManyEvents

section \<open>The cursor\<close>

record Cursor =
  buffer :: bytes
  offset :: nat

definition cursor_take :: "nat \<Rightarrow> Cursor \<Rightarrow> log_error + (bytes \<times> Cursor)" where
  "cursor_take n c =
     (let finish = offset c + n in
      if finish \<le> length (buffer c) then Ok (take n (drop (offset c) (buffer c)), c\<lparr>offset := finish\<rparr>)
      else Err (Truncated (offset c)))"

fun nat_of_le :: "bytes \<Rightarrow> nat" where
  "nat_of_le [] = 0"
| "nat_of_le (b # bs) = unat b + 256 * nat_of_le bs"

definition cursor_u16 :: "Cursor \<Rightarrow> log_error + (u16 \<times> Cursor)" where
  "cursor_u16 c = bind_r (cursor_take 2 c) (\<lambda>(bs, c). Ok (word_of_nat (nat_of_le bs), c))"

definition cursor_u32 :: "Cursor \<Rightarrow> log_error + (u32 \<times> Cursor)" where
  "cursor_u32 c = bind_r (cursor_take 4 c) (\<lambda>(bs, c). Ok (word_of_nat (nat_of_le bs), c))"

definition peek_u32 :: "Cursor \<Rightarrow> u32 option" where
  "peek_u32 c = (if offset c + 4 \<le> length (buffer c)
     then Some (word_of_nat (nat_of_le (take 4 (drop (offset c) (buffer c))))) else None)"

definition at_end :: "Cursor \<Rightarrow> bool" where
  "at_end c \<longleftrightarrow> offset c = length (buffer c)"

definition rest_is_padding :: "Cursor \<Rightarrow> bool" where
  "rest_is_padding c \<longleftrightarrow> list_all (\<lambda>b. b = 0xFF) (drop (offset c) (buffer c))"

section \<open>The parser\<close>

fun parse_sizes :: "nat \<Rightarrow> Cursor \<Rightarrow> log_error + ((u16 \<times> nat) list \<times> Cursor)" where
  "parse_sizes 0 c = Ok ([], c)"
| "parse_sizes (Suc n) c =
     bind_r (cursor_u16 c) (\<lambda>(algorithm, c).
     bind_r (cursor_u16 c) (\<lambda>(size, c).
     bind_r (parse_sizes n c) (\<lambda>(sizes, c). Ok ((algorithm, unat size) # sizes, c))))"

definition parse_spec :: "Cursor \<Rightarrow> log_error + ((u16 \<times> nat) list \<times> Cursor)" where
  "parse_spec spec =
     bind_r (cursor_take 16 spec) (\<lambda>(sig, spec).
     bind_r (ensure (sig = SPEC_ID_SIGNATURE) NotSpecId) (\<lambda>_.
     bind_r (cursor_take (4 + 1 + 1 + 1 + 1) spec) (\<lambda>(_, spec).
     bind_r (cursor_u32 spec) (\<lambda>(count, spec).
     bind_r (ensure (1 \<le> unat count \<and> unat count \<le> MAX_ALGORITHMS) (AlgorithmCount (unat count))) (\<lambda>_.
     bind_r (parse_sizes (unat count) spec) (\<lambda>(sizes, spec).
     bind_r (ensure ((TPM_ALG_SHA384, 48) \<in> set sizes) NoSha384Listed) (\<lambda>_. Ok (sizes, spec))))))))"

definition parse_header :: "Cursor \<Rightarrow> log_error + ((u16 \<times> nat) list \<times> Cursor)" where
  "parse_header c =
     bind_r (cursor_u32 c) (\<lambda>(_, c).
     bind_r (cursor_u32 c) (\<lambda>(etype, c).
     bind_r (ensure (etype = EV_NO_ACTION) (HeaderType etype)) (\<lambda>_.
     bind_r (cursor_take SHA1_DIGEST_LEN c) (\<lambda>(_, c).
     bind_r (cursor_u32 c) (\<lambda>(size, c).
     bind_r (cursor_take (unat size) c) (\<lambda>(spec, c).
     bind_r (parse_spec \<lparr>buffer = spec, offset = 0\<rparr>) (\<lambda>(sizes, _). Ok (sizes, c))))))))"

definition listed_size :: "(u16 \<times> nat) list \<Rightarrow> u16 \<Rightarrow> nat option" where
  "listed_size sizes algorithm = map_option snd (find (\<lambda>(listed, _). listed = algorithm) sizes)"

fun parse_digests :: "(u16 \<times> nat) list \<Rightarrow> nat \<Rightarrow> bytes option \<Rightarrow> Cursor \<Rightarrow> log_error + (bytes option \<times> Cursor)" where
  "parse_digests sizes 0 sha384 c = Ok (sha384, c)"
| "parse_digests sizes (Suc n) sha384 c =
     bind_r (cursor_u16 c) (\<lambda>(algorithm, c).
     bind_r (ok_or (listed_size sizes algorithm) (UnlistedAlgorithm algorithm)) (\<lambda>size.
     bind_r (cursor_take size c) (\<lambda>(d, c).
     if algorithm = TPM_ALG_SHA384 then
       bind_r (ensure (sha384 = None) RepeatedSha384) (\<lambda>_. parse_digests sizes n (Some d) c)
     else parse_digests sizes n sha384 c)))"

definition rtmr_of_index :: "u32 \<Rightarrow> log_error + nat" where
  "rtmr_of_index index = (if 1 \<le> unat index \<and> unat index \<le> 4 then Ok (unat index - 1) else Err (NotAnRtmr index))"

definition parse_event :: "(u16 \<times> nat) list \<Rightarrow> Cursor \<Rightarrow> log_error + (Event option \<times> Cursor)" where
  "parse_event sizes c =
     bind_r (cursor_u32 c) (\<lambda>(index, c).
     bind_r (cursor_u32 c) (\<lambda>(etype, c).
     bind_r (cursor_u32 c) (\<lambda>(count, c).
     bind_r (ensure (unat count \<le> length sizes) (DigestCount (unat count))) (\<lambda>_.
     bind_r (parse_digests sizes (unat count) None c) (\<lambda>(sha384, c).
     bind_r (cursor_u32 c) (\<lambda>(data_len, c).
     bind_r (cursor_take (unat data_len) c) (\<lambda>(dat, c).
     if etype = EV_NO_ACTION then Ok (None, c)
     else
       bind_r (rtmr_of_index index) (\<lambda>r.
       bind_r (ok_or sha384 NoSha384Digest) (\<lambda>d.
       bind_r (ensure (length d = 48) DigestLength) (\<lambda>_.
       Ok (Some \<lparr>rtmr = r, event_type = etype, digest = d, event_data = dat\<rparr>, c)))))))))))"

section \<open>What a cursor has left\<close>

definition rest :: "Cursor \<Rightarrow> bytes" where
  "rest c = drop (offset c) (buffer c)"

definition cursor_wf :: "Cursor \<Rightarrow> bool" where
  "cursor_wf c \<longleftrightarrow> offset c \<le> length (buffer c)"

text \<open>\<open>moved c bs c'\<close>: from \<open>c\<close> the bytes \<open>bs\<close> were read and \<open>c'\<close> is left.\<close>

definition moved :: "Cursor \<Rightarrow> bytes \<Rightarrow> Cursor \<Rightarrow> bool" where
  "moved c bs c' \<longleftrightarrow> rest c = bs @ rest c' \<and> c' = c\<lparr>offset := offset c + length bs\<rparr>"

lemma moved_refl [simp]: "moved c [] c"
  by (simp add: moved_def)

lemma moved_Nil_iff [simp]: "moved c [] c' \<longleftrightarrow> c' = c"
  by (auto simp: moved_def)

lemma moved_append: "moved c (as @ bs) c'' \<longleftrightarrow> (\<exists>c'. moved c as c' \<and> moved c' bs c'')"
proof
  assume "moved c (as @ bs) c''"
  then have r: "drop (offset c) (buffer c) = as @ bs @ rest c''" and c: "c'' = c\<lparr>offset := offset c + (length as + length bs)\<rparr>"
    by (simp_all add: moved_def rest_def)
  have "drop (offset c + length as) (buffer c) = bs @ rest c''"
    using arg_cong [OF r, of "drop (length as)"] by (simp add: add.commute)
  with r c show "\<exists>c'. moved c as c' \<and> moved c' bs c''"
    by (intro exI [of _ "c\<lparr>offset := offset c + length as\<rparr>"]) (simp add: moved_def rest_def add.assoc)
qed (auto simp: moved_def add.assoc)

lemma cursor_take_Ok:
  assumes "cursor_wf c"
  shows "cursor_take n c = Ok (bs, c') \<longleftrightarrow> length bs = n \<and> moved c bs c'"
proof
  assume "cursor_take n c = Ok (bs, c')"
  then have le: "offset c + n \<le> length (buffer c)" and bs: "bs = take n (drop (offset c) (buffer c))"
    and c': "c' = c\<lparr>offset := offset c + n\<rparr>"
    by (auto simp: cursor_take_def Let_def split: if_splits)
  then have "length bs = n" by simp
  moreover have "drop (offset c) (buffer c) = bs @ drop (offset c + n) (buffer c)"
    unfolding bs by (metis append_take_drop_id drop_drop add.commute)
  ultimately show "length bs = n \<and> moved c bs c'" by (simp add: moved_def rest_def c')
next
  assume *: "length bs = n \<and> moved c bs c'"
  then have r: "drop (offset c) (buffer c) = bs @ rest c'" and c': "c' = c\<lparr>offset := offset c + n\<rparr>"
    by (auto simp: moved_def rest_def)
  have "length (buffer c) - offset c = n + length (rest c')" using arg_cong [OF r, of length] * by simp
  then have "offset c + n \<le> length (buffer c)" using assms by (simp add: cursor_wf_def)
  with r c' * show "cursor_take n c = Ok (bs, c')" by (simp add: cursor_take_def Let_def)
qed

lemma moved_wf: "cursor_wf c \<Longrightarrow> moved c bs c' \<Longrightarrow> cursor_wf c'"
proof -
  assume wf: "cursor_wf c" and m: "moved c bs c'"
  from m have "length (rest c) = length bs + length (rest c')" by (simp add: moved_def)
  moreover from m have "c' = c\<lparr>offset := offset c + length bs\<rparr>" by (simp add: moved_def)
  ultimately show ?thesis using wf by (simp add: cursor_wf_def rest_def)
qed

section \<open>Little-endian numbers\<close>

fun le_of_nat :: "nat \<Rightarrow> nat \<Rightarrow> bytes" where
  "le_of_nat 0 n = []"
| "le_of_nat (Suc k) n = word_of_nat (n mod 256) # le_of_nat k (n div 256)"

lemma length_le_of_nat [simp]: "length (le_of_nat k n) = k"
  by (induction k n rule: le_of_nat.induct) simp_all

lemma nat_of_le_bound: "nat_of_le bs < 256 ^ length bs"
proof (induction bs)
  case (Cons b bs)
  have "unat b < 256" using unsigned_less [of b, where ?'a = nat] by simp
  with Cons show ?case by simp
qed simp

lemma le_of_nat_of_le: "le_of_nat (length bs) (nat_of_le bs) = bs"
proof (induction bs)
  case (Cons b bs)
  have "unat b < 256" using unsigned_less [of b, where ?'a = nat] by simp
  with Cons show ?case by simp
qed simp

lemma nat_of_le_of_nat: "n < 256 ^ k \<Longrightarrow> nat_of_le (le_of_nat k n) = n"
proof (induction k n rule: le_of_nat.induct)
  case (2 k n)
  have "unat (word_of_nat (n mod 256) :: u8) = n mod 256" by (simp add: unat_of_nat)
  moreover have "n div 256 < 256 ^ k" using 2(2) by (simp add: less_mult_imp_div_less mult.commute)
  ultimately show ?case using 2(1) by simp
qed simp

definition le16 :: "u16 \<Rightarrow> bytes" where "le16 w = le_of_nat 2 (unat w)"
definition le32 :: "u32 \<Rightarrow> bytes" where "le32 w = le_of_nat 4 (unat w)"

lemma length_le [simp]: "length (le16 w) = 2" "length (le32 v) = 4"
  by (simp_all add: le16_def le32_def)

lemma le16_iff: "length bs = 2 \<and> word_of_nat (nat_of_le bs) = w \<longleftrightarrow> bs = le16 w"
proof
  assume *: "length bs = 2 \<and> word_of_nat (nat_of_le bs) = w"
  then have "unat w = nat_of_le bs" using nat_of_le_bound [of bs] by (auto simp: unat_of_nat)
  with le_of_nat_of_le [of bs] * show "bs = le16 w" by (simp add: le16_def)
next
  assume "bs = le16 w"
  with unsigned_less [of w, where ?'a = nat] show "length bs = 2 \<and> word_of_nat (nat_of_le bs) = w"
    by (simp add: le16_def nat_of_le_of_nat)
qed

lemma le32_iff: "length bs = 4 \<and> word_of_nat (nat_of_le bs) = w \<longleftrightarrow> bs = le32 w"
proof
  assume *: "length bs = 4 \<and> word_of_nat (nat_of_le bs) = w"
  then have "unat w = nat_of_le bs" using nat_of_le_bound [of bs] by (auto simp: unat_of_nat)
  with le_of_nat_of_le [of bs] * show "bs = le32 w" by (simp add: le32_def)
next
  assume "bs = le32 w"
  with unsigned_less [of w, where ?'a = nat] show "length bs = 4 \<and> word_of_nat (nat_of_le bs) = w"
    by (simp add: le32_def nat_of_le_of_nat)
qed

lemma cursor_u16_Ok: "cursor_wf c \<Longrightarrow> cursor_u16 c = Ok (w, c') \<longleftrightarrow> moved c (le16 w) c'"
  by (simp add: cursor_u16_def result_simps cursor_take_Ok split_paired_Ex) (metis le16_iff)

lemma cursor_u32_Ok: "cursor_wf c \<Longrightarrow> cursor_u32 c = Ok (w, c') \<longleftrightarrow> moved c (le32 w) c'"
  by (simp add: cursor_u32_def result_simps cursor_take_Ok split_paired_Ex) (metis le32_iff)

section \<open>Readers\<close>

text \<open>
  A reader is exact for a relation between values and bytes: it returns a value exactly when it has read
  bytes the relation allows for it. The parser is put together from readers by these rules.
\<close>

definition reads :: "(Cursor \<Rightarrow> log_error + ('v \<times> Cursor)) \<Rightarrow> ('v \<Rightarrow> bytes \<Rightarrow> bool) \<Rightarrow> bool" where
  "reads p G \<longleftrightarrow> (\<forall>c v c'. cursor_wf c \<longrightarrow> (p c = Ok (v, c') \<longleftrightarrow> (\<exists>bs. G v bs \<and> moved c bs c')))"

lemma readsD: "reads p G \<Longrightarrow> cursor_wf c \<Longrightarrow> p c = Ok (v, c') \<longleftrightarrow> (\<exists>bs. G v bs \<and> moved c bs c')"
  by (simp add: reads_def)

lemma reads_cong: "reads p G \<Longrightarrow> (\<And>v bs. G' v bs \<longleftrightarrow> G v bs) \<Longrightarrow> reads p G'"
  by (simp add: reads_def)

lemma reads_ext: "(\<And>c. p c = q c) \<Longrightarrow> reads q G \<Longrightarrow> reads p G"
  by (simp add: reads_def)

lemma reads_take: "reads (cursor_take n) (\<lambda>v bs. v = bs \<and> length bs = n)"
  by (auto simp: reads_def cursor_take_Ok)

lemma reads_u16: "reads cursor_u16 (\<lambda>w bs. bs = le16 w)"
  by (simp add: reads_def cursor_u16_Ok)

lemma reads_u32: "reads cursor_u32 (\<lambda>w bs. bs = le32 w)"
  by (simp add: reads_def cursor_u32_Ok)

lemma reads_Ok: "reads (\<lambda>c. Ok (v, c)) (\<lambda>y bs. y = v \<and> bs = [])"
  by (auto simp: reads_def)

lemma reads_Err: "reads (\<lambda>c. Err e) (\<lambda>y bs. False)"
  by (simp add: reads_def)

lemma reads_if: "reads p G \<Longrightarrow> reads q H \<Longrightarrow> reads (\<lambda>c. if b then p c else q c) (\<lambda>y bs. if b then G y bs else H y bs)"
  by (simp add: reads_def)

lemma reads_ensure: "reads q H \<Longrightarrow> reads (\<lambda>c. bind_r (ensure b e) (\<lambda>_. q c)) (\<lambda>y bs. b \<and> H y bs)"
  by (simp add: reads_def ensure_def)

lemma reads_value:
  assumes "\<And>v. reads (q v) (H v)"
  shows "reads (\<lambda>c. bind_r r (\<lambda>v. q v c)) (\<lambda>y bs. \<exists>v. r = Ok v \<and> H v y bs)"
  using assms by (cases r) (auto simp: reads_def)

lemma reads_bind:
  assumes p: "reads p G" and q: "\<And>v. reads (q v) (H v)"
  shows "reads (\<lambda>c. bind_r (p c) (\<lambda>(v, c). q v c)) (\<lambda>y bs. \<exists>v as cs. G v as \<and> H v y cs \<and> bs = as @ cs)"
  unfolding reads_def
proof (intro allI impI)
  fix c y c'' assume wf: "cursor_wf c"
  have "bind_r (p c) (\<lambda>(v, c). q v c) = Ok (y, c'') \<longleftrightarrow> (\<exists>v c'. p c = Ok (v, c') \<and> q v c' = Ok (y, c''))"
    by (auto simp: result_simps)
  also have "\<dots> \<longleftrightarrow> (\<exists>v c' as. G v as \<and> moved c as c' \<and> q v c' = Ok (y, c''))"
    using readsD [OF p wf] by blast
  also have "\<dots> \<longleftrightarrow> (\<exists>v c' as cs. G v as \<and> moved c as c' \<and> H v y cs \<and> moved c' cs c'')"
    using readsD [OF q moved_wf [OF wf]] by blast
  also have "\<dots> \<longleftrightarrow> (\<exists>bs. (\<exists>v as cs. G v as \<and> H v y cs \<and> bs = as @ cs) \<and> moved c bs c'')"
    by (metis moved_append)
  finally show "bind_r (p c) (\<lambda>(v, c). q v c) = Ok (y, c'') \<longleftrightarrow>
      (\<exists>bs. (\<exists>v as cs. G v as \<and> H v y cs \<and> bs = as @ cs) \<and> moved c bs c'')" .
qed

section \<open>The format\<close>

definition enc_sizes :: "(u16 \<times> nat) list \<Rightarrow> bytes" where
  "enc_sizes sizes = concat (map (\<lambda>(a, n). le16 a @ le16 (word_of_nat n)) sizes)"

definition enc_digests :: "(u16 \<times> bytes) list \<Rightarrow> bytes" where
  "enc_digests ds = concat (map (\<lambda>(a, d). le16 a @ d) ds)"

lemma reads_sizes: "reads (parse_sizes n) (\<lambda>sizes bs. length sizes = n \<and> list_all (\<lambda>(_, k). k < 2 ^ 16) sizes \<and> bs = enc_sizes sizes)"
proof (induction n)
  case 0
  show ?case by (rule reads_ext [OF parse_sizes.simps(1)], rule reads_cong [OF reads_Ok]) (auto simp: enc_sizes_def)
next
  case (Suc n)
  have bound: "unat (w :: u16) < 65536" for w using unsigned_less [of w, where ?'a = nat] by simp
  have "reads (parse_sizes (Suc n)) (\<lambda>y bs. \<exists>a as cs. as = le16 a \<and> (\<exists>k as' cs'. as' = le16 k \<and>
      (\<exists>sizes as'' cs''. (length sizes = n \<and> list_all (\<lambda>(_, k). k < 2 ^ 16) sizes \<and> as'' = enc_sizes sizes)
        \<and> (y = (a, unat k) # sizes \<and> cs'' = []) \<and> cs' = as'' @ cs'') \<and> cs = as' @ cs') \<and> bs = as @ cs)"
    by (rule reads_ext [OF parse_sizes.simps(2)], intro reads_bind reads_u16 Suc reads_Ok)
  moreover have "\<exists>k :: u16. b = unat k \<and> le16 (word_of_nat b) = le16 k" if "b < 65536" for b
    using that by (intro exI [of _ "word_of_nat b"]) (simp add: unat_of_nat)
  ultimately show ?case
    by (elim reads_cong) (auto simp: enc_sizes_def length_Suc_conv bound)
qed

definition sha384s :: "(u16 \<times> bytes) list \<Rightarrow> bytes list" where
  "sha384s ds = map snd (filter (\<lambda>(a, _). a = TPM_ALG_SHA384) ds)"

definition digests_listed :: "(u16 \<times> nat) list \<Rightarrow> (u16 \<times> bytes) list \<Rightarrow> bool" where
  "digests_listed sizes ds = list_all (\<lambda>(a, d). listed_size sizes a = Some (length d)) ds"

lemma digests_Cons [log_simps]:
  "sha384s ((a, d) # ds) = (if a = TPM_ALG_SHA384 then d # sha384s ds else sha384s ds)"
  "enc_digests ((a, d) # ds) = le16 a @ d @ enc_digests ds"
  "digests_listed sizes ((a, d) # ds) \<longleftrightarrow> listed_size sizes a = Some (length d) \<and> digests_listed sizes ds"
  by (simp_all add: sha384s_def enc_digests_def digests_listed_def)

lemma digest_shape:
  "(\<exists>a d cs. L a = Some (length d) \<and> P a d cs \<and> bs = e a @ d @ cs)
   \<longleftrightarrow> (\<exists>a as cs. as = e a \<and> (\<exists>k. ok_or (L a) (E a) = Ok k \<and>
        (\<exists>d as' cs'. (d = as' \<and> length as' = k) \<and> P a d cs' \<and> cs = as' @ cs')) \<and> bs = as @ cs)"
  by (simp add: result_simps) blast

lemma reads_digests:
  "reads (parse_digests sizes n found) (\<lambda>s bs. \<exists>ds. length ds = n \<and> digests_listed sizes ds \<and> bs = enc_digests ds
     \<and> (sha384s ds = [] \<and> s = found \<or> found = None \<and> (\<exists>d. sha384s ds = [d] \<and> s = Some d)))"
proof (induction n arbitrary: found)
  case 0
  show ?case
    by (rule reads_ext [OF parse_digests.simps(1)], rule reads_cong [OF reads_Ok])
      (auto simp: enc_digests_def digests_listed_def sha384s_def)
next
  case (Suc n)
  let ?D = "\<lambda>found s bs. \<exists>ds. length ds = n \<and> digests_listed sizes ds \<and> bs = enc_digests ds
     \<and> (sha384s ds = [] \<and> s = found \<or> found = None \<and> (\<exists>d. sha384s ds = [d] \<and> s = Some d))"
  have "reads (parse_digests sizes (Suc n) found) (\<lambda>s bs. \<exists>a as cs. as = le16 a \<and>
      (\<exists>k. ok_or (listed_size sizes a) (UnlistedAlgorithm a) = Ok k \<and>
        (\<exists>d as' cs'. (d = as' \<and> length as' = k) \<and>
          (if a = TPM_ALG_SHA384 then found = None \<and> ?D (Some d) s cs' else ?D found s cs') \<and> cs = as' @ cs')) \<and> bs = as @ cs)"
    by (rule reads_ext [OF parse_digests.simps(2)], intro reads_bind reads_u16 reads_value reads_take reads_if reads_ensure Suc)
  then show ?case
  proof (rule reads_cong)
    fix s bs
    let ?one = "\<lambda>a d s bs. if a = TPM_ALG_SHA384 then found = None \<and> ?D (Some d) s bs else ?D found s bs"
    have "(\<exists>ds. length ds = Suc n \<and> digests_listed sizes ds \<and> bs = enc_digests ds
        \<and> (sha384s ds = [] \<and> s = found \<or> found = None \<and> (\<exists>d. sha384s ds = [d] \<and> s = Some d)))
      \<longleftrightarrow> (\<exists>a d ds. length ds = n \<and> digests_listed sizes ((a, d) # ds) \<and> bs = enc_digests ((a, d) # ds)
        \<and> (sha384s ((a, d) # ds) = [] \<and> s = found \<or> found = None \<and> (\<exists>d'. sha384s ((a, d) # ds) = [d'] \<and> s = Some d')))"
      by (auto simp: length_Suc_conv split_paired_Ex)
    also have "\<dots> \<longleftrightarrow> (\<exists>a d cs. listed_size sizes a = Some (length d) \<and> ?one a d s cs \<and> bs = le16 a @ d @ cs)"
    proof (intro iff_exI)
      fix a d
      show "(\<exists>ds. length ds = n \<and> digests_listed sizes ((a, d) # ds) \<and> bs = enc_digests ((a, d) # ds)
          \<and> (sha384s ((a, d) # ds) = [] \<and> s = found \<or> found = None \<and> (\<exists>d'. sha384s ((a, d) # ds) = [d'] \<and> s = Some d')))
        \<longleftrightarrow> (\<exists>cs. listed_size sizes a = Some (length d) \<and> ?one a d s cs \<and> bs = le16 a @ d @ cs)"
        by (cases "a = TPM_ALG_SHA384") (auto simp: log_simps)
    qed
    also have "\<dots> \<longleftrightarrow> (\<exists>a as cs. as = le16 a \<and> (\<exists>k. ok_or (listed_size sizes a) (UnlistedAlgorithm a) = Ok k \<and>
        (\<exists>d as' cs'. (d = as' \<and> length as' = k) \<and> ?one a d s cs' \<and> cs = as' @ cs')) \<and> bs = as @ cs)"
      by (rule digest_shape)
    finally show "(\<exists>ds. length ds = Suc n \<and> digests_listed sizes ds \<and> bs = enc_digests ds
        \<and> (sha384s ds = [] \<and> s = found \<or> found = None \<and> (\<exists>d. sha384s ds = [d] \<and> s = Some d)))
      \<longleftrightarrow> (\<exists>a as cs. as = le16 a \<and> (\<exists>k. ok_or (listed_size sizes a) (UnlistedAlgorithm a) = Ok k \<and>
        (\<exists>d as' cs'. (d = as' \<and> length as' = k) \<and> ?one a d s cs' \<and> cs = as' @ cs')) \<and> bs = as @ cs)" .
  qed
qed

record log_record =
  rec_index :: u32
  rec_type :: u32
  rec_digests :: "(u16 \<times> bytes) list"
  rec_data :: bytes

definition enc_record :: "log_record \<Rightarrow> bytes" where
  "enc_record r = le32 (rec_index r) @ le32 (rec_type r) @ le32 (word_of_nat (length (rec_digests r)))
     @ enc_digests (rec_digests r) @ le32 (word_of_nat (length (rec_data r))) @ rec_data r"

definition rec_event :: "log_record \<Rightarrow> Event option" where
  "rec_event r = (if rec_type r = EV_NO_ACTION then None
     else Some \<lparr>rtmr = unat (rec_index r) - 1, event_type = rec_type r, digest = hd (sha384s (rec_digests r)),
                event_data = rec_data r\<rparr>)"

text \<open>A valid record: listed digests, at most one for SHA-384, and for a measured record exactly one of
  48 bytes and a register between RTMR0 and RTMR3.\<close>

definition record_valid :: "(u16 \<times> nat) list \<Rightarrow> log_record \<Rightarrow> bool" where
  "record_valid sizes r \<longleftrightarrow> length (rec_digests r) \<le> length sizes \<and> length (rec_digests r) < 2 ^ 32
     \<and> digests_listed sizes (rec_digests r) \<and> length (sha384s (rec_digests r)) \<le> 1 \<and> length (rec_data r) < 2 ^ 32
     \<and> (rec_type r = EV_NO_ACTION \<or> 1 \<le> unat (rec_index r) \<and> unat (rec_index r) \<le> 4 \<and> map length (sha384s (rec_digests r)) = [48])"

lemma unat_u32 [log_simps]: "n < 2 ^ 32 \<Longrightarrow> unat (word_of_nat n :: u32) = n"
  by (simp add: unat_of_nat)

lemma unat_u32_bound: "unat (w :: u32) < 2 ^ 32"
  using unsigned_less [of w, where ?'a = nat] by simp

lemma u32_length: "length xs = unat (w :: u32) \<longleftrightarrow> length xs < 2 ^ 32 \<and> w = word_of_nat (length xs)"
  using unat_u32_bound [of w] by (auto simp: unat_u32)

definition found_sha384 :: "(u16 \<times> bytes) list \<Rightarrow> bytes option" where
  "found_sha384 ds = (case sha384s ds of [] \<Rightarrow> None | d # _ \<Rightarrow> Some d)"

lemma reads_record_digests:
  "reads (parse_digests sizes n None) (\<lambda>s bs. \<exists>ds. length ds = n \<and> digests_listed sizes ds \<and> length (sha384s ds) \<le> 1
     \<and> s = found_sha384 ds \<and> bs = enc_digests ds)"
proof (rule reads_cong [OF reads_digests], rule iff_exI)
  fix s bs ds
  have "length (sha384s ds) \<le> 1 \<and> s = found_sha384 ds \<longleftrightarrow>
      sha384s ds = [] \<and> s = None \<or> (None :: bytes option) = None \<and> (\<exists>d. sha384s ds = [d] \<and> s = Some d)"
    by (cases "sha384s ds" rule: remdups_adj.cases) (auto simp: found_sha384_def)
  then show "(length ds = n \<and> digests_listed sizes ds \<and> length (sha384s ds) \<le> 1 \<and> s = found_sha384 ds \<and> bs = enc_digests ds) \<longleftrightarrow>
      (length ds = n \<and> digests_listed sizes ds \<and> bs = enc_digests ds
       \<and> (sha384s ds = [] \<and> s = None \<or> (None :: bytes option) = None \<and> (\<exists>d. sha384s ds = [d] \<and> s = Some d)))"
    by metis
qed

text \<open>The value of a record from its parts, as the end of \<^verbatim>\<open>parse_event\<close> computes it.\<close>

definition event_value :: "u32 \<Rightarrow> u32 \<Rightarrow> bytes option \<Rightarrow> bytes \<Rightarrow> Event option \<Rightarrow> bool" where
  "event_value index etype s dat e \<longleftrightarrow> (if etype = EV_NO_ACTION then e = None
    else \<exists>i. rtmr_of_index index = Ok i \<and> (\<exists>d. ok_or s NoSha384Digest = Ok d \<and>
      length d = 48 \<and> e = Some \<lparr>rtmr = i, event_type = etype, digest = d, event_data = dat\<rparr>))"

lemma reads_event_value:
  "reads (\<lambda>c. if etype = EV_NO_ACTION then Ok (None, c)
     else bind_r (rtmr_of_index index) (\<lambda>r. bind_r (ok_or s NoSha384Digest) (\<lambda>d. bind_r (ensure (length d = 48) DigestLength) (\<lambda>_.
       Ok (Some \<lparr>rtmr = r, event_type = etype, digest = d, event_data = dat\<rparr>, c)))))
   (\<lambda>e bs. event_value index etype s dat e \<and> bs = [])"
proof -
  have "reads (\<lambda>c. if etype = EV_NO_ACTION then Ok (None, c)
     else bind_r (rtmr_of_index index) (\<lambda>r. bind_r (ok_or s NoSha384Digest) (\<lambda>d. bind_r (ensure (length d = 48) DigestLength) (\<lambda>_.
       Ok (Some \<lparr>rtmr = r, event_type = etype, digest = d, event_data = dat\<rparr>, c)))))
   (\<lambda>e bs. if etype = EV_NO_ACTION then e = None \<and> bs = [] else \<exists>r. rtmr_of_index index = Ok r \<and>
      (\<exists>d. ok_or s NoSha384Digest = Ok d \<and> length d = 48
        \<and> e = Some \<lparr>rtmr = r, event_type = etype, digest = d, event_data = dat\<rparr> \<and> bs = []))"
    by (intro reads_if reads_ensure reads_value reads_Ok)
  then show ?thesis by (rule reads_cong) (auto simp: event_value_def)
qed

lemma event_value_record:
  assumes "length (sha384s ds) \<le> 1"
  shows "event_value index etype (found_sha384 ds) dat e \<longleftrightarrow>
    (etype = EV_NO_ACTION \<or> 1 \<le> unat index \<and> unat index \<le> 4 \<and> map length (sha384s ds) = [48])
    \<and> e = rec_event \<lparr>rec_index = index, rec_type = etype, rec_digests = ds, rec_data = dat\<rparr>"
  using assms
  by (cases "sha384s ds") (auto simp: event_value_def rec_event_def found_sha384_def rtmr_of_index_def)

lemma record_shape:
  "(\<exists>index b1 r1. b1 = E index \<and> (\<exists>etype b2 r2. b2 = E etype \<and> (\<exists>count b3 r3. b3 = E count \<and> (C count \<and>
      (\<exists>s b4 r4. (\<exists>ds. length ds = N count \<and> P ds \<and> Q ds \<and> s = S ds \<and> b4 = F ds) \<and> (\<exists>len b5 r5. b5 = E len \<and>
      (\<exists>dat b6 r6. (dat = b6 \<and> length b6 = N len) \<and> (V index etype s dat \<and> r6 = [])
        \<and> r5 = b6 @ r6) \<and> r4 = b5 @ r5) \<and> r3 = b4 @ r4)) \<and> r2 = b3 @ r3) \<and> r1 = b2 @ r2) \<and> bs = b1 @ r1)
   \<longleftrightarrow> (\<exists>index etype ds dat count len. C count \<and> length ds = N count \<and> P ds \<and> Q ds \<and> length dat = N len
      \<and> V index etype (S ds) dat \<and> bs = E index @ E etype @ E count @ F ds @ E len @ dat)"
  by simp blast

lemma reads_event: "reads (parse_event sizes) (\<lambda>e bs. \<exists>r. record_valid sizes r \<and> e = rec_event r \<and> bs = enc_record r)"
proof -
  let ?D = "\<lambda>n s bs. \<exists>ds. length ds = n \<and> digests_listed sizes ds \<and> length (sha384s ds) \<le> 1
     \<and> s = found_sha384 ds \<and> bs = enc_digests ds"
  have "reads (parse_event sizes) (\<lambda>e bs. \<exists>index b1 r1. b1 = le32 index \<and> (\<exists>etype b2 r2. b2 = le32 etype \<and>
      (\<exists>count b3 r3. b3 = le32 count \<and> (unat count \<le> length sizes \<and>
      (\<exists>s b4 r4. ?D (unat count) s b4 \<and> (\<exists>data_len b5 r5. b5 = le32 data_len \<and>
      (\<exists>dat b6 r6. (dat = b6 \<and> length b6 = unat data_len) \<and> (event_value index etype s dat e \<and> r6 = [])
        \<and> r5 = b6 @ r6) \<and> r4 = b5 @ r5) \<and> r3 = b4 @ r4)) \<and> r2 = b3 @ r3) \<and> r1 = b2 @ r2) \<and> bs = b1 @ r1)"
    by (rule reads_ext [OF parse_event_def],
        intro reads_bind reads_u32 reads_take reads_ensure reads_record_digests reads_event_value)
  then show ?thesis
  proof (rule reads_cong)
    fix e bs
    have parts: "(\<exists>r. record_valid sizes r \<and> e = rec_event r \<and> bs = enc_record r) \<longleftrightarrow>
      (\<exists>index etype ds dat. record_valid sizes \<lparr>rec_index = index, rec_type = etype, rec_digests = ds, rec_data = dat\<rparr>
        \<and> e = rec_event \<lparr>rec_index = index, rec_type = etype, rec_digests = ds, rec_data = dat\<rparr>
        \<and> bs = enc_record \<lparr>rec_index = index, rec_type = etype, rec_digests = ds, rec_data = dat\<rparr>)"
      by (metis log_record.cases)
    show "(\<exists>r. record_valid sizes r \<and> e = rec_event r \<and> bs = enc_record r) \<longleftrightarrow>
      (\<exists>index b1 r1. b1 = le32 index \<and> (\<exists>etype b2 r2. b2 = le32 etype \<and>
      (\<exists>count b3 r3. b3 = le32 count \<and> (unat count \<le> length sizes \<and>
      (\<exists>s b4 r4. ?D (unat count) s b4 \<and> (\<exists>data_len b5 r5. b5 = le32 data_len \<and>
      (\<exists>dat b6 r6. (dat = b6 \<and> length b6 = unat data_len) \<and> (event_value index etype s dat e \<and> r6 = [])
        \<and> r5 = b6 @ r6) \<and> r4 = b5 @ r5) \<and> r3 = b4 @ r4)) \<and> r2 = b3 @ r3) \<and> r1 = b2 @ r2) \<and> bs = b1 @ r1)"
      unfolding parts record_shape
      by (intro iff_exI) (auto simp: record_valid_def enc_record_def u32_length unat_u32 event_value_record event_value_record [unfolded One_nat_def])
  qed
qed

text \<open>The header: its index and SHA-1 digest are ignored, its data is the Spec ID structure with the
  algorithm table, eight ignored bytes and whatever vendor data follows.\<close>

record log_header =
  header_index :: u32
  header_sha1 :: bytes
  header_platform :: bytes
  header_sizes :: "(u16 \<times> nat) list"
  header_vendor :: bytes

definition enc_spec :: "log_header \<Rightarrow> bytes" where
  "enc_spec h = SPEC_ID_SIGNATURE @ header_platform h @ le32 (word_of_nat (length (header_sizes h)))
     @ enc_sizes (header_sizes h) @ header_vendor h"

definition enc_header :: "log_header \<Rightarrow> bytes" where
  "enc_header h = le32 (header_index h) @ le32 EV_NO_ACTION @ header_sha1 h @ le32 (word_of_nat (length (enc_spec h))) @ enc_spec h"

definition header_valid :: "log_header \<Rightarrow> bool" where
  "header_valid h \<longleftrightarrow> length (header_sha1 h) = 20 \<and> length (header_platform h) = 8 \<and> length (enc_spec h) < 2 ^ 32
     \<and> 1 \<le> length (header_sizes h) \<and> length (header_sizes h) \<le> 16
     \<and> list_all (\<lambda>(_, k). k < 2 ^ 16) (header_sizes h) \<and> (TPM_ALG_SHA384, 48) \<in> set (header_sizes h)"

lemma length_SPEC_ID [simp]: "length SPEC_ID_SIGNATURE = 16"
  by (simp add: SPEC_ID_SIGNATURE_def)

lemma spec_shape:
  "(\<exists>sig b1 r1. (sig = b1 \<and> length b1 = 16) \<and> (sig = Z \<and>
      (\<exists>p b2 r2. (p = b2 \<and> length b2 = k) \<and> (\<exists>count b3 r3. b3 = E count \<and> (C count \<and>
      (\<exists>sizes b4 r4. (length sizes = N count \<and> P sizes \<and> b4 = F sizes) \<and> (Q sizes \<and> (y = sizes \<and> r4 = []))
        \<and> r3 = b4 @ r4)) \<and> r2 = b3 @ r3) \<and> r1 = b2 @ r2)) \<and> bs = b1 @ r1)
   \<longleftrightarrow> length Z = 16 \<and> (\<exists>p count. length p = k \<and> C count \<and> length y = N count \<and> P y \<and> Q y
      \<and> bs = Z @ p @ E count @ F y)"
  by simp blast

lemma reads_spec:
  "reads parse_spec (\<lambda>sizes bs. \<exists>p. length p = 8 \<and> 1 \<le> length sizes \<and> length sizes \<le> 16
     \<and> list_all (\<lambda>(_, k). k < 2 ^ 16) sizes \<and> (TPM_ALG_SHA384, 48) \<in> set sizes
     \<and> bs = SPEC_ID_SIGNATURE @ p @ le32 (word_of_nat (length sizes)) @ enc_sizes sizes)"
proof -
  have "reads parse_spec (\<lambda>y bs. \<exists>sig b1 r1. (sig = b1 \<and> length b1 = 16) \<and> (sig = SPEC_ID_SIGNATURE \<and>
      (\<exists>p b2 r2. (p = b2 \<and> length b2 = 4 + 1 + 1 + 1 + 1) \<and> (\<exists>count b3 r3. b3 = le32 count \<and>
      ((1 \<le> unat count \<and> unat count \<le> MAX_ALGORITHMS) \<and>
      (\<exists>sizes b4 r4. (length sizes = unat count \<and> list_all (\<lambda>(_, k). k < 2 ^ 16) sizes \<and> b4 = enc_sizes sizes)
        \<and> ((TPM_ALG_SHA384, 48) \<in> set sizes \<and> (y = sizes \<and> r4 = []))
        \<and> r3 = b4 @ r4)) \<and> r2 = b3 @ r3) \<and> r1 = b2 @ r2)) \<and> bs = b1 @ r1)"
    by (rule reads_ext [OF parse_spec_def],
        intro reads_bind reads_take reads_ensure reads_u32 reads_sizes reads_Ok)
  then show ?thesis
    by (rule reads_cong) (unfold spec_shape MAX_ALGORITHMS_def, auto simp: u32_length unat_u32)
qed

lemma start_moved: "moved \<lparr>buffer = xs, offset = 0\<rparr> bs c' \<longleftrightarrow> (\<exists>tail. xs = bs @ tail \<and> c' = \<lparr>buffer = xs, offset = length bs\<rparr>)"
  by (auto simp: moved_def rest_def)

text \<open>The Spec ID structure may be followed by anything.\<close>

lemma parse_spec_bytes:
  "(\<exists>c'. parse_spec \<lparr>buffer = xs, offset = 0\<rparr> = Ok (sizes, c')) \<longleftrightarrow>
   (\<exists>p vendor. length p = 8 \<and> 1 \<le> length sizes \<and> length sizes \<le> 16 \<and> list_all (\<lambda>(_, k). k < 2 ^ 16) sizes
      \<and> (TPM_ALG_SHA384, 48) \<in> set sizes
      \<and> xs = SPEC_ID_SIGNATURE @ p @ le32 (word_of_nat (length sizes)) @ enc_sizes sizes @ vendor)"
proof -
  have "cursor_wf \<lparr>buffer = xs, offset = 0\<rparr>" by (simp add: cursor_wf_def)
  note spec = readsD [OF reads_spec this]
  have shape: "(\<exists>c' bs. (\<exists>p. A p \<and> B1 \<and> B2 \<and> B3 \<and> B4 \<and> bs = g p) \<and> (\<exists>tail. xs = bs @ tail \<and> c' = f bs))
      \<longleftrightarrow> (\<exists>p tail. A p \<and> B1 \<and> B2 \<and> B3 \<and> B4 \<and> xs = g p @ tail)" for A B1 B2 B3 B4 g and f :: "bytes \<Rightarrow> Cursor"
    by blast
  show ?thesis unfolding spec start_moved shape append_assoc ..
qed

lemma header_shape:
  "(\<exists>index b1 r1. b1 = E index \<and> (\<exists>etype b2 r2. b2 = E etype \<and> (etype = T \<and>
      (\<exists>sha b3 r3. (sha = b3 \<and> length b3 = n) \<and> (\<exists>size b4 r4. b4 = E size \<and>
      (\<exists>spec b5 r5. (spec = b5 \<and> length b5 = N size) \<and> (P spec \<and> r5 = []) \<and> r4 = b5 @ r5)
        \<and> r3 = b4 @ r4) \<and> r2 = b3 @ r3)) \<and> r1 = b2 @ r2) \<and> bs = b1 @ r1)
   \<longleftrightarrow> (\<exists>index sha spec size. length sha = n \<and> length spec = N size \<and> P spec
      \<and> bs = E index @ E T @ sha @ E size @ spec)"
  by simp blast

text \<open>The valid headers with a given table are the bytes the code accepts for it.\<close>

lemma header_bytes:
  "(\<exists>h. header_valid h \<and> y = header_sizes h \<and> bs = enc_header h) \<longleftrightarrow>
   (\<exists>index sha spec size. length sha = 20 \<and> length spec = unat (size :: u32)
      \<and> (\<exists>c'. parse_spec \<lparr>buffer = spec, offset = 0\<rparr> = Ok (y, c')) \<and> bs = le32 index @ le32 EV_NO_ACTION @ sha @ le32 size @ spec)"
  (is "?L \<longleftrightarrow> ?R")
proof
  assume ?L
  then obtain h where h: "header_valid h" "y = header_sizes h" "bs = enc_header h" by blast
  have "\<exists>c'. parse_spec \<lparr>buffer = enc_spec h, offset = 0\<rparr> = Ok (y, c')"
    unfolding parse_spec_bytes using h(1,2) by (auto simp: header_valid_def enc_spec_def)
  moreover have "length (enc_spec h) = unat (word_of_nat (length (enc_spec h)) :: u32)"
    using h(1) by (simp only: header_valid_def unat_u32)
  ultimately show ?R using h(1,3) unfolding enc_header_def header_valid_def by blast
next
  assume ?R
  then obtain index sha spec size where *: "length sha = 20" "length spec = unat (size :: u32)"
    "\<exists>c'. parse_spec \<lparr>buffer = spec, offset = 0\<rparr> = Ok (y, c')" "bs = le32 index @ le32 EV_NO_ACTION @ sha @ le32 size @ spec"
    by blast
  from *(3) obtain p vendor where sp: "length p = 8" "1 \<le> length y" "length y \<le> 16" "list_all (\<lambda>(_, k). k < 2 ^ 16) y"
    "(TPM_ALG_SHA384, 48) \<in> set y"
    "spec = SPEC_ID_SIGNATURE @ p @ le32 (word_of_nat (length y)) @ enc_sizes y @ vendor"
    unfolding parse_spec_bytes by blast
  define h where "h = \<lparr>header_index = index, header_sha1 = sha, header_platform = p, header_sizes = y, header_vendor = vendor\<rparr>"
  have spec: "enc_spec h = spec" by (simp add: h_def enc_spec_def sp(6))
  have size: "length spec < 2 ^ 32" "size = word_of_nat (length spec)" using *(2) by (simp_all only: u32_length)
  have "header_valid h" unfolding header_valid_def spec using *(1) sp(1-5) size(1) by (simp add: h_def)
  moreover have "bs = enc_header h" unfolding enc_header_def spec using *(4) size(2) by (simp add: h_def)
  moreover have "y = header_sizes h" by (simp add: h_def)
  ultimately show ?L by blast
qed

lemma reads_header:
  "reads parse_header (\<lambda>sizes bs. \<exists>h. header_valid h \<and> sizes = header_sizes h \<and> bs = enc_header h)"
proof -
  let ?P = "\<lambda>spec y. \<exists>c'. parse_spec \<lparr>buffer = spec, offset = 0\<rparr> = Ok (y, c')"
  have inner: "reads (\<lambda>c. bind_r (parse_spec \<lparr>buffer = spec, offset = 0\<rparr>) (\<lambda>(sizes, _). Ok (sizes, c)))
      (\<lambda>y bs. ?P spec y \<and> bs = [])" for spec
    by (auto simp: reads_def result_simps)
  have "reads parse_header (\<lambda>y bs. \<exists>index b1 r1. b1 = le32 index \<and> (\<exists>etype b2 r2. b2 = le32 etype \<and> (etype = EV_NO_ACTION \<and>
      (\<exists>sha b3 r3. (sha = b3 \<and> length b3 = SHA1_DIGEST_LEN) \<and> (\<exists>size b4 r4. b4 = le32 size \<and>
      (\<exists>spec b5 r5. (spec = b5 \<and> length b5 = unat size) \<and> (?P spec y \<and> r5 = []) \<and> r4 = b5 @ r5)
        \<and> r3 = b4 @ r4) \<and> r2 = b3 @ r3)) \<and> r1 = b2 @ r2) \<and> bs = b1 @ r1)"
    by (rule reads_ext [OF parse_header_def], intro reads_bind reads_u32 reads_ensure reads_take inner)
  then show ?thesis
  proof (rule reads_cong)
    fix y bs
    show "(\<exists>h. header_valid h \<and> y = header_sizes h \<and> bs = enc_header h) \<longleftrightarrow>
     (\<exists>index b1 r1. b1 = le32 index \<and> (\<exists>etype b2 r2. b2 = le32 etype \<and> (etype = EV_NO_ACTION \<and>
      (\<exists>sha b3 r3. (sha = b3 \<and> length b3 = SHA1_DIGEST_LEN) \<and> (\<exists>size b4 r4. b4 = le32 size \<and>
      (\<exists>spec b5 r5. (spec = b5 \<and> length b5 = unat size) \<and> (?P spec y \<and> r5 = []) \<and> r4 = b5 @ r5)
        \<and> r3 = b4 @ r4) \<and> r2 = b3 @ r3)) \<and> r1 = b2 @ r2) \<and> bs = b1 @ r1)"
      unfolding header_shape SHA1_DIGEST_LEN_def by (rule header_bytes)
  qed
qed

section \<open>The record loop\<close>

lemma length_enc_record: "length (enc_record r) \<ge> 16"
  by (simp add: enc_record_def)

lemma cursor_u32_wf: "cursor_u32 c = Ok q \<Longrightarrow> cursor_wf c"
  by (auto simp: cursor_u32_def cursor_take_def cursor_wf_def Let_def result_simps split: if_splits)

lemma parse_event_wf: "parse_event sizes c = Ok q \<Longrightarrow> cursor_wf c"
  unfolding parse_event_def by (cases "cursor_u32 c") (auto dest: cursor_u32_wf)

lemma parse_event_Ok:
  assumes "parse_event sizes c = Ok (e, c')"
  shows "\<exists>r. record_valid sizes r \<and> e = rec_event r \<and> moved c (enc_record r) c'"
  using readsD [OF reads_event parse_event_wf [OF assms]] assms by blast

lemma parse_event_progress:
  assumes "parse_event sizes c = Ok (e, c')"
  shows "length (buffer c') - offset c' < length (buffer c) - offset c"
proof -
  obtain r where "moved c (enc_record r) c'" using parse_event_Ok [OF assms] by blast
  then have "length (rest c) = length (enc_record r) + length (rest c')" by (simp add: moved_def)
  with length_enc_record [of r] show ?thesis unfolding rest_def length_drop by linarith
qed

function parse_events :: "(u16 \<times> nat) list \<Rightarrow> Event list \<Rightarrow> Cursor \<Rightarrow> log_error + Event list" where
  "parse_events sizes events c =
     (if at_end c then Ok events
      else if peek_u32 c = Some PADDING then bind_r (ensure (rest_is_padding c) DataAfterPadding) (\<lambda>_. Ok events)
      else if \<not> length events < MAX_EVENTS then Err TooManyEvents
      else case parse_event sizes c of
             Inl e \<Rightarrow> Err e
           | Inr (event, c') \<Rightarrow> parse_events sizes (events @ option_list event) c')"
  by pat_completeness auto
termination
  by (relation "measure (\<lambda>(sizes, events, c). length (buffer c) - offset c)") (auto intro: parse_event_progress)

declare parse_events.simps [simp del]

definition parse :: "bytes \<Rightarrow> log_error + Event list" where
  "parse log = bind_r (parse_header \<lparr>buffer = log, offset = 0\<rparr>) (\<lambda>(sizes, c). parse_events sizes [] c)"

definition extend :: "(bytes \<Rightarrow> Register) \<Rightarrow> Register list \<Rightarrow> Event \<Rightarrow> Register list" where
  "extend sha384 registers e = registers[rtmr e := sha384 (registers ! rtmr e @ digest e)]"

definition replay :: "(bytes \<Rightarrow> Register) \<Rightarrow> Event list \<Rightarrow> Register list" where
  "replay sha384 events = foldl (extend sha384) (replicate 4 (replicate 48 0)) events"

section \<open>What the loop accepts\<close>

definition measured :: "log_record list \<Rightarrow> Event list" where
  "measured rs = concat (map (option_list \<circ> rec_event) rs)"

definition enc_records :: "log_record list \<Rightarrow> bytes" where
  "enc_records rs = concat (map enc_record rs)"

text \<open>A body: valid records, of which only the last may come after the 4096th measured one, then nothing
  or at least four bytes of padding.\<close>

definition body_valid :: "(u16 \<times> nat) list \<Rightarrow> nat \<Rightarrow> log_record list \<Rightarrow> nat \<Rightarrow> bool" where
  "body_valid sizes seen rs pad \<longleftrightarrow> list_all (\<lambda>r. record_valid sizes r \<and> rec_index r \<noteq> PADDING) rs
     \<and> (rs = [] \<or> seen + length (measured (butlast rs)) < MAX_EVENTS) \<and> (pad = 0 \<or> 4 \<le> pad)"

lemma body_valid_Cons:
  "body_valid sizes seen (r # rs) pad \<longleftrightarrow> record_valid sizes r \<and> rec_index r \<noteq> PADDING \<and> seen < MAX_EVENTS
     \<and> body_valid sizes (seen + length (option_list (rec_event r))) rs pad"
  by (auto simp: body_valid_def measured_def)

lemma le32_inj: "le32 v = le32 w \<Longrightarrow> v = w"
  using le32_iff [of "le32 v" v] le32_iff [of "le32 v" w] by simp

lemma le32_PADDING: "le32 PADDING = replicate 4 0xFF"
proof -
  have "unat (- 1 :: u32) = 4294967295" by (simp add: unsigned_minus_1_eq_mask mask_eq_exp_minus_1)
  moreover have "(4 :: nat) = Suc (Suc (Suc (Suc 0)))" by simp
  ultimately show ?thesis unfolding le32_def PADDING_def by (simp only: le_of_nat.simps replicate.simps) simp
qed

lemma peek_Some:
  assumes "cursor_wf c"
  shows "peek_u32 c = Some w \<longleftrightarrow> (\<exists>tail. rest c = le32 w @ tail)"
proof
  assume "peek_u32 c = Some w"
  then have len: "4 \<le> length (rest c)" and w: "w = word_of_nat (nat_of_le (take 4 (rest c)))"
    using assms by (auto simp: peek_u32_def rest_def cursor_wf_def split: if_splits)
  with le32_iff [of "take 4 (rest c)" w] have "take 4 (rest c) = le32 w" by simp
  then show "\<exists>tail. rest c = le32 w @ tail" by (metis append_take_drop_id)
next
  assume "\<exists>tail. rest c = le32 w @ tail"
  then obtain tail where r: "rest c = le32 w @ tail" by blast
  then have "take 4 (rest c) = le32 w" "4 \<le> length (rest c)" by simp_all
  with le32_iff [of "le32 w" w] assms show "peek_u32 c = Some w"
    by (auto simp: peek_u32_def rest_def cursor_wf_def)
qed

lemma at_end_rest: "cursor_wf c \<Longrightarrow> at_end c \<longleftrightarrow> rest c = []"
  by (auto simp: at_end_def rest_def cursor_wf_def)

lemma list_all_FF: "list_all (\<lambda>b. b = x) xs \<longleftrightarrow> (\<exists>n. xs = replicate n x)"
  by (metis (full_types) in_set_replicate list_all_iff replicate_length_same)

lemma enc_record_head: "\<exists>tail. enc_record r = le32 (rec_index r) @ tail"
  by (simp add: enc_record_def)

text \<open>The records a body starts with are determined by its first bytes.\<close>

lemma body_end:
  assumes "body_valid sizes seen rs pad" and "enc_records rs @ replicate pad 0xFF = []"
  shows "rs = [] \<and> pad = 0"
proof (cases rs)
  case (Cons r rs')
  with assms(2) length_enc_record [of r] show ?thesis by (auto simp: enc_records_def)
qed (use assms(2) in \<open>simp add: enc_records_def\<close>)

lemma body_padding:
  assumes "body_valid sizes seen rs pad" and "enc_records rs @ replicate pad 0xFF = le32 PADDING @ tail"
  shows "rs = []"
proof (rule ccontr)
  assume "rs \<noteq> []"
  then obtain r rs' where rs: "rs = r # rs'" by (cases rs) auto
  obtain tl' where "enc_record r = le32 (rec_index r) @ tl'" using enc_record_head by blast
  with assms(2) rs have "le32 (rec_index r) = le32 PADDING" by (simp add: enc_records_def)
  with le32_inj assms(1) rs show False by (auto simp: body_valid_def)
qed

lemma body_record:
  assumes "body_valid sizes seen rs pad" and "enc_records rs @ replicate pad 0xFF \<noteq> []"
    and "\<And>tail. enc_records rs @ replicate pad 0xFF \<noteq> le32 PADDING @ tail"
  shows "rs \<noteq> []"
proof
  assume rs: "rs = []"
  with assms(1,2) have "4 \<le> pad" by (auto simp: body_valid_def enc_records_def)
  then have "replicate pad (0xFF :: u8) = le32 PADDING @ replicate (pad - 4) 0xFF"
    by (simp add: le32_PADDING flip: replicate_add)
  with assms(3) [of "replicate (pad - 4) 0xFF"] rs show False by (simp add: enc_records_def)
qed

lemma parse_events_exact:
  "cursor_wf c \<Longrightarrow> parse_events sizes events c = Ok out \<longleftrightarrow>
    (\<exists>rs pad. body_valid sizes (length events) rs pad \<and> rest c = enc_records rs @ replicate pad 0xFF \<and> out = events @ measured rs)"
proof (induction sizes events c rule: parse_events.induct)
  case (1 sizes events c)
  note eq = parse_events.simps [of sizes events c]
  show ?case (is "_ \<longleftrightarrow> ?R")
  proof (cases "at_end c")
    case True
    then have r: "rest c = []" using at_end_rest [OF "1.prems"] by simp
    have "?R \<longleftrightarrow> out = events"
    proof
      assume ?R
      with r body_end show "out = events" by (metis append_Nil2 concat.simps(1) list.map(1) measured_def)
    next
      assume "out = events"
      with r show ?R by (intro exI [of _ "[]"] exI [of _ 0]) (simp add: body_valid_def enc_records_def measured_def)
    qed
    with True show ?thesis by (auto simp: eq)
  next
    case more: False
    then have ne: "rest c \<noteq> []" using at_end_rest [OF "1.prems"] by simp
    show ?thesis
    proof (cases "peek_u32 c = Some PADDING")
      case True
      then obtain tail where tail: "rest c = le32 PADDING @ tail" using peek_Some [OF "1.prems"] by blast
      have len: "length (rest c) \<ge> 4" by (simp add: tail)
      have "?R \<longleftrightarrow> rest_is_padding c \<and> out = events"
      proof
        assume ?R
        then obtain rs pad where *: "body_valid sizes (length events) rs pad" "rest c = enc_records rs @ replicate pad 0xFF"
          "out = events @ measured rs" by blast
        from body_padding [OF *(1) trans [OF *(2) [symmetric] tail]] have "rs = []" .
        with * show "rest_is_padding c \<and> out = events"
          by (auto simp: rest_is_padding_def enc_records_def measured_def rest_def list_all_iff)
      next
        assume *: "rest_is_padding c \<and> out = events"
        then obtain n where n: "rest c = replicate n 0xFF" by (auto simp: rest_is_padding_def rest_def list_all_FF)
        with len have "4 \<le> n" by simp
        with n * show ?R by (intro exI [of _ "[]"] exI [of _ n]) (simp add: body_valid_def enc_records_def measured_def)
      qed
      with True more show ?thesis by (auto simp: eq result_simps)
    next
      case False
      then have nopad: "\<And>tail. rest c \<noteq> le32 PADDING @ tail" using peek_Some [OF "1.prems"] by blast
      have "?R \<longleftrightarrow> length events < MAX_EVENTS \<and> (\<exists>e c'. parse_event sizes c = Ok (e, c') \<and>
        (\<exists>rs pad. body_valid sizes (length (events @ option_list e)) rs pad \<and> rest c' = enc_records rs @ replicate pad 0xFF
          \<and> out = (events @ option_list e) @ measured rs))" (is "_ \<longleftrightarrow> ?S")
      proof
        assume ?R
        then obtain rs pad where *: "body_valid sizes (length events) rs pad" "rest c = enc_records rs @ replicate pad 0xFF"
          "out = events @ measured rs" by blast
        from body_record [OF *(1)] *(2) ne nopad obtain r rs' where rs: "rs = r # rs'" by (cases rs) auto
        define c' where "c' = c\<lparr>offset := offset c + length (enc_record r)\<rparr>"
        have rest: "rest c = enc_record r @ (enc_records rs' @ replicate pad 0xFF)" using *(2) rs by (simp add: enc_records_def)
        then have left: "rest c' = enc_records rs' @ replicate pad 0xFF"
          using drop_drop [of "length (enc_record r)" "offset c" "buffer c"] by (simp add: rest_def c'_def add.commute)
        with rest have "moved c (enc_record r) c'" by (simp add: moved_def c'_def)
        with *(1) rs have "parse_event sizes c = Ok (rec_event r, c')"
          using readsD [OF reads_event "1.prems"] by (auto simp: body_valid_Cons)
        with left *(1,3) rs show ?S by (auto simp: body_valid_Cons measured_def)
      next
        assume ?S
        then obtain e c' rs pad where *: "length events < MAX_EVENTS" "parse_event sizes c = Ok (e, c')"
          "body_valid sizes (length (events @ option_list e)) rs pad" "rest c' = enc_records rs @ replicate pad 0xFF"
          "out = (events @ option_list e) @ measured rs" by blast
        from *(2) readsD [OF reads_event "1.prems"] obtain r where
          r: "record_valid sizes r" "e = rec_event r" "moved c (enc_record r) c'" by blast
        have rest: "rest c = enc_record r @ rest c'" using r(3) by (simp add: moved_def)
        have "rec_index r \<noteq> PADDING"
        proof
          assume "rec_index r = PADDING"
          with enc_record_head [of r] rest nopad show False by (metis append_assoc)
        qed
        with * r rest show ?R
          by (intro exI [of _ "r # rs"] exI [of _ pad]) (auto simp: body_valid_Cons enc_records_def measured_def)
      qed
      moreover have "parse_events sizes events c = Ok out \<longleftrightarrow> ?S"
      proof (cases "parse_event sizes c")
        case (Inr q)
        obtain e c' where q: "q = (e, c')" by (cases q)
        have "cursor_wf c'" using parse_event_Ok moved_wf [OF "1.prems"] Inr q by blast
        from "1.IH" [OF more False _ Inr q [symmetric] this] Inr q more False show ?thesis
          by (auto simp: eq)
      qed (use more False in \<open>auto simp: eq\<close>)
      ultimately show ?thesis by blast
    qed
  qed
qed

lemma parse_exact_aux:
  "parse log = Ok events \<longleftrightarrow> (\<exists>h rs pad. header_valid h \<and> body_valid (header_sizes h) 0 rs pad
     \<and> log = enc_header h @ enc_records rs @ replicate pad 0xFF \<and> events = measured rs)"
proof -
  have wf: "cursor_wf \<lparr>buffer = log, offset = 0\<rparr>" by (simp add: cursor_wf_def)
  have "parse log = Ok events \<longleftrightarrow> (\<exists>sizes c. parse_header \<lparr>buffer = log, offset = 0\<rparr> = Ok (sizes, c) \<and> parse_events sizes [] c = Ok events)"
    by (auto simp: parse_def result_simps)
  also have "\<dots> \<longleftrightarrow> (\<exists>h c. header_valid h \<and> moved \<lparr>buffer = log, offset = 0\<rparr> (enc_header h) c \<and> parse_events (header_sizes h) [] c = Ok events)"
    unfolding readsD [OF reads_header wf] by blast
  also have "\<dots> \<longleftrightarrow> (\<exists>h c. header_valid h \<and> moved \<lparr>buffer = log, offset = 0\<rparr> (enc_header h) c
      \<and> (\<exists>rs pad. body_valid (header_sizes h) 0 rs pad \<and> rest c = enc_records rs @ replicate pad 0xFF \<and> events = measured rs))"
    by (intro iff_exI conj_cong refl) (simp add: parse_events_exact moved_wf [OF wf])
  also have "\<dots> \<longleftrightarrow> (\<exists>h rs pad. header_valid h \<and> body_valid (header_sizes h) 0 rs pad
     \<and> log = enc_header h @ enc_records rs @ replicate pad 0xFF \<and> events = measured rs)"
    by (rule iff_exI) (auto simp: start_moved rest_def; blast)
  finally show ?thesis .
qed

lemma foldl_extend_length: "length (foldl (extend sha384) rs es) = length rs"
  by (induction es arbitrary: rs) (simp_all add: extend_def)

lemma foldl_extend_nth:
  assumes "i < length rs" and "list_all (\<lambda>e. rtmr e < length rs) es"
  shows "foldl (extend sha384) rs es ! i = foldl (\<lambda>reg d. sha384 (reg @ d)) (rs ! i) (map digest (filter (\<lambda>e. rtmr e = i) es))"
  using assms by (induction es arbitrary: rs) (auto simp: extend_def)

lemma rec_event_wf: "record_valid sizes r \<Longrightarrow> rec_event r = Some e \<Longrightarrow> rtmr e < 4 \<and> length (digest e) = 48"
  by (cases "sha384s (rec_digests r)") (auto simp: record_valid_def rec_event_def split: if_splits)

lemma measured_wf: "list_all (record_valid sizes) rs \<Longrightarrow> list_all (\<lambda>e. rtmr e < 4 \<and> length (digest e) = 48) (measured rs)"
proof (induction rs)
  case (Cons r rs)
  then show ?case using rec_event_wf [of sizes r] by (cases "rec_event r") (auto simp: measured_def)
qed (simp add: measured_def)

section \<open>Properties\<close>

text \<open>
  C33: The parser accepts exactly the well-formed logs and returns their measured records in order: a log is
  accepted with some events exactly when it is a valid header, valid records of which at most 4096 and a
  last one are measured, and nothing or at least four bytes of 0xFF.
\<close>

theorem event_log_exact:
  "parse log = Ok events \<longleftrightarrow> (\<exists>h rs pad. header_valid h \<and> body_valid (header_sizes h) 0 rs pad
     \<and> log = enc_header h @ enc_records rs @ replicate pad 0xFF \<and> events = measured rs)"
  by (rule parse_exact_aux)

text \<open>
  Replaying an accepted log extends each register from zero with the digests of its own records only,
  in log order; there are four registers and every event names one of them with a 48-byte digest.
\<close>

theorem replay_accepted_log:
  assumes "parse log = Ok events" and "i < 4"
  shows "replay sha384 events ! i =
      foldl (\<lambda>reg d. sha384 (reg @ d)) (replicate 48 0) (map digest (filter (\<lambda>e. rtmr e = i) events))
    \<and> length (replay sha384 events) = 4 \<and> list_all (\<lambda>e. rtmr e < 4 \<and> length (digest e) = 48) events
    \<and> length events \<le> MAX_EVENTS"
proof -
  from assms(1) obtain h :: log_header and rs pad
    where "body_valid (header_sizes h) 0 rs pad" and events: "events = measured rs"
    unfolding parse_exact_aux by blast
  then have valid: "list_all (record_valid (header_sizes h)) rs" "rs = [] \<or> length (measured (butlast rs)) < MAX_EVENTS"
    by (auto simp: body_valid_def list_all_iff)
  have "length (measured rs) \<le> length (measured (butlast rs)) + 1"
    by (cases rs rule: rev_cases) (auto simp: measured_def rec_event_def)
  with valid(2) events have "length events \<le> MAX_EVENTS" by (auto simp: measured_def)
  moreover have wf: "list_all (\<lambda>e. rtmr e < 4 \<and> length (digest e) = 48) events"
    using measured_wf [OF valid(1)] events by simp
  moreover from wf have "list_all (\<lambda>e. rtmr e < length (replicate 4 (replicate 48 (0 :: u8)))) events"
    by (simp add: list_all_iff)
  from foldl_extend_nth [OF _ this, of i sha384] assms(2)
  have "replay sha384 events ! i =
      foldl (\<lambda>reg d. sha384 (reg @ d)) (replicate 48 0) (map digest (filter (\<lambda>e. rtmr e = i) events))"
    by (simp add: replay_def)
  ultimately show ?thesis by (simp add: replay_def foldl_extend_length)
qed

definition demo_header :: log_header where
  "demo_header = \<lparr>header_index = 0, header_sha1 = replicate 20 0, header_platform = replicate 8 0,
     header_sizes = [(TPM_ALG_SHA384, 48)], header_vendor = []\<rparr>"

definition demo_record :: log_record where
  "demo_record = \<lparr>rec_index = 1, rec_type = 1, rec_digests = [(TPM_ALG_SHA384, replicate 48 7)], rec_data = [5]\<rparr>"

lemma demo_log_parses:
  "parse (enc_header demo_header @ enc_record demo_record) =
     Ok [\<lparr>rtmr = 0, event_type = 1, digest = replicate 48 7, event_data = [5]\<rparr>]"
  unfolding parse_exact_aux
proof (intro exI conjI)
  show "header_valid demo_header" by (simp add: header_valid_def demo_header_def enc_spec_def enc_sizes_def)
  show "body_valid (header_sizes demo_header) 0 [demo_record] 0"
    by (simp add: body_valid_def record_valid_def demo_record_def demo_header_def digests_listed_def listed_size_def sha384s_def
        measured_def MAX_EVENTS_def PADDING_def EV_NO_ACTION_def)
  show "enc_header demo_header @ enc_record demo_record = enc_header demo_header @ enc_records [demo_record] @ replicate 0 0xFF"
    by (simp add: enc_records_def)
  show "[\<lparr>rtmr = 0, event_type = 1, digest = replicate 48 7, event_data = [5]\<rparr>] = measured [demo_record]"
    by (simp add: measured_def rec_event_def demo_record_def EV_NO_ACTION_def sha384s_def)
qed

theorem replay_accepted_log_witness:
  "replay (take 48) [\<lparr>rtmr = 0, event_type = 1, digest = replicate 48 7, event_data = [5]\<rparr>] ! 0
     = take 48 (replicate 48 0 @ replicate 48 7)"
  using replay_accepted_log [OF demo_log_parses, of 0 "take 48"] by simp

end
