(* ===== verification/Kubetee_Evidence.thy ===== *)
theory Kubetee_Evidence
  imports Kubetee_Binding Event_Log
begin

text \<open>
  The checks on a KubeTEE attestation (\<^verbatim>\<open>attestd/src/kubetee_verify/evidence.rs\<close>): the served keyset and its
  binding, the quote's appraisal and report data, the event log replay and the proof that the serving key is in
  use. A \<^verbatim>\<open>DateTime<Utc>\<close> is its integer of nanoseconds; serde, chrono, X.509, ring and the two decoders
  of the response are parameters.
\<close>

named_theorems kubetee_simps

definition ES256 :: string where "ES256 = ''ES256''"
definition RS256 :: string where "RS256 = ''RS256''"
definition HOST_DOMAIN :: string where "HOST_DOMAIN = ''llm.kubetee.ai''"

section \<open>The response\<close>

record TlsPossession =
  tls_signature :: string
  tls_signature_alg :: string
  tls_cert_sha256 :: string

record AttestationPayload =
  payload_nonce :: string
  quote :: string
  cc_eventlog :: "string option"
  tls_possession :: "TlsPossession option"
  pod :: string

record BindingStatement =
  version :: string
  report_data_statement :: string
  stated_digest :: string

record BindingFields =
  keyset :: json
  bindings :: BindingStatement

record Binding =
  bound_report_data :: string
  bound_not_after :: int

record Measurements =
  mrtd :: string
  config_id :: string
  rtmrs :: "string list"

record kubetee_lib =
  tee :: tee_lib
  raw_slice :: "string \<Rightarrow> raw option"
  unique_json_error :: anyhow
  binding_fields :: "json \<Rightarrow> anyhow + BindingFields"
  payload_slice :: "string \<Rightarrow> anyhow + AttestationPayload"
  show_json :: "json \<Rightarrow> string"
  parse_rfc3339 :: "string \<Rightarrow> anyhow + int"
  from_timestamp :: "int \<Rightarrow> int option"
  p256_fixed_ok :: "string \<Rightarrow> string \<Rightarrow> string \<Rightarrow> bool"
  p256_asn1_ok :: "string \<Rightarrow> string \<Rightarrow> string \<Rightarrow> bool"
  log_error_text :: "log_error \<Rightarrow> string"
  sha384 :: "bytes \<Rightarrow> Register"

section \<open>The binding gate\<close>

definition ensure_current :: "Binding \<Rightarrow> int \<Rightarrow> anyhow + unit" where
  "ensure_current b now = ensure (bound_not_after b > now) ''kubetee.attestation.v1 keyset is expired''"

definition names_key :: "string \<Rightarrow> json \<Rightarrow> bool" where
  "names_key spki_hex key =
     (Option.bind (json_get ''domain'' key) as_str = Some HOST_DOMAIN
      \<and> Option.bind (json_get ''spki_sha256'' key) as_str = Some spki_hex)"

definition verify_served_keyset :: "kubetee_lib \<Rightarrow> json \<Rightarrow> string \<Rightarrow> string \<Rightarrow> anyhow + int" where
  "verify_served_keyset K ks digest_value leaf =
     bind_r (map_err (\<lambda>e. ''parse KubeTEE TLS certificate: '' @ e) (parse_x509 (tee K) leaf)) (\<lambda>(_, cert).
     bind_r (recompute_keyset_digest (tee K) (show_json K) ks) (\<lambda>recomputed.
     bind_r (ensure (recomputed = digest_value) ''kubetee.attestation.v1 keyset digest does not match the served keyset'') (\<lambda>_.
     let spki_hex = hex_encode (tee K) (sha256 (tee K) (spki_raw cert)) in
     bind_r (ensure (is_some_and (list_ex (names_key spki_hex)) (Option.bind (json_get ''tls_public_keys'' ks) as_array))
       ''kubetee.attestation.v1 keyset does not name this connection's serving key'') (\<lambda>_.
     bind_r (ok_or (Option.bind (json_get ''not_after'' ks) as_str) ''kubetee.attestation.v1 keyset has no not_after'') (\<lambda>text.
     bind_r (with_context ''kubetee.attestation.v1 keyset not_after is not RFC 3339'' (parse_rfc3339 K text)) (\<lambda>expires.
     bind_r (ok_or (from_timestamp K (not_after cert)) ''KubeTEE TLS certificate expiry is outside the supported range'') (\<lambda>certificate_expires.
     bind_r (ensure (expires \<le> certificate_expires)
       ''kubetee.attestation.v1 keyset not_after exceeds the serving certificate expiry'') (\<lambda>_.
     Ok expires))))))))"

definition BindingGuard_run :: "kubetee_lib \<Rightarrow> string \<Rightarrow> string \<Rightarrow> string \<Rightarrow> int \<Rightarrow> anyhow + Binding" where
  "BindingGuard_run K served nonce_hex leaf now =
     bind_r (with_context ''decode KubeTEE attestation response''
       (ok_or (parse_unique_json (raw_slice K) served) (unique_json_error K))) (\<lambda>payload.
     case (json_get ''keyset'' payload, json_get ''bindings'' payload) of
       (Some _, Some _) \<Rightarrow>
         bind_r (with_context ''decode kubetee.attestation.v1 binding fields'' (binding_fields K payload)) (\<lambda>bf.
         bind_r (ensure (version (bindings bf) = PURPOSE)
           (''kubetee.attestation.v1 binding has version '' @ version (bindings bf) @ '', expected '' @ PURPOSE)) (\<lambda>_.
         bind_r (verify_served_keyset K (keyset bf) (stated_digest (bindings bf)) leaf) (\<lambda>not_after.
         bind_r (report_data_of_statement (tee K) (report_data_statement (bindings bf)) (stated_digest (bindings bf)) nonce_hex)
           (\<lambda>data.
         let b = \<lparr>bound_report_data = data, bound_not_after = not_after\<rparr> in
         bind_r (ensure_current b now) (\<lambda>_. Ok b)))))
     | (None, None) \<Rightarrow> Err ''KubeTEE attestation response has no kubetee.attestation.v1 binding''
     | _ \<Rightarrow> Err ''KubeTEE attestation response has half a v1 binding'')"

section \<open>The attestation\<close>

definition Measurements_of :: "TDReport10 \<Rightarrow> Measurements" where
  "Measurements_of td = \<lparr>mrtd = mr_td td, config_id = mr_config_id td,
     rtmrs = [rt_mr0 td, rt_mr1 td, rt_mr2 td, rt_mr3 td]\<rparr>"

text \<open>Octets of the event log are words, of every other text characters.\<close>

definition octets :: "string \<Rightarrow> bytes" where
  "octets s = map (\<lambda>c. word_of_nat (byte_of c)) s"

fun compare_registers :: "nat \<Rightarrow> (Register \<times> string) list \<Rightarrow> anyhow + unit" where
  "compare_registers i [] = Ok ()"
| "compare_registers i ((replayed, quoted) # more_registers) =
     bind_r (ensure (replayed = octets quoted)
       (''KubeTEE event log does not replay to the quote's RTMR'' @ nat_to_string i)) (\<lambda>_.
     compare_registers (Suc i) more_registers)"

definition verify_event_log :: "kubetee_lib \<Rightarrow> string \<Rightarrow> string list \<Rightarrow> anyhow + unit" where
  "verify_event_log K log quoted =
     bind_r (with_context ''decode KubeTEE cc_eventlog'' (b64std (tee K) log)) (\<lambda>log.
     bind_r (map_err (log_error_text K) (parse (octets log))) (\<lambda>events.
     compare_registers 0 (zip (replay (sha384 K) events) quoted)))"

definition verify_tls_possession :: "kubetee_lib \<Rightarrow> TlsPossession \<Rightarrow> string \<Rightarrow> string \<Rightarrow> anyhow + unit" where
  "verify_tls_possession K possession nonce_hex leaf =
     bind_r (with_context ''decode KubeTEE TLS certificate fingerprint'' (hex_decode (tee K) (tls_cert_sha256 possession))) (\<lambda>claimed.
     bind_r (ensure (claimed = sha256 (tee K) leaf)
       ''KubeTEE TLS-possession names a certificate other than this connection's'') (\<lambda>_.
     bind_r (map_err (\<lambda>e. ''parse KubeTEE TLS certificate: '' @ e) (parse_x509 (tee K) leaf)) (\<lambda>(_, cert).
     bind_r (with_context ''decode KubeTEE TLS-possession signature'' (b64std (tee K) (tls_signature possession))) (\<lambda>sig.
     if tls_signature_alg possession = RS256 then
       bind_r (ensure (is_rsa cert) ''KubeTEE TLS-possession signature is RS256 but the certificate key is not RSA'') (\<lambda>_.
       ensure (rsa_ok (tee K) (spki_data cert) nonce_hex sig) ''KubeTEE TLS-possession signature does not verify'')
     else if tls_signature_alg possession = ES256 then
       bind_r (ensure (is_p256 cert) ''KubeTEE TLS-possession signature is ES256 but the certificate key is not P-256'') (\<lambda>_.
       ensure (list_ex (\<lambda>verify. verify (spki_data cert) nonce_hex sig) [p256_fixed_ok K, p256_asn1_ok K])
         ''KubeTEE TLS-possession signature does not verify'')
     else Err (''KubeTEE TLS-possession signature is '' @ tls_signature_alg possession @ '', expected '' @ ES256 @ '' or '' @ RS256)))))"

definition verify_attestation :: "kubetee_lib \<Rightarrow> AttestationPayload \<Rightarrow> string \<Rightarrow> string \<Rightarrow> QuoteClaims \<Rightarrow> u64 \<Rightarrow> string
    \<Rightarrow> anyhow + Measurements" where
  "verify_attestation K payload nonce_hex leaf claims now expected_data =
     bind_r (ensure (payload_nonce payload = nonce_hex) ''KubeTEE echoed a different nonce'') (\<lambda>_.
     bind_r (appraise (tee K) claims now) (\<lambda>td.
     bind_r (ensure (report_data td = expected_data)
       ''TDX report_data is not the kubetee.attestation.v1 binding for the nonce sent'') (\<lambda>_.
     let measurements = Measurements_of td in
     bind_r (ok_or (cc_eventlog payload) ''KubeTEE attestation has no cc_eventlog'') (\<lambda>log.
     bind_r (verify_event_log K log (rtmrs measurements)) (\<lambda>_.
     bind_r (ok_or (tls_possession payload) ''KubeTEE attestation has no tls_possession'') (\<lambda>possession.
     bind_r (verify_tls_possession K possession nonce_hex leaf) (\<lambda>_.
     Ok measurements)))))))"

section \<open>Laws\<close>

text \<open>
  The served keyset is the stated one, names the key of this connection's certificate for our host, and ends no
  later than the certificate.
\<close>

definition keyset_bound :: "kubetee_lib \<Rightarrow> json \<Rightarrow> string \<Rightarrow> string \<Rightarrow> int \<Rightarrow> bool" where
  "keyset_bound K ks digest_value leaf expires \<longleftrightarrow> (\<exists>unused cert tree keys key text cert_expires.
     parse_x509 (tee K) leaf = Ok (unused, cert) \<and> json_tree (show_json K) ks = Ok tree
     \<and> digest_value = keyset_digest (tee K) tree
     \<and> json_get ''tls_public_keys'' ks = Some (JArray keys) \<and> key \<in> set keys
     \<and> names_key (hex_encode (tee K) (sha256 (tee K) (spki_raw cert))) key
     \<and> json_get ''not_after'' ks = Some (JString text) \<and> parse_rfc3339 K text = Ok expires
     \<and> from_timestamp K (not_after cert) = Some cert_expires \<and> expires \<le> cert_expires)"

lemma as_array_Some: "as_array v = Some xs \<longleftrightarrow> v = JArray xs"
  by (cases v) auto

lemma verify_served_keyset_Ok [kubetee_simps]:
  "verify_served_keyset K ks digest_value leaf = Ok expires \<longleftrightarrow> keyset_bound K ks digest_value leaf expires"
proof -
  have keys: "is_some_and (list_ex P) (Option.bind (json_get n ks) as_array) \<longleftrightarrow>
      (\<exists>keys key. json_get n ks = Some (JArray keys) \<and> key \<in> set keys \<and> P key)" for P n
    by (cases "json_get n ks"; cases "the (json_get n ks)") (auto simp: list_ex_iff)
  show ?thesis
    unfolding verify_served_keyset_def keyset_bound_def recompute_keyset_digest_def Let_def keys
    by (auto simp: result_simps bind_eq_Some_conv split: prod.splits)
qed

text \<open>The binding a response yields: its statement is the template over the served keyset's digest and our nonce.\<close>

definition binding_of :: "kubetee_lib \<Rightarrow> string \<Rightarrow> string \<Rightarrow> string \<Rightarrow> Binding \<Rightarrow> bool" where
  "binding_of K served nonce_hex leaf b \<longleftrightarrow> (\<exists>payload bf tree.
     parse_unique_json (raw_slice K) served = Some payload \<and> binding_fields K payload = Ok bf
     \<and> version (bindings bf) = PURPOSE \<and> json_tree (show_json K) (keyset bf) = Ok tree
     \<and> keyset_bound K (keyset bf) (keyset_digest (tee K) tree) leaf (bound_not_after b)
     \<and> bound_report_data b = sha256 (tee K) (''{'' @ STATEMENT_DIGEST_PREFIX @ keyset_digest (tee K) tree @
          STATEMENT_NONCE_PREFIX @ nonce_hex @ STATEMENT_SUFFIX) @ replicate 32 (CHR 0x00))"

lemma BindingGuard_run_Ok:
  assumes "BindingGuard_run K served nonce_hex leaf now = Ok b"
  shows "binding_of K served nonce_hex leaf b \<and> bound_not_after b > now"
proof -
  from assms obtain payload where p: "parse_unique_json (raw_slice K) served = Some payload"
    and branch: "(case (json_get ''keyset'' payload, json_get ''bindings'' payload) of
       (Some _, Some _) \<Rightarrow>
         bind_r (with_context ''decode kubetee.attestation.v1 binding fields'' (binding_fields K payload)) (\<lambda>bf.
         bind_r (ensure (version (bindings bf) = PURPOSE)
           (''kubetee.attestation.v1 binding has version '' @ version (bindings bf) @ '', expected '' @ PURPOSE)) (\<lambda>_.
         bind_r (verify_served_keyset K (keyset bf) (stated_digest (bindings bf)) leaf) (\<lambda>not_after.
         bind_r (report_data_of_statement (tee K) (report_data_statement (bindings bf)) (stated_digest (bindings bf)) nonce_hex)
           (\<lambda>data.
         let b = \<lparr>bound_report_data = data, bound_not_after = not_after\<rparr> in
         bind_r (ensure_current b now) (\<lambda>_. Ok b)))))
     | (None, None) \<Rightarrow> Err ''KubeTEE attestation response has no kubetee.attestation.v1 binding''
     | _ \<Rightarrow> Err ''KubeTEE attestation response has half a v1 binding'') = Ok b"
    unfolding BindingGuard_run_def bind_r_eq_Ok with_context_eq_Ok ok_or_eq_Ok by blast
  then obtain bf where bf: "binding_fields K payload = Ok bf" "version (bindings bf) = PURPOSE"
      "keyset_bound K (keyset bf) (stated_digest (bindings bf)) leaf (bound_not_after b)"
      "report_data_of_statement (tee K) (report_data_statement (bindings bf)) (stated_digest (bindings bf)) nonce_hex = Ok (bound_report_data b)"
      "bound_not_after b > now"
    by (auto simp: result_simps kubetee_simps ensure_current_def Let_def split: option.splits)
  from bf(3) obtain tree where tree: "json_tree (show_json K) (keyset bf) = Ok tree" "stated_digest (bindings bf) = keyset_digest (tee K) tree"
    unfolding keyset_bound_def by blast
  with bf(4) have "bound_report_data b = sha256 (tee K) (''{'' @ STATEMENT_DIGEST_PREFIX @ keyset_digest (tee K) tree @
          STATEMENT_NONCE_PREFIX @ nonce_hex @ STATEMENT_SUFFIX) @ replicate 32 (CHR 0x00)"
    unfolding tree(2) keyset_digest_def statement_template by simp
  with p bf tree show ?thesis unfolding binding_of_def by auto
qed

lemma compare_registers_Ok [kubetee_simps]: "compare_registers i rs = Ok u \<longleftrightarrow> list_all (\<lambda>(a, b). a = octets b) rs"
  by (induction i rs rule: compare_registers.induct) (auto simp: result_simps)

lemma length_replay: "length (replay f events) = 4"
proof -
  have "length (foldl (Event_Log.extend f) rs events) = length rs" for rs
    by (induction events arbitrary: rs) (simp_all add: Event_Log.extend_def)
  then show ?thesis by (simp add: replay_def)
qed

lemma verify_event_log_Ok [kubetee_simps]:
  assumes "length quoted = 4"
  shows "verify_event_log K log quoted = Ok u \<longleftrightarrow>
     (\<exists>raw events. b64std (tee K) log = Ok raw \<and> parse (octets raw) = Ok events \<and> replay (sha384 K) events = map octets quoted)"
proof -
  have "list_all (\<lambda>(a, b). a = octets b) (zip rs qs) \<longleftrightarrow> rs = map octets qs" if "length rs = length qs" for rs qs
    using that by (induction rs qs rule: list_induct2) auto
  from this [of "replay (sha384 K) events" quoted for events] assms show ?thesis
    by (auto simp: verify_event_log_def result_simps kubetee_simps length_replay)
qed

definition possession_proved :: "kubetee_lib \<Rightarrow> TlsPossession \<Rightarrow> string \<Rightarrow> string \<Rightarrow> bool" where
  "possession_proved K possession nonce_hex leaf \<longleftrightarrow> (\<exists>unused cert sig.
     hex_decode (tee K) (tls_cert_sha256 possession) = Ok (sha256 (tee K) leaf) \<and> parse_x509 (tee K) leaf = Ok (unused, cert)
     \<and> b64std (tee K) (tls_signature possession) = Ok sig
     \<and> (tls_signature_alg possession = RS256 \<and> is_rsa cert \<and> rsa_ok (tee K) (spki_data cert) nonce_hex sig
        \<or> tls_signature_alg possession = ES256 \<and> is_p256 cert
          \<and> (p256_fixed_ok K (spki_data cert) nonce_hex sig \<or> p256_asn1_ok K (spki_data cert) nonce_hex sig)))"

lemma verify_tls_possession_Ok [kubetee_simps]:
  "verify_tls_possession K possession nonce_hex leaf = Ok u \<longleftrightarrow> possession_proved K possession nonce_hex leaf"
proof -
  have "ES256 \<noteq> RS256" by (simp add: ES256_def RS256_def)
  then show ?thesis
    unfolding verify_tls_possession_def possession_proved_def
    by (auto simp: result_simps split: prod.splits if_splits)
qed

lemma verify_attestation_Ok:
  assumes "verify_attestation K payload nonce_hex leaf claims now expected_data = Ok m"
  shows "\<exists>td log raw events possession. payload_nonce payload = nonce_hex \<and> appraise (tee K) claims now = Ok td
     \<and> report_data td = expected_data \<and> m = Measurements_of td \<and> cc_eventlog payload = Some log
     \<and> b64std (tee K) log = Ok raw \<and> parse (octets raw) = Ok events
     \<and> replay (sha384 K) events = map octets [rt_mr0 td, rt_mr1 td, rt_mr2 td, rt_mr3 td]
     \<and> tls_possession payload = Some possession \<and> possession_proved K possession nonce_hex leaf"
  using assms
  by (auto simp: verify_attestation_def result_simps kubetee_simps Measurements_of_def Let_def)

end
