(* ===== verification/Kubetee_Verify.thy ===== *)
theory Kubetee_Verify
  imports Kubetee_Evidence Attested_Checkout
begin

text \<open>
  The KubeTEE verifier (\<^verbatim>\<open>attestd/src/kubetee_verify/mod.rs\<close>, the body filter of \<^verbatim>\<open>pool.rs\<close>): the checks of a chat
  request, attested connections that end with their keyset, forwarding, and the narrowed model list.

  A body is its frames. What an attempt, a send or an await meets is in the environment records, as in
  \<open>Near_Verify\<close>; retired connections are returned as drivers.
\<close>

definition KUBETEE :: string where "KUBETEE = ''KubeTEE''"
definition HOST_NAME :: string where "HOST_NAME = ''llm.kubetee.ai''"
definition KUBETEE_SELECTOR :: string where "KUBETEE_SELECTOR = ''x-gm-upstream-model''"
definition SESSION_ID_HEADER :: string where "SESSION_ID_HEADER = ''x-gm-session-id''"
definition LITELLM_SESSION_ID_HEADER :: string where "LITELLM_SESSION_ID_HEADER = ''x-litellm-session-id''"
definition KUBETEE_CHAT :: string where "KUBETEE_CHAT = ''/v1/chat/completions''"
definition MODELS :: string where "MODELS = ''/v1/models''"
definition KUBETEE_TARGETS :: "string list" where
  "KUBETEE_TARGETS = [''z-ai/glm-5.2'', ''z-ai/glm-5.3'', ''z-ai/glm-5.3-flash'', ''deepseek/deepseek-v4.1-flash'',
     ''deepseek/deepseek-v4.1-flash-1017'', ''moonshotai/kimi-k3'', ''moonshotai/kimi-k3.1-pro'', ''xiaomi/mimo-v2.6-pro'']"
definition IMAGE_MODELS :: "string list" where "IMAGE_MODELS = [''black-forest-labs/flux.2-klein-4b'']"
definition SUPPLIER_HEADER_PREFIXES :: "string list" where "SUPPLIER_HEADER_PREFIXES = [''x-kubetee-'', ''x-litellm-'']"
definition BODY_LIMIT :: nat where "BODY_LIMIT = 2 * 1024 * 1024"
definition REQUEST_LIMIT :: nat where "REQUEST_LIMIT = 32 * 1024 * 1024"

section \<open>Bodies and headers\<close>

datatype frame = Data string | Trailers header_map | FrameError

fun collect_limited :: "anyhow \<Rightarrow> anyhow \<Rightarrow> nat \<Rightarrow> frame list \<Rightarrow> string \<Rightarrow> anyhow + string" where
  "collect_limited broken too_long limit [] acc = Ok acc"
| "collect_limited broken too_long limit (Data d # frames) acc =
     (if length acc + length d > limit then Err too_long else collect_limited broken too_long limit frames (acc @ d))"
| "collect_limited broken too_long limit (Trailers hs # frames) acc = collect_limited broken too_long limit frames acc"
| "collect_limited broken too_long limit (FrameError # frames) acc = Err broken"

definition is_supplier :: "string \<Rightarrow> bool" where
  "is_supplier name = list_ex (\<lambda>p. starts_with p name) SUPPLIER_HEADER_PREFIXES"

definition strip_supplier_headers :: "header_map \<Rightarrow> header_map" where
  "strip_supplier_headers hs =
     (let names = filter is_supplier (map fst hs) in foldl (\<lambda>hs name. remove_header name hs) hs names)"

text \<open>\<^verbatim>\<open>SupplierBody\<close>: the same frames with the supplier's trailers removed.\<close>

fun strip_supplier_trailers :: "frame \<Rightarrow> frame" where
  "strip_supplier_trailers (Trailers hs) = Trailers (strip_supplier_headers hs)"
| "strip_supplier_trailers f = f"

definition supplier_body :: "frame list \<Rightarrow> frame list" where
  "supplier_body frames = map strip_supplier_trailers frames"

section \<open>Requests\<close>

record kubetee_request =
  k_method :: string
  k_path :: string
  k_path_and_query :: "string option"
  k_headers :: header_map
  k_body :: "frame list"

record kubetee_response =
  k_status :: u16
  k_response_headers :: header_map
  k_response_body :: "frame list"

record http_lib =
  k_header_text :: "string \<Rightarrow> anyhow + string"
  k_parse_uri :: "string \<Rightarrow> anyhow + string \<times> string option"
  chat_model :: "string \<Rightarrow> anyhow + string"
  k_status_text :: "u16 \<Rightarrow> string"
  k_body_error :: anyhow
  k_limit_error :: anyhow
  k_json :: "string \<Rightarrow> anyhow + json"
  k_json_vec :: "json \<Rightarrow> anyhow + string"

definition validate_kubetee_request :: "http_lib \<Rightarrow> kubetee_request \<Rightarrow> anyhow + string" where
  "validate_kubetee_request L r =
     bind_r (ensure (k_method r = ''POST'' \<and> k_path r = KUBETEE_CHAT)
       (''KubeTEE is served only at POST '' @ KUBETEE_CHAT @ '', not '' @ k_method r @ '' '' @ k_path r)) (\<lambda>_.
     case get_all (k_headers r) KUBETEE_SELECTOR of
       [v] \<Rightarrow>
         bind_r (with_context ''KubeTEE model selector is not ASCII'' (k_header_text L v)) (\<lambda>selector.
         ok_or (find (\<lambda>t. t = selector) KUBETEE_TARGETS) ''unsupported KubeTEE model selector'')
     | _ \<Rightarrow> Err ''KubeTEE request needs exactly one model selector'')"

definition require_body_model :: "http_lib \<Rightarrow> kubetee_request \<Rightarrow> string \<Rightarrow> anyhow + kubetee_request" where
  "require_body_model L r selector =
     bind_r (collect_limited (''read KubeTEE chat request: '' @ k_body_error L) (''read KubeTEE chat request: '' @ k_limit_error L)
       REQUEST_LIMIT (k_body r) []) (\<lambda>body.
     bind_r (with_context ''KubeTEE chat request has no model'' (chat_model L body)) (\<lambda>model.
     bind_r (ensure (model = selector) ''KubeTEE chat request names a model other than its selector'') (\<lambda>_.
     Ok (r\<lparr>k_body := [Data body]\<rparr>))))"

definition request_session_id :: "kubetee_request \<Rightarrow> string option" where
  "request_session_id r =
     (case get_all (k_headers r) SESSION_ID_HEADER of
        [v] \<Rightarrow>
          if length v \<noteq> 64 \<or> \<not> list_all (\<lambda>c. is_ascii_digit c \<or> (97 \<le> byte_of c \<and> byte_of c \<le> 102)) v then None else Some v
      | _ \<Rightarrow> None)"

definition upstream_kubetee_request :: "http_lib \<Rightarrow> kubetee_request \<Rightarrow> anyhow + kubetee_request" where
  "upstream_kubetee_request L r =
     (let session_id = request_session_id r;
          hs = remove_header KUBETEE_SELECTOR (k_headers r);
          hs = strip_supplier_headers hs;
          hs = remove_header SESSION_ID_HEADER hs;
          hs = (case session_id of None \<Rightarrow> hs | Some s \<Rightarrow> set_header LITELLM_SESSION_ID_HEADER s hs);
          hs = strip_hop_by_hop hs;
          hs = set_header ''host'' HOST_NAME hs;
          path = (case k_path_and_query r of None \<Rightarrow> KUBETEE_CHAT | Some pq \<Rightarrow> pq)
      in bind_r (with_context ''encode KubeTEE upstream URI'' (k_parse_uri L path)) (\<lambda>(p, pq).
         Ok (r\<lparr>k_headers := hs, k_body := supplier_body (k_body r), k_path := p, k_path_and_query := pq\<rparr>)))"

definition served_targets :: "json \<Rightarrow> json" where
  "served_targets listed =
     (let models = (case Option.bind (json_get ''data'' listed) as_array of None \<Rightarrow> [] | Some ms \<Rightarrow>
            filter (\<lambda>m. is_some_and (\<lambda>name. name \<in> set KUBETEE_TARGETS \<or> name \<in> set IMAGE_MODELS)
              (Option.bind (json_get ''id'' m) as_str)) ms)
      in JObject [(''object'', JString ''list''), (''data'', JArray models)])"

section \<open>Attesting a connection\<close>

record 'a Attestation =
  att_pod :: string
  att_peer :: 'a
  att_measurements :: Measurements
  keyset_not_after :: int

record 'a kubetee_attempt =
  k_dialled :: "'a dial"
  started_at :: instant
  k_nonce :: string
  k_deadline :: "anyhow + unit"
  k_answer :: "anyhow + kubetee_response"
  read_at :: int
  k_collateral :: "anyhow + string"
  k_clock :: "anyhow + u64"
  finished_at :: int

definition k_read_body :: "http_lib \<Rightarrow> frame list \<Rightarrow> anyhow + string" where
  "k_read_body L frames = collect_limited (''read KubeTEE response: '' @ k_body_error L) (''read KubeTEE response: '' @ k_limit_error L)
     BODY_LIMIT frames []"

text \<open>\<^verbatim>\<open>Pccs::verify\<close>: the claims and the second they were verified at.\<close>

definition Pccs_verify :: "tee_lib \<Rightarrow> anyhow + string \<Rightarrow> anyhow + u64 \<Rightarrow> string \<Rightarrow> anyhow + QuoteClaims \<times> u64" where
  "Pccs_verify T bundle clock raw =
     bind_r (with_context ''fetch Intel DCAP collateral'' bundle) (\<lambda>bundle.
     bind_r (with_context ''system clock predates the Unix epoch'' clock) (\<lambda>now.
     bind_r (verify_signature_chain T raw bundle now) (\<lambda>claims. Ok (claims, now))))"

definition attest_kubetee :: "http_lib \<Rightarrow> kubetee_lib \<Rightarrow> 'a kubetee_attempt \<Rightarrow> 'a UpstreamConnection \<Rightarrow> anyhow + 'a Attestation \<times> instant" where
  "attest_kubetee L K a up =
     (let nonce_hex = hex_encode (tee K) (k_nonce a) in
      bind_r (with_context ''KubeTEE attestation fetch timed out'' (k_deadline a)) (\<lambda>_.
      bind_r (with_context ''send KubeTEE attestation request'' (k_answer a)) (\<lambda>r.
      bind_r (ensure (k_status r = 200) (''KubeTEE attestation endpoint returned '' @ k_status_text L (k_status r))) (\<lambda>_.
      bind_r (k_read_body L (k_response_body r)) (\<lambda>body.
      bind_r (with_context ''kubetee.attestation.v1 binding'' (BindingGuard_run K body nonce_hex (leaf up) (read_at a))) (\<lambda>binding.
      bind_r (with_context ''decode KubeTEE attestation response'' (payload_slice K body)) (\<lambda>payload.
      bind_r (with_context ''decode KubeTEE quote'' (b64std (tee K) (quote payload))) (\<lambda>raw.
      bind_r (Pccs_verify (tee K) (k_collateral a) (k_clock a) raw) (\<lambda>(claims, now).
      bind_r (verify_attestation K payload nonce_hex (leaf up) claims now (bound_report_data binding)) (\<lambda>measurements.
      bind_r (ensure_current binding (finished_at a)) (\<lambda>_.
      Ok (\<lparr>att_pod = pod payload, att_peer = peer up, att_measurements = measurements,
           keyset_not_after = bound_not_after binding\<rparr>, started_at a))))))))))))"

definition kubetee_attest_once :: "http_lib \<Rightarrow> kubetee_lib \<Rightarrow> 'a::linorder kubetee_attempt \<Rightarrow> 'a option \<Rightarrow> nat
    \<Rightarrow> anyhow + 'a UpstreamConnection \<times> 'a Attestation \<times> instant" where
  "kubetee_attest_once L K a address attempt =
     bind_r (connect (k_dialled a) KUBETEE HOST_NAME address attempt) (\<lambda>up.
     case attest_kubetee L K a up of
       Inr (attestation, since) \<Rightarrow> Ok (up, attestation, since)
     | Inl e \<Rightarrow> with_context (''attest '' @ HOST_NAME @ '' via '' @ show_address (k_dialled a) (peer up)) (Err e))"

definition kubetee_attest :: "http_lib \<Rightarrow> kubetee_lib \<Rightarrow> (nat \<Rightarrow> 'a::linorder kubetee_attempt) \<Rightarrow> 'a option
    \<Rightarrow> anyhow + 'a UpstreamConnection \<times> 'a Attestation \<times> instant" where
  "kubetee_attest L K env address = snd (retry_attestation KUBETEE (\<lambda>i. kubetee_attest_once L K (env i) address i))"

definition kubetee_preflight :: "http_lib \<Rightarrow> kubetee_lib \<Rightarrow> (nat \<Rightarrow> 'a::linorder kubetee_attempt) \<Rightarrow> 'a option
    \<Rightarrow> anyhow + anyhow + anyhow + unit \<Rightarrow> anyhow + 'a Attestation" where
  "kubetee_preflight L K env address outcome =
     bind_r (kubetee_attest L K env address) (\<lambda>(up, attestation, _).
     bind_r (finish_connection KUBETEE outcome) (\<lambda>_. Ok attestation))"

section \<open>Forwarding\<close>

record 'a kubetee_env =
  k_turns :: "nat \<Rightarrow> take_turn"
  k_attempts :: "nat \<Rightarrow> 'a kubetee_attempt"
  k_address :: "'a option"
  k_fresh_world :: world
  request_deadline :: "anyhow + unit"
  k_send :: "anyhow + anyhow + kubetee_response"
  k_settled :: "Pool \<Rightarrow> Pool"
  k_lease_worlds :: "world \<times> world"
  k_body_ended :: bool

definition kubetee_checkout :: "http_lib \<Rightarrow> kubetee_lib \<Rightarrow> 'a::linorder kubetee_env \<Rightarrow> Pool
    \<Rightarrow> ((anyhow + Attested) \<times> Pool \<times> nat list) option" where
  "kubetee_checkout L K env p =
     Option.bind (take_ready (k_turns env) 0 p) (\<lambda>(found, p, dropped).
     case found of
       Some c \<Rightarrow> Some (Ok c, p, dropped)
     | None \<Rightarrow>
         (case kubetee_attest L K (k_attempts env) (k_address env) of
            Inl e \<Rightarrow> Some (Err e, p, dropped)
          | Inr (up, attestation, since) \<Rightarrow>
              let c = \<lparr>sender = up_sender up, driver = up_driver up, attested_at = since, idle_since = None,
                       expires_at = Some (keyset_not_after attestation), requests = 0\<rparr> in
              if \<not> usable (k_fresh_world env) (limits p) c
              then Some (Err ''KubeTEE connection expired or closed before its first request'', p, dropped @ retire c)
              else Some (Ok c, p, dropped)))"

definition kubetee_prepare :: "http_lib \<Rightarrow> 'a kubetee_env \<Rightarrow> kubetee_request \<Rightarrow> anyhow + kubetee_request" where
  "kubetee_prepare L env request =
     bind_r (validate_kubetee_request L request) (\<lambda>selector.
     bind_r (with_context ''reading the KubeTEE chat request timed out'' (request_deadline env)) (\<lambda>_.
     bind_r (require_body_model L request selector) (\<lambda>request.
     upstream_kubetee_request L request)))"

type_synonym kubetee_sends = "(Attested \<times> kubetee_request) list"

definition kubetee_forward :: "http_lib \<Rightarrow> kubetee_lib \<Rightarrow> 'a::linorder kubetee_env \<Rightarrow> kubetee_request \<Rightarrow> Pool
    \<Rightarrow> (kubetee_sends \<times> Pool \<times> nat list \<times> (anyhow + kubetee_response \<times> Lease)) option" where
  "kubetee_forward L K env request p =
     (case kubetee_prepare L env request of
        Inl e \<Rightarrow> Some ([], p, [], Err e)
      | Inr upstream \<Rightarrow>
          Option.bind (kubetee_checkout L K env p) (\<lambda>(r, p, dropped).
          case r of
            Inl e \<Rightarrow> Some ([], p, dropped, Err e)
          | Inr c \<Rightarrow>
              let c = c\<lparr>requests := requests c + 1\<rparr>; p = k_settled env p in
              (case k_send env of
                 Inl _ \<Rightarrow> Some ([(c, upstream)], p, dropped @ retire c, Err ''KubeTEE inference timed out'')
               | Inr (Inl e) \<Rightarrow> Some ([(c, upstream)], p, dropped @ retire c,
                   Err (''send KubeTEE inference on an attested connection: '' @ e))
               | Inr (Inr response) \<Rightarrow>
                   let response = response\<lparr>k_response_headers := strip_hop_by_hop (strip_supplier_headers (k_response_headers response)),
                                           k_response_body := supplier_body (k_response_body response)\<rparr> in
                   (case Lease_new (fst (k_lease_worlds env)) (snd (k_lease_worlds env)) (k_body_ended env) c p of
                      (lease, p, d) \<Rightarrow> Some ([(c, upstream)], p, dropped @ d, Ok (response, lease))))))"

text \<open>The model list: \<open>k_send\<close> is what its fetch meets, without the deadline around it.\<close>

definition read_models :: "http_lib \<Rightarrow> anyhow + kubetee_response \<Rightarrow> anyhow + kubetee_response" where
  "read_models L answer =
     bind_r (with_context ''send KubeTEE model list request'' answer) (\<lambda>response.
     bind_r (k_read_body L (k_response_body response)) (\<lambda>body.
     let hs = strip_hop_by_hop (strip_supplier_headers (k_response_headers response)) in
     if k_status response \<noteq> 200 then Ok (response\<lparr>k_response_headers := hs, k_response_body := [Data body]\<rparr>)
     else
       bind_r (with_context ''decode KubeTEE model list'' (k_json L body)) (\<lambda>listed.
       bind_r (with_context ''encode model list'' (k_json_vec L (served_targets listed))) (\<lambda>served.
       Ok (response\<lparr>k_response_headers := remove_header ''content-length'' hs, k_response_body := [Data served]\<rparr>)))))"

definition models_request :: "kubetee_request \<Rightarrow> kubetee_request" where
  "models_request request =
     \<lparr>k_method = ''GET'', k_path = MODELS, k_path_and_query = Some MODELS,
      k_headers = (''host'', HOST_NAME) # (case map_of (k_headers request) ''authorization'' of None \<Rightarrow> [] | Some v \<Rightarrow> [(''authorization'', v)]),
      k_body = []\<rparr>"

definition kubetee_models :: "http_lib \<Rightarrow> kubetee_lib \<Rightarrow> 'a::linorder kubetee_env \<Rightarrow> kubetee_request \<Rightarrow> Pool
    \<Rightarrow> (kubetee_sends \<times> Pool \<times> nat list \<times> (anyhow + kubetee_response)) option" where
  "kubetee_models L K env request p =
     Option.bind (kubetee_checkout L K env p) (\<lambda>(r, p, dropped).
     case r of
       Inl e \<Rightarrow> Some ([], p, dropped, Err e)
     | Inr c \<Rightarrow>
         let c = c\<lparr>requests := requests c + 1\<rparr>; p = k_settled env p;
             result = bind_r (with_context ''KubeTEE model list fetch timed out'' (k_send env)) (read_models L)
         in (case result of
               Inr response \<Rightarrow>
                 (case give_back (fst (k_lease_worlds env)) (snd (k_lease_worlds env)) c p of
                    (p, d) \<Rightarrow> Some ([(c, models_request request)], p, dropped @ d, result))
             | Inl e \<Rightarrow> Some ([(c, models_request request)], p, dropped @ retire c, result)))"

definition kubetee_error_response :: "(json \<Rightarrow> string) \<Rightarrow> anyhow \<Rightarrow> proxy_response" where
  "kubetee_error_response show e = error_response show KUBETEE"

section \<open>What an accepted connection has proved\<close>

text \<open>
  C17: A connection KubeTEE attestation accepts belongs to the quoted machine: the served keyset names this
  connection's certificate key and outlives now but not the certificate; the quote, with a verified chain and an up
  to date TCB, carries the hash of the statement over that keyset's digest and our nonce; the event log replays to
  the quoted registers; and the certificate's key signed our nonce.
\<close>

theorem kubetee_connection_bound:
  assumes "kubetee_attest_once L K a address attempt = Ok (up, attestation, since)"
  shows "\<exists>body b payload raw claims now td encoded log events possession.
     connect (k_dialled a) KUBETEE HOST_NAME address attempt = Ok up \<and> since = started_at a
     \<and> binding_of K body (hex_encode (tee K) (k_nonce a)) (leaf up) b
     \<and> keyset_not_after attestation = bound_not_after b \<and> finished_at a < bound_not_after b
     \<and> b64std (tee K) (quote payload) = Ok raw
     \<and> Pccs_verify (tee K) (k_collateral a) (k_clock a) raw = Ok (claims, now) \<and> appraise (tee K) claims now = Ok td
     \<and> report_data td = bound_report_data b \<and> att_measurements attestation = Measurements_of td
     \<and> cc_eventlog payload = Some encoded \<and> b64std (tee K) encoded = Ok log
     \<and> parse (octets log) = Ok events \<and> replay (sha384 K) events = map octets [rt_mr0 td, rt_mr1 td, rt_mr2 td, rt_mr3 td]
     \<and> payload_slice K body = Ok payload \<and> payload_nonce payload = hex_encode (tee K) (k_nonce a)
     \<and> tls_possession payload = Some possession \<and> possession_proved K possession (hex_encode (tee K) (k_nonce a)) (leaf up)"
proof -
  let ?n = "hex_encode (tee K) (k_nonce a)"
  from assms obtain x where x: "connect (k_dialled a) KUBETEE HOST_NAME address attempt = Ok x"
    "(case attest_kubetee L K a x of Inr (attestation, since) \<Rightarrow> Ok (x, attestation, since)
     | Inl e \<Rightarrow> with_context (''attest '' @ HOST_NAME @ '' via '' @ show_address (k_dialled a) (peer x)) (Err e)) = Ok (up, attestation, since)"
    unfolding kubetee_attest_once_def bind_r_eq_Ok by blast
  then have up: "connect (k_dialled a) KUBETEE HOST_NAME address attempt = Ok up"
    and att: "attest_kubetee L K a up = Ok (attestation, since)"
    by (cases "attest_kubetee L K a x"; auto)+
  from att obtain body b payload raw claims now m where steps:
      "BindingGuard_run K body ?n (leaf up) (read_at a) = Ok b" "payload_slice K body = Ok payload"
      "b64std (tee K) (quote payload) = Ok raw" "Pccs_verify (tee K) (k_collateral a) (k_clock a) raw = Ok (claims, now)"
      "verify_attestation K payload ?n (leaf up) claims now (bound_report_data b) = Ok m"
      "ensure_current b (finished_at a) = Ok ()"
      "attestation = \<lparr>att_pod = pod payload, att_peer = peer up, att_measurements = m, keyset_not_after = bound_not_after b\<rparr>"
      "since = started_at a"
    unfolding attest_kubetee_def Let_def
    by (simp only: bind_r_eq_Ok with_context_eq_Ok) (elim exE conjE, simp split: prod.splits add: result_simps, blast)
  from verify_attestation_Ok [OF steps(5)] obtain td encoded log events possession where v:
      "payload_nonce payload = ?n" "appraise (tee K) claims now = Ok td" "report_data td = bound_report_data b"
      "m = Measurements_of td" "cc_eventlog payload = Some encoded" "b64std (tee K) encoded = Ok log" "parse (octets log) = Ok events"
      "replay (sha384 K) events = map octets [rt_mr0 td, rt_mr1 td, rt_mr2 td, rt_mr3 td]"
      "tls_possession payload = Some possession" "possession_proved K possession ?n (leaf up)"
    by (elim exE conjE) (rule that)
  have "finished_at a < bound_not_after b" using steps(6) by (simp add: ensure_current_def result_simps)
  with BindingGuard_run_Ok [OF steps(1)] up steps(2-4,7,8) v show ?thesis
    by (intro exI [of _ body] exI [of _ b] exI [of _ payload] exI [of _ raw] exI [of _ claims] exI [of _ now] exI [of _ td]
        exI [of _ encoded] exI [of _ log] exI [of _ events] exI [of _ possession]) simp
qed

definition kubetee_trusted :: "http_lib \<Rightarrow> kubetee_lib \<Rightarrow> ('a::linorder kubetee_attempt \<times> 'a option \<times> nat) set \<Rightarrow> Attested \<Rightarrow> bool" where
  "kubetee_trusted L K H c \<longleftrightarrow> (\<exists>a address i up attestation since. (a, address, i) \<in> H
     \<and> kubetee_attest_once L K a address i = Ok (up, attestation, since)
     \<and> driver c = up_driver up \<and> expires_at c = Some (keyset_not_after attestation))"

section \<open>What is sent\<close>

lemma foldl_remove: "foldl (\<lambda>hs name. remove_header name hs) hs names = filter (\<lambda>h. fst h \<notin> set names) hs"
  by (induction names arbitrary: hs) (auto simp: remove_header_def intro: filter_cong)

lemma strip_supplier_headers: "strip_supplier_headers hs = filter (\<lambda>h. \<not> is_supplier (fst h)) hs"
  by (auto simp: strip_supplier_headers_def foldl_remove intro!: filter_cong)

lemma find_in_set: "find P xs = Some x \<Longrightarrow> x \<in> set xs"
  by (induction xs) (auto split: if_splits)

lemma collect_limited_Ok:
  "collect_limited broken too_long limit frames acc = Ok out \<Longrightarrow> length acc \<le> limit \<Longrightarrow> length out \<le> limit"
  by (induction broken too_long limit frames acc rule: collect_limited.induct) (auto split: if_splits)

lemma validate_kubetee_request_Ok:
  assumes "validate_kubetee_request L r = Ok m"
  shows "m \<in> set KUBETEE_TARGETS \<and> k_method r = ''POST''"
proof -
  from assms have post: "k_method r = ''POST''" and branch: "(case get_all (k_headers r) KUBETEE_SELECTOR of
       [v] \<Rightarrow>
         bind_r (with_context ''KubeTEE model selector is not ASCII'' (k_header_text L v)) (\<lambda>selector.
         ok_or (find (\<lambda>t. t = selector) KUBETEE_TARGETS) ''unsupported KubeTEE model selector'')
     | _ \<Rightarrow> Err ''KubeTEE request needs exactly one model selector'') = Ok m"
    unfolding validate_kubetee_request_def bind_r_eq_Ok ensure_eq_Ok by blast+
  from branch obtain selector where "find (\<lambda>t. t = selector) KUBETEE_TARGETS = Some m"
    by (cases "get_all (k_headers r) KUBETEE_SELECTOR"; cases "tl (get_all (k_headers r) KUBETEE_SELECTOR)")
       (simp_all add: result_simps, blast)
  with find_in_set post show ?thesis by fast
qed

text \<open>A header of an upstream request is the caller's, our host, or the one session id the caller may set.\<close>

definition header_allowed :: "kubetee_request \<Rightarrow> string \<times> string \<Rightarrow> bool" where
  "header_allowed request h \<longleftrightarrow> fst h \<notin> {KUBETEE_SELECTOR, SESSION_ID_HEADER} \<union> set HOP_BY_HOP
     \<and> (fst h = ''host'' \<longrightarrow> snd h = HOST_NAME)
     \<and> (is_supplier (fst h) \<longrightarrow> fst h = LITELLM_SESSION_ID_HEADER \<and> request_session_id request = Some (snd h))"

lemma header_names:
  "\<not> is_supplier ''host''" "''host'' \<notin> {KUBETEE_SELECTOR, SESSION_ID_HEADER} \<union> set HOP_BY_HOP"
  "LITELLM_SESSION_ID_HEADER \<notin> {KUBETEE_SELECTOR, SESSION_ID_HEADER, ''host''} \<union> set HOP_BY_HOP"
  by (simp_all add: is_supplier_def SUPPLIER_HEADER_PREFIXES_def KUBETEE_SELECTOR_def SESSION_ID_HEADER_def HOP_BY_HOP_def
      LITELLM_SESSION_ID_HEADER_def)

lemma upstream_kubetee_request_Ok:
  assumes "upstream_kubetee_request L r = Ok u"
  shows "k_method u = k_method r \<and> k_body u = supplier_body (k_body r) \<and> list_all (header_allowed r) (k_headers u)"
  using assms header_names
  by (auto simp: upstream_kubetee_request_def Let_def result_simps strip_hop_by_hop set_header_def remove_header_def
      strip_supplier_headers header_allowed_def list_all_iff split: option.splits)

text \<open>
  C19: A request that reaches KubeTEE names one compiled target, its body names the same model and stays within the
  limit, and its headers carry neither the selector, nor connection headers, nor the supplier's names, except the
  one well-formed session id of the caller, nor another host.
\<close>

theorem kubetee_request_clean:
  assumes "kubetee_prepare L env request = Ok u"
  shows "\<exists>m body. m \<in> set KUBETEE_TARGETS \<and> k_body u = [Data body] \<and> chat_model L body = Ok m \<and> length body \<le> REQUEST_LIMIT
    \<and> k_method u = ''POST'' \<and> list_all (header_allowed request) (k_headers u)"
proof -
  from assms obtain m r2 where m: "validate_kubetee_request L request = Ok m" "require_body_model L request m = Ok r2"
    and u: "upstream_kubetee_request L r2 = Ok u"
    by (auto simp: kubetee_prepare_def result_simps)
  from m(1) have "m \<in> set KUBETEE_TARGETS \<and> k_method request = ''POST''"
    by (rule validate_kubetee_request_Ok)
  moreover from m(2) obtain body where "chat_model L body = Ok m" "r2 = request\<lparr>k_body := [Data body]\<rparr>" "length body \<le> REQUEST_LIMIT"
    by (auto simp: require_body_model_def result_simps dest!: collect_limited_Ok)
  moreover have "request_session_id (request\<lparr>k_body := b\<rparr>) = request_session_id request" for b
    by (simp add: request_session_id_def)
  ultimately show ?thesis
    using upstream_kubetee_request_Ok [OF u] by (auto simp: supplier_body_def header_allowed_def [abs_def])
qed

definition kubetee_own :: "'a kubetee_env \<Rightarrow> ('a kubetee_attempt \<times> 'a option \<times> nat) set" where
  "kubetee_own env = (\<lambda>i. (k_attempts env i, k_address env, i)) ` {..< ATTESTATION_ATTEMPTS}"

lemma kubetee_trusted_mono: "kubetee_trusted L K H c \<Longrightarrow> H \<subseteq> H' \<Longrightarrow> kubetee_trusted L K H' c"
  unfolding kubetee_trusted_def by blast

lemma kubetee_trusted_update [simp]:
  "kubetee_trusted L K H (c\<lparr>idle_since := t\<rparr>) = kubetee_trusted L K H c"
  "kubetee_trusted L K H (c\<lparr>requests := n\<rparr>) = kubetee_trusted L K H c"
  by (simp_all add: kubetee_trusted_def)

lemma kubetee_attest_trusted:
  assumes "kubetee_attest L K (k_attempts env) (k_address env) = Ok (up, attestation, since)"
    and "driver c = up_driver up" and "expires_at c = Some (keyset_not_after attestation)"
  shows "kubetee_trusted L K (kubetee_own env) c"
proof -
  from snd_retry_attestation [OF assms(1) [unfolded kubetee_attest_def]] obtain i where "i < ATTESTATION_ATTEMPTS"
    "kubetee_attest_once L K (k_attempts env i) (k_address env) i = Ok (up, attestation, since)" by blast
  with assms(2,3) show ?thesis unfolding kubetee_trusted_def kubetee_own_def by blast
qed

text \<open>What a call observes when it decides that a connection may be used.\<close>

definition observed_worlds :: "'a kubetee_env \<Rightarrow> world set" where
  "observed_worlds env = insert (k_fresh_world env) (range (\<lambda>k. ready_world (k_turns env k)))"

lemma kubetee_checkout_result:
  assumes "kubetee_checkout L K env p = Some (r, q, d)" and "idle_all (kubetee_trusted L K H) p"
    and "\<And>k p. idle_all (kubetee_trusted L K H) p \<Longrightarrow> idle_all (kubetee_trusted L K H) (meanwhile (k_turns env k) p)"
    and "\<And>k p. limits (meanwhile (k_turns env k) p) = limits p"
  shows "idle_all (kubetee_trusted L K H) q \<and> (\<forall>c. r = Ok c \<longrightarrow> kubetee_trusted L K (H \<union> kubetee_own env) c
    \<and> (\<exists>w \<in> observed_worlds env. usable w (limits p) c))"
proof -
  from assms(1) obtain found p1 d1 where take: "take_ready (k_turns env) 0 p = Some (found, p1, d1)"
    by (auto simp: kubetee_checkout_def bind_eq_Some_conv)
  note eq = assms(1) [unfolded kubetee_checkout_def take, simplified]
  from take_ready_result [OF take assms(2-4)] have p1: "idle_all (kubetee_trusted L K H) p1" "limits p1 = limits p"
    and c: "\<And>c. found = Some c \<Longrightarrow> kubetee_trusted L K H c \<and> (\<exists>j. usable (ready_world (k_turns env j)) (limits p) c)"
    by auto
  show ?thesis
  proof (cases found)
    case (Some c0)
    with eq have "r = Ok c0" "q = p1" by auto
    with c [OF Some] p1 show ?thesis by (auto simp: observed_worlds_def intro: kubetee_trusted_mono)
  next
    case None
    show ?thesis
    proof (cases "kubetee_attest L K (k_attempts env) (k_address env)")
      case (Inl e)
      with eq None p1 show ?thesis by auto
    next
      case (Inr x)
      obtain up attestation since where x: "x = (up, attestation, since)" by (metis prod_cases3)
      let ?c = "\<lparr>sender = up_sender up, driver = up_driver up, attested_at = since, idle_since = None,
                 expires_at = Some (keyset_not_after attestation), requests = 0\<rparr>"
      have "kubetee_trusted L K (H \<union> kubetee_own env) ?c"
        using kubetee_attest_trusted [of L K env up attestation since ?c] Inr x by (auto intro: kubetee_trusted_mono)
      with eq None Inr x p1 show ?thesis by (auto simp: observed_worlds_def Let_def split: if_splits)
    qed
  qed
qed

text \<open>
  C18: An inference request is sent at most once, as prepared, and only on a connection an attestation accepted,
  which was usable when it was chosen: open, within its age and request limits, and before its keyset's deadline. A
  refused request touches nothing, and the pool keeps only such connections. What is answered carries no header of
  the supplier.
\<close>

theorem kubetee_inference_attested:
  assumes "kubetee_forward L K env request p = Some (sends, q, dropped, result)" and "idle_all (kubetee_trusted L K H) p"
    and "\<And>k p. idle_all (kubetee_trusted L K H) p \<Longrightarrow> idle_all (kubetee_trusted L K H) (meanwhile (k_turns env k) p)"
    and "\<And>k p. limits (meanwhile (k_turns env k) p) = limits p"
    and "\<And>p. idle_all (kubetee_trusted L K H) p \<Longrightarrow> idle_all (kubetee_trusted L K H) (k_settled env p)"
  shows "idle_all (kubetee_trusted L K (H \<union> kubetee_own env)) q
    \<and> (case kubetee_prepare L env request of
         Inl e \<Rightarrow> sends = [] \<and> q = p \<and> result = Err e
       | Inr u \<Rightarrow> (sends = [] \<longrightarrow> (\<exists>e. result = Err e))
           \<and> (sends \<noteq> [] \<longrightarrow> (\<exists>c w deadline. sends = [(c\<lparr>requests := requests c + 1\<rparr>, u)]
                \<and> kubetee_trusted L K (H \<union> kubetee_own env) c \<and> w \<in> observed_worlds env \<and> usable w (limits p) c
                \<and> expires_at c = Some deadline \<and> utc_now w < deadline))
           \<and> (\<forall>response l. result = Ok (response, l) \<longrightarrow>
                list_all (\<lambda>h. \<not> is_supplier (fst h) \<and> fst h \<notin> set HOP_BY_HOP) (k_response_headers response)))"
proof (cases "kubetee_prepare L env request")
  case (Inl e)
  with assms(1,2) show ?thesis by (auto simp: kubetee_forward_def elim!: idle_all_mono kubetee_trusted_mono)
next
  case (Inr u)
  let ?T = "kubetee_trusted L K (H \<union> kubetee_own env)"
  from assms(1) Inr obtain r p1 d1 where ck: "kubetee_checkout L K env p = Some (r, p1, d1)"
    by (auto simp: kubetee_forward_def bind_eq_Some_conv)
  note eq = assms(1) [unfolded kubetee_forward_def Inr ck, simplified]
  note res = kubetee_checkout_result [OF ck assms(2-4)]
  have up: "idle_all ?T p'" if "idle_all (kubetee_trusted L K H) p'" for p'
    using that by (auto elim!: idle_all_mono kubetee_trusted_mono)
  show ?thesis
  proof (cases r)
    case e: (Inl e)
    with eq res up Inr show ?thesis by auto
  next
    case c: (Inr c)
    with res have T: "?T c" and "\<exists>w \<in> observed_worlds env. usable w (limits p) c" by auto
    then obtain w where w: "w \<in> observed_worlds env" "usable w (limits p) c" by blast
    from T obtain deadline where d: "expires_at c = Some deadline" by (auto simp: kubetee_trusted_def)
    with w(2) have "utc_now w < deadline" by (simp add: usable_def usable_at_def)
    note sent = T w d this
    have settled: "idle_all ?T (k_settled env p1)" using assms(5) res up by blast
    let ?c = "c\<lparr>requests := requests c + 1\<rparr>"
    obtain lease p' ld where l: "Lease_new (fst (k_lease_worlds env)) (snd (k_lease_worlds env)) (k_body_ended env) ?c (k_settled env p1)
        = (lease, p', ld)" by (metis prod_cases3)
    from Lease_new_idle [OF l settled] T have p': "idle_all ?T p'" by simp
    show ?thesis
    proof (cases "k_send env")
      case (Inl e)
      with eq c have "sends = [(?c, u)]" "q = k_settled env p1" "result = Err ''KubeTEE inference timed out''" by (auto simp: Let_def)
      with sent settled Inr show ?thesis by auto
    next
      case k: (Inr s)
      show ?thesis
      proof (cases s)
        case (Inl e)
        with eq c k have "sends = [(?c, u)]" "q = k_settled env p1" "\<exists>e. result = Err e" by (auto simp: Let_def)
        with sent settled Inr show ?thesis by auto
      next
        case (Inr response)
        with eq c k l have "sends = [(?c, u)]" "q = p'" "result = Ok (response\<lparr>k_response_headers := strip_hop_by_hop
            (strip_supplier_headers (k_response_headers response)), k_response_body := supplier_body (k_response_body response)\<rparr>, lease)"
          by (auto simp: Let_def)
        with sent p' \<open>kubetee_prepare L env request = Inr u\<close> show ?thesis
          by (auto simp: strip_hop_by_hop strip_supplier_headers list_all_iff)
      qed
    qed
  qed
qed

section \<open>Witnesses\<close>

definition kt_hash :: string where "kt_hash = replicate 32 (CHR ''h'')"
definition kt_nonce :: string where "kt_nonce = replicate 32 (CHR ''n'')"

definition kt_leaf :: certificate where
  "kt_leaf = \<lparr>spki_raw = [], spki_data = [], is_rsa = True, is_p256 = False, currently_valid = True, not_after = 300\<rparr>"

definition kt_td :: TDReport10 where
  "kt_td = \<lparr>td_attributes = [CHR 0x00], mr_td = [], mr_config_id = [], rt_mr0 = replicate 48 (CHR 0x00), rt_mr1 = replicate 48 (CHR 0x00),
     rt_mr2 = replicate 48 (CHR 0x00), rt_mr3 = replicate 48 (CHR 0x00), report_data = kt_hash @ replicate 32 (CHR 0x00)\<rparr>"

definition kt_claims :: QuoteClaims where
  "kt_claims = \<lparr>report = TD10 kt_td, platform_tcb = UpToDate, qe_tcb = UpToDate, earliest_expiration_date = 300\<rparr>"

text \<open>A log with one measured record, as text.\<close>

definition kt_log :: string where
  "kt_log = map (\<lambda>b. char_of (unat b)) (enc_header demo_header @ enc_record demo_record)"

definition kt_tee :: tee_lib where
  "kt_tee = \<lparr>json_of = (\<lambda>_. Err []), b64url = Ok, b64std = (\<lambda>s. if s = ''L'' then Ok kt_log else Ok s), hex_encode = id, hex_decode = Ok,
     sha256 = (\<lambda>_. kt_hash), es384_ok = (\<lambda>_ _ _. True), rsa_ok = (\<lambda>_ _ _. True), parse_x509 = (\<lambda>_. Ok ([], kt_leaf)),
     jwks_document = (\<lambda>_. Err []), jwk_of_value = (\<lambda>_. None), verify_chain = (\<lambda>_ _ _. Ok kt_claims), strict_policy = (\<lambda>_ _. Ok ())\<rparr>"

definition kt_keyset :: json where
  "kt_keyset = JObject [(''tls_public_keys'', JArray [JObject [(''domain'', JString HOST_DOMAIN), (''spki_sha256'', JString kt_hash)]]),
     (''not_after'', JString ''t'')]"

definition kt_fields :: BindingFields where
  "kt_fields = \<lparr>keyset = kt_keyset, bindings = \<lparr>version = PURPOSE,
     report_data_statement = ''{'' @ STATEMENT_DIGEST_PREFIX @ KEYSET_DIGEST_PREFIX @ kt_hash @ STATEMENT_NONCE_PREFIX @ kt_nonce @ STATEMENT_SUFFIX,
     stated_digest = KEYSET_DIGEST_PREFIX @ kt_hash\<rparr>\<rparr>"

definition kt_payload :: AttestationPayload where
  "kt_payload = \<lparr>payload_nonce = kt_nonce, quote = ''q'', cc_eventlog = Some ''L'',
     tls_possession = Some \<lparr>tls_signature = ''s'', tls_signature_alg = RS256, tls_cert_sha256 = kt_hash\<rparr>, pod = ''p''\<rparr>"

definition kt_lib :: kubetee_lib where
  "kt_lib = \<lparr>tee = kt_tee, raw_slice = (\<lambda>_. Some (VMap [(''keyset'', VUnit), (''bindings'', VUnit)])), unique_json_error = [],
     binding_fields = (\<lambda>_. Ok kt_fields), payload_slice = (\<lambda>_. Ok kt_payload), show_json = (\<lambda>_. []), parse_rfc3339 = (\<lambda>_. Ok 200),
     from_timestamp = Some, p256_fixed_ok = (\<lambda>_ _ _. False), p256_asn1_ok = (\<lambda>_ _ _. False), log_error_text = (\<lambda>_. []),
     sha384 = (\<lambda>_. replicate 48 0)\<rparr>"

definition kt_http :: http_lib where
  "kt_http = \<lparr>k_header_text = Ok, k_parse_uri = (\<lambda>p. Ok (p, Some p)), chat_model = (\<lambda>_. Ok ''z-ai/glm-5.2''), k_status_text = (\<lambda>_. []),
     k_body_error = [], k_limit_error = [], k_json = (\<lambda>_. Err []), k_json_vec = (\<lambda>_. Err [])\<rparr>"

definition kt_dial :: "nat dial" where
  "kt_dial = \<lparr>show_address = (\<lambda>_. []), resolved = Ok (Ok [1]), tcp = (\<lambda>_. Ok (Ok ())), keepalive = Ok (), user_timeout = Ok (),
     peer_addr = Ok 1, server_name = (\<lambda>_. Ok ()), handshake = Ok (Ok (Some [''leaf''])), http1 = Ok (4, 7)\<rparr>"

definition kt_attempt :: "nat kubetee_attempt" where
  "kt_attempt = \<lparr>k_dialled = kt_dial, started_at = 0, k_nonce = kt_nonce, k_deadline = Ok (),
     k_answer = Ok \<lparr>k_status = 200, k_response_headers = [], k_response_body = []\<rparr>, read_at = 100, k_collateral = Ok [],
     k_clock = Ok 100, finished_at = 101\<rparr>"

definition kt_up :: "nat UpstreamConnection" where
  "kt_up = \<lparr>up_sender = 4, up_driver = 7, leaf = ''leaf'', peer = 1\<rparr>"

definition kt_attestation :: "nat Attestation" where
  "kt_attestation = \<lparr>att_pod = ''p'', att_peer = 1, att_measurements = Measurements_of kt_td, keyset_not_after = 200\<rparr>"

lemma kt_tee_fields [simp]:
  "tee kt_lib = kt_tee" "sha256 kt_tee = (\<lambda>_. kt_hash)" "hex_encode kt_tee = id" "hex_decode kt_tee = Ok"
  "parse_x509 kt_tee = (\<lambda>_. Ok ([], kt_leaf))" "show_json kt_lib = (\<lambda>_. [])" "sha384 kt_lib = (\<lambda>_. replicate 48 0)"
  by (simp_all add: kt_lib_def kt_tee_def)

lemma kt_binding: "BindingGuard_run kt_lib body kt_nonce lf 100 =
    Ok \<lparr>bound_report_data = kt_hash @ replicate 32 (CHR 0x00), bound_not_after = 200\<rparr>"
proof -
  let ?tree = "CObject [(''not_after'', CString ''t''), (''tls_public_keys'',
      CArray [CObject [(''domain'', CString HOST_DOMAIN), (''spki_sha256'', CString kt_hash)]])]"
  have tree: "json_tree (\<lambda>_. []) kt_keyset = Ok ?tree"
    by (simp add: kt_keyset_def less_char_def)
  have "parse_unique_json (raw_slice kt_lib) body = Some (JObject [(''keyset'', JNull), (''bindings'', JNull)])"
    by (simp add: parse_unique_json_def kt_lib_def hm_contains_def hm_insert_def)
  moreover have "verify_served_keyset kt_lib kt_keyset (KEYSET_DIGEST_PREFIX @ kt_hash) lf = Ok 200"
    unfolding verify_served_keyset_Ok keyset_bound_def
  proof (intro exI conjI)
    show "json_tree (show_json kt_lib) kt_keyset = Ok ?tree" using tree by simp
    show "json_get ''tls_public_keys'' kt_keyset = Some (JArray [JObject [(''domain'', JString HOST_DOMAIN), (''spki_sha256'', JString kt_hash)]])"
      by (simp add: kt_keyset_def json_get_def)
    show "names_key (hex_encode (tee kt_lib) (sha256 (tee kt_lib) (spki_raw kt_leaf)))
        (JObject [(''domain'', JString HOST_DOMAIN), (''spki_sha256'', JString kt_hash)])"
      by (simp add: names_key_def json_get_def)
    show "json_get ''not_after'' kt_keyset = Some (JString ''t'')" by (simp add: kt_keyset_def json_get_def)
    show "from_timestamp kt_lib (not_after kt_leaf) = Some 300" by (simp add: kt_lib_def kt_leaf_def)
  qed (simp_all add: keyset_digest_def kt_lib_def kt_tee_def)
  moreover have "report_data_of_statement kt_tee (report_data_statement (bindings kt_fields)) (KEYSET_DIGEST_PREFIX @ kt_hash) kt_nonce
      = Ok (kt_hash @ replicate 32 (CHR 0x00))"
    unfolding statement_template by (simp add: kt_fields_def)
  moreover have "binding_fields kt_lib v = Ok kt_fields" for v by (simp add: kt_lib_def)
  moreover have "keyset kt_fields = kt_keyset" "stated_digest (bindings kt_fields) = KEYSET_DIGEST_PREFIX @ kt_hash"
    "version (bindings kt_fields) = PURPOSE" by (simp_all add: kt_fields_def)
  ultimately show ?thesis
    by (simp add: BindingGuard_run_def json_get_def ensure_current_def)
qed

lemma octets_text: "octets (map (\<lambda>b. char_of (unat b)) bs) = bs"
proof -
  have "word_of_nat (byte_of (char_of (unat b))) = b" for b :: u8
  proof -
    have "unat b < 256" using unsigned_less [of b] by simp
    then show ?thesis by (simp add: byte_of_def)
  qed
  then show ?thesis by (simp add: octets_def comp_def map_idI)
qed

lemma octets_zero: "octets (replicate n (CHR 0x00)) = replicate n 0"
  by (simp add: octets_def byte_of_def)

lemma kt_appraised: "appraise kt_tee kt_claims now = Ok kt_td"
  by (simp add: appraise_def kt_tee_def kt_claims_def kt_td_def byte_of_def)

lemma kt_verified: "verify_attestation kt_lib kt_payload kt_nonce lf kt_claims now (kt_hash @ replicate 32 (CHR 0x00)) = Ok (Measurements_of kt_td)"
proof -
  have "parse (octets kt_log) = Ok [\<lparr>rtmr = 0, event_type = 1, digest = replicate 48 7, event_data = [5]\<rparr>]"
    unfolding kt_log_def octets_text by (rule demo_log_parses)
  moreover have "replay (\<lambda>_. replicate 48 0) [\<lparr>rtmr = 0, event_type = 1, digest = replicate 48 7, event_data = [5]\<rparr>] =
      map octets [rt_mr0 kt_td, rt_mr1 kt_td, rt_mr2 kt_td, rt_mr3 kt_td]"
    unfolding replay_def Event_Log.extend_def kt_td_def
    by (simp only: TDReport10.simps list.map octets_zero) (simp add: numeral_eq_Suc del: replicate.simps, simp)
  moreover have "b64std kt_tee ''L'' = Ok kt_log" by (simp add: kt_tee_def)
  ultimately have "verify_event_log kt_lib ''L'' [rt_mr0 kt_td, rt_mr1 kt_td, rt_mr2 kt_td, rt_mr3 kt_td] = Ok ()"
    by (subst verify_event_log_Ok) simp_all
  moreover have "verify_tls_possession kt_lib \<lparr>tls_signature = ''s'', tls_signature_alg = RS256, tls_cert_sha256 = kt_hash\<rparr> kt_nonce lf = Ok ()"
    unfolding verify_tls_possession_Ok possession_proved_def by (simp add: kt_leaf_def) (simp add: kt_tee_def)
  moreover have "report_data kt_td = kt_hash @ replicate 32 (CHR 0x00)" by (simp add: kt_td_def)
  ultimately show ?thesis
    unfolding verify_attestation_def
    by (simp add: kt_payload_def kt_appraised Measurements_of_def Let_def del: replicate.simps)
qed

lemma kt_attested: "kubetee_attest_once kt_http kt_lib kt_attempt None 0 = Ok (kt_up, kt_attestation, 0)"
proof -
  have "connect kt_dial KUBETEE HOST_NAME None 0 = Ok kt_up"
    by (simp add: connect_def kt_dial_def timed_def pick_address_def sorted_addresses_def nth_o_def kt_up_def)
  moreover have "k_read_body kt_http [] = Ok []" by (simp add: k_read_body_def)
  moreover have "Pccs_verify kt_tee (Ok []) (Ok 100) raw = Ok (kt_claims, 100)" for raw
    by (simp add: Pccs_verify_def verify_signature_chain_def kt_tee_def)
  moreover have "payload_slice kt_lib b = Ok kt_payload" "b64std kt_tee (quote kt_payload) = Ok ''q''" for b
    by (simp_all add: kt_lib_def kt_tee_def kt_payload_def)
  ultimately show ?thesis
    by (simp add: kubetee_attest_once_def attest_kubetee_def kt_attempt_def kt_binding kt_verified ensure_current_def
        kt_attestation_def Let_def del: replicate.simps) (simp add: kt_payload_def kt_up_def)
qed

theorem kubetee_connection_bound_witness:
  "\<exists>body b td. binding_of kt_lib body kt_nonce ''leaf'' b \<and> 101 < bound_not_after b \<and> bound_not_after b = 200
     \<and> report_data (td :: TDReport10) = bound_report_data b"
proof -
  from kubetee_connection_bound [OF kt_attested] obtain body b td where
      "binding_of kt_lib body (hex_encode (tee kt_lib) (k_nonce kt_attempt)) (leaf kt_up) b"
      "keyset_not_after kt_attestation = bound_not_after b" "finished_at kt_attempt < bound_not_after b"
      "report_data (td :: TDReport10) = bound_report_data b"
    by (elim exE conjE) (rule that, assumption, assumption, assumption, assumption)
  moreover have "finished_at kt_attempt = 101" "k_nonce kt_attempt = kt_nonce" "leaf kt_up = ''leaf''" "keyset_not_after kt_attestation = 200"
    by (simp_all add: kt_attempt_def kt_up_def kt_attestation_def)
  ultimately show ?thesis by (intro exI [of _ body] exI [of _ b] exI [of _ td]) simp
qed

definition kt_world :: world where
  "kt_world = \<lparr>mono_now = 1, utc_now = 150, is_closed = (\<lambda>_. False), is_finished = (\<lambda>_. False)\<rparr>"

definition kt_env :: "nat kubetee_env" where
  "kt_env = \<lparr>k_turns = (\<lambda>_. \<lparr>take_world = kt_world, ready = True, ready_world = kt_world, meanwhile = id\<rparr>),
     k_attempts = (\<lambda>_. kt_attempt), k_address = None, k_fresh_world = kt_world, request_deadline = Ok (),
     k_send = Ok (Ok \<lparr>k_status = 200, k_response_headers = [(''x-kubetee-pod'', ''p'')], k_response_body = []\<rparr>),
     k_settled = id, k_lease_worlds = (kt_world, kt_world), k_body_ended = True\<rparr>"

definition kt_request :: kubetee_request where
  "kt_request = \<lparr>k_method = ''POST'', k_path = KUBETEE_CHAT, k_path_and_query = Some KUBETEE_CHAT,
     k_headers = [(KUBETEE_SELECTOR, ''z-ai/glm-5.2''), (''x-litellm-key'', ''k'')], k_body = [Data ''b'']\<rparr>"

definition kt_upstream :: kubetee_request where
  "kt_upstream = kt_request\<lparr>k_headers := [(''host'', HOST_NAME)]\<rparr>"

lemma kt_prepared: "kubetee_prepare kt_http kt_env kt_request = Ok kt_upstream"
proof -
  have "validate_kubetee_request kt_http kt_request = Ok ''z-ai/glm-5.2''"
    by (simp add: validate_kubetee_request_def kt_request_def get_all_def KUBETEE_SELECTOR_def kt_http_def KUBETEE_TARGETS_def)
  moreover have "require_body_model kt_http kt_request ''z-ai/glm-5.2'' = Ok kt_request"
    by (simp add: require_body_model_def kt_request_def REQUEST_LIMIT_def kt_http_def)
  moreover have "upstream_kubetee_request kt_http kt_request = Ok kt_upstream"
    by (simp add: upstream_kubetee_request_def kt_request_def kt_upstream_def Let_def request_session_id_def get_all_def
        SESSION_ID_HEADER_def KUBETEE_SELECTOR_def strip_hop_by_hop HOP_BY_HOP_def strip_supplier_headers is_supplier_def
        SUPPLIER_HEADER_PREFIXES_def remove_header_def set_header_def kt_http_def supplier_body_def)
  ultimately show ?thesis by (simp add: kubetee_prepare_def kt_env_def)
qed

theorem kubetee_request_clean_witness:
  "\<exists>m body. m \<in> set KUBETEE_TARGETS \<and> k_body kt_upstream = [Data body] \<and> chat_model kt_http body = Ok m
     \<and> list_all (header_allowed kt_request) (k_headers kt_upstream)"
  using kubetee_request_clean [OF kt_prepared] by blast

lemma kt_forwarded: "\<exists>c q d r. kubetee_forward kt_http kt_lib kt_env kt_request (Pool_new PoolLimits_default) = Some ([(c, kt_upstream)], q, d, r)"
proof -
  have "take_ready (k_turns kt_env) 0 (Pool_new PoolLimits_default) = Some (None, Pool_new PoolLimits_default, [])"
    by (subst take_ready.simps) (simp add: pool_take_def sweep_def Pool_new_def)
  moreover have "kubetee_attest kt_http kt_lib (k_attempts kt_env) (k_address kt_env) = Ok (kt_up, kt_attestation, 0)"
    unfolding kubetee_attest_def retry_attestation_def attempt_list by (simp add: kt_env_def kt_attested)
  moreover have "usable (k_fresh_world kt_env) (limits (Pool_new PoolLimits_default)) \<lparr>sender = up_sender kt_up, driver = up_driver kt_up,
      attested_at = 0, idle_since = None, expires_at = Some (keyset_not_after kt_attestation), requests = 0\<rparr>"
    by (simp add: usable_def usable_at_def elapsed_def kt_env_def kt_world_def kt_up_def kt_attestation_def Pool_new_def
        PoolLimits_default_def MAX_AGE_def MAX_REQUESTS_def secs_def)
  ultimately have "\<exists>c. kubetee_checkout kt_http kt_lib kt_env (Pool_new PoolLimits_default) = Some (Ok c, Pool_new PoolLimits_default, [])"
    by (simp add: kubetee_checkout_def Let_def)
  moreover have "k_send kt_env = Ok (Ok \<lparr>k_status = 200, k_response_headers = [(''x-kubetee-pod'', ''p'')], k_response_body = []\<rparr>)"
    by (simp add: kt_env_def)
  ultimately show ?thesis
    by (auto simp: kubetee_forward_def kt_prepared Let_def split: prod.split)
qed

theorem kubetee_inference_attested_witness:
  "\<exists>c deadline. kubetee_trusted kt_http kt_lib (kubetee_own kt_env) c \<and> expires_at c = Some deadline"
proof -
  from kt_forwarded obtain c q d r where run: "kubetee_forward kt_http kt_lib kt_env kt_request (Pool_new PoolLimits_default)
      = Some ([(c, kt_upstream)], q, d, r)" by blast
  have "idle_all (kubetee_trusted kt_http kt_lib {}) (Pool_new PoolLimits_default)" by (simp add: idle_all_def Pool_new_def)
  moreover have "meanwhile (k_turns kt_env k) = id" "k_settled kt_env = id" for k by (simp_all add: kt_env_def)
  ultimately show ?thesis
    using kubetee_inference_attested [OF run, of "{}"] by (auto simp: kt_prepared)
qed

end
