(* ===== verification/Provider_Keys.thy ===== *)
theory Provider_Keys
  imports Rust_Text
begin

text \<open>
  The upstream provider keys of the CLI: the configured keys and their checks
  (\<^verbatim>\<open>cli/src/config.rs\<close>, \<^verbatim>\<open>ProviderKeys\<close>), the providers (\<^verbatim>\<open>cli/src/types.rs\<close>) and the key slots
  derived from them (\<^verbatim>\<open>cli/src/slots.rs\<close>).

  An error is a constructor with the values its text prints. HMAC-SHA-256 is the parameter
  \<open>hmac\<close>, which may refuse a key, and the base-32 encoding the parameter \<open>base32\<close>; its 52
  characters are cut to twelve.
\<close>

named_theorems key_simps

section \<open>Providers and keys\<close>

datatype Provider = Anthropic | OpenAI | Gemini | Chutes | Zai | Moonshot | DeepInfra | Kubetee | Engy | Moonmath | Near | Benchmark

definition providers :: "Provider list" where
  "providers = [Anthropic, OpenAI, Gemini, Chutes, Zai, Moonshot, DeepInfra, Kubetee, Engy, Moonmath, Near, Benchmark]"

fun provider_str :: "Provider \<Rightarrow> string" where
  "provider_str Anthropic = ''anthropic''"
| "provider_str OpenAI = ''openai''"
| "provider_str Gemini = ''gemini''"
| "provider_str Chutes = ''chutes''"
| "provider_str Zai = ''zai''"
| "provider_str Moonshot = ''moonshot''"
| "provider_str DeepInfra = ''deepinfra''"
| "provider_str Kubetee = ''kubetee''"
| "provider_str Engy = ''engy''"
| "provider_str Moonmath = ''moonmath''"
| "provider_str Near = ''near''"
| "provider_str Benchmark = ''benchmark''"

record ProviderKeys =
  anthropic :: "string option"
  anthropic_upstream :: "string option"
  bedrock_region :: "string option"
  bedrock_api_key :: "string option"
  azure_foundry_endpoint :: "string option"
  azure_foundry_api_key :: "string option"
  azure_foundry_tenant_id :: "string option"
  azure_foundry_subscription_id :: "string option"
  azure_foundry_resource_group :: "string option"
  azure_foundry_client_id :: "string option"
  azure_foundry_client_secret :: "string option"
  openai :: "string option"
  openai_upstream :: "string option"
  azure_openai_endpoint :: "string option"
  azure_openai_api_key :: "string option"
  azure_tenant_id :: "string option"
  azure_subscription_id :: "string option"
  azure_resource_group :: "string option"
  azure_client_id :: "string option"
  azure_client_secret :: "string option"
  google_key :: "string option"
  chutes_key :: "string option"
  zai_key :: "string option"
  moonshot_key :: "string option"
  deepinfra_key :: "string option"
  kubetee_key :: "string option"
  engy_key :: "string option"
  moonmath_key :: "string option"
  near_key :: "string option"

datatype key_error =
    TooManySegments string nat
  | EmptySlot string nat
  | HmacInit
  | CloudMultiKey string string
  | LegacyMultiKey string
  | MissingFields string "string list"
  | BedrockRegion
  | NotDnsHost string string
  | UnsupportedScheme string
  | NotHttps string
  | HasUserinfo string
  | HostNotAllowed string string "string list"
  | UnknownUpstream string string

definition unwrap_or :: "'a option \<Rightarrow> 'a \<Rightarrow> 'a" where
  "unwrap_or x d = (case x of None \<Rightarrow> d | Some v \<Rightarrow> v)"

definition is_direct :: "string option \<Rightarrow> bool" where
  "is_direct upstream \<longleftrightarrow> unwrap_or upstream ''direct'' = ''direct''"

fun direct_key :: "ProviderKeys \<Rightarrow> Provider \<Rightarrow> (string \<times> string option) option" where
  "direct_key k Anthropic = Some (''ANTHROPIC_API_KEY'', filter_o (\<lambda>_. is_direct (anthropic_upstream k)) (anthropic k))"
| "direct_key k OpenAI = Some (''OPENAI_API_KEY'', filter_o (\<lambda>_. is_direct (openai_upstream k)) (openai k))"
| "direct_key k Gemini = Some (''GOOGLE_API_KEY'', google_key k)"
| "direct_key k Chutes = Some (''CHUTES_API_KEY'', chutes_key k)"
| "direct_key k Zai = Some (''ZAI_API_KEY'', zai_key k)"
| "direct_key k Moonshot = Some (''MOONSHOT_API_KEY'', moonshot_key k)"
| "direct_key k DeepInfra = Some (''DEEPINFRA_API_KEY'', deepinfra_key k)"
| "direct_key k Kubetee = Some (''KUBETEE_API_KEY'', kubetee_key k)"
| "direct_key k Engy = Some (''ENGY_API_KEY'', engy_key k)"
| "direct_key k Moonmath = Some (''MOONMATH_API_KEY'', moonmath_key k)"
| "direct_key k Near = Some (''NEAR_API_KEY'', near_key k)"
| "direct_key k Benchmark = None"

definition direct_keys :: "ProviderKeys \<Rightarrow> (string \<times> string option) list" where
  "direct_keys k = List.map_filter (direct_key k) providers"

definition non_empty :: "string option \<Rightarrow> bool" where
  "non_empty v = is_some_and (\<lambda>s. trim s \<noteq> []) v"

definition any_set :: "ProviderKeys \<Rightarrow> bool" where
  "any_set k \<longleftrightarrow>
     (unwrap_or (anthropic_upstream k) ''direct'' = ''bedrock'' \<and> non_empty (bedrock_api_key k))
     \<or> (unwrap_or (anthropic_upstream k) ''direct'' = ''foundry'' \<and> non_empty (azure_foundry_api_key k))
     \<or> (unwrap_or (openai_upstream k) ''direct'' = ''azure'' \<and> non_empty (azure_openai_api_key k))
     \<or> list_ex (\<lambda>(_, v). non_empty v) (direct_keys k)"

section \<open>Upstream checks\<close>

definition require_present :: "string \<Rightarrow> (string \<times> string option) list \<Rightarrow> key_error + unit" where
  "require_present label required =
     (let missing = map fst (filter (\<lambda>(_, v). \<not> non_empty v) required) in
      if missing \<noteq> [] then Err (MissingFields label missing) else Ok ())"

definition AZURE_OPENAI_ALLOWED_SUFFIXES :: "string list" where
  "AZURE_OPENAI_ALLOWED_SUFFIXES = [''openai.azure.com'', ''services.ai.azure.com'', ''cognitiveservices.azure.com'']"

definition AZURE_FOUNDRY_ALLOWED_SUFFIXES :: "string list" where
  "AZURE_FOUNDRY_ALLOWED_SUFFIXES = [''services.ai.azure.com'']"

definition validate_bedrock_region :: "string \<Rightarrow> key_error + unit" where
  "validate_bedrock_region region = (if region = ''us-east-1'' then Ok () else Err BedrockRegion)"

definition dns_host :: "string \<Rightarrow> bool" where
  "dns_host host \<longleftrightarrow> host \<noteq> [] \<and> hd host \<noteq> CHR ''.'' \<and> last host \<noteq> CHR ''.'' \<and> \<not> contains_sub ''..'' host
     \<and> list_all (\<lambda>b. is_ascii_alphanumeric b \<or> b = CHR ''.'' \<or> b = CHR ''-'') host"

definition validate_dns_host :: "string \<Rightarrow> string \<Rightarrow> key_error + unit" where
  "validate_dns_host label host = (if dns_host host then Ok () else Err (NotDnsHost label host))"

definition ends_with :: "string \<Rightarrow> string \<Rightarrow> bool" where
  "ends_with suffix s \<longleftrightarrow> length suffix \<le> length s \<and> drop (length s - length suffix) s = suffix"

definition host_allowed_by_suffix :: "string \<Rightarrow> string \<Rightarrow> bool" where
  "host_allowed_by_suffix host suffix \<longleftrightarrow> length host > length suffix \<and> ends_with suffix host
     \<and> host ! (length host - length suffix - 1) = CHR ''.''"

definition authority_of :: "string \<Rightarrow> string" where
  "authority_of s = takeWhile (\<lambda>c. c \<notin> {CHR ''/'', CHR ''?'', CHR ''#''}) s"

definition host_of :: "string \<Rightarrow> string" where
  "host_of authority = ascii_lower (takeWhile (\<lambda>c. c \<noteq> CHR '':'') authority)"

definition validate_azure_endpoint :: "string \<Rightarrow> string \<Rightarrow> string list \<Rightarrow> key_error + unit" where
  "validate_azure_endpoint flag endpoint allowed =
     (case strip_prefix ''https://'' endpoint of
        None \<Rightarrow>
          if contains_sub ''://'' endpoint \<and> \<not> starts_with ''http://'' endpoint then Err (UnsupportedScheme flag)
          else Err (NotHttps flag)
      | Some rest \<Rightarrow>
          let authority = authority_of rest in
          if CHR ''@'' \<in> set authority then Err (HasUserinfo flag)
          else
            let host = host_of authority in
            bind_r (validate_dns_host (flag @ '' host'') host) (\<lambda>_.
            if list_ex (host_allowed_by_suffix host) allowed then Ok () else Err (HostNotAllowed flag host allowed)))"

definition validate_azure_openai_endpoint :: "string \<Rightarrow> key_error + unit" where
  "validate_azure_openai_endpoint endpoint =
     validate_azure_endpoint ''--azure-openai-endpoint'' endpoint AZURE_OPENAI_ALLOWED_SUFFIXES"

definition validate_azure_foundry_endpoint :: "string \<Rightarrow> key_error + unit" where
  "validate_azure_foundry_endpoint endpoint =
     validate_azure_endpoint ''--azure-foundry-endpoint'' endpoint AZURE_FOUNDRY_ALLOWED_SUFFIXES"

definition has_semicolon :: "string option \<Rightarrow> bool" where
  "has_semicolon v = is_some_and (\<lambda>s. CHR '';'' \<in> set s) v"

definition validate_cloud_backend_single_keys :: "ProviderKeys \<Rightarrow> key_error + unit" where
  "validate_cloud_backend_single_keys k =
     (if anthropic_upstream k = Some ''bedrock'' \<and> has_semicolon (bedrock_api_key k)
      then Err (CloudMultiKey ''BEDROCK_API_KEY'' ''ANTHROPIC_UPSTREAM=bedrock'')
      else if anthropic_upstream k = Some ''foundry'' \<and> has_semicolon (azure_foundry_api_key k)
      then Err (CloudMultiKey ''AZURE_FOUNDRY_API_KEY'' ''ANTHROPIC_UPSTREAM=foundry'')
      else if openai_upstream k = Some ''azure'' \<and> has_semicolon (azure_openai_api_key k)
      then Err (CloudMultiKey ''AZURE_OPENAI_API_KEY'' ''OPENAI_UPSTREAM=azure'')
      else Ok ())"

definition validate_anthropic_upstream :: "ProviderKeys \<Rightarrow> key_error + unit" where
  "validate_anthropic_upstream k =
     (let upstream = unwrap_or (anthropic_upstream k) ''direct'' in
      if upstream = ''direct'' then Ok ()
      else if upstream = ''bedrock'' then
        bind_r (require_present ''anthropic-upstream=bedrock''
          [(''--bedrock-region'', bedrock_region k), (''--bedrock-api-key'', bedrock_api_key k)]) (\<lambda>_.
        validate_bedrock_region (unwrap_or (bedrock_region k) []))
      else if upstream = ''foundry'' then
        bind_r (require_present ''anthropic-upstream=foundry''
          [(''--azure-foundry-endpoint'', azure_foundry_endpoint k), (''--azure-foundry-api-key'', azure_foundry_api_key k),
           (''--azure-foundry-tenant-id'', azure_foundry_tenant_id k),
           (''--azure-foundry-subscription-id'', azure_foundry_subscription_id k),
           (''--azure-foundry-resource-group'', azure_foundry_resource_group k),
           (''--azure-foundry-client-id'', azure_foundry_client_id k),
           (''--azure-foundry-client-secret'', azure_foundry_client_secret k)]) (\<lambda>_.
        validate_azure_foundry_endpoint (unwrap_or (azure_foundry_endpoint k) []))
      else Err (UnknownUpstream ''anthropic-upstream'' upstream))"

definition validate_openai_upstream :: "ProviderKeys \<Rightarrow> key_error + unit" where
  "validate_openai_upstream k =
     (let upstream = unwrap_or (openai_upstream k) ''direct'' in
      if upstream = ''direct'' then Ok ()
      else if upstream = ''azure'' then
        bind_r (require_present ''openai-upstream=azure''
          [(''--azure-openai-endpoint'', azure_openai_endpoint k), (''--azure-openai-api-key'', azure_openai_api_key k),
           (''--azure-tenant-id'', azure_tenant_id k), (''--azure-subscription-id'', azure_subscription_id k),
           (''--azure-resource-group'', azure_resource_group k), (''--azure-client-id'', azure_client_id k),
           (''--azure-client-secret'', azure_client_secret k)]) (\<lambda>_.
        validate_azure_openai_endpoint (unwrap_or (azure_openai_endpoint k) []))
      else Err (UnknownUpstream ''openai-upstream'' upstream))"

definition validate_upstreams :: "ProviderKeys \<Rightarrow> key_error + unit" where
  "validate_upstreams k =
     bind_r (validate_cloud_backend_single_keys k) (\<lambda>_.
     bind_r (validate_anthropic_upstream k) (\<lambda>_. validate_openai_upstream k))"

definition worker_backends :: "ProviderKeys \<Rightarrow> (string, string) btree_map" where
  "worker_backends k =
     (let m = (if anthropic_upstream k = Some ''bedrock'' then bt_insert ''anthropic'' ''bedrock'' []
               else if anthropic_upstream k = Some ''foundry'' then bt_insert ''anthropic'' ''foundry'' []
               else [])
      in if openai_upstream k = Some ''azure'' then bt_insert ''openai'' ''azure'' m else m)"

section \<open>Key slots\<close>

definition MAX_PROVIDER_SLOTS :: nat where "MAX_PROVIDER_SLOTS = 8"
definition SLOT_ID_LEN :: nat where "SLOT_ID_LEN = 12"

record KeySlot =
  slot_id :: string
  slot_key :: string

definition trim_ascii :: "string \<Rightarrow> string" where
  "trim_ascii s = rev (dropWhile is_ascii_whitespace (rev (dropWhile is_ascii_whitespace s)))"

definition derive_slot_id :: "(string \<Rightarrow> string \<Rightarrow> string option) \<Rightarrow> (string \<Rightarrow> string) \<Rightarrow> string \<Rightarrow> string \<Rightarrow> string
    \<Rightarrow> key_error + string" where
  "derive_slot_id hmac base32 provider key secret =
     bind_r (ok_or (hmac secret (provider @ '':'' @ key)) HmacInit) (\<lambda>d. Ok (take SLOT_ID_LEN (base32 d)))"

fun slots_loop :: "(string \<Rightarrow> key_error + string) \<Rightarrow> string \<Rightarrow> nat \<Rightarrow> string list \<Rightarrow> string list \<Rightarrow> KeySlot list
    \<Rightarrow> key_error + KeySlot list" where
  "slots_loop derive provider idx [] seen slots = Ok slots"
| "slots_loop derive provider idx (segment # segments) seen slots =
     (let key = trim_ascii segment in
      if key = [] then Err (EmptySlot provider (idx + 1))
      else bind_r (derive key) (\<lambda>i.
        if i \<in> set seen then slots_loop derive provider (idx + 1) segments seen slots
        else slots_loop derive provider (idx + 1) segments (i # seen) (slots @ [\<lparr>slot_id = i, slot_key = key\<rparr>])))"

definition parse_key_slots :: "(string \<Rightarrow> string \<Rightarrow> string option) \<Rightarrow> (string \<Rightarrow> string) \<Rightarrow> string \<Rightarrow> string \<Rightarrow> string
    \<Rightarrow> key_error + KeySlot list" where
  "parse_key_slots hmac base32 provider raw secret =
     (let segments = split_on (CHR '';'') raw in
      if length segments > MAX_PROVIDER_SLOTS then Err (TooManySegments provider (length segments))
      else slots_loop (\<lambda>key. derive_slot_id hmac base32 provider key secret) provider 0 segments [] [])"

type_synonym slot_map = "(string, string list) btree_map"

definition add_provider_slots :: "(string \<Rightarrow> string \<Rightarrow> string option) \<Rightarrow> (string \<Rightarrow> string) \<Rightarrow> slot_map \<Rightarrow> string \<Rightarrow> string option
    \<Rightarrow> string \<Rightarrow> key_error + slot_map" where
  "add_provider_slots hmac base32 out provider raw secret =
     (case filter_o (\<lambda>v. v \<noteq> []) (map_option trim_ascii raw) of
        None \<Rightarrow> Ok out
      | Some v \<Rightarrow>
          bind_r (parse_key_slots hmac base32 provider v secret) (\<lambda>slots.
          Ok (if slots = [] then out else bt_insert provider (map slot_id slots) out)))"

fun add_direct_slots :: "(string \<Rightarrow> string \<Rightarrow> string option) \<Rightarrow> (string \<Rightarrow> string) \<Rightarrow> ProviderKeys \<Rightarrow> string \<Rightarrow> Provider list
    \<Rightarrow> slot_map \<Rightarrow> key_error + slot_map" where
  "add_direct_slots hmac base32 k secret [] out = Ok out"
| "add_direct_slots hmac base32 k secret (p # ps) out =
     (case direct_key k p of
        None \<Rightarrow> add_direct_slots hmac base32 k secret ps out
      | Some (_, v) \<Rightarrow>
          bind_r (add_provider_slots hmac base32 out (provider_str p) v secret) (\<lambda>out.
          add_direct_slots hmac base32 k secret ps out))"

definition provider_slots_for_keys :: "(string \<Rightarrow> string \<Rightarrow> string option) \<Rightarrow> (string \<Rightarrow> string) \<Rightarrow> ProviderKeys \<Rightarrow> string
    \<Rightarrow> key_error + slot_map" where
  "provider_slots_for_keys hmac base32 k secret =
     bind_r (validate_cloud_backend_single_keys k) (\<lambda>_.
     bind_r (add_direct_slots hmac base32 k secret providers []) (\<lambda>m.
     bind_r (if anthropic_upstream k = Some ''foundry''
             then add_provider_slots hmac base32 m ''anthropic'' (azure_foundry_api_key k) secret else Ok m) (\<lambda>m.
     bind_r (if anthropic_upstream k = Some ''bedrock''
             then add_provider_slots hmac base32 m ''anthropic'' (bedrock_api_key k) secret else Ok m) (\<lambda>m.
     if openai_upstream k = Some ''azure''
     then add_provider_slots hmac base32 m ''openai'' (azure_openai_api_key k) secret else Ok m))))"

definition active_direct_keys :: "ProviderKeys \<Rightarrow> (string \<times> string option) list" where
  "active_direct_keys k = direct_keys k"

definition reject_multikey_for_legacy_image :: "ProviderKeys \<Rightarrow> key_error + unit" where
  "reject_multikey_for_legacy_image k =
     (case find (\<lambda>(_, v). has_semicolon v) (active_direct_keys k) of
        None \<Rightarrow> Ok ()
      | Some (var, _) \<Rightarrow> Err (LegacyMultiKey var))"

abbreviation QUOTE :: char where "QUOTE \<equiv> CHR 0x27"
abbreviation BACKSLASH :: char where "BACKSLASH \<equiv> CHR 0x5C"

definition shell_quote :: "string \<Rightarrow> string" where
  "shell_quote v = [QUOTE] @ concat (map (\<lambda>ch. if ch = QUOTE then [QUOTE, BACKSLASH, QUOTE, QUOTE] else [ch]) v) @ [QUOTE]"

definition export_line :: "string \<Rightarrow> string \<Rightarrow> string" where
  "export_line var v = ''export '' @ var @ ''='' @ shell_quote v @ [LF]"

fun slot_exports :: "string \<Rightarrow> nat \<Rightarrow> KeySlot list \<Rightarrow> string" where
  "slot_exports prefix idx [] = []"
| "slot_exports prefix idx (s # ss) =
     export_line (prefix @ ''_KEY_SLOT_'' @ nat_to_string (idx + 1)) (slot_key s) @ slot_exports prefix (idx + 1) ss"

definition render_slot_env_exports :: "(string \<Rightarrow> string \<Rightarrow> string option) \<Rightarrow> (string \<Rightarrow> string) \<Rightarrow> string \<Rightarrow> string \<Rightarrow> string
    \<Rightarrow> key_error + string" where
  "render_slot_env_exports hmac base32 provider raw secret =
     bind_r (parse_key_slots hmac base32 provider raw secret) (\<lambda>slots.
     let prefix = ''GM_'' @ ascii_upper provider in
     Ok (slot_exports prefix 0 slots @ export_line (prefix @ ''_SLOT_IDS'') (join '';'' (map slot_id slots))))"

section \<open>Pinned hosts\<close>

lemma ends_with_append: "ends_with suffix s \<longleftrightarrow> (\<exists>p. s = p @ suffix)"
proof
  assume "ends_with suffix s"
  then have "drop (length s - length suffix) s = suffix" unfolding ends_with_def by blast
  from append_take_drop_id [of "length s - length suffix" s, unfolded this, symmetric]
  show "\<exists>p. s = p @ suffix" by (rule exI)
qed (auto simp: ends_with_def)

lemma host_allowed_iff: "host_allowed_by_suffix host suffix \<longleftrightarrow> (\<exists>p. host = p @ ''.'' @ suffix)"
proof
  assume h: "host_allowed_by_suffix host suffix"
  then have "ends_with suffix host" and len: "length host > length suffix" by (simp_all add: host_allowed_by_suffix_def)
  then obtain p where "host = p @ suffix" unfolding ends_with_append by blast
  with len have p: "host = p @ suffix" "p \<noteq> []" by auto
  with h have "last p = CHR ''.''" by (simp add: host_allowed_by_suffix_def nth_append last_conv_nth)
  with p have "host = butlast p @ ''.'' @ suffix" by (metis append.assoc append_butlast_last_id)
  then show "\<exists>p. host = p @ ''.'' @ suffix" by blast
next
  assume "\<exists>p. host = p @ ''.'' @ suffix"
  then obtain p where p: "host = p @ ''.'' @ suffix" by blast
  moreover have "ends_with suffix host" unfolding ends_with_append using p by (metis append.assoc)
  ultimately show "host_allowed_by_suffix host suffix" by (simp add: host_allowed_by_suffix_def nth_append)
qed

text \<open>The host a checked endpoint names: a proper subdomain of an allowed suffix.\<close>

definition pinned_host :: "string list \<Rightarrow> string \<Rightarrow> bool" where
  "pinned_host allowed endpoint \<longleftrightarrow> (\<exists>url sub suffix. endpoint = ''https://'' @ url \<and> CHR ''@'' \<notin> set (authority_of url)
     \<and> suffix \<in> set allowed \<and> sub \<noteq> [] \<and> host_of (authority_of url) = sub @ ''.'' @ suffix
     \<and> dns_host (host_of (authority_of url)))"

lemma validate_azure_endpoint_Ok: "validate_azure_endpoint flag endpoint allowed = Ok u \<longleftrightarrow> pinned_host allowed endpoint"
proof -
  have sub: "p \<noteq> []" if "dns_host (p @ ''.'' @ suffix)" for p suffix
    using that by (cases p) (auto simp: dns_host_def)
  have "validate_azure_endpoint flag endpoint allowed = Ok u \<longleftrightarrow> (\<exists>url. strip_prefix ''https://'' endpoint = Some url
      \<and> CHR ''@'' \<notin> set (authority_of url) \<and> dns_host (host_of (authority_of url))
      \<and> list_ex (host_allowed_by_suffix (host_of (authority_of url))) allowed)"
    by (auto simp: validate_azure_endpoint_def validate_dns_host_def Let_def result_simps split: option.splits if_splits)
  also have "\<dots> \<longleftrightarrow> pinned_host allowed endpoint"
  proof
    assume "\<exists>url. strip_prefix ''https://'' endpoint = Some url \<and> CHR ''@'' \<notin> set (authority_of url)
      \<and> dns_host (host_of (authority_of url)) \<and> list_ex (host_allowed_by_suffix (host_of (authority_of url))) allowed"
    then obtain url suffix p where *: "endpoint = ''https://'' @ url" "CHR ''@'' \<notin> set (authority_of url)"
      "dns_host (host_of (authority_of url))" "suffix \<in> set allowed" "host_of (authority_of url) = p @ ''.'' @ suffix"
      unfolding strip_prefix_Some list_ex_iff host_allowed_iff by blast
    moreover have "p \<noteq> []" using sub [of p suffix] *(3,5) by simp
    ultimately show "pinned_host allowed endpoint" unfolding pinned_host_def by blast
  next
    assume "pinned_host allowed endpoint"
    then show "\<exists>url. strip_prefix ''https://'' endpoint = Some url \<and> CHR ''@'' \<notin> set (authority_of url)
      \<and> dns_host (host_of (authority_of url)) \<and> list_ex (host_allowed_by_suffix (host_of (authority_of url))) allowed"
      unfolding pinned_host_def strip_prefix_Some list_ex_iff host_allowed_iff by blast
  qed
  finally show ?thesis .
qed

section \<open>Slots\<close>

text \<open>The keys of a list: its trimmed segments, and the slots of keys: each first id with its key.\<close>

definition segment_keys :: "string \<Rightarrow> string list" where
  "segment_keys raw = map trim_ascii (split_on (CHR '';'') raw)"

fun first_slots :: "(string \<Rightarrow> string) \<Rightarrow> string list \<Rightarrow> string list \<Rightarrow> KeySlot list" where
  "first_slots ident seen [] = []"
| "first_slots ident seen (k # ks) =
     (if ident k \<in> set seen then first_slots ident seen ks
      else \<lparr>slot_id = ident k, slot_key = k\<rparr> # first_slots ident (ident k # seen) ks)"

lemma slots_loop_Ok:
  assumes "\<And>k. derive k = Ok (ident k)"
  shows "slots_loop derive provider idx segments seen slots = Ok out \<longleftrightarrow>
    [] \<notin> set (map trim_ascii segments) \<and> out = slots @ first_slots ident seen (map trim_ascii segments)"
  by (induction segments arbitrary: idx seen slots) (auto simp: Let_def assms)

lemma first_slots_distinct:
  "distinct (map slot_id (first_slots ident seen ks)) \<and> set (map slot_id (first_slots ident seen ks)) = ident ` set ks - set seen
   \<and> length (first_slots ident seen ks) \<le> length ks
   \<and> list_all (\<lambda>s. slot_id s = ident (slot_key s) \<and> slot_key s \<in> set ks) (first_slots ident seen ks)"
proof (induction ks arbitrary: seen)
  case (Cons k ks)
  show ?case
  proof (cases "ident k \<in> set seen")
    case True
    with Cons [of seen] show ?thesis by (auto simp: list_all_iff)
  next
    case False
    with Cons [of "ident k # seen"] show ?thesis by (auto simp: list_all_iff)
  qed
qed simp

lemma first_slots_ne: "ks \<noteq> [] \<Longrightarrow> first_slots ident [] ks \<noteq> []"
  by (cases ks) auto

text \<open>With an HMAC that takes every key, as HMAC does, an id is a function of provider, key and secret.\<close>

definition slot_ident :: "(string \<Rightarrow> string \<Rightarrow> string option) \<Rightarrow> (string \<Rightarrow> string) \<Rightarrow> string \<Rightarrow> string \<Rightarrow> string \<Rightarrow> string" where
  "slot_ident hmac base32 provider secret key = take 12 (base32 (the (hmac secret (provider @ '':'' @ key))))"

definition hmac_total :: "(string \<Rightarrow> string \<Rightarrow> string option) \<Rightarrow> bool" where
  "hmac_total hmac \<longleftrightarrow> (\<forall>secret msg. hmac secret msg \<noteq> None)"

lemma derive_slot_id_total:
  "hmac_total hmac \<Longrightarrow> derive_slot_id hmac base32 provider key secret = Ok (slot_ident hmac base32 provider secret key)"
proof -
  assume "hmac_total hmac"
  then obtain d where "hmac secret (provider @ '':'' @ key) = Some d" unfolding hmac_total_def by blast
  then show ?thesis by (simp add: derive_slot_id_def slot_ident_def SLOT_ID_LEN_def)
qed

lemma parse_key_slots_Ok:
  assumes "hmac_total hmac"
  shows "parse_key_slots hmac base32 provider raw secret = Ok slots \<longleftrightarrow>
    length (segment_keys raw) \<le> 8 \<and> [] \<notin> set (segment_keys raw)
    \<and> slots = first_slots (slot_ident hmac base32 provider secret) [] (segment_keys raw)"
  by (auto simp: parse_key_slots_def Let_def MAX_PROVIDER_SLOTS_def segment_keys_def
      slots_loop_Ok [OF derive_slot_id_total [OF assms]])

section \<open>Shell words\<close>

text \<open>
  How a POSIX shell reads the scripts the exports are: outside quotes a backslash escapes the next
  character, a quote opens a stretch in which every character up to the next quote stands for itself,
  and a newline ends the word.
\<close>

fun sh_word :: "bool \<Rightarrow> string \<Rightarrow> (string \<times> string) option" where
  "sh_word quoted [] = None"
| "sh_word True (c # cs) =
     (if c = QUOTE then sh_word False cs else map_option (\<lambda>(w, r). (c # w, r)) (sh_word True cs))"
| "sh_word False (c # cs) =
     (if c = QUOTE then sh_word True cs
      else if c = LF then Some ([], cs)
      else if c = BACKSLASH then (case cs of [] \<Rightarrow> None | d # ds \<Rightarrow> map_option (\<lambda>(w, r). (d # w, r)) (sh_word False ds))
      else map_option (\<lambda>(w, r). (c # w, r)) (sh_word False cs))"

lemma sh_word_quoted:
  "sh_word True (concat (map (\<lambda>ch. if ch = QUOTE then [QUOTE, BACKSLASH, QUOTE, QUOTE] else [ch]) v) @ [QUOTE] @ rest)
     = map_option (\<lambda>(w, r). (v @ w, r)) (sh_word False rest)"
  by (induction v) (auto simp: option.map_comp comp_def case_prod_beta option.map_ident)

lemma sh_word_shell_quote: "sh_word False (shell_quote v @ [LF] @ rest) = Some (v, rest)"
  using sh_word_quoted [of v "[LF] @ rest"] by (simp add: shell_quote_def)

text \<open>A script of exports: the variables it sets, in order.\<close>

fun sh_exports :: "nat \<Rightarrow> string \<Rightarrow> (string \<times> string) list option" where
  "sh_exports 0 s = (if s = [] then Some [] else None)"
| "sh_exports (Suc n) s =
     (if s = [] then Some []
      else case strip_prefix ''export '' s of
             None \<Rightarrow> None
           | Some t \<Rightarrow>
               let var = takeWhile (\<lambda>c. c \<noteq> CHR ''='') t in
               case drop (length var) t of
                 [] \<Rightarrow> None
               | _ # u \<Rightarrow>
                   (case sh_word False u of
                      None \<Rightarrow> None
                    | Some (v, r) \<Rightarrow> map_option (\<lambda>vs. (var, v) # vs) (sh_exports n r)))"

lemma strip_prefix_append [simp]: "strip_prefix p (p @ s) = Some s"
  by (simp add: strip_prefix_Some)

lemma sh_exports_line:
  assumes "CHR ''='' \<notin> set var"
  shows "sh_exports (Suc n) (export_line var v @ rest) = map_option (\<lambda>vs. (var, v) # vs) (sh_exports n rest)"
proof -
  have line: "export_line var v @ rest = ''export '' @ var @ [CHR ''=''] @ shell_quote v @ [LF] @ rest"
    by (simp add: export_line_def)
  have var: "takeWhile (\<lambda>c. c \<noteq> CHR ''='') (var @ [CHR ''=''] @ s) = var" for s
    using assms by (subst takeWhile_append2) auto
  have "export_line var v @ rest \<noteq> []" by (simp add: export_line_def)
  then show ?thesis
    unfolding sh_exports.simps line strip_prefix_append
    by (simp only: option.case if_False Let_def var append_eq_conv_conj) (simp add: sh_word_shell_quote [simplified])
qed

lemma sh_exports_slots:
  assumes "CHR ''='' \<notin> set prefix"
  shows "sh_exports (length ss + n) (slot_exports prefix idx ss @ rest) =
    map_option (\<lambda>vs. map (\<lambda>(i, s). (prefix @ ''_KEY_SLOT_'' @ nat_to_string (i + 1), slot_key s)) (enumerate idx ss) @ vs)
      (sh_exports n rest)"
proof (induction ss arbitrary: idx)
  case (Cons s ss)
  have "CHR ''='' \<notin> set (nat_to_string k)" for k
    using nat_to_string_digits [of k] by (auto simp: list_all_iff is_ascii_digit_def byte_of_def)
  then have var: "CHR ''='' \<notin> set (prefix @ ''_KEY_SLOT_'' @ nat_to_string (idx + 1))" using assms by simp
  show ?case
    using sh_exports_line [OF var, of "length ss + n" "slot_key s" "slot_exports prefix (idx + 1) ss @ rest"] Cons [of "idx + 1"]
    by (simp add: option.map_comp comp_def)
next
  case Nil
  show ?case by (cases "sh_exports n rest") simp_all
qed

section \<open>Checked upstreams\<close>

lemma require_present_Ok [key_simps]: "require_present label xs = Ok u \<longleftrightarrow> list_all (\<lambda>(_, v). non_empty v) xs"
  by (auto simp: require_present_def Let_def filter_empty_conv list_all_iff)

lemma unwrap_or_present: "P (unwrap_or v []) \<Longrightarrow> non_empty v \<Longrightarrow> is_some_and P v"
  by (cases v) (auto simp: unwrap_or_def non_empty_def)

lemma unwrap_or_selected: "unwrap_or v d = s \<Longrightarrow> s \<noteq> d \<Longrightarrow> v = Some s"
  by (cases v) (auto simp: unwrap_or_def)

lemmas endpoint_checks = result_simps key_simps validate_azure_endpoint_Ok validate_bedrock_region_def
  validate_azure_foundry_endpoint_def validate_azure_openai_endpoint_def AZURE_FOUNDRY_ALLOWED_SUFFIXES_def

lemma single_cloud_keys:
  assumes "validate_cloud_backend_single_keys k = Ok ()"
  shows "anthropic_upstream k = Some ''bedrock'' \<Longrightarrow> \<not> has_semicolon (bedrock_api_key k)"
    and "anthropic_upstream k = Some ''foundry'' \<Longrightarrow> \<not> has_semicolon (azure_foundry_api_key k)"
    and "openai_upstream k = Some ''azure'' \<Longrightarrow> \<not> has_semicolon (azure_openai_api_key k)"
  using assms by (auto simp: validate_cloud_backend_single_keys_def split: if_splits)

lemma validated_anthropic:
  assumes "validate_anthropic_upstream k = Ok ()"
  shows "unwrap_or (anthropic_upstream k) ''direct'' = ''direct''
    \<or> anthropic_upstream k = Some ''bedrock'' \<and> bedrock_region k = Some ''us-east-1'' \<and> non_empty (bedrock_api_key k)
    \<or> anthropic_upstream k = Some ''foundry'' \<and> non_empty (azure_foundry_api_key k)
      \<and> is_some_and (pinned_host [''services.ai.azure.com'']) (azure_foundry_endpoint k)"
proof -
  consider "unwrap_or (anthropic_upstream k) ''direct'' = ''direct''" | "unwrap_or (anthropic_upstream k) ''direct'' = ''bedrock''"
    | "unwrap_or (anthropic_upstream k) ''direct'' = ''foundry''"
    using assms by (auto simp: validate_anthropic_upstream_def Let_def split: if_splits)
  then show ?thesis
  proof cases
    case 2
    with assms unwrap_or_selected [of "anthropic_upstream k" "''direct''" "''bedrock''"]
      unwrap_or_selected [of "bedrock_region k" "[]" "''us-east-1''"] show ?thesis
      by (simp add: validate_anthropic_upstream_def endpoint_checks split: if_splits)
  next
    case 3
    with assms unwrap_or_selected [of "anthropic_upstream k" "''direct''" "''foundry''"]
      unwrap_or_present [of "pinned_host [''services.ai.azure.com'']" "azure_foundry_endpoint k"] show ?thesis
      by (simp add: validate_anthropic_upstream_def endpoint_checks)
  qed simp
qed

lemma validated_openai:
  assumes "validate_openai_upstream k = Ok ()"
  shows "unwrap_or (openai_upstream k) ''direct'' = ''direct''
    \<or> openai_upstream k = Some ''azure'' \<and> non_empty (azure_openai_api_key k)
      \<and> is_some_and (pinned_host AZURE_OPENAI_ALLOWED_SUFFIXES) (azure_openai_endpoint k)"
proof (cases "unwrap_or (openai_upstream k) ''direct'' = ''direct''")
  case False
  with assms have "unwrap_or (openai_upstream k) ''direct'' = ''azure''"
    by (auto simp: validate_openai_upstream_def Let_def split: if_splits)
  with assms unwrap_or_selected [of "openai_upstream k" "''direct''" "''azure''"]
    unwrap_or_present [of "pinned_host AZURE_OPENAI_ALLOWED_SUFFIXES" "azure_openai_endpoint k"] show ?thesis
    by (simp add: validate_openai_upstream_def endpoint_checks)
qed simp

section \<open>Properties\<close>

text \<open>
  C34: An Azure endpoint is accepted exactly when it is an https URL without userinfo whose lower-cased host
  is a well-formed DNS name that is a proper subdomain of one of the allowed suffixes, so a key is never
  sent to a host that merely ends in or contains one.
\<close>

theorem azure_endpoint_pinned:
  "validate_azure_endpoint flag endpoint allowed = Ok () \<longleftrightarrow>
   (\<exists>url sub suffix. endpoint = ''https://'' @ url \<and> CHR ''@'' \<notin> set (authority_of url) \<and> suffix \<in> set allowed
      \<and> sub \<noteq> [] \<and> host_of (authority_of url) = sub @ ''.'' @ suffix \<and> dns_host (host_of (authority_of url)))"
  unfolding validate_azure_endpoint_Ok pinned_host_def ..

text \<open>
  Keys that pass the deploy check name a known upstream for each provider; a selected cloud upstream has a
  single, non-blank key, Bedrock only the qualified region, and an Azure endpoint its pinned host.
\<close>

theorem validated_upstreams:
  assumes "validate_upstreams k = Ok ()"
  shows "(unwrap_or (anthropic_upstream k) ''direct'' = ''direct''
      \<or> anthropic_upstream k = Some ''bedrock'' \<and> bedrock_region k = Some ''us-east-1''
        \<and> non_empty (bedrock_api_key k) \<and> \<not> has_semicolon (bedrock_api_key k)
      \<or> anthropic_upstream k = Some ''foundry'' \<and> non_empty (azure_foundry_api_key k) \<and> \<not> has_semicolon (azure_foundry_api_key k)
        \<and> is_some_and (pinned_host [''services.ai.azure.com'']) (azure_foundry_endpoint k))
    \<and> (unwrap_or (openai_upstream k) ''direct'' = ''direct''
      \<or> openai_upstream k = Some ''azure'' \<and> non_empty (azure_openai_api_key k) \<and> \<not> has_semicolon (azure_openai_api_key k)
        \<and> is_some_and (pinned_host AZURE_OPENAI_ALLOWED_SUFFIXES) (azure_openai_endpoint k))"
proof -
  have "validate_cloud_backend_single_keys k = Ok ()" "validate_anthropic_upstream k = Ok ()" "validate_openai_upstream k = Ok ()"
    using assms by (auto simp: validate_upstreams_def result_simps)
  with single_cloud_keys [of k] validated_anthropic [of k] validated_openai [of k] show ?thesis by blast
qed

theorem validated_upstreams_witness:
  "\<exists>k. validate_upstreams k = Ok () \<and> anthropic_upstream k = Some ''bedrock'' \<and> bedrock_region k = Some ''us-east-1''"
proof -
  let ?k = "\<lparr>anthropic = None, anthropic_upstream = Some ''bedrock'', bedrock_region = Some ''us-east-1'',
    bedrock_api_key = Some ''b'', azure_foundry_endpoint = None, azure_foundry_api_key = None,
    azure_foundry_tenant_id = None, azure_foundry_subscription_id = None, azure_foundry_resource_group = None,
    azure_foundry_client_id = None, azure_foundry_client_secret = None, openai = None, openai_upstream = None,
    azure_openai_endpoint = None, azure_openai_api_key = None, azure_tenant_id = None, azure_subscription_id = None,
    azure_resource_group = None, azure_client_id = None, azure_client_secret = None, google_key = None, chutes_key = None,
    zai_key = None, moonshot_key = None, deepinfra_key = None, kubetee_key = None, engy_key = None, moonmath_key = None,
    near_key = None\<rparr>"
  have ok: "validate_upstreams ?k = Ok ()" by code_simp
  from validated_upstreams [OF ok] ok show ?thesis
    by (intro exI [of _ ?k]) (simp add: Let_def unwrap_or_def)
qed

text \<open>
  A key list is accepted exactly when it has at most eight segments and none is blank; its slots are the
  trimmed keys in order, one per id, with distinct ids and no key lost: every key's id is advertised.
\<close>

theorem key_slots_exact:
  assumes "hmac_total hmac"
  shows "parse_key_slots hmac base32 provider raw secret = Ok slots \<longleftrightarrow>
    length (segment_keys raw) \<le> 8 \<and> [] \<notin> set (segment_keys raw)
    \<and> slots = first_slots (slot_ident hmac base32 provider secret) [] (segment_keys raw)
    \<and> distinct (map slot_id slots) \<and> slots \<noteq> []
    \<and> set (map slot_id slots) = slot_ident hmac base32 provider secret ` set (segment_keys raw)"
proof -
  have "segment_keys raw \<noteq> []" by (simp add: segment_keys_def)
  with first_slots_distinct [of "slot_ident hmac base32 provider secret" "[]" "segment_keys raw"]
    first_slots_ne [of "segment_keys raw" "slot_ident hmac base32 provider secret"]
  show ?thesis unfolding parse_key_slots_Ok [OF assms] by auto
qed

theorem key_slots_exact_witness:
  "parse_key_slots (\<lambda>_ msg. Some msg) (\<lambda>d. d) ''p'' '' a;b ;a'' ''s''
     = Ok [\<lparr>slot_id = ''p:a'', slot_key = ''a''\<rparr>, \<lparr>slot_id = ''p:b'', slot_key = ''b''\<rparr>]"
proof -
  have "hmac_total (\<lambda>_ msg. Some msg)" by (simp add: hmac_total_def)
  from key_slots_exact [OF this] show ?thesis
    by (simp add: segment_keys_def trim_ascii_def is_ascii_whitespace_def byte_of_def slot_ident_def) auto
qed

text \<open>
  C35: The rendered exports survive the shell: a POSIX shell that reads them sets, in order, one variable per slot
  to exactly its key, whatever characters the key has, and then the list of ids.
\<close>

theorem slot_exports_roundtrip:
  assumes "hmac_total hmac" and "CHR ''='' \<notin> set (ascii_upper provider)"
    and "parse_key_slots hmac base32 provider raw secret = Ok slots"
  shows "\<exists>script. render_slot_env_exports hmac base32 provider raw secret = Ok script
    \<and> sh_exports (length slots + 1) script =
      Some (map (\<lambda>(i, s). (''GM_'' @ ascii_upper provider @ ''_KEY_SLOT_'' @ nat_to_string (i + 1), slot_key s)) (enumerate 0 slots)
        @ [(''GM_'' @ ascii_upper provider @ ''_SLOT_IDS'', join '';'' (map slot_id slots))])"
proof -
  let ?prefix = "''GM_'' @ ascii_upper provider"
  let ?ids = "export_line (?prefix @ ''_SLOT_IDS'') (join '';'' (map slot_id slots))"
  have "CHR ''='' \<notin> set ?prefix" using assms(2) by simp
  note line = sh_exports_slots [OF this, of slots 1 0 ?ids]
  have "sh_exports 1 ?ids = Some [(?prefix @ ''_SLOT_IDS'', join '';'' (map slot_id slots))]"
    using sh_exports_line [of "?prefix @ ''_SLOT_IDS''" 0 "join '';'' (map slot_id slots)" "[]"] assms(2) by simp
  with line assms(3) show ?thesis by (simp add: render_slot_env_exports_def)
qed

theorem slot_exports_roundtrip_witness:
  "\<exists>script. render_slot_env_exports (\<lambda>_ msg. Some msg) (\<lambda>d. d) ''p'' [CHR ''a'', QUOTE, CHR ''b''] ''s'' = Ok script
     \<and> sh_exports 2 script = Some [(''GM_P_KEY_SLOT_1'', [CHR ''a'', QUOTE, CHR ''b'']), (''GM_P_SLOT_IDS'', [CHR ''p'', CHR '':'', CHR ''a'', QUOTE, CHR ''b''])]"
proof -
  let ?key = "[CHR ''a'', QUOTE, CHR ''b'']"
  have total: "hmac_total (\<lambda>_ msg. Some msg)" by (simp add: hmac_total_def)
  have up: "ascii_upper ''p'' = ''P''" and one: "nat_to_string (Suc 0) = ''1''" by code_simp+
  have slots: "parse_key_slots (\<lambda>_ msg. Some msg) (\<lambda>d. d) ''p'' ?key ''s'' = Ok [\<lparr>slot_id = ''p:'' @ ?key, slot_key = ?key\<rparr>]"
    by code_simp
  from slot_exports_roundtrip [OF total _ slots] show ?thesis by (simp add: up one numeral_2_eq_2 del: sh_exports.simps)
qed

end
