(* ===== verification/Cli_Base.thy ===== *)
theory Cli_Base
  imports Rust_Text
begin

text \<open>
  What the views of the CLI share: the networks (\<^verbatim>\<open>cli/src/network.rs\<close>), the padding of the standard
  formatter, and the text table (\<^verbatim>\<open>cli/src/table.rs\<close>).

  A string is its UTF-8 bytes; the formatter pads by characters, so widths count the bytes that do not continue a
  character.
\<close>

section \<open>Networks\<close>

datatype Network = Testnet | Mainnet

fun netuid :: "Network \<Rightarrow> u16" where
  "netuid Testnet = 482"
| "netuid Mainnet = 28"

fun chain_ws :: "Network \<Rightarrow> string" where
  "chain_ws Testnet = ''wss://test.finney.opentensor.ai''"
| "chain_ws Mainnet = ''wss://entrypoint-finney.opentensor.ai''"

fun default_registry_url :: "Network \<Rightarrow> string" where
  "default_registry_url Testnet = ''https://test-registry.saygm.com''"
| "default_registry_url Mainnet = ''https://registry.saygm.com''"

fun network_str :: "Network \<Rightarrow> string" where
  "network_str Testnet = ''testnet''"
| "network_str Mainnet = ''mainnet''"

section \<open>Padding\<close>

definition char_count :: "string \<Rightarrow> nat" where
  "char_count s = length (filter (\<lambda>c. \<not> cont 0x80 0xBF c) s)"

text \<open>\<^verbatim>\<open>trim_end_matches(c)\<close>\<close>

definition trim_end_char :: "char \<Rightarrow> string \<Rightarrow> string" where
  "trim_end_char c s = rev (dropWhile (\<lambda>x. x = c) (rev s))"

abbreviation SPACE :: char where "SPACE \<equiv> CHR '' ''"

text \<open>The formats \<^verbatim>\<open>{:<w$}\<close>, \<^verbatim>\<open>{:>w$}\<close> and \<^verbatim>\<open>{:0w}\<close>.\<close>

definition pad_right :: "nat \<Rightarrow> string \<Rightarrow> string" where
  "pad_right w s = s @ replicate (w - char_count s) SPACE"

definition pad_left :: "nat \<Rightarrow> string \<Rightarrow> string" where
  "pad_left w s = replicate (w - char_count s) SPACE @ s"

definition zero_padded :: "nat \<Rightarrow> nat \<Rightarrow> string" where
  "zero_padded w n = replicate (w - length (nat_to_string n)) (CHR ''0'') @ nat_to_string n"

lemma char_count_simps [simp]:
  "char_count [] = 0" "char_count (a @ b) = char_count a + char_count b"
  "char_count (replicate n SPACE) = n" "char_count (replicate n (CHR ''-'')) = n"
  by (simp_all add: char_count_def cont_def byte_of_def)

lemma char_count_pad_right [simp]: "char_count (pad_right w s) = max w (char_count s)"
  by (simp add: pad_right_def)

section \<open>Tables\<close>

text \<open>The widest cell of each column; \<^verbatim>\<open>zip\<close> stops at the shorter of columns and cells.\<close>

fun widen :: "nat list \<Rightarrow> string list \<Rightarrow> nat list" where
  "widen (w # ws) (cell # cells) = max w (char_count cell) # widen ws cells"
| "widen ws [] = ws"
| "widen [] cells = []"

definition widths :: "string list \<Rightarrow> string list list \<Rightarrow> nat list" where
  "widths headers rows = foldl widen (map char_count headers) rows"

text \<open>One line: every column padded, cells beyond the columns dropped, missing cells empty.\<close>

fun cells_of :: "nat list \<Rightarrow> string list \<Rightarrow> string list" where
  "cells_of [] cells = []"
| "cells_of (w # ws) [] = pad_right w [] # cells_of ws []"
| "cells_of (w # ws) (cell # cells) = pad_right w cell # cells_of ws cells"

definition table_line :: "nat list \<Rightarrow> string list \<Rightarrow> string" where
  "table_line ws cells = join [SPACE] (cells_of ws cells)"

definition table_render :: "string list \<Rightarrow> string list list \<Rightarrow> string list" where
  "table_render headers rows =
     (let ws = widths headers rows in
      table_line ws headers # replicate (sum_list ws + (length ws - 1)) (CHR ''-'') # map (table_line ws) rows)"

lemma length_widen [simp]: "length (widen ws cells) = length ws"
  by (induction ws cells rule: widen.induct) auto

text \<open>A column is at least as wide as each of its cells.\<close>

definition fits :: "nat list \<Rightarrow> string list \<Rightarrow> bool" where
  "fits ws cells \<longleftrightarrow> (\<forall>i < min (length ws) (length cells). char_count (cells ! i) \<le> ws ! i)"

lemma fits_simps [simp]:
  "fits [] cells" "fits ws []" "fits (w # ws) (c # cs) \<longleftrightarrow> char_count c \<le> w \<and> fits ws cs"
  by (auto simp: fits_def less_Suc_eq_0_disj)

lemma fits_widen: "fits ws cells \<Longrightarrow> fits (widen ws row) cells"
proof (induction ws row arbitrary: cells rule: widen.induct)
  case (1 w ws cell row)
  then show ?case by (cases cells) auto
qed auto

lemma widen_fits: "fits (widen ws row) row"
  by (induction ws row rule: widen.induct) auto

lemma foldl_widen: "fits ws cells \<Longrightarrow> fits (foldl widen ws rows) cells"
  by (induction rows arbitrary: ws) (auto intro: fits_widen)

lemma foldl_widen_row: "row \<in> set rows \<Longrightarrow> fits (foldl widen ws rows) row"
  by (induction rows arbitrary: ws) (auto intro: foldl_widen widen_fits)

lemma fits_headers: "fits (map char_count headers) headers"
  by (simp add: fits_def)

lemma char_count_join:
  "char_count (join [SPACE] cells) = sum_list (map char_count cells) + (length cells - 1)"
  by (induction "[SPACE]" cells rule: join.induct) (simp_all add: char_count_def cont_def byte_of_def)

lemma cells_fit: "fits ws cells \<Longrightarrow> map char_count (cells_of ws cells) = ws"
  by (induction ws cells rule: cells_of.induct) auto

lemma length_cells [simp]: "length (cells_of ws cells) = length ws"
  by (induction ws cells rule: cells_of.induct) auto

text \<open>Every line of a table has the same number of characters, whatever its cells.\<close>

lemma table_uniform:
  "line \<in> set (table_render headers rows) \<Longrightarrow>
     char_count line = sum_list (widths headers rows) + (length headers - 1)"
proof -
  have len: "length (widths headers rows) = length headers"
    unfolding widths_def by (induction rows rule: rev_induct) auto
  have "char_count (table_line (widths headers rows) cells) = sum_list (widths headers rows) + (length headers - 1)"
    if "fits (widths headers rows) cells" for cells
    using cells_fit [OF that] len by (simp add: table_line_def char_count_join)
  moreover have "fits (widths headers rows) headers" "\<And>row. row \<in> set rows \<Longrightarrow> fits (widths headers rows) row"
    unfolding widths_def by (auto intro: foldl_widen foldl_widen_row fits_headers)
  moreover assume "line \<in> set (table_render headers rows)"
  ultimately show ?thesis by (auto simp: table_render_def Let_def len)
qed

end
