(* ===== verification/Pricing.thy ===== *)
theory Pricing
  imports Cli_Base
begin

text \<open>
  Discounts and prices of the CLI (\<^verbatim>\<open>cli/src/pricing.rs\<close>, with \<^verbatim>\<open>RetailDimensions\<close> and
  \<^verbatim>\<open>ProductCompetitiveness\<close> of \<^verbatim>\<open>cli/src/types.rs\<close>): parsing and printing of a percentage, the discounted price
  vector, exact amounts, and the competitiveness view.

  Prices are 64-bit words of nano-dollars, a discount a 32-bit word of basis points; the 128-bit products of the
  source cannot overflow and are natural numbers. An error is a constructor with the values its text prints.
\<close>

section \<open>Discounts\<close>

definition MAX_DISCOUNT_BP :: u32 where "MAX_DISCOUNT_BP = 9990"

datatype discount_error =
    TooManyPoints string
  | WholeNotDigits string
  | WholeTooLarge string
  | TooManyDecimals string
  | DecimalNotParseable string
  | DecimalNotDigits string
  | PercentTooLarge string
  | AboveCap string

definition checked_u32 :: "nat \<Rightarrow> u32 option" where
  "checked_u32 n = (if n < 2 ^ 32 then Some (of_nat n) else None)"

definition parse_cents :: "string \<Rightarrow> string option \<Rightarrow> discount_error + u32" where
  "parse_cents s cents_s =
     (case cents_s of
        None \<Rightarrow> Ok 0
      | Some c \<Rightarrow>
          if c = [] then Ok 0
          else if length c > 2 then Err (TooManyDecimals s)
          else if list_all is_ascii_digit c then
            bind_r (ok_or (parse_u32 c) (DecimalNotParseable s)) (\<lambda>cents.
            Ok (if length c = 1 then cents * 10 else cents))
          else Err (DecimalNotDigits s))"

definition parse_discount_pct :: "string \<Rightarrow> discount_error + u32" where
  "parse_discount_pct s =
     (let parts = split_on (CHR ''.'') s;
          whole_s = hd parts;
          cents_s = (if length parts > 1 then Some (parts ! 1) else None)
      in bind_r (ensure (length parts \<le> 2) (TooManyPoints s)) (\<lambda>_.
         bind_r (ensure (whole_s \<noteq> [] \<and> list_all is_ascii_digit whole_s) (WholeNotDigits s)) (\<lambda>_.
         bind_r (ok_or (parse_u32 whole_s) (WholeTooLarge s)) (\<lambda>whole.
         bind_r (parse_cents s cents_s) (\<lambda>cents.
         bind_r (ok_or (Option.bind (checked_u32 (unat whole * 100)) (\<lambda>v. checked_u32 (unat v + unat cents)))
             (PercentTooLarge s)) (\<lambda>parsed.
         if parsed > MAX_DISCOUNT_BP then Err (AboveCap s) else Ok parsed))))))"

definition format_discount_pct :: "u32 \<Rightarrow> string" where
  "format_discount_pct discount_bp =
     (let whole = unat discount_bp div 100; cents = unat discount_bp mod 100 in
      if cents = 0 then nat_to_string whole
      else trim_end_char (CHR ''.'') (trim_end_char (CHR ''0'')
             (nat_to_string whole @ ''.'' @ zero_padded 2 cents)))"

definition effective_per_mtok_ndollars :: "u64 \<Rightarrow> u32 \<Rightarrow> u64" where
  "effective_per_mtok_ndollars retail discount_bp =
     (let bp = unat (min discount_bp MAX_DISCOUNT_BP);
          effective = (unat retail * (10000 - bp)) div 10000
      in if effective < 2 ^ 64 then of_nat effective else retail)"

section \<open>Price vectors\<close>

record RetailDimensions =
  input_per_mtok_ndollars :: u64
  output_per_mtok_ndollars :: u64
  cache_read_per_mtok_ndollars :: "u64 option"
  cache_write_5m_per_mtok_ndollars :: "u64 option"
  cache_write_1h_per_mtok_ndollars :: "u64 option"
  audio_input_per_mtok_ndollars :: "u64 option"
  audio_output_per_mtok_ndollars :: "u64 option"
  image_input_per_mtok_ndollars :: "u64 option"
  image_output_per_mtok_ndollars :: "u64 option"
  output_per_image_ndollars :: "u64 option"
  output_per_video_second_ndollars :: "u64 option"
  cache_storage_per_mtok_hour_ndollars :: "u64 option"
  long_context_threshold_tokens :: "u64 option"
  long_context_input_per_mtok_ndollars :: "u64 option"
  long_context_output_per_mtok_ndollars :: "u64 option"

record PriceDimension =
  label :: string
  anchor :: bool
  dim_get :: "RetailDimensions \<Rightarrow> u64 option"
  dim_set :: "RetailDimensions \<Rightarrow> u64 \<Rightarrow> RetailDimensions"

definition PRICE_DIMENSIONS :: "PriceDimension list" where
  "PRICE_DIMENSIONS =
     [\<lparr>label = ''input'', anchor = True, dim_get = \<lambda>d. Some (input_per_mtok_ndollars d),
       dim_set = \<lambda>d v. d\<lparr>input_per_mtok_ndollars := v\<rparr>\<rparr>,
      \<lparr>label = ''output'', anchor = True, dim_get = \<lambda>d. Some (output_per_mtok_ndollars d),
       dim_set = \<lambda>d v. d\<lparr>output_per_mtok_ndollars := v\<rparr>\<rparr>,
      \<lparr>label = ''cache read'', anchor = False, dim_get = cache_read_per_mtok_ndollars,
       dim_set = \<lambda>d v. d\<lparr>cache_read_per_mtok_ndollars := Some v\<rparr>\<rparr>,
      \<lparr>label = ''cache write 5m'', anchor = False, dim_get = cache_write_5m_per_mtok_ndollars,
       dim_set = \<lambda>d v. d\<lparr>cache_write_5m_per_mtok_ndollars := Some v\<rparr>\<rparr>,
      \<lparr>label = ''cache write 1h'', anchor = False, dim_get = cache_write_1h_per_mtok_ndollars,
       dim_set = \<lambda>d v. d\<lparr>cache_write_1h_per_mtok_ndollars := Some v\<rparr>\<rparr>,
      \<lparr>label = ''audio input'', anchor = False, dim_get = audio_input_per_mtok_ndollars,
       dim_set = \<lambda>d v. d\<lparr>audio_input_per_mtok_ndollars := Some v\<rparr>\<rparr>,
      \<lparr>label = ''audio output'', anchor = False, dim_get = audio_output_per_mtok_ndollars,
       dim_set = \<lambda>d v. d\<lparr>audio_output_per_mtok_ndollars := Some v\<rparr>\<rparr>,
      \<lparr>label = ''image input'', anchor = False, dim_get = image_input_per_mtok_ndollars,
       dim_set = \<lambda>d v. d\<lparr>image_input_per_mtok_ndollars := Some v\<rparr>\<rparr>,
      \<lparr>label = ''image output'', anchor = False, dim_get = image_output_per_mtok_ndollars,
       dim_set = \<lambda>d v. d\<lparr>image_output_per_mtok_ndollars := Some v\<rparr>\<rparr>,
      \<lparr>label = ''per image'', anchor = False, dim_get = output_per_image_ndollars,
       dim_set = \<lambda>d v. d\<lparr>output_per_image_ndollars := Some v\<rparr>\<rparr>,
      \<lparr>label = ''per video second'', anchor = False, dim_get = output_per_video_second_ndollars,
       dim_set = \<lambda>d v. d\<lparr>output_per_video_second_ndollars := Some v\<rparr>\<rparr>,
      \<lparr>label = ''cache storage/hr'', anchor = False, dim_get = cache_storage_per_mtok_hour_ndollars,
       dim_set = \<lambda>d v. d\<lparr>cache_storage_per_mtok_hour_ndollars := Some v\<rparr>\<rparr>,
      \<lparr>label = ''long-ctx input'', anchor = False, dim_get = long_context_input_per_mtok_ndollars,
       dim_set = \<lambda>d v. d\<lparr>long_context_input_per_mtok_ndollars := Some v\<rparr>\<rparr>,
      \<lparr>label = ''long-ctx output'', anchor = False, dim_get = long_context_output_per_mtok_ndollars,
       dim_set = \<lambda>d v. d\<lparr>long_context_output_per_mtok_ndollars := Some v\<rparr>\<rparr>]"

definition effective_dimensions :: "RetailDimensions \<Rightarrow> u32 \<Rightarrow> RetailDimensions" where
  "effective_dimensions retail discount_bp =
     foldl (\<lambda>effective dim. case dim_get dim retail of
              None \<Rightarrow> effective
            | Some v \<Rightarrow> dim_set dim effective (effective_per_mtok_ndollars v discount_bp)) retail PRICE_DIMENSIONS"

section \<open>Amounts\<close>

text \<open>\<^verbatim>\<open>while fraction.len() > 3 && fraction.ends_with('0') { fraction.pop(); }\<close>\<close>

function drop_zeros :: "string \<Rightarrow> string" where
  "drop_zeros f = (if length f > 3 \<and> last f = CHR ''0'' then drop_zeros (butlast f) else f)"
  by pat_completeness auto
termination by (relation "measure length") auto

declare drop_zeros.simps [simp del]

definition format_usd :: "u64 \<Rightarrow> string" where
  "format_usd ndollars =
     (let dollars = unat ndollars div 1000000000;
          fraction = drop_zeros (zero_padded 9 (unat ndollars mod 1000000000))
      in ''$'' @ nat_to_string dollars @ ''.'' @ fraction)"

definition extra_dimension_count :: "RetailDimensions \<Rightarrow> nat" where
  "extra_dimension_count retail = length (filter (\<lambda>dim. \<not> anchor dim \<and> dim_get dim retail \<noteq> None) PRICE_DIMENSIONS)"

definition effective_rate_summary :: "RetailDimensions \<Rightarrow> u32 \<Rightarrow> string" where
  "effective_rate_summary retail discount_bp =
     (let effective = effective_dimensions retail discount_bp;
          rates = format_usd (input_per_mtok_ndollars effective) @ '' in / '' @
            format_usd (output_per_mtok_ndollars effective) @ '' out per Mtok'';
          with_image = (case output_per_image_ndollars effective of
            None \<Rightarrow> rates | Some price \<Rightarrow> format_usd price @ '' per image; '' @ rates);
          summary = (case output_per_video_second_ndollars effective of
            None \<Rightarrow> with_image | Some price \<Rightarrow> format_usd price @ '' per video second; '' @ with_image);
          shown_unit_prices = of_bool (output_per_image_ndollars effective \<noteq> None)
            + of_bool (output_per_video_second_ndollars effective \<noteq> None);
          unshown = extra_dimension_count retail - shown_unit_prices
      in if unshown = 0 then summary else summary @ '' (+'' @ nat_to_string unshown @ '' more)'')"

definition long_context_note :: "RetailDimensions \<Rightarrow> string option" where
  "long_context_note retail =
     Option.bind (long_context_threshold_tokens retail) (\<lambda>threshold.
       if long_context_input_per_mtok_ndollars retail = None \<and> long_context_output_per_mtok_ndollars retail = None then None
       else Some (''      long-ctx rates apply above '' @ u64_to_string threshold @ '' input tokens''))"

definition ARROW :: string where
  "ARROW = [SPACE, CHR 0xE2, CHR 0x86, CHR 0x92, SPACE]"

definition extra_rows :: "RetailDimensions \<Rightarrow> RetailDimensions \<Rightarrow> (string \<times> u64 \<times> u64) list" where
  "extra_rows retail effective =
     List.map_filter (\<lambda>dim. Option.bind (dim_get dim retail) (\<lambda>priced.
       Option.bind (dim_get dim effective) (\<lambda>received. Some (label dim, priced, received))))
       (filter (\<lambda>dim. \<not> anchor dim) PRICE_DIMENSIONS)"

definition extra_dimension_lines :: "RetailDimensions \<Rightarrow> u32 \<Rightarrow> string list" where
  "extra_dimension_lines retail discount_bp =
     (let rows = extra_rows retail (effective_dimensions retail discount_bp) in
      if rows = [] then []
      else
        let label_width = foldl max 0 (map (\<lambda>(l, _, _). length l) rows);
            price_width = foldl max 0 (map (\<lambda>(_, priced, _). length (format_usd priced)) rows)
        in map (\<lambda>(l, priced, received). ''      '' @ pad_right label_width l @ ''  '' @
                  pad_left price_width (format_usd priced) @ ARROW @ format_usd received) rows
           @ option_list (long_context_note retail))"

section \<open>The competitiveness view\<close>

record ProductCompetitiveness =
  pc_provider :: string
  pc_model :: string
  competitor_count :: u32
  best_cost_ndollars :: u64
  median_cost_ndollars :: u64
  offered_by_you :: bool
  declared_by_you :: bool
  your_cost_ndollars :: "u64 option"
  your_discount_bp :: "u32 option"
  your_rank :: "u32 option"

definition EM_DASH :: string where
  "EM_DASH = [CHR 0xE2, CHR 0x80, CHR 0x94]"

definition u32_to_string :: "u32 \<Rightarrow> string" where
  "u32_to_string v = nat_to_string (unat v)"

definition map_or :: "'b \<Rightarrow> ('a \<Rightarrow> 'b) \<Rightarrow> 'a option \<Rightarrow> 'b" where
  "map_or d f x = (case x of None \<Rightarrow> d | Some v \<Rightarrow> f v)"

definition RANK_HEADERS :: "string list" where
  "RANK_HEADERS = [''PROVIDER'', ''MODEL'', ''YOUR RANK'', ''DISCOUNT'', ''YOUR COST'', ''BEST'', ''MEDIAN'']"

definition rank_row :: "ProductCompetitiveness \<Rightarrow> string list" where
  "rank_row p =
     [pc_provider p, pc_model p,
      map_or EM_DASH (\<lambda>rank. u32_to_string rank @ '' of '' @ u32_to_string (competitor_count p)) (your_rank p),
      map_or EM_DASH (\<lambda>bp. format_discount_pct bp @ ''%'') (your_discount_bp p),
      map_or EM_DASH format_usd (your_cost_ndollars p),
      format_usd (best_cost_ndollars p), format_usd (median_cost_ndollars p)]"

definition rank_table :: "ProductCompetitiveness list \<Rightarrow> string list" where
  "rank_table yours = table_render RANK_HEADERS (map rank_row yours)"

definition field_line :: "ProductCompetitiveness \<Rightarrow> string" where
  "field_line p = ''  '' @ pc_provider p @ ''/'' @ pc_model p @ '': '' @ u32_to_string (competitor_count p) @
     '' eligible offer(s), best '' @ format_usd (best_cost_ndollars p) @ '', median '' @ format_usd (median_cost_ndollars p)"

definition broken_lines :: "ProductCompetitiveness list \<Rightarrow> string list" where
  "broken_lines broken =
     [[], ''Declared by you but not eligible '' @ EM_DASH @ '' earning nothing ('' @ nat_to_string (length broken) @ ''):'']
     @ map field_line broken @ [''  Run `gmcli status` for the reason and the fix.'']"

definition unsold_lines :: "ProductCompetitiveness list \<Rightarrow> string list" where
  "unsold_lines unsold =
     [[], ''Offered by others, not by you ('' @ nat_to_string (length unsold) @ ''):'']
     @ map field_line unsold
     @ [''  Declare one with `gmcli declare-product --provider <p> --model <m> --discount-pct <pct>`.'']"

definition outranked :: "ProductCompetitiveness list \<Rightarrow> ProductCompetitiveness list" where
  "outranked yours = filter (\<lambda>p. is_some_and (\<lambda>rank. rank > 1) (your_rank p)) yours"

definition advice_line :: "ProductCompetitiveness \<Rightarrow> string" where
  "advice_line p = ''  gmcli declare-product --provider '' @ pc_provider p @ '' --model '' @ pc_model p @
     '' --discount-pct <above '' @ map_or ''current'' format_discount_pct (your_discount_bp p) @ ''>''"

definition advice_lines :: "ProductCompetitiveness list \<Rightarrow> string list" where
  "advice_lines yours =
     (if outranked yours = [] then [[], ''You are at the cheapest cost on every product you offer.'']
      else [[], nat_to_string (length (outranked yours)) @ '' offer(s) are dearer than the cheapest in their field '' @
              EM_DASH @ '' the router reaches'',
            ''for those competitors first. Raise your discount to close the gap:'']
           @ map advice_line (outranked yours))"

definition offered :: "ProductCompetitiveness list \<Rightarrow> ProductCompetitiveness list" where
  "offered products = filter offered_by_you products"

definition broken_offers :: "ProductCompetitiveness list \<Rightarrow> ProductCompetitiveness list" where
  "broken_offers products = filter declared_by_you (filter (\<lambda>p. \<not> offered_by_you p) products)"

definition unsold_products :: "ProductCompetitiveness list \<Rightarrow> ProductCompetitiveness list" where
  "unsold_products products = filter (\<lambda>p. \<not> declared_by_you p) (filter (\<lambda>p. \<not> offered_by_you p) products)"

definition render_pricing :: "Network \<Rightarrow> ProductCompetitiveness list \<Rightarrow> string list" where
  "render_pricing network products =
     (let yours = offered products; broken = broken_offers products; unsold = unsold_products products in
      [''Pricing competitiveness ('' @ network_str network @ '')'',
       ''Buyers route to the cheapest eligible offer. Cost is one reference request:'',
       ''1M input tokens + 1M output tokens at your effective price.'', []]
      @ (if yours = [] then [''You have no eligible offers to rank.''] else rank_table yours)
      @ (if broken = [] then [] else broken_lines broken)
      @ (if unsold = [] then [] else unsold_lines unsold)
      @ (if yours = [] then [] else advice_lines yours))"

section \<open>Discount laws\<close>

lemma trim_end_char_append: "trim_end_char c (s @ t) = (if trim_end_char c t = [] then trim_end_char c s else s @ trim_end_char c t)"
  by (simp add: trim_end_char_def dropWhile_append)

lemma digit_not_point: "list_all is_ascii_digit s \<Longrightarrow> CHR ''.'' \<notin> set s"
  by (auto simp: list_all_iff ascii_class_defs)

lemma parse_u32_digits:
  assumes "list_all is_ascii_digit s" and "s \<noteq> []"
  shows "parse_u32 s = map_option of_nat (if digits_value s < 2 ^ 32 then Some (digits_value s) else None)"
proof -
  from assms have "hd s \<noteq> CHR ''+''" by (cases s) (auto simp: ascii_class_defs)
  with assms show ?thesis by (cases s) (auto simp: parse_u32_def parse_uint_def Let_def)
qed

text \<open>What follows the point: nothing, one digit of tenths or two digits of hundredths.\<close>

definition decimals :: "string \<Rightarrow> nat \<Rightarrow> bool" where
  "decimals f n \<longleftrightarrow> list_all is_ascii_digit f \<and> length f \<le> 2 \<and> n = digits_value (take 2 (f @ ''00''))"

lemma digit_byte: "is_ascii_digit c \<Longrightarrow> \<exists>d < 10. c = digit_char d"
  by (rule exI [of _ "byte_of c - 48"])
     (auto simp: is_ascii_digit_def digit_char_def byte_of_def)

lemma short_text: "length c \<le> 2 \<Longrightarrow> c \<noteq> [] \<Longrightarrow> (\<exists>x. c = [x]) \<or> (\<exists>x y. c = [x, y])"
  by (cases c rule: list.exhaust; cases "tl c" rule: list.exhaust) auto

lemma parse_cents_Ok:
  "parse_cents s cents_s = Ok v \<longleftrightarrow> (cents_s = None \<and> v = 0 \<or> (\<exists>f. cents_s = Some f \<and> decimals f (unat v)))"
proof (cases "\<exists>c. cents_s = Some c \<and> c \<noteq> [] \<and> list_all is_ascii_digit c \<and> length c \<le> 2")
  case True
  then obtain c where c: "cents_s = Some c" "c \<noteq> []" "list_all is_ascii_digit c" "length c \<le> 2" by blast
  from short_text [OF c(4,2)] consider x where "c = [x]" | x y where "c = [x, y]" by blast
  then show ?thesis
  proof cases
    case 1
    with c(3) obtain d where d: "d < 10" "x = digit_char d" using digit_byte by auto
    have "byte_of (CHR ''0'') = 48" by (simp add: byte_of_def)
    then have "decimals c n \<longleftrightarrow> n = d * 10" for n
      using 1 c(3) d by (simp add: decimals_def digits_value_def byte_of_digit_char)
    moreover have "parse_cents s cents_s = Ok (of_nat d * 10)"
      using 1 c d by (simp add: parse_cents_def parse_u32_digits digits_value_def byte_of_digit_char)
    moreover have "v = of_nat d * 10 \<longleftrightarrow> unat v = d * 10"
      using d(1) by (auto simp: unat_word_ariths unat_of_nat word_unat_eq_iff)
    ultimately show ?thesis using c(1) by auto
  next
    case 2
    with c(3) digit_byte [of x] digit_byte [of y] obtain d e where d: "d < 10" "x = digit_char d" "e < 10" "y = digit_char e"
      by auto
    then have "decimals c n \<longleftrightarrow> n = d * 10 + e" for n
      using 2 c(3) by (simp add: decimals_def digits_value_def byte_of_digit_char)
    moreover have "parse_cents s cents_s = Ok (of_nat (d * 10 + e))"
      using 2 c d by (simp add: parse_cents_def parse_u32_digits digits_value_def byte_of_digit_char)
    moreover have "v = of_nat (d * 10 + e) \<longleftrightarrow> unat v = d * 10 + e"
      using d(1,3) by (auto simp: unat_of_nat word_unat_eq_iff simp del: of_nat_mult of_nat_add)
    ultimately show ?thesis using c(1) by auto
  qed
next
  case False
  then show ?thesis
    by (cases cents_s)
       (auto simp: parse_cents_def decimals_def digits_value_def byte_of_def unat_eq_0 split: if_splits)
qed

lemma split_point: "CHR ''.'' \<notin> set w \<Longrightarrow> CHR ''.'' \<notin> set f \<Longrightarrow> split_on (CHR ''.'') (w @ CHR ''.'' # f) = [w, f]"
  by (simp add: split_on_append split_on_single)

lemma point_cases:
  obtains "CHR ''.'' \<notin> set s"
    | w f where "s = w @ CHR ''.'' # f" "CHR ''.'' \<notin> set w" "CHR ''.'' \<notin> set f"
    | "length (split_on (CHR ''.'') s) > 2"
proof (cases "CHR ''.'' \<in> set s")
  case True
  then obtain w f where s: "s = w @ CHR ''.'' # f" "CHR ''.'' \<notin> set w" by (metis in_set_conv_decomp_first)
  show thesis
  proof (cases "CHR ''.'' \<in> set f")
    case True
    then have "count_list f (CHR ''.'') \<noteq> 0" by (simp add: count_list_0_iff)
    with s that(3) show thesis by (simp add: length_split_on)
  qed (use s that(2) in blast)
qed (rule that(1))

lemma checked_bp:
  assumes "list_all is_ascii_digit w" and "w \<noteq> []"
  shows "(\<exists>whole. parse_u32 w = Some whole
       \<and> Option.bind (checked_u32 (unat whole * 100)) (\<lambda>v. checked_u32 (unat v + unat (cents :: u32))) = Some bp)
       \<and> \<not> MAX_DISCOUNT_BP < bp
     \<longleftrightarrow> unat bp = 100 * digits_value w + unat cents \<and> unat bp \<le> 9990"
proof -
  have cap: "MAX_DISCOUNT_BP < bp \<longleftrightarrow> 9990 < unat bp"
    by (simp add: MAX_DISCOUNT_BP_def word_less_nat_alt)
  have eq: "(if n < 2 ^ 32 then Some (of_nat n) else None) = Some bp \<longleftrightarrow> n = unat bp" for n
    using unsigned_less [of bp] by (auto simp: unat_of_nat word_unat_eq_iff)
  have back_eq: "of_nat n = bp" if "n = unat bp" for n
    using that by simp
  show ?thesis
  proof (cases "digits_value w * 100 < 2 ^ 32")
    case True
    then have "unat (of_nat (digits_value w) :: u32) = digits_value w" "unat (of_nat (digits_value w * 100) :: u32) = digits_value w * 100"
      by (simp_all only: unat_of_nat) simp_all
    with True show ?thesis
      unfolding parse_u32_digits [OF assms] checked_u32_def cap by (auto simp: eq unat_of_nat simp del: of_nat_mult of_nat_add intro!: back_eq)
  next
    case False
    then have "\<not> digits_value w * 100 \<le> 9990" by simp
    with False show ?thesis
      by (auto simp: parse_u32_digits [OF assms] checked_u32_def cap unat_of_nat split: if_splits)
  qed
qed

lemma decimals_Nil: "decimals [] n \<longleftrightarrow> n = 0"
  by (simp add: decimals_def digits_value_def byte_of_def)

lemma decimals_bound: "decimals f n \<Longrightarrow> n < 2 ^ 32"
proof -
  assume "decimals f n"
  moreover from this have "f = [] \<or> (\<exists>x. f = [x]) \<or> (\<exists>x y. f = [x, y])"
    using short_text by (auto simp: decimals_def)
  ultimately show ?thesis
    by (auto simp: decimals_def digits_value_def ascii_class_defs) 
qed

text \<open>
  A percentage is read exactly when it is digits, optionally followed by a point and at most two digits, and its
  value in basis points is within the cap; the result is that value.
\<close>

lemma parse_discount_exact:
  "parse_discount_pct s = Ok bp \<longleftrightarrow>
     (\<exists>w f n. (s = w \<and> f = [] \<or> s = w @ CHR ''.'' # f) \<and> w \<noteq> [] \<and> list_all is_ascii_digit w \<and> decimals f n
        \<and> unat bp = 100 * digits_value w + n \<and> unat bp \<le> 9990)"
proof -
  have tail: "(\<exists>whole. parse_u32 w = Some whole \<and> (\<exists>cents. parse_cents s cents_s = Ok cents \<and>
        Option.bind (checked_u32 (unat whole * 100)) (\<lambda>v. checked_u32 (unat v + unat cents)) = Some bp \<and> \<not> MAX_DISCOUNT_BP < bp))
     \<longleftrightarrow> (\<exists>n. (cents_s = None \<and> n = 0 \<or> (\<exists>f. cents_s = Some f \<and> decimals f n)) \<and> unat bp = 100 * digits_value w + n \<and> unat bp \<le> 9990)"
    (is "?L \<longleftrightarrow> _") if w: "list_all is_ascii_digit w" "w \<noteq> []" for w cents_s
  proof -
    let ?c = "\<lambda>n. cents_s = None \<and> n = 0 \<or> (\<exists>f. cents_s = Some f \<and> decimals f n)"
    have "(\<exists>cents :: u32. ?c (unat cents) \<and> Q (unat cents)) \<longleftrightarrow> (\<exists>n. ?c n \<and> Q n)" for Q
    proof
      assume "\<exists>n. ?c n \<and> Q n"
      then obtain n where n: "?c n" "Q n" by blast
      with decimals_bound have "n < 2 ^ 32" by auto
      then have "unat (of_nat n :: u32) = n" by (simp add: unat_of_nat)
      with n show "\<exists>cents :: u32. ?c (unat cents) \<and> Q (unat cents)" by (intro exI [of _ "of_nat n"]) simp
    qed blast
    note * = this [of "\<lambda>n. unat bp = 100 * digits_value w + n \<and> unat bp \<le> 9990"]
    have "?L \<longleftrightarrow> (\<exists>cents. parse_cents s cents_s = Ok cents \<and> unat bp = 100 * digits_value w + unat cents \<and> unat bp \<le> 9990)"
      using checked_bp [OF w, where bp = bp] by blast
    then show ?thesis using * by (auto simp: parse_cents_Ok unat_eq_0)
  qed
  define parts where "parts = split_on (CHR ''.'') s"
  define cents_s where "cents_s = (if length parts > 1 then Some (parts ! 1) else None)"
  have "parse_discount_pct s = Ok bp \<longleftrightarrow> length parts \<le> 2 \<and> list_all is_ascii_digit (hd parts) \<and> hd parts \<noteq> [] \<and>
      (\<exists>whole. parse_u32 (hd parts) = Some whole \<and> (\<exists>cents. parse_cents s cents_s = Ok cents \<and>
        Option.bind (checked_u32 (unat whole * 100)) (\<lambda>v. checked_u32 (unat v + unat cents)) = Some bp \<and> \<not> MAX_DISCOUNT_BP < bp))"
    by (auto simp: parse_discount_pct_def Let_def result_simps parts_def cents_s_def split: if_splits)
  then have read: "parse_discount_pct s = Ok bp \<longleftrightarrow> length parts \<le> 2 \<and> list_all is_ascii_digit (hd parts) \<and> hd parts \<noteq> [] \<and>
      (\<exists>n. (cents_s = None \<and> n = 0 \<or> (\<exists>f. cents_s = Some f \<and> decimals f n)) \<and> unat bp = 100 * digits_value (hd parts) + n \<and> unat bp \<le> 9990)"
    using tail [of "hd parts" cents_s] by blast
  show ?thesis
  proof (cases s rule: point_cases)
    case 1
    then have "parts = [s]" "cents_s = None" by (auto simp: parts_def cents_s_def split_on_single)
    with 1 have "parse_discount_pct s = Ok bp \<Longrightarrow> s \<noteq> [] \<and> list_all is_ascii_digit s \<and> decimals [] 0 \<and> unat bp = 100 * digits_value s \<and> unat bp \<le> 9990"
      unfolding read by (simp add: decimals_Nil)
    then have "parse_discount_pct s = Ok bp \<Longrightarrow> \<exists>w f n. (s = w \<and> f = [] \<or> s = w @ CHR ''.'' # f) \<and> w \<noteq> [] \<and> list_all is_ascii_digit w
        \<and> decimals f n \<and> unat bp = 100 * digits_value w + n \<and> unat bp \<le> 9990"
      by (intro exI [of _ s] exI [of _ "[]"] exI [of _ 0]) simp
    with 1 \<open>parts = [s]\<close> \<open>cents_s = None\<close> show ?thesis unfolding read by (auto simp: decimals_Nil)
  next
    case (2 w f)
    then have "parts = [w, f]" "cents_s = Some f" by (auto simp: parts_def cents_s_def split_point)
    moreover have same: "(s = w' \<and> f' = [] \<or> s = w' @ CHR ''.'' # f') \<longleftrightarrow> w' = w \<and> f' = f" if "list_all is_ascii_digit w'" for w' f'
      using 2 digit_not_point [OF that] append_Cons_eq_iff [of "CHR ''.''" w f w' f'] by auto
    have "(\<exists>w' f' n. (s = w' \<and> f' = [] \<or> s = w' @ CHR ''.'' # f') \<and> w' \<noteq> [] \<and> list_all is_ascii_digit w' \<and> P w' f' n)
        \<longleftrightarrow> (\<exists>n. w \<noteq> [] \<and> list_all is_ascii_digit w \<and> P w f n)" for P
      using same 2(1) by blast
    moreover note this [of "\<lambda>w f n. decimals f n \<and> unat bp = 100 * digits_value w + n \<and> unat bp \<le> 9990"]
    ultimately show ?thesis unfolding read by (simp add: conj_commute) blast
  next
    case 3
    then have "\<not> ((s = w \<and> f = [] \<or> s = w @ CHR ''.'' # f) \<and> list_all is_ascii_digit w \<and> decimals f n)" for w f n
      using digit_not_point [of w] digit_not_point [of f] by (auto simp: split_on_single split_point decimals_def)
    with 3 show ?thesis unfolding read parts_def by auto
  qed
qed

text \<open>A printed percentage is read back.\<close>

lemma digit_char_0: "digit_char 0 = CHR ''0''"
  by code_simp

lemma zero_padded_two: "n < 100 \<Longrightarrow> zero_padded 2 n = [digit_char (n div 10), digit_char (n mod 10)]"
  by (cases "n < 10") (auto simp: zero_padded_def nat_to_string.simps [of n] nat_to_string.simps [of "n div 10"] digit_char_0)

lemma digit_char_eq: "d < 10 \<Longrightarrow> digit_char d = CHR ''0'' \<longleftrightarrow> d = 0" "d < 10 \<Longrightarrow> digit_char d \<noteq> CHR ''.''"
proof -
  have point: "byte_of (CHR ''0'') = 48" "byte_of (CHR ''.'') = 46" by (simp_all add: byte_of_def)
  show "d < 10 \<Longrightarrow> digit_char d = CHR ''0'' \<longleftrightarrow> d = 0"
    using byte_of_digit_char [of d] point digit_char_0 by fastforce
  show "d < 10 \<Longrightarrow> digit_char d \<noteq> CHR ''.''"
    using byte_of_digit_char [of d] point by fastforce
qed

lemma digits_printed: "d < 10 \<Longrightarrow> is_ascii_digit (digit_char d)"
  by (simp add: is_ascii_digit_def byte_of_digit_char)

lemma format_discount_form:
  "\<exists>f. (format_discount_pct bp = nat_to_string (unat bp div 100) \<and> f = [] \<or>
        format_discount_pct bp = nat_to_string (unat bp div 100) @ CHR ''.'' # f) \<and> decimals f (unat bp mod 100)"
proof (cases "unat bp mod 100 = 0")
  case True
  then show ?thesis by (auto simp: format_discount_pct_def Let_def decimals_Nil)
next
  case False
  define t where "t = unat bp mod 100 div 10"
  define h where "h = unat bp mod 100 mod 10"
  have b: "t < 10" "h < 10" "unat bp mod 100 = t * 10 + h" "h \<noteq> 0 \<or> t \<noteq> 0" using False by (auto simp: t_def h_def)
  define f where "f = (if h = 0 then [digit_char t] else [digit_char t, digit_char h])"
  have "trim_end_char (CHR ''0'') (w @ ''.'' @ [digit_char t, digit_char h]) = w @ ''.'' @ f" for w
    using b by (auto simp: trim_end_char_def f_def digit_char_eq)
  moreover have "trim_end_char (CHR ''.'') (w @ ''.'' @ f) = w @ ''.'' @ f" for w
    using b by (auto simp: trim_end_char_def f_def digit_char_eq)
  ultimately have "format_discount_pct bp = nat_to_string (unat bp div 100) @ CHR ''.'' # f"
    using False zero_padded_two [of "unat bp mod 100"] by (simp add: format_discount_pct_def Let_def t_def h_def)
  moreover have "byte_of (CHR ''0'') = 48" by (simp add: byte_of_def)
  then have "decimals f (unat bp mod 100)"
    unfolding b(3) using b(1,2) by (simp add: decimals_def f_def digits_value_def byte_of_digit_char digits_printed)
  ultimately show ?thesis by blast
qed

lemma discount_read_back:
  assumes "unat bp \<le> 9990"
  shows "parse_discount_pct (format_discount_pct bp) = Ok bp"
proof -
  from format_discount_form [of bp] obtain f where "format_discount_pct bp = nat_to_string (unat bp div 100) \<and> f = [] \<or>
      format_discount_pct bp = nat_to_string (unat bp div 100) @ CHR ''.'' # f" "decimals f (unat bp mod 100)" by blast
  with assms show ?thesis
    unfolding parse_discount_exact using nat_to_string_digits [of "unat bp div 100"]
    by (intro exI [of _ "nat_to_string (unat bp div 100)"] exI [of _ f] exI [of _ "unat bp mod 100"]) auto
qed

section \<open>Price laws\<close>

lemma effective_bounds:
  fixes discount_bp :: u32
  defines "b \<equiv> unat (min discount_bp MAX_DISCOUNT_BP)"
  shows "unat (effective_per_mtok_ndollars retail discount_bp) = unat retail * (10000 - b) div 10000"
proof -
  have "unat retail * (10000 - b) div 10000 \<le> unat retail * 10000 div 10000" by (intro div_le_mono mult_le_mono2) simp
  also have "\<dots> < 2 ^ 64" using unsigned_less [of retail] by simp
  finally show ?thesis by (simp add: effective_per_mtok_ndollars_def Let_def b_def unat_of_nat)
qed

lemma case_update:
  "(\<And>e. F (\<lambda>x. x) e = e) \<Longrightarrow> (case x of None \<Rightarrow> e | Some v \<Rightarrow> F (\<lambda>_. Some (g v)) e)
     = F (\<lambda>old. case x of None \<Rightarrow> old | Some v \<Rightarrow> Some (g v)) e"
  by (cases x) auto

lemma case_some_id: "(case x of None \<Rightarrow> x | Some v \<Rightarrow> Some (g v)) = map_option g x"
  by (cases x) auto

lemmas vector_updates =
    case_update [where F = cache_read_per_mtok_ndollars_update, simplified]
    case_update [where F = cache_write_5m_per_mtok_ndollars_update, simplified]
    case_update [where F = cache_write_1h_per_mtok_ndollars_update, simplified]
    case_update [where F = audio_input_per_mtok_ndollars_update, simplified]
    case_update [where F = audio_output_per_mtok_ndollars_update, simplified]
    case_update [where F = image_input_per_mtok_ndollars_update, simplified]
    case_update [where F = image_output_per_mtok_ndollars_update, simplified]
    case_update [where F = output_per_image_ndollars_update, simplified]
    case_update [where F = output_per_video_second_ndollars_update, simplified]
    case_update [where F = cache_storage_per_mtok_hour_ndollars_update, simplified]
    case_update [where F = long_context_input_per_mtok_ndollars_update, simplified]
    case_update [where F = long_context_output_per_mtok_ndollars_update, simplified]

text \<open>The whole vector: every priced dimension is discounted, nothing else changes.\<close>

lemma effective_vector:
  "effective_dimensions r bp = (let f = (\<lambda>v. effective_per_mtok_ndollars v bp) in
     \<lparr>input_per_mtok_ndollars = f (input_per_mtok_ndollars r), output_per_mtok_ndollars = f (output_per_mtok_ndollars r),
      cache_read_per_mtok_ndollars = map_option f (cache_read_per_mtok_ndollars r),
      cache_write_5m_per_mtok_ndollars = map_option f (cache_write_5m_per_mtok_ndollars r),
      cache_write_1h_per_mtok_ndollars = map_option f (cache_write_1h_per_mtok_ndollars r),
      audio_input_per_mtok_ndollars = map_option f (audio_input_per_mtok_ndollars r),
      audio_output_per_mtok_ndollars = map_option f (audio_output_per_mtok_ndollars r),
      image_input_per_mtok_ndollars = map_option f (image_input_per_mtok_ndollars r),
      image_output_per_mtok_ndollars = map_option f (image_output_per_mtok_ndollars r),
      output_per_image_ndollars = map_option f (output_per_image_ndollars r),
      output_per_video_second_ndollars = map_option f (output_per_video_second_ndollars r),
      cache_storage_per_mtok_hour_ndollars = map_option f (cache_storage_per_mtok_hour_ndollars r),
      long_context_threshold_tokens = long_context_threshold_tokens r,
      long_context_input_per_mtok_ndollars = map_option f (long_context_input_per_mtok_ndollars r),
      long_context_output_per_mtok_ndollars = map_option f (long_context_output_per_mtok_ndollars r)\<rparr>)"
proof -
  define st where "st dim e = (case dim_get dim r of None \<Rightarrow> e | Some v \<Rightarrow> dim_set dim e (effective_per_mtok_ndollars v bp))" for dim :: PriceDimension and e
  have "effective_dimensions r bp = foldl (\<lambda>e dim. st dim e) r PRICE_DIMENSIONS"
    by (simp add: effective_dimensions_def st_def)
  moreover have "st \<lparr>label = l, anchor = a, dim_get = g, dim_set = s\<rparr> e
      = (case g r of None \<Rightarrow> e | Some v \<Rightarrow> s e (effective_per_mtok_ndollars v bp))" for l a g s e
    by (cases "g r") (simp_all add: st_def)
  ultimately show ?thesis
    by (cases r) (simp add: PRICE_DIMENSIONS_def Let_def vector_updates case_some_id)
qed

text \<open>
  The unit prices a summary names are among the dimensions it counts, so what is left over never underflows.
\<close>

lemma length_filter_Cons: "length (filter P (x # xs)) = of_bool (P x) + length (filter P xs)"
  by simp

lemma shown_within_count:
  "of_bool (output_per_image_ndollars (effective_dimensions r bp) \<noteq> None)
     + of_bool (output_per_video_second_ndollars (effective_dimensions r bp) \<noteq> None) \<le> extra_dimension_count r"
  unfolding extra_dimension_count_def PRICE_DIMENSIONS_def length_filter_Cons
  by (simp add: effective_vector Let_def del: filter.simps)

section \<open>Amount laws\<close>

text \<open>What an amount says: dollars before the point, a decimal fraction of at most nine digits after it.\<close>

definition usd_value :: "string \<Rightarrow> nat option" where
  "usd_value s =
     Option.bind (strip_prefix ''$'' s) (\<lambda>t. Option.bind (split_once (CHR ''.'') t) (\<lambda>(dollars, fraction).
       if dollars \<noteq> [] \<and> list_all is_ascii_digit dollars \<and> list_all is_ascii_digit fraction \<and> length fraction \<le> 9
       then Some (digits_value dollars * 10 ^ 9 + digits_value fraction * 10 ^ (9 - length fraction)) else None))"

lemma digits_value_zeros: "digits_value (replicate n (CHR ''0'') @ s) = digits_value s"
  by (induction n) (simp_all add: digits_value_def byte_of_def)

lemma length_nat_to_string: "n < 10 ^ k \<Longrightarrow> 0 < k \<Longrightarrow> length (nat_to_string n) \<le> k"
proof (induction k arbitrary: n)
  case (Suc k)
  show ?case
  proof (cases "n < 10")
    case False
    then have "k \<noteq> 0" using Suc.prems(1) by (cases k) auto
    moreover from Suc.prems(1) have "n div 10 < 10 ^ k" by (simp add: div_less_iff_less_mult)
    ultimately show ?thesis using Suc.IH [of "n div 10"] False by (subst nat_to_string.simps) simp
  qed (simp add: nat_to_string.simps)
qed simp

lemma zero_padded_digits:
  assumes "n < 10 ^ k" and "0 < k"
  shows "length (zero_padded k n) = k" and "list_all is_ascii_digit (zero_padded k n)" and "digits_value (zero_padded k n) = n"
  using length_nat_to_string [OF assms] nat_to_string_digits [of n]
  by (auto simp: zero_padded_def digits_value_zeros list_all_iff ascii_class_defs)

lemma drop_zeros_value:
  "3 \<le> length f \<Longrightarrow> length f \<le> 9 \<Longrightarrow> list_all is_ascii_digit f \<Longrightarrow>
     3 \<le> length (drop_zeros f) \<and> length (drop_zeros f) \<le> 9 \<and> list_all is_ascii_digit (drop_zeros f)
     \<and> digits_value (drop_zeros f) * 10 ^ (9 - length (drop_zeros f)) = digits_value f * 10 ^ (9 - length f)"
proof (induction f rule: drop_zeros.induct)
  case (1 f)
  show ?case
  proof (cases "length f > 3 \<and> last f = CHR ''0''")
    case True
    then have f: "f = butlast f @ [CHR ''0'']" by (metis append_butlast_last_id list.size(3) not_less_zero)
    have "digits_value f = digits_value (butlast f) * 10"
      by (subst f) (simp add: digits_value_snoc byte_of_def)
    moreover have "10 ^ (9 - length (butlast f)) = (10 :: nat) * 10 ^ (9 - length f)"
      using True 1(3) by (simp flip: power_Suc add: Suc_diff_le)
    moreover have "list_all is_ascii_digit (butlast f)" using 1(4) f by (metis list_all_append)
    moreover have "3 \<le> length f - 1" "length f - 1 \<le> 9" using True 1(3) by auto
    ultimately show ?thesis using 1 True by (simp add: drop_zeros.simps [of f] mult.assoc)
  next
    case False
    then have "drop_zeros f = f" by (subst drop_zeros.simps) (simp only: if_False)
    with 1 show ?thesis by simp
  qed
qed

lemma format_usd_value: "usd_value (format_usd n) = Some (unat n)"
proof -
  define f where "f = zero_padded 9 (unat n mod 1000000000)"
  have f: "length f = 9" "list_all is_ascii_digit f" "digits_value f = unat n mod 1000000000"
    using zero_padded_digits [of "unat n mod 1000000000" 9] by (simp_all add: f_def)
  note d = nat_to_string_digits [of "unat n div 1000000000"]
  have "split_once (CHR ''.'') (nat_to_string (unat n div 1000000000) @ ''.'' @ drop_zeros f)
      = Some (nat_to_string (unat n div 1000000000), drop_zeros f)"
    using digit_not_point d by (simp add: split_once_Some)
  then show ?thesis
    using drop_zeros_value [of f] f d
    by (simp add: usd_value_def format_usd_def Let_def strip_prefix_def flip: f_def)
qed

text \<open>Every offer is listed in exactly one section.\<close>

lemma sections_partition: "mset (offered ps) + mset (broken_offers ps) + mset (unsold_products ps) = mset ps"
  unfolding offered_def broken_offers_def unsold_products_def filter_filter
  by (induction ps) (simp_all add: ac_simps del: mset_filter)

section \<open>Properties\<close>

text \<open>
  A discount is read exactly from digits, optionally followed by a point and at most two decimals, when its
  value in basis points is within the cap, and is that value; a printed discount within the cap is read back.
\<close>

theorem discount_percent_exact:
  "(parse_discount_pct s = Ok bp \<longleftrightarrow>
     (\<exists>w f n. (s = w \<and> f = [] \<or> s = w @ CHR ''.'' # f) \<and> w \<noteq> [] \<and> list_all is_ascii_digit w \<and> decimals f n
        \<and> unat bp = 100 * digits_value w + n \<and> unat bp \<le> 9990))
   \<and> parse_discount_pct (format_discount_pct (min bp MAX_DISCOUNT_BP)) = Ok (min bp MAX_DISCOUNT_BP)"
proof -
  have "unat (min bp MAX_DISCOUNT_BP) \<le> 9990"
    by (simp add: min_def MAX_DISCOUNT_BP_def word_le_nat_alt)
  then show ?thesis using parse_discount_exact discount_read_back by blast
qed

text \<open>
  C39: The discounted vector prices exactly the dimensions the retail vector prices; each price is the largest whole
  nano-dollar amount within the discounted retail price, the discount capped; the token threshold is kept.
\<close>

theorem effective_prices_exact:
  "list_all (\<lambda>d. case dim_get d r of
       None \<Rightarrow> dim_get d (effective_dimensions r bp) = None
     | Some v \<Rightarrow> (\<exists>p. dim_get d (effective_dimensions r bp) = Some p
         \<and> unat p * 10000 \<le> unat v * (10000 - unat (min bp MAX_DISCOUNT_BP))
         \<and> unat v * (10000 - unat (min bp MAX_DISCOUNT_BP)) < (unat p + 1) * 10000)) PRICE_DIMENSIONS
   \<and> long_context_threshold_tokens (effective_dimensions r bp) = long_context_threshold_tokens r"
proof -
  let ?p = "\<lambda>v. effective_per_mtok_ndollars v bp" and ?b = "10000 - unat (min bp MAX_DISCOUNT_BP)"
  have floor: "unat (?p v) * 10000 \<le> unat v * ?b \<and> unat v * ?b < (unat (?p v) + 1) * 10000" for v
    unfolding effective_bounds using div_mult_mod_eq [of "unat v * ?b" 10000] mod_less_divisor [of 10000 "unat v * ?b"]
    by (simp add: algebra_simps)
  have "list_all (\<lambda>d. dim_get d (effective_dimensions r bp) = map_option ?p (dim_get d r)) PRICE_DIMENSIONS"
    by (simp add: PRICE_DIMENSIONS_def effective_vector Let_def)
  then have "list_all (\<lambda>d. case dim_get d r of None \<Rightarrow> dim_get d (effective_dimensions r bp) = None
      | Some v \<Rightarrow> (\<exists>p. dim_get d (effective_dimensions r bp) = Some p
         \<and> unat p * 10000 \<le> unat v * ?b \<and> unat v * ?b < (unat p + 1) * 10000)) PRICE_DIMENSIONS"
    by (rule list.pred_mono_strong) (use floor in \<open>auto split: option.split\<close>)
  then show ?thesis by (simp add: effective_vector Let_def)
qed

text \<open>A printed amount says exactly its nano-dollars, so different amounts never print alike.\<close>

theorem amounts_print_exactly:
  "usd_value (format_usd n) = Some (unat n) \<and> (format_usd n = format_usd m \<longleftrightarrow> n = m)"
  using format_usd_value [of n] format_usd_value [of m] by (metis option.inject word_unat_eq_iff)

end
