(* ===== verification/Bindings_Client.thy ===== *)
theory Bindings_Client
  imports Binding_Cache Http_Messages Cli_Base
begin

text \<open>
  The CLI's own reader of the registry's model bindings (\<^verbatim>\<open>cli/src/bedrock_bindings.rs\<close>), a second
  implementation of the format the enclave's adapter reads (\<open>Binding_Cache\<close>): the fetch from the fixed registry
  address, the visitor that refuses repeated names, and the rows in model order. The two readers accept the same
  documents and read the same bindings from them.

  The context texts of errors are constructors. The TLS client is I/O; its answer is an argument.
\<close>

section \<open>Values\<close>

definition CLI_MAX_BODY_BYTES :: nat where "CLI_MAX_BODY_BYTES = 1024 * 1024"
definition CLI_MAX_BINDINGS :: nat where "CLI_MAX_BINDINGS = 1024"
definition CLI_MAX_MODEL_ID_BYTES :: nat where "CLI_MAX_MODEL_ID_BYTES = 256"
definition CLI_MAX_SAFE_INTEGER :: u64 where "CLI_MAX_SAFE_INTEGER = 9007199254740991"

record BedrockModelBinding =
  bb_model :: string
  bb_upstream_model :: string
  bb_response_model :: string
  bb_revision :: u64

datatype fetch_error =
    Unreachable
  | BadStatus u16
  | NoJson
  | TooLarge
  | Unreadable
  | BadJson
  | BadEnvelope
  | BadSchema
  | OtherNetwork
  | BadSnapshotRevision
  | BadList
  | BadRow
  | BadProvider
  | BadModel
  | BadSelector
  | BadResponseModel
  | BadRowRevision
  | RepeatedModel

fun cli_unique_value :: "raw \<Rightarrow> json option"
and cli_visit_seq :: "raw list \<Rightarrow> json list option"
and cli_visit_map :: "(string \<times> json) list \<Rightarrow> (string \<times> raw) list \<Rightarrow> (string \<times> json) list option" where
  "cli_unique_value (VBool b) = Some (JBool b)"
| "cli_unique_value (VI64 i) = Some (JNumber (number_from_i64 i))"
| "cli_unique_value (VU64 n) = Some (JNumber (PosInt n))"
| "cli_unique_value (VF64 f) = (if f64_finite f then Some (JNumber (Float f)) else None)"
| "cli_unique_value (VStr s) = Some (JString s)"
| "cli_unique_value VUnit = Some JNull"
| "cli_unique_value (VSeq xs) = map_option JArray (cli_visit_seq xs)"
| "cli_unique_value (VMap kvs) = map_option JObject (cli_visit_map [] kvs)"
| "cli_visit_seq [] = Some []"
| "cli_visit_seq (x # xs) = Option.bind (cli_unique_value x) (\<lambda>v. map_option ((#) v) (cli_visit_seq xs))"
| "cli_visit_map values [] = Some values"
| "cli_visit_map values ((k, x) # rest) =
     (if hm_contains values k then None
      else Option.bind (cli_unique_value x) (\<lambda>v. cli_visit_map (hm_insert k v values) rest))"

definition cli_parse_unique_json :: "(string \<Rightarrow> raw option) \<Rightarrow> string \<Rightarrow> json option" where
  "cli_parse_unique_json from_slice bytes = Option.bind (from_slice bytes) cli_unique_value"

section \<open>Parsing\<close>

definition object_has_exact_keys :: "(string \<times> json) list \<Rightarrow> string list \<Rightarrow> bool" where
  "object_has_exact_keys obj expected \<longleftrightarrow> length obj = length expected \<and> list_all (hm_contains obj) expected"

definition cli_valid_model_id :: "string \<Rightarrow> bool" where
  "cli_valid_model_id v \<longleftrightarrow> v \<noteq> [] \<and> length v \<le> CLI_MAX_MODEL_ID_BYTES \<and> is_ascii_alphanumeric (hd v)
     \<and> list_all (\<lambda>b. is_ascii_alphanumeric b \<or> b \<in> {CHR ''.'', CHR ''-'', CHR ''_'', CHR '':''}) v"

definition cli_valid_bedrock_selector :: "string \<Rightarrow> bool" where
  "cli_valid_bedrock_selector v =
     (case strip_prefix ''anthropic.'' v of
        None \<Rightarrow> False
      | Some suffix \<Rightarrow> suffix \<noteq> [] \<and> length v \<le> CLI_MAX_MODEL_ID_BYTES \<and> is_ascii_alphanumeric (hd suffix)
          \<and> list_all (\<lambda>b. is_ascii_alphanumeric b \<or> b \<in> {CHR ''.'', CHR ''-'', CHR ''_'', CHR '':''}) suffix)"

definition cli_row :: "u64 \<Rightarrow> json \<Rightarrow> fetch_error + BedrockModelBinding" where
  "cli_row srev row =
     bind_r (ok_or (filter_o (\<lambda>r. object_has_exact_keys r
         [''provider'', ''model'', ''upstream_model'', ''response_model'', ''revision'']) (as_object row)) BadRow) (\<lambda>row.
     bind_r (ensure (get_str row ''provider'' = Some ''anthropic'') BadProvider) (\<lambda>_.
     bind_r (ok_or (filter_o cli_valid_model_id (get_str row ''model'')) BadModel) (\<lambda>m.
     bind_r (ok_or (filter_o cli_valid_bedrock_selector (get_str row ''upstream_model'')) BadSelector) (\<lambda>up.
     bind_r (ok_or (filter_o cli_valid_model_id (get_str row ''response_model'')) BadResponseModel) (\<lambda>resp.
     bind_r (ok_or (filter_o (\<lambda>r. r > 0 \<and> r \<le> CLI_MAX_SAFE_INTEGER \<and> r \<le> srev)
         (get_u64 row ''revision'')) BadRowRevision) (\<lambda>r.
     Ok \<lparr>bb_model = m, bb_upstream_model = up, bb_response_model = resp, bb_revision = r\<rparr>))))))"

text \<open>The loop over the rows; \<open>models\<close> is the set of models seen so far.\<close>

fun cli_rows :: "u64 \<Rightarrow> json list \<Rightarrow> string set \<Rightarrow> fetch_error + BedrockModelBinding list" where
  "cli_rows srev [] models = Ok []"
| "cli_rows srev (row # rows) models =
     bind_r (cli_row srev row) (\<lambda>b.
     if bb_model b \<in> models then Err RepeatedModel
     else map_r ((#) b) (cli_rows srev rows (insert (bb_model b) models)))"

definition cli_bindings_of :: "Network \<Rightarrow> json \<Rightarrow> fetch_error + BedrockModelBinding list" where
  "cli_bindings_of net v =
     bind_r (ok_or (filter_o (\<lambda>obj. object_has_exact_keys obj
         [''schema_version'', ''network'', ''revision'', ''bindings'']) (as_object v)) BadEnvelope) (\<lambda>obj.
     bind_r (ensure (get_u64 obj ''schema_version'' = Some 1) BadSchema) (\<lambda>_.
     bind_r (ensure (get_str obj ''network'' = Some (network_str net)) OtherNetwork) (\<lambda>_.
     bind_r (ok_or (filter_o (\<lambda>r. r \<le> CLI_MAX_SAFE_INTEGER) (get_u64 obj ''revision'')) BadSnapshotRevision) (\<lambda>srev.
     bind_r (ok_or (filter_o (\<lambda>rows. length rows \<le> CLI_MAX_BINDINGS)
         (Option.bind (map_of obj ''bindings'') as_array)) BadList) (\<lambda>rows.
     map_r (sort_key bb_model) (cli_rows srev rows {}))))))"

definition cli_parse_bindings :: "(string \<Rightarrow> raw option) \<Rightarrow> string \<Rightarrow> Network \<Rightarrow> fetch_error + BedrockModelBinding list" where
  "cli_parse_bindings from_slice bytes net =
     bind_r (ok_or (cli_parse_unique_json from_slice bytes) BadJson) (cli_bindings_of net)"

section \<open>Fetching\<close>

definition cli_registry_url :: "Network \<Rightarrow> string" where
  "cli_registry_url net = default_registry_url net @ ''/model-bindings/bedrock''"

text \<open>\<open>answer url\<close> is what the trusted client gets for the request, or nothing when it cannot be sent.\<close>

definition fetch_bedrock_model_bindings ::
    "(string \<Rightarrow> raw option) \<Rightarrow> (string \<Rightarrow> string option) \<Rightarrow> (string \<Rightarrow> http_response option) \<Rightarrow> Network
     \<Rightarrow> fetch_error + BedrockModelBinding list" where
  "fetch_bedrock_model_bindings from_slice to_str answer net =
     bind_r (ok_or (answer (cli_registry_url net)) Unreachable) (\<lambda>r.
     bind_r (ensure (status_code r = 200) (BadStatus (status_code r))) (\<lambda>_.
     bind_r (ensure (media_type_is to_str (response_headers r) ''application/json'') NoJson) (\<lambda>_.
     bind_r (ensure (\<not> is_some_and (\<lambda>n. n > CLI_MAX_BODY_BYTES) (content_length r)) TooLarge) (\<lambda>_.
     bind_r (read_bounded Unreadable TooLarge CLI_MAX_BODY_BYTES (response_body r) []) (\<lambda>body.
     cli_parse_bindings from_slice body net)))))"

section \<open>Agreement with the adapter\<close>

lemma cli_visitor:
  "cli_unique_value r = unique_value r" "cli_visit_seq xs = visit_seq xs" "cli_visit_map acc m = visit_map acc m"
  by (induction r and xs and acc m rule: cli_unique_value_cli_visit_seq_cli_visit_map.induct)
     (auto split: option.split simp: fun_eq_iff)

lemma cli_limits:
  "CLI_MAX_BINDINGS = MAX_MODEL_BINDINGS" "CLI_MAX_SAFE_INTEGER = MAX_SAFE_INTEGER"
  "cli_valid_model_id = valid_model_id" "cli_valid_bedrock_selector = valid_bedrock_selector"
  by (auto simp: CLI_MAX_BINDINGS_def MAX_MODEL_BINDINGS_def CLI_MAX_SAFE_INTEGER_def MAX_SAFE_INTEGER_def fun_eq_iff
      cli_valid_model_id_def valid_model_id_def CLI_MAX_MODEL_ID_BYTES_def MAX_MODEL_ID_BYTES_def id_byte_def
      cli_valid_bedrock_selector_def valid_bedrock_selector_def list_all_iff split: option.split)

text \<open>With distinct names, as many members as expected and all of them present is exactly the expected ones.\<close>

lemma exact_keys:
  assumes "distinct (map fst obj)" and "distinct expected"
  shows "object_has_exact_keys obj expected \<longleftrightarrow> object_has_only_keys obj expected"
proof -
  have "list_all (hm_contains obj) expected \<longleftrightarrow> set expected \<subseteq> set (map fst obj)"
    by (auto simp: list_all_iff hm_contains_def map_of_eq_None_iff)
  moreover have "list_all (\<lambda>kv. fst kv \<in> set expected) obj \<longleftrightarrow> set (map fst obj) \<subseteq> set expected"
    by (auto simp: list_all_iff)
  moreover have "length obj = card (set (map fst obj))" "length expected = card (set expected)"
    using assms distinct_card [of "map fst obj"] distinct_card [of expected] by simp_all
  ultimately show ?thesis
    unfolding object_has_exact_keys_def object_has_only_keys_def
    by (metis card_subset_eq finite_set order.refl subset_antisym)
qed

definition of_binding :: "ModelBinding \<Rightarrow> BedrockModelBinding" where
  "of_binding b = \<lparr>bb_model = model b, bb_upstream_model = upstream_model b,
     bb_response_model = response_model b, bb_revision = revision b\<rparr>"

lemma cli_row_Ok:
  assumes "json_unique row"
  shows "cli_row srev row = Ok c \<longleftrightarrow> (\<exists>b. parse_row srev row = Ok b \<and> c = of_binding b)"
proof (cases row)
  case (JObject obj)
  with assms have "object_has_exact_keys obj [''provider'', ''model'', ''upstream_model'', ''response_model'', ''revision'']
      \<longleftrightarrow> object_has_only_keys obj [''provider'', ''model'', ''upstream_model'', ''response_model'', ''revision'']"
    by (intro exact_keys) simp_all
  with JObject show ?thesis
    by (auto simp: cli_row_def parse_row_def result_simps of_binding_def cli_limits)
qed (simp_all add: cli_row_def parse_row_def)

text \<open>The rows of a list, each parsed.\<close>

definition rows_read :: "u64 \<Rightarrow> json list \<Rightarrow> ModelBinding list \<Rightarrow> bool" where
  "rows_read srev rows bs \<longleftrightarrow> list_all2 (\<lambda>row b. parse_row srev row = Ok b) rows bs"

lemma ex_rows_read:
  "(\<exists>bs. rows_read srev (row # rows) bs \<and> P bs) \<longleftrightarrow> (\<exists>b bs. parse_row srev row = Ok b \<and> rows_read srev rows bs \<and> P (b # bs))"
  "(\<exists>bs. rows_read srev [] bs \<and> P bs) \<longleftrightarrow> P []"
  by (auto simp: rows_read_def list_all2_Cons1)

lemma parse_rows_read:
  "parse_rows srev rows acc = Ok acc' \<longleftrightarrow>
     (\<exists>bs. rows_read srev rows bs \<and> distinct (map model bs) \<and> set (map model bs) \<inter> fst ` set acc = {}
        \<and> acc' = insert_all (map (\<lambda>b. (model b, b)) bs) acc)"
proof (induction srev rows acc rule: parse_rows.induct)
  case (2 srev row rows acc)
  have fresh: "map_of acc (model b) \<noteq> None \<longleftrightarrow> model b \<in> fst ` set acc" for b
    by (simp add: map_of_eq_None_iff)
  have keys: "fst ` set (bt_insert (model b) b acc) = insert (model b) (fst ` set acc)" for b
    using set_bt_insert [of "model b" b acc] by simp
  show ?case
  proof (cases "parse_row srev row")
    case (Inr b)
    show ?thesis
    proof (cases "map_of acc (model b)")
      case None
      with Inr "2.IH" [of b] show ?thesis
        by (simp add: ex_rows_read fresh keys insert_all_def) (auto simp: map_of_eq_None_iff)
    next
      case (Some x)
      with fresh [of b] have "model b \<in> fst ` set acc" by simp
      with Inr Some show ?thesis by (auto simp: ex_rows_read)
    qed
  qed (simp add: ex_rows_read)
qed (auto simp: ex_rows_read insert_all_def)

lemma cli_rows_read:
  "\<forall>row \<in> set rows. json_unique row \<Longrightarrow> cli_rows srev rows models = Ok cs \<longleftrightarrow>
     (\<exists>bs. rows_read srev rows bs \<and> distinct (map model bs) \<and> set (map model bs) \<inter> models = {} \<and> cs = map of_binding bs)"
proof (induction srev rows models arbitrary: cs rule: cli_rows.induct)
  case (2 srev row rows models)
  note row = cli_row_Ok [of row srev]
  show ?case
  proof (cases "parse_row srev row")
    case (Inr b)
    with row 2(2) have "cli_row srev row = Ok (of_binding b)" by auto
    moreover have "bb_model (of_binding b) = model b" by (simp add: of_binding_def)
    moreover note "2.IH" [of "of_binding b"]
    ultimately show ?thesis using "2.prems" Inr by (simp add: result_simps ex_rows_read) auto
  next
    case (Inl e)
    with row 2(2) have "cli_row srev row \<noteq> Ok c" for c by auto
    then obtain e' where "cli_row srev row = Err e'" by (cases "cli_row srev row") auto
    with Inl show ?thesis by (simp add: ex_rows_read)
  qed
qed (auto simp: ex_rows_read)

lemma bindings_sorted:
  assumes "distinct (map model bs)"
  shows "sort_key bb_model (map of_binding bs) = map (of_binding \<circ> snd) (insert_all (map (\<lambda>b. (model b, b)) bs) [])"
    (is "?l = map _ ?m")
proof -
  let ?kbs = "map (\<lambda>b. (model b, b)) bs"
  have keys: "map fst ?kbs = map model bs" by simp
  have wf: "bt_wf ?m" by (simp add: bt_wf_insert_all)
  have "map_of ?m = map_of ?kbs"
    using map_of_insert_all [of ?kbs "[]"] assms unfolding keys by simp
  then have sets: "set ?m = set ?kbs"
    using map_of_inject_set [of ?m ?kbs] bt_wf_distinct [OF wf] assms unfolding keys by simp
  have m_keys: "map (bb_model \<circ> (of_binding \<circ> snd)) ?m = map fst ?m"
    using sets by (simp add: of_binding_def)
  have "map bb_model (map of_binding bs) = map model bs" by (simp add: of_binding_def)
  with assms have "distinct (map bb_model (map of_binding bs))" by argo
  then have l: "distinct (map bb_model ?l)"
    by (auto simp: distinct_map intro: inj_on_imageI inj_on_imageI2)
  show ?thesis
  proof (rule map_sorted_distinct_set_unique [where f = bb_model])
    show "distinct (map bb_model (map (of_binding \<circ> snd) ?m))" "sorted (map bb_model (map (of_binding \<circ> snd) ?m))"
      using wf unfolding map_map m_keys by (simp_all add: bt_wf_def strict_sorted_iff)
    show "set ?l = set (map (of_binding \<circ> snd) ?m)" using sets by (auto simp: image_image)
    have "inj_on bb_model (set (map of_binding bs))"
      using l unfolding distinct_map by simp
    then show "inj_on bb_model (set ?l \<union> set (map (of_binding \<circ> snd) ?m))"
      using sets by (simp add: image_image)
  qed (use l in simp_all)
qed

lemma envelope_agrees:
  assumes "json_unique v"
  shows "cli_bindings_of net v = Ok cs \<longleftrightarrow>
    (\<exists>snap. bindings_of_value (network_str net) v = Ok snap \<and> cs = map (of_binding \<circ> snd) (bindings snap))"
proof (cases v)
  case (JObject obj)
  let ?keys = "[''schema_version'', ''network'', ''revision'', ''bindings'']"
  from assms JObject have keys: "object_has_exact_keys obj ?keys \<longleftrightarrow> object_has_only_keys obj ?keys"
    by (intro exact_keys) simp_all
  have rows: "map_r (sort_key bb_model) (cli_rows srev rows {}) = Ok cs \<longleftrightarrow>
      (\<exists>bs. parse_rows srev rows [] = Ok bs \<and> cs = map (of_binding \<circ> snd) bs)"
    if "Option.bind (map_of obj ''bindings'') as_array = Some rows" for srev rows
  proof -
    from that JObject assms have "\<forall>row \<in> set rows. json_unique row"
      by (auto simp: bind_eq_Some_conv dest!: map_of_SomeD elim!: as_array.elims)
    then show ?thesis
      by (auto simp: result_simps cli_rows_read parse_rows_read bindings_sorted)
  qed
  show ?thesis
    using JObject rows
    by (simp add: cli_bindings_of_def bindings_of_value_def keys cli_limits)
       (auto simp: bind_r_eq_Ok ok_or_eq_Ok filter_o_eq_Some ensure_eq_Ok keys)
qed (simp_all add: cli_bindings_of_def bindings_of_value_def)

section \<open>Properties\<close>

text \<open>
  C38: The CLI and the enclave's adapter read the registry's bindings alike: one accepts a document for a network
  exactly when the other does, and the CLI's list is the adapter's snapshot in model order.
\<close>

theorem registry_readers_agree:
  "cli_parse_bindings from_slice bytes net = Ok cs \<longleftrightarrow>
     (\<exists>snap. parse_bindings_payload from_slice bytes (network_str net) = Ok snap
        \<and> cs = map (of_binding \<circ> snd) (bindings snap))"
proof -
  have "cli_unique_value = unique_value" using cli_visitor(1) by blast
  then have json: "cli_parse_unique_json from_slice bytes = parse_unique_json from_slice bytes"
    by (simp add: cli_parse_unique_json_def parse_unique_json_def)
  show ?thesis
  proof (cases "parse_unique_json from_slice bytes")
    case (Some v)
    then have "json_unique v" by (rule parse_unique_json_SomeD)
    from envelope_agrees [OF this] Some json show ?thesis
      by (simp add: cli_parse_bindings_def parse_bindings_payload_def)
  qed (simp add: cli_parse_bindings_def parse_bindings_payload_def json)
qed

end
