(* ===== verification/Cli_Workers.thy ===== *)
theory Cli_Workers
  imports Provider_Keys Cli_Base Strict_Json
begin

text \<open>
  The CLI's picture of a miner's workers: the records of \<^verbatim>\<open>cli/src/config.rs\<close> (\<^verbatim>\<open>NetworkEntry\<close>, \<^verbatim>\<open>Config\<close>), the
  live list and its health view (\<^verbatim>\<open>cli/src/workers.rs\<close>), the supported images
  (\<^verbatim>\<open>cli/src/deploy/version.rs\<close>) and the check of measured hashes (\<^verbatim>\<open>cli/src/deploy/hashes.rs\<close>).

  Unicode lower case, RFC 3339 timestamps and the serde decoders are the fields of \<open>cli_lib\<close>; an instant is an
  integer of nanoseconds. Errors are constructors with the values their texts print.
\<close>

record 'v cli_lib =
  lower :: "string \<Rightarrow> string"
  rfc3339 :: "string \<Rightarrow> int option"
  min_utc :: int
  decode_versions :: "string \<Rightarrow> 'v list option"
  b64url_nopad :: "string \<Rightarrow> string option"
  json_from_slice :: "string \<Rightarrow> json option"

section \<open>Worker records\<close>

record WorkerRecord =
  worker_id :: string
  app_id :: string
  app_name :: string
  node_secret :: string
  backends :: "(string, string) btree_map option"
  provider_slots :: "(string, string list) btree_map option"
  provisional_secondary :: bool

record HotkeyRecord =
  hotkey_ss58 :: string
  hotkey_name :: "string option"
  hotkey_verified :: bool

record TokenEntry =
  access_token :: "string option"
  token_expires_at :: "string option"
  refresh_token :: "string option"

definition TOKEN_EXPIRY_MARGIN :: int where "TOKEN_EXPIRY_MARGIN = 300 * 1000000000"

definition is_expired_or_near :: "'v cli_lib \<Rightarrow> int \<Rightarrow> TokenEntry \<Rightarrow> bool" where
  "is_expired_or_near L now t =
     (case token_expires_at t of
        None \<Rightarrow> False
      | Some raw \<Rightarrow> (case rfc3339 L raw of None \<Rightarrow> True | Some expiry \<Rightarrow> expiry \<le> now + TOKEN_EXPIRY_MARGIN))"

text \<open>\<^verbatim>\<open>num_seconds\<close> of a difference: whole seconds, rounded towards zero.\<close>

definition num_seconds :: "int \<Rightarrow> int" where
  "num_seconds delta = (if delta < 0 then - (- delta div 1000000000) else delta div 1000000000)"

definition seconds_until_expiry :: "'v cli_lib \<Rightarrow> int \<Rightarrow> TokenEntry \<Rightarrow> int option" where
  "seconds_until_expiry L now t =
     Option.bind (token_expires_at t) (\<lambda>raw. map_option (\<lambda>expiry. max (num_seconds (expiry - now)) 0) (rfc3339 L raw))"

definition jwt_sub :: "'v cli_lib \<Rightarrow> string \<Rightarrow> string option" where
  "jwt_sub L token =
     (let parts = split_on (CHR ''.'') token in
      if length parts < 2 then None
      else Option.bind (b64url_nopad L (parts ! 1)) (\<lambda>bytes.
           Option.bind (json_from_slice L bytes) (\<lambda>claims.
           Option.bind (json_get ''sub'' claims) as_str)))"

record NetworkEntry =
  entry_api_url :: "string option"
  tokens :: "TokenEntry option"
  workers :: "WorkerRecord list"
  registered_hotkey :: "HotkeyRecord option"
  legacy_secret :: "string option"

definition worker_by_app_name :: "NetworkEntry \<Rightarrow> string \<Rightarrow> WorkerRecord option" where
  "worker_by_app_name e name = find (\<lambda>w. app_name w = name) (workers e)"

definition worker_by_id :: "NetworkEntry \<Rightarrow> string \<Rightarrow> WorkerRecord option" where
  "worker_by_id e i = find (\<lambda>w. worker_id w = i) (workers e)"

definition worker_by_app_id :: "NetworkEntry \<Rightarrow> string \<Rightarrow> WorkerRecord option" where
  "worker_by_app_id e i = find (\<lambda>w. app_id w = i) (workers e)"

definition legacy_node_secret :: "NetworkEntry \<Rightarrow> string option" where
  "legacy_node_secret e =
     (if workers e \<noteq> [] then None else filter_o (\<lambda>s. trim s \<noteq> []) (legacy_secret e))"

definition set_registered_hotkey :: "NetworkEntry \<Rightarrow> HotkeyRecord \<Rightarrow> NetworkEntry" where
  "set_registered_hotkey e record = e\<lparr>registered_hotkey := Some record\<rparr>"

text \<open>\<^verbatim>\<open>iter().position(p)\<close>\<close>

fun position :: "('a \<Rightarrow> bool) \<Rightarrow> 'a list \<Rightarrow> nat option" where
  "position P [] = None"
| "position P (x # xs) = (if P x then Some 0 else map_option Suc (position P xs))"

definition insert_at :: "nat \<Rightarrow> 'a \<Rightarrow> 'a list \<Rightarrow> 'a list" where
  "insert_at i x xs = take i xs @ x # drop i xs"

definition remove_at :: "nat \<Rightarrow> 'a list \<Rightarrow> 'a list" where
  "remove_at i xs = take i xs @ drop (Suc i) xs"

definition same_record :: "WorkerRecord \<Rightarrow> WorkerRecord \<Rightarrow> bool" where
  "same_record r w \<longleftrightarrow> (worker_id r \<noteq> [] \<and> worker_id w = worker_id r) \<or> app_name w = app_name r"

definition upsert_worker :: "NetworkEntry \<Rightarrow> WorkerRecord \<Rightarrow> NetworkEntry" where
  "upsert_worker e record =
     (let ws = (case position (same_record record) (workers e) of
          Some idx \<Rightarrow>
            (let kept = filter (\<lambda>w. \<not> same_record record w) (workers e)
             in insert_at (min idx (length kept)) record kept)
        | None \<Rightarrow> workers e @ [record])
      in e\<lparr>workers := ws, legacy_secret := None\<rparr>)"

definition remove_worker_by_id :: "NetworkEntry \<Rightarrow> string \<Rightarrow> WorkerRecord option \<times> NetworkEntry" where
  "remove_worker_by_id e i =
     (case position (\<lambda>w. worker_id w = i) (workers e) of
        None \<Rightarrow> (None, e)
      | Some idx \<Rightarrow> (Some (workers e ! idx), e\<lparr>workers := remove_at idx (workers e)\<rparr>))"

definition remove_provisional_worker :: "NetworkEntry \<Rightarrow> string \<Rightarrow> WorkerRecord option \<times> NetworkEntry" where
  "remove_provisional_worker e i =
     (case position (\<lambda>w. worker_id w = [] \<and> (app_id w = i \<or> app_name w = i)) (workers e) of
        None \<Rightarrow> (None, e)
      | Some idx \<Rightarrow> (Some (workers e ! idx), e\<lparr>workers := remove_at idx (workers e)\<rparr>))"

section \<open>The configuration\<close>

record AcceptedTerms =
  terms_version :: string
  terms_timestamp :: string

record Config =
  networks :: "(string, NetworkEntry) hash_map"
  selected_network :: "string option"
  accepted_terms :: "AcceptedTerms option"
  provider_keys :: "ProviderKeys option"
  phala_api_key :: "string option"
  api_url_override :: "string option"

definition network_from_str :: "'v cli_lib \<Rightarrow> string \<Rightarrow> string + Network" where
  "network_from_str L s =
     (let name = lower L (trim s) in
      if name \<in> {''testnet'', ''test''} then Ok Testnet
      else if name \<in> {''mainnet'', ''main'', ''finney''} then Ok Mainnet
      else Err name)"

definition active_network :: "Config \<Rightarrow> string" where
  "active_network c = unwrap_or (selected_network c) ''mainnet''"

definition resolved_network :: "'v cli_lib \<Rightarrow> Config \<Rightarrow> Network" where
  "resolved_network L c =
     (case selected_network c of
        None \<Rightarrow> Mainnet
      | Some s \<Rightarrow> (case network_from_str L s of Inr n \<Rightarrow> n | Inl _ \<Rightarrow> Mainnet))"

definition set_network :: "Config \<Rightarrow> Network \<Rightarrow> Config" where
  "set_network c n = c\<lparr>selected_network := Some (network_str n)\<rparr>"

definition active_network_entry :: "Config \<Rightarrow> NetworkEntry option" where
  "active_network_entry c = map_of (networks c) (active_network c)"

definition config_hotkey :: "Config \<Rightarrow> HotkeyRecord option" where
  "config_hotkey c = Option.bind (active_network_entry c) registered_hotkey"

definition active_tokens :: "Config \<Rightarrow> TokenEntry option" where
  "active_tokens c = Option.bind (active_network_entry c) tokens"

definition token_hotkey :: "'v cli_lib \<Rightarrow> Config \<Rightarrow> string option" where
  "token_hotkey L c = Option.bind (active_tokens c) (\<lambda>t. Option.bind (access_token t) (jwt_sub L))"

text \<open>
  The hotkey a report is about (\<^verbatim>\<open>cli/src/earnings.rs\<close>): the login's, else the registered one; without either, the
  error names the network.
\<close>

record ResolvedHotkey =
  resolved_ss58 :: string
  resolved_name :: "string option"

definition resolve_hotkey :: "'v cli_lib \<Rightarrow> Config \<Rightarrow> Network \<Rightarrow> Network + ResolvedHotkey" where
  "resolve_hotkey L c net =
     (case token_hotkey L c of
        Some s \<Rightarrow> Ok \<lparr>resolved_ss58 = s, resolved_name = None\<rparr>
      | None \<Rightarrow> (case config_hotkey c of
          Some r \<Rightarrow> Ok \<lparr>resolved_ss58 = hotkey_ss58 r, resolved_name = hotkey_name r\<rparr>
        | None \<Rightarrow> Err net))"

definition api_url :: "'v cli_lib \<Rightarrow> Config \<Rightarrow> string" where
  "api_url L c =
     (case api_url_override c of
        Some url \<Rightarrow> url
      | None \<Rightarrow>
          unwrap_or (Option.bind (map_of (networks c) (active_network c)) entry_api_url)
            (default_registry_url (resolved_network L c)))"

section \<open>Live workers\<close>

record SlotStatus =
  slot_status :: "string option"
  slot_models :: "string list"

record WorkerEntry =
  w_worker_id :: string
  w_endpoint :: string
  w_status :: string
  image_compose_hash :: "string option"
  last_attestation_at :: "string option"
  attestation_error :: "string option"
  created_at :: "string option"
  last_seen_at :: "string option"
  suspended_at :: "string option"
  next_probe_at :: "string option"
  suspended_reprobe_attempt :: u32
  consecutive_ok :: u32
  supported_models :: "(string, string list) btree_map"
  provider_slot_status :: "(string, (string, SlotStatus) btree_map) btree_map"

definition worker_key :: "WorkerEntry \<Rightarrow> string \<times> string" where
  "worker_key w = (unwrap_or (created_at w) [], w_worker_id w)"

definition key_less :: "string \<times> string \<Rightarrow> string \<times> string \<Rightarrow> bool" where
  "key_less a b \<longleftrightarrow> fst a < fst b \<or> fst a = fst b \<and> snd a < snd b"

text \<open>\<^verbatim>\<open>min_by_key\<close>: the first of the least elements.\<close>

fun oldest :: "WorkerEntry list \<Rightarrow> WorkerEntry option" where
  "oldest [] = None"
| "oldest (w # ws) =
     Some (foldl (\<lambda>best x. if key_less (worker_key x) (worker_key best) then x else best) w ws)"

definition first_live_worker_id :: "WorkerEntry list \<Rightarrow> string option" where
  "first_live_worker_id live = map_option w_worker_id (oldest live)"

definition is_secondary_live :: "WorkerRecord \<Rightarrow> WorkerEntry list \<Rightarrow> bool" where
  "is_secondary_live tracked live =
     (if worker_id tracked = [] then provisional_secondary tracked
      else if \<not> list_ex (\<lambda>w. w_worker_id w = worker_id tracked) live then False
      else first_live_worker_id live \<noteq> Some (worker_id tracked))"

definition DASH :: string where
  "DASH = [CHR 0xE2, CHR 0x80, CHR 0x94]"

definition dead_slot_lines :: "WorkerEntry \<Rightarrow> string list" where
  "dead_slot_lines w =
     concat (map (\<lambda>(prov, slots). map (\<lambda>(slot_id, _).
         ''  unverified key  : '' @ prov @ '' slot '' @ slot_id @ '' '' @ DASH @ '' the registry could not use this key'')
       (filter (\<lambda>(_, st). slot_status st \<noteq> Some ''verified'') slots)) (provider_slot_status w))"

definition relative_suffix :: "'v cli_lib \<Rightarrow> string \<Rightarrow> int \<Rightarrow> string" where
  "relative_suffix L timestamp now =
     (case rfc3339 L timestamp of
        None \<Rightarrow> []
      | Some at \<Rightarrow>
          let seconds = num_seconds (at - now)
          in if seconds \<le> 0 then '' (due now)''
             else if seconds < 60 then '' (in '' @ nat_to_string (nat seconds) @ ''s)''
             else '' (in '' @ nat_to_string (nat (seconds div 60)) @ ''m)'')"

definition suspension_lines :: "'v cli_lib \<Rightarrow> WorkerEntry \<Rightarrow> u32 \<Rightarrow> int \<Rightarrow> string list" where
  "suspension_lines L w required now =
     map ((@) ''  suspended since : '') (option_list (suspended_at w))
     @ map ((@) ''  last seen       : '') (option_list (last_seen_at w))
     @ [case next_probe_at w of
          Some probe \<Rightarrow> ''  next re-probe   : '' @ probe @ relative_suffix L probe now
        | None \<Rightarrow> ''  next re-probe   : on the next control-loop cycle'']
     @ [if required > 0 then
          ''  to recover      : '' @ nat_to_string (unat (consecutive_ok w)) @ '' of '' @ nat_to_string (unat required) @
          '' consecutive good probes so far (re-probe attempt '' @ nat_to_string (unat (suspended_reprobe_attempt w)) @ '')''
        else
          ''  to recover      : '' @ nat_to_string (unat (consecutive_ok w)) @
          '' consecutive good probes so far (re-probe attempt '' @ nat_to_string (unat (suspended_reprobe_attempt w)) @ '')'']
     @ [''  The registry re-probes on its own '' @ DASH @ '' fix the worker and it restores itself.'']"

definition worker_health_lines :: "'v cli_lib \<Rightarrow> WorkerEntry \<Rightarrow> u32 \<Rightarrow> int \<Rightarrow> string list" where
  "worker_health_lines L w required now =
     (let dead = dead_slot_lines w;
          suspended = (w_status w = ''suspended'');
          cause = filter_o (\<lambda>c. c \<noteq> []) (map_option trim (attestation_error w))
      in if \<not> suspended \<and> dead = [] \<and> cause = None then []
         else [[], w_worker_id w @ '' ('' @ w_status w @ '')'']
           @ map ((@) ''  cause           : '') (option_list cause)
           @ (if suspended then suspension_lines L w required now else [])
           @ dead)"

section \<open>Image versions\<close>

record ImageVersion =
  git_tag :: "string option"
  compose_hash :: string
  os_image_hash :: string
  v_status :: string
  v_notes :: "string option"
  v_created_at :: string
  image_ref :: "string option"
  features :: "string list"

definition slot_capable :: "ImageVersion \<Rightarrow> bool" where
  "slot_capable v \<longleftrightarrow> list_ex (\<lambda>f. f = ''upstream-key-slots'') (features v)"

definition cloud_binding_capable :: "ImageVersion \<Rightarrow> bool" where
  "cloud_binding_capable v \<longleftrightarrow> list_ex (\<lambda>f. f = ''upstream-model-hop'') (features v)"

definition bedrock_mantle_model_bindings_capable :: "ImageVersion \<Rightarrow> bool" where
  "bedrock_mantle_model_bindings_capable v \<longleftrightarrow> list_ex (\<lambda>f. f = ''bedrock-mantle-model-bindings-v1'') (features v)"

datatype version_error =
    GetVersions
  | RegistryTooOld
  | VersionsStatus nat string
  | ParseVersions
  | NoVersions
  | NoVersionForTag string
  | PinOutOfRange nat nat
  | PinNotSupported nat
  | NoImageRef

definition created_at_key :: "'v cli_lib \<Rightarrow> ImageVersion \<Rightarrow> int" where
  "created_at_key L v = (case rfc3339 L (v_created_at v) of None \<Rightarrow> min_utc L | Some t \<Rightarrow> t)"

text \<open>The reply to the request: nothing when it cannot be sent, else its status and its body.\<close>

definition fetch_supported_versions ::
    "ImageVersion cli_lib \<Rightarrow> (string \<Rightarrow> (nat \<times> string) option) \<Rightarrow> string \<Rightarrow> version_error + ImageVersion list" where
  "fetch_supported_versions L get registry_url =
     bind_r (ok_or (get (registry_url @ ''/image-versions?status=supported'')) GetVersions) (\<lambda>(st, body).
     bind_r (ensure (st \<noteq> 404) RegistryTooOld) (\<lambda>_.
     bind_r (ensure (200 \<le> st \<and> st < 300) (VersionsStatus st body)) (\<lambda>_.
     bind_r (ok_or (decode_versions L body) ParseVersions) (\<lambda>versions.
     Ok (sort_key (\<lambda>v. - created_at_key L v) versions)))))"

text \<open>\<open>release\<close> is the version of this CLI (\<^verbatim>\<open>CARGO_PKG_VERSION\<close>).\<close>

definition select_version :: "string \<Rightarrow> ImageVersion list \<Rightarrow> nat option \<Rightarrow> version_error + ImageVersion" where
  "select_version release versions pin =
     (if versions = [] then Err NoVersions
      else case pin of
        None \<Rightarrow>
          ok_or (find (\<lambda>v. v_status v = ''supported'' \<and> git_tag v = Some (''v'' @ release)) versions)
            (NoVersionForTag (''v'' @ release))
      | Some n \<Rightarrow>
          if n = 0 \<or> n > length versions then Err (PinOutOfRange n (length versions))
          else if v_status (versions ! (n - 1)) \<noteq> ''supported'' then Err (PinNotSupported n)
          else Ok (versions ! (n - 1)))"

datatype ImageSource = Prebuilt string | Build

definition resolve_image_source :: "string option \<Rightarrow> string option \<Rightarrow> string option \<Rightarrow> version_error + ImageSource" where
  "resolve_image_source image_ref_flag image_repo_flag supported_image_ref =
     (case image_ref_flag of
        Some explicit \<Rightarrow> Ok (Prebuilt explicit)
      | None \<Rightarrow>
          if image_repo_flag \<noteq> None then Ok Build
          else (case supported_image_ref of
            Some supported \<Rightarrow> Ok (Prebuilt supported)
          | None \<Rightarrow> Err NoImageRef))"

section \<open>Measured hashes\<close>

record DstackDeployResult =
  d_compose_sha256 :: string
  d_os_image_hash :: string

definition normalize_hash :: "'v cli_lib \<Rightarrow> string \<Rightarrow> string" where
  "normalize_hash L hash =
     (let lowered = lower L hash in
      case strip_prefix ''sha256:'' lowered of Some stripped \<Rightarrow> stripped | None \<Rightarrow> lowered)"

definition hash_part :: "string \<Rightarrow> string \<Rightarrow> string \<Rightarrow> string" where
  "hash_part name expected actual =
     ''  '' @ name @ [LF] @ ''    expected (registry): '' @ expected @ [LF] @ ''    actual (phala):      '' @ actual @ [LF, LF]"

definition verify_hashes :: "'v cli_lib \<Rightarrow> DstackDeployResult \<Rightarrow> ImageVersion \<Rightarrow> string + DstackDeployResult" where
  "verify_hashes L actual approved =
     (let normalized = \<lparr>d_compose_sha256 = normalize_hash L (d_compose_sha256 actual),
            d_os_image_hash = normalize_hash L (d_os_image_hash actual)\<rparr>;
          compose_match = (d_compose_sha256 normalized = normalize_hash L (compose_hash approved));
          os_match = (d_os_image_hash normalized = normalize_hash L (os_image_hash approved))
      in if compose_match \<and> os_match then Ok normalized
         else Err (''HASH MISMATCH '' @ DASH @ '' deployment is suspect; refusing to register.'' @ [LF, LF]
           @ (if compose_match then [] else hash_part ''compose_hash'' (compose_hash approved) (d_compose_sha256 actual))
           @ (if os_match then [] else hash_part ''os_image_hash'' (os_image_hash approved) (d_os_image_hash actual))
           @ ''If you believe this is a legitimate new build, wait for the registry to publish a new approved version and retry.''))"

section \<open>Laws of the records\<close>

text \<open>No two records share a name, and no two registered ones a registry id.\<close>

definition records_wf :: "WorkerRecord list \<Rightarrow> bool" where
  "records_wf ws \<longleftrightarrow> distinct (map app_name ws) \<and> distinct (filter (\<lambda>i. i \<noteq> []) (map worker_id ws))"

lemma position_None: "position P xs = None \<longleftrightarrow> filter P xs = []"
  by (induction xs) auto

lemma position_split: "position P xs = Some i \<Longrightarrow> \<exists>a x b. xs = a @ x # b \<and> length a = i \<and> P x \<and> (\<forall>y \<in> set a. \<not> P y)"
proof (induction xs arbitrary: i)
  case (Cons y ys)
  show ?case
  proof (cases "P y")
    case False
    with Cons.prems obtain j where "position P ys = Some j" "i = Suc j" by auto
    with Cons.IH obtain a x b where "ys = a @ x # b" "length a = j" "P x" "\<forall>z \<in> set a. \<not> P z" by blast
    with False \<open>i = Suc j\<close> show ?thesis by (intro exI [of _ "y # a"] exI [of _ x] exI [of _ b]) auto
  qed (use Cons.prems in auto)
qed simp

text \<open>The new record stands where the first record it replaces was.\<close>

lemma upsert_place:
  "workers (upsert_worker e r) = takeWhile (\<lambda>w. \<not> same_record r w) (workers e)
     @ r # filter (\<lambda>w. \<not> same_record r w) (dropWhile (\<lambda>w. \<not> same_record r w) (workers e))"
proof (cases "position (same_record r) (workers e)")
  case None
  then have none: "\<forall>w \<in> set (workers e). \<not> same_record r w" by (simp add: position_None filter_empty_conv)
  then have "takeWhile (\<lambda>w. \<not> same_record r w) (workers e) = workers e" "dropWhile (\<lambda>w. \<not> same_record r w) (workers e) = []"
    by (simp_all add: takeWhile_eq_all_conv dropWhile_eq_Nil_conv)
  then show ?thesis using None by (simp only: upsert_worker_def Let_def) simp
next
  case (Some i)
  from position_split [OF this] obtain a x b where ws: "workers e = a @ x # b" "length a = i" "same_record r x"
    "\<forall>y \<in> set a. \<not> same_record r y" by blast
  then have "takeWhile (\<lambda>w. \<not> same_record r w) (workers e) = a" "dropWhile (\<lambda>w. \<not> same_record r w) (workers e) = x # b"
    by (simp_all add: takeWhile_append dropWhile_append)
  moreover have "filter (\<lambda>w. \<not> same_record r w) a = a" using ws(4) by simp
  ultimately show ?thesis using Some ws by (simp add: upsert_worker_def Let_def insert_at_def)
qed

lemma same_record_self [simp]: "same_record r r"
  by (simp add: same_record_def)

lemma records_wf_filter: "records_wf ws \<Longrightarrow> records_wf (filter P ws)"
  unfolding records_wf_def
  by (induction ws) (auto split: if_splits)

lemma records_wf_insert:
  assumes "records_wf (a @ b)" and "\<forall>w \<in> set (a @ b). \<not> same_record r w"
  shows "records_wf (a @ r # b)"
  using assms by (auto simp: records_wf_def same_record_def)

lemma find_inserted: "\<forall>w \<in> set a. \<not> P w \<Longrightarrow> P r \<Longrightarrow> find P (a @ r # b) = Some r"
  by (induction a) auto

section \<open>Laws of images and hashes\<close>

text \<open>A deploy goes on only with the hashes of the approved image, in canonical form.\<close>

lemma verify_hashes_Ok:
  "verify_hashes L actual approved = Ok r \<longleftrightarrow>
     normalize_hash L (d_compose_sha256 actual) = normalize_hash L (compose_hash approved)
     \<and> normalize_hash L (d_os_image_hash actual) = normalize_hash L (os_image_hash approved)
     \<and> r = \<lparr>d_compose_sha256 = normalize_hash L (compose_hash approved), d_os_image_hash = normalize_hash L (os_image_hash approved)\<rparr>"
  by (auto simp: verify_hashes_def Let_def split: if_splits)

text \<open>A selected image is supported and is the one of this release, or the pinned one.\<close>

lemma select_version_Ok:
  "select_version release versions pin = Ok v \<Longrightarrow> v \<in> set versions \<and> v_status v = ''supported''
     \<and> (case pin of None \<Rightarrow> git_tag v = Some (''v'' @ release) | Some n \<Rightarrow> 0 < n \<and> n \<le> length versions \<and> v = versions ! (n - 1))"
  by (auto simp: select_version_def result_simps find_Some_iff split: if_splits option.splits)

section \<open>Laws of the live list\<close>

lemma pair_less:
  fixes a b c :: "'a::linorder" and p q r :: "'b::linorder"
  shows "a < b \<or> a = b \<and> p < q \<Longrightarrow> \<not> (a < c \<or> a = c \<and> p < r) \<Longrightarrow> \<not> (b < c \<or> b = c \<and> q < r)"
    and "\<not> (a < b \<or> a = b \<and> p < q) \<Longrightarrow> \<not> (b < c \<or> b = c \<and> q < r) \<Longrightarrow> \<not> (a < c \<or> a = c \<and> p < r)"
  by (auto simp: not_less dest: order.strict_trans order.strict_trans1 order.strict_trans2)

lemma key_less_trans:
  "key_less x b \<Longrightarrow> \<not> key_less x w \<Longrightarrow> \<not> key_less b w"
  "\<not> key_less x b \<Longrightarrow> \<not> key_less b w \<Longrightarrow> \<not> key_less x w"
  unfolding key_less_def by (rule pair_less; assumption)+

lemma oldest_least:
  "oldest live = Some w \<Longrightarrow> w \<in> set live \<and> (\<forall>x \<in> set live. \<not> key_less (worker_key x) (worker_key w))"
proof -
  have fold: "foldl (\<lambda>best x. if key_less (worker_key x) (worker_key best) then x else best) b ws = w \<Longrightarrow>
      w \<in> insert b (set ws) \<and> (\<forall>x \<in> insert b (set ws). \<not> key_less (worker_key x) (worker_key w))" for b ws
  proof (induction ws arbitrary: b)
    case (Cons x ws)
    show ?case
    proof (cases "key_less (worker_key x) (worker_key b)")
      case True
      with Cons.prems have "w \<in> insert x (set ws) \<and> (\<forall>y \<in> insert x (set ws). \<not> key_less (worker_key y) (worker_key w))"
        by (intro Cons.IH) simp
      with key_less_trans(1) [OF True] show ?thesis by auto
    next
      case False
      with Cons.prems have "w \<in> insert b (set ws) \<and> (\<forall>y \<in> insert b (set ws). \<not> key_less (worker_key y) (worker_key w))"
        by (intro Cons.IH) simp
      with key_less_trans(2) [OF False] show ?thesis by auto
    qed
  qed (simp add: key_less_def)
  show "oldest live = Some w \<Longrightarrow> ?thesis" using fold by (cases live) auto
qed

text \<open>
  A deploy that is not refused as secondary registers under a record that is new, gone from the live list, or that of
  the oldest live worker: no other live worker's row can be overwritten.
\<close>

lemma not_secondary:
  assumes "\<not> is_secondary_live tracked live" and "w \<in> set live" and "w_worker_id w = worker_id tracked"
    and "worker_id tracked \<noteq> []" and "distinct (map w_worker_id live)"
  shows "\<forall>x \<in> set live. x = w \<or> key_less (worker_key w) (worker_key x)"
proof -
  from assms have "first_live_worker_id live = Some (worker_id tracked)"
    by (auto simp: is_secondary_live_def list_ex_iff split: if_splits)
  then obtain o' where o': "oldest live = Some o'" "w_worker_id o' = worker_id tracked"
    by (auto simp: first_live_worker_id_def)
  from oldest_least [OF o'(1)] o'(2) assms(2,3,5) have "o' = w"
    by (metis (mono_tags, opaque_lifting) distinct_map inj_onD)
  with oldest_least [OF o'(1)] assms(2,5) show ?thesis
    by (auto simp: key_less_def worker_key_def distinct_map inj_on_def) (metis linorder_neqE)+
qed

section \<open>Properties\<close>

text \<open>
  C36: Saving a worker puts the new record where the first record of the same name or registry id was, at the end
  if there is none, and drops the other such records; all others stay in order. Records stay distinct, both lookups
  find the new record, and the legacy secret is gone.
\<close>

theorem upsert_worker_exact:
  assumes "records_wf (workers e)"
  shows "records_wf (workers (upsert_worker e r))
    \<and> workers (upsert_worker e r) = takeWhile (\<lambda>w. \<not> same_record r w) (workers e)
        @ r # filter (\<lambda>w. \<not> same_record r w) (dropWhile (\<lambda>w. \<not> same_record r w) (workers e))
    \<and> filter (\<lambda>w. \<not> same_record r w) (workers (upsert_worker e r)) = filter (\<lambda>w. \<not> same_record r w) (workers e)
    \<and> filter (same_record r) (workers (upsert_worker e r)) = [r]
    \<and> worker_by_app_name (upsert_worker e r) (app_name r) = Some r
    \<and> (worker_id r \<noteq> [] \<longrightarrow> worker_by_id (upsert_worker e r) (worker_id r) = Some r)
    \<and> legacy_secret (upsert_worker e r) = None"
proof -
  define a where "a = takeWhile (\<lambda>w. \<not> same_record r w) (workers e)"
  define b where "b = filter (\<lambda>w. \<not> same_record r w) (dropWhile (\<lambda>w. \<not> same_record r w) (workers e))"
  have place: "workers (upsert_worker e r) = a @ r # b" by (simp add: upsert_place a_def b_def)
  have whole: "workers e = takeWhile (\<lambda>w. \<not> same_record r w) (workers e) @ dropWhile (\<lambda>w. \<not> same_record r w) (workers e)"
    by simp
  have "filter Q (takeWhile Q xs) = takeWhile Q xs" for Q :: "WorkerRecord \<Rightarrow> bool" and xs
    by (induction xs) auto
  then have ab: "filter (\<lambda>w. \<not> same_record r w) (workers e) = a @ b"
    unfolding a_def b_def by (subst whole) (simp only: filter_append)
  then have others: "\<forall>w \<in> set (a @ b). \<not> same_record r w" by (metis mem_Collect_eq set_filter)
  then have "filter (same_record r) a = []" "filter (same_record r) b = []" "filter (\<lambda>w. \<not> same_record r w) a = a"
    "filter (\<lambda>w. \<not> same_record r w) b = b" by (auto simp: filter_empty_conv)
  moreover have "records_wf (a @ r # b)"
    using records_wf_filter [OF assms] ab(1) others by (metis records_wf_insert)
  moreover have "find (\<lambda>w. app_name w = app_name r) (a @ r # b) = Some r"
    using others by (intro find_inserted) (auto simp: same_record_def)
  moreover have "worker_id r \<noteq> [] \<Longrightarrow> find (\<lambda>w. worker_id w = worker_id r) (a @ r # b) = Some r"
    using others by (intro find_inserted) (auto simp: same_record_def)
  ultimately show ?thesis
    unfolding a_def [symmetric] b_def [symmetric]
    by (simp add: ab place worker_by_app_name_def worker_by_id_def) (simp add: upsert_worker_def Let_def)
qed

definition demo_record :: "string \<Rightarrow> string \<Rightarrow> WorkerRecord" where
  "demo_record i name = \<lparr>worker_id = i, app_id = ''app'', app_name = name, node_secret = ''s'', backends = Some [],
     provider_slots = None, provisional_secondary = False\<rparr>"

theorem upsert_worker_exact_witness:
  "workers (upsert_worker \<lparr>entry_api_url = None, tokens = None, workers = [demo_record ''1'' ''a'', demo_record [] ''b''],
       registered_hotkey = None, legacy_secret = None\<rparr> (demo_record ''1'' ''b'')) = [demo_record ''1'' ''b'']
   \<and> records_wf [demo_record ''1'' ''b'']"
proof -
  let ?e = "\<lparr>entry_api_url = None, tokens = None, workers = [demo_record ''1'' ''a'', demo_record [] ''b''], registered_hotkey = None, legacy_secret = None\<rparr>"
  have "records_wf (workers ?e)" by (simp add: records_wf_def demo_record_def)
  from upsert_worker_exact [OF this, of "demo_record ''1'' ''b''"] show ?thesis
    by (simp add: upsert_worker_def Let_def insert_at_def same_record_def demo_record_def records_wf_def)
qed

end
