(* ===== verification/Cloud_Policy.thy ===== *)
theory Cloud_Policy
  imports Cli_Workers
begin

text \<open>
  Whether a declaration must pass the registry's cloud capability fence (\<^verbatim>\<open>cli/src/cloud_policy.rs\<close>): from the
  selectors of the configuration, the recorded workers, the registry's live workers and the features of their images.

  The registry's answers are arguments: a status and a body for each request, or nothing when it cannot be sent. The
  serde decoders of the two replies are the fields of \<open>cloud_lib\<close>; errors are only logged and are constructors.
\<close>

record CloudDeclarationPolicy =
  requires_capability :: bool
  exclude_from_bulk :: bool

definition DIRECT :: CloudDeclarationPolicy where
  "DIRECT = \<lparr>requires_capability = False, exclude_from_bulk = False\<rparr>"

definition FENCED :: CloudDeclarationPolicy where
  "FENCED = \<lparr>requires_capability = True, exclude_from_bulk = True\<rparr>"

definition FENCED_BUT_DIRECT :: CloudDeclarationPolicy where
  "FENCED_BUT_DIRECT = \<lparr>requires_capability = True, exclude_from_bulk = False\<rparr>"

record cloud_lib =
  cli :: "ImageVersion cli_lib"
  decode_hotkey :: "string \<Rightarrow> string option"
  decode_workers :: "string \<Rightarrow> WorkerEntry list option"

text \<open>What the registry and the public endpoint answer to the requests of one decision.\<close>

record registry_answers =
  get_registry :: "string \<Rightarrow> (nat \<times> string) option"
  get_public :: "string \<Rightarrow> (nat \<times> string) option"

definition configured_cloud_backend :: "Config \<Rightarrow> string \<Rightarrow> string option" where
  "configured_cloud_backend c prov =
     (let selector = Option.bind (provider_keys c) (\<lambda>keys.
            if prov = ''anthropic'' then anthropic_upstream keys
            else if prov = ''openai'' then openai_upstream keys else None)
      in if prov = ''anthropic'' \<and> selector = Some ''bedrock'' then Some ''bedrock''
         else if prov = ''anthropic'' \<and> selector = Some ''foundry'' then Some ''foundry''
         else if prov = ''openai'' \<and> selector = Some ''azure'' then Some ''azure''
         else None)"

definition recorded_worker_requires_cloud_fence :: "WorkerRecord \<Rightarrow> string \<Rightarrow> bool" where
  "recorded_worker_requires_cloud_fence record prov = is_none_or (\<lambda>b. hm_contains b prov) (backends record)"

definition active_workers :: "Config \<Rightarrow> WorkerRecord list" where
  "active_workers c = (case active_network_entry c of None \<Rightarrow> [] | Some e \<Rightarrow> workers e)"

definition has_explicit_cloud_provenance :: "Config \<Rightarrow> string \<Rightarrow> bool" where
  "has_explicit_cloud_provenance c prov \<longleftrightarrow>
     configured_cloud_backend c prov \<noteq> None
     \<or> list_ex (\<lambda>w. is_some_and (\<lambda>b. hm_contains b prov) (backends w)) (active_workers c)"

datatype live_error =
    MeUnreachable
  | MeStatus nat string
  | MeMalformed
  | WorkersUnreachable
  | WorkersStatus string nat string
  | WorkersMalformed string

definition is_success :: "nat \<Rightarrow> bool" where
  "is_success st \<longleftrightarrow> 200 \<le> st \<and> st < 300"

definition fetch_live_workers :: "cloud_lib \<Rightarrow> registry_answers \<Rightarrow> live_error + WorkerEntry list option" where
  "fetch_live_workers L R =
     bind_r (ok_or (get_registry R ''/miners/me'') MeUnreachable) (\<lambda>(st, body).
     if st = 404 then Ok None
     else bind_r (ensure (is_success st) (MeStatus st body)) (\<lambda>_.
       bind_r (ok_or (decode_hotkey L body) MeMalformed) (\<lambda>hotkey.
       let path = ''/miners/'' @ hotkey @ ''/workers'' in
       bind_r (ok_or (get_registry R path) WorkersUnreachable) (\<lambda>(st, body).
       bind_r (ensure (is_success st) (WorkersStatus path st body)) (\<lambda>_.
       bind_r (ok_or (decode_workers L body) (WorkersMalformed path)) (\<lambda>ws. Ok (Some ws)))))))"

text \<open>What the loop over the live workers has found: unknown provenance, cloud provenance, a binding image.\<close>

record provenance =
  has_unknown :: bool
  has_cloud :: bool
  has_binding_image :: bool

definition image_of :: "cloud_lib \<Rightarrow> ImageVersion list \<Rightarrow> WorkerEntry \<Rightarrow> ImageVersion option" where
  "image_of L versions w =
     Option.bind (image_compose_hash w) (\<lambda>hash.
       find (\<lambda>v. normalize_hash (cli L) (compose_hash v) = normalize_hash (cli L) hash) versions)"

definition note_worker ::
    "cloud_lib \<Rightarrow> string \<Rightarrow> ImageVersion list \<Rightarrow> WorkerRecord list \<Rightarrow> provenance \<Rightarrow> WorkerEntry \<Rightarrow> provenance" where
  "note_worker L prov versions recs p w =
     (case image_of L versions w of
        None \<Rightarrow> p\<lparr>has_unknown := True\<rparr>
      | Some img \<Rightarrow>
          let p = p\<lparr>has_binding_image := has_binding_image p \<or> cloud_binding_capable img\<rparr> in
          (case find (\<lambda>r. worker_id r = w_worker_id w) recs of
             None \<Rightarrow> p\<lparr>has_unknown := True\<rparr>
           | Some r \<Rightarrow> p\<lparr>has_cloud := has_cloud p \<or> recorded_worker_requires_cloud_fence r prov\<rparr>))"

definition declaration_policy :: "cloud_lib \<Rightarrow> registry_answers \<Rightarrow> Config \<Rightarrow> string \<Rightarrow> CloudDeclarationPolicy" where
  "declaration_policy L R c prov =
     (if prov \<notin> {''anthropic'', ''openai''} then DIRECT
      else if has_explicit_cloud_provenance c prov then FENCED
      else
        let has_unknown_local = list_ex (\<lambda>w. backends w = None) (active_workers c);
            no_live = (if has_unknown_local then FENCED else DIRECT)
        in case fetch_live_workers L R of
             Inl _ \<Rightarrow> FENCED
           | Inr None \<Rightarrow> no_live
           | Inr (Some live) \<Rightarrow>
               if live = [] then no_live
               else (case fetch_supported_versions (cli L) (get_public R) (api_url (cli L) c) of
                 Inl _ \<Rightarrow> FENCED
               | Inr versions \<Rightarrow>
                   let p = foldl (note_worker L prov versions (active_workers c))
                         \<lparr>has_unknown = False, has_cloud = False, has_binding_image = False\<rparr> live
                   in if has_cloud p \<or> has_unknown p then FENCED
                      else if has_binding_image p then FENCED_BUT_DIRECT
                      else DIRECT))"

definition cloud_fence_required_for_worker :: "Config \<Rightarrow> string \<Rightarrow> (string, string) btree_map \<Rightarrow> bool" where
  "cloud_fence_required_for_worker c name current_backends \<longleftrightarrow>
     is_some_and (\<lambda>keys. worker_backends keys \<noteq> []) (provider_keys c)
     \<or> current_backends \<noteq> []
     \<or> is_some_and (\<lambda>w. is_none_or (\<lambda>b. b \<noteq> []) (backends w))
         (Option.bind (active_network_entry c) (\<lambda>e. worker_by_app_name e name))"

definition cloud_fence_required_for_image_recovery :: "Config \<Rightarrow> WorkerRecord option \<Rightarrow> bool" where
  "cloud_fence_required_for_image_recovery c record \<longleftrightarrow>
     is_some_and (\<lambda>keys. worker_backends keys \<noteq> []) (provider_keys c)
     \<or> is_none_or (\<lambda>w. is_none_or (\<lambda>b. b \<noteq> []) (backends w)) record"

section \<open>Laws\<close>

text \<open>A live worker is known to be direct: a supported image, and a record whose backends are known and lack the provider.\<close>

definition known_direct :: "cloud_lib \<Rightarrow> string \<Rightarrow> ImageVersion list \<Rightarrow> WorkerRecord list \<Rightarrow> WorkerEntry \<Rightarrow> bool" where
  "known_direct L prov versions recs w \<longleftrightarrow>
     (\<exists>img r b. image_of L versions w = Some img
        \<and> find (\<lambda>r. worker_id r = w_worker_id w) recs = Some r \<and> backends r = Some b \<and> map_of b prov = None)"

lemma foldl_note:
  "(\<not> has_unknown (foldl (note_worker L prov versions recs) p live) \<and> \<not> has_cloud (foldl (note_worker L prov versions recs) p live))
     \<longleftrightarrow> \<not> has_unknown p \<and> \<not> has_cloud p \<and> (\<forall>w \<in> set live. known_direct L prov versions recs w)"
proof (induction live arbitrary: p)
  case (Cons w live)
  have "\<not> has_unknown (note_worker L prov versions recs p w) \<and> \<not> has_cloud (note_worker L prov versions recs p w)
      \<longleftrightarrow> \<not> has_unknown p \<and> \<not> has_cloud p \<and> known_direct L prov versions recs w"
    by (auto simp: note_worker_def Let_def known_direct_def recorded_worker_requires_cloud_fence_def is_none_or_def
        hm_contains_def split: option.split)
  with Cons.IH [of "note_worker L prov versions recs p w"] show ?case by auto
qed simp

lemma foldl_binding:
  assumes "\<forall>w \<in> set live. known_direct L prov versions recs w"
  shows "has_binding_image (foldl (note_worker L prov versions recs) p live)
     \<longleftrightarrow> has_binding_image p \<or> (\<exists>w \<in> set live. is_some_and cloud_binding_capable (image_of L versions w))"
  using assms
proof (induction live arbitrary: p)
  case (Cons w live)
  then have "has_binding_image (note_worker L prov versions recs p w)
      \<longleftrightarrow> has_binding_image p \<or> is_some_and cloud_binding_capable (image_of L versions w)"
    by (auto simp: note_worker_def Let_def known_direct_def split: option.split)
  with Cons show ?case by auto
qed simp

text \<open>The two situations in which nothing of a provider's supply is in the cloud, as far as anyone can tell.\<close>

definition none_live :: "cloud_lib \<Rightarrow> registry_answers \<Rightarrow> Config \<Rightarrow> bool" where
  "none_live L R c \<longleftrightarrow> (fetch_live_workers L R = Ok None \<or> fetch_live_workers L R = Ok (Some []))
     \<and> list_all (\<lambda>w. backends w \<noteq> None) (active_workers c)"

definition live_direct :: "cloud_lib \<Rightarrow> registry_answers \<Rightarrow> Config \<Rightarrow> string \<Rightarrow> WorkerEntry list \<Rightarrow> ImageVersion list \<Rightarrow> bool" where
  "live_direct L R c prov live versions \<longleftrightarrow> fetch_live_workers L R = Ok (Some live) \<and> live \<noteq> []
     \<and> fetch_supported_versions (cli L) (get_public R) (api_url (cli L) c) = Ok versions
     \<and> list_all (known_direct L prov versions (active_workers c)) live"

lemma policy_distinct: "FENCED \<noteq> DIRECT" "FENCED_BUT_DIRECT \<noteq> DIRECT" "FENCED \<noteq> FENCED_BUT_DIRECT"
  "exclude_from_bulk FENCED" "\<not> exclude_from_bulk DIRECT" "\<not> exclude_from_bulk FENCED_BUT_DIRECT"
  "DIRECT \<noteq> FENCED" "DIRECT \<noteq> FENCED_BUT_DIRECT" "FENCED_BUT_DIRECT \<noteq> FENCED"
  "requires_capability FENCED" "\<not> requires_capability DIRECT" "requires_capability FENCED_BUT_DIRECT"
  by (simp_all add: FENCED_def DIRECT_def FENCED_BUT_DIRECT_def)

section \<open>Properties\<close>

text \<open>
  C37: The three policies of a cloud-capable provider are told apart exactly. Supply is known to be direct when no
  selector and no record names a cloud backend, and either the registry says there is no live worker and every record's
  backends are known, or every live worker runs a listed image and has a record whose backends are known and lack the
  provider. Known-direct supply needs no fence unless a live worker's image has the binding feature; then it is
  fenced but stays in bulk declarations. Everything else is fenced and left out of bulk declarations.
\<close>

theorem direct_policy_exact:
  assumes "prov \<in> {''anthropic'', ''openai''}"
  shows "(declaration_policy L R c prov = DIRECT \<longleftrightarrow> \<not> has_explicit_cloud_provenance c prov
       \<and> (none_live L R c \<or> (\<exists>live versions. live_direct L R c prov live versions
            \<and> list_all (\<lambda>w. \<not> is_some_and cloud_binding_capable (image_of L versions w)) live)))
    \<and> (declaration_policy L R c prov = FENCED_BUT_DIRECT \<longleftrightarrow> \<not> has_explicit_cloud_provenance c prov
       \<and> (\<exists>live versions. live_direct L R c prov live versions
            \<and> list_ex (\<lambda>w. is_some_and cloud_binding_capable (image_of L versions w)) live))
    \<and> declaration_policy L R c prov \<in> {DIRECT, FENCED_BUT_DIRECT, FENCED}
    \<and> (exclude_from_bulk (declaration_policy L R c prov) \<longleftrightarrow>
       has_explicit_cloud_provenance c prov \<or> \<not> (none_live L R c \<or> (\<exists>live versions. live_direct L R c prov live versions)))
    \<and> (requires_capability (declaration_policy L R c prov) \<longleftrightarrow> declaration_policy L R c prov \<noteq> DIRECT)"
proof (cases "has_explicit_cloud_provenance c prov")
  case False
  let ?start = "\<lparr>has_unknown = False, has_cloud = False, has_binding_image = False\<rparr>"
  have unknown: "list_ex (\<lambda>w. backends w = None) (active_workers c) \<longleftrightarrow> \<not> list_all (\<lambda>w. backends w \<noteq> None) (active_workers c)"
    by (auto simp: list_ex_iff list_all_iff)
  show ?thesis
  proof (cases "\<exists>live versions. fetch_live_workers L R = Ok (Some live) \<and> live \<noteq> []
      \<and> fetch_supported_versions (cli L) (get_public R) (api_url (cli L) c) = Ok versions")
    case True
    then obtain live versions where lv: "fetch_live_workers L R = Ok (Some live)" "live \<noteq> []"
      "fetch_supported_versions (cli L) (get_public R) (api_url (cli L) c) = Ok versions" by blast
    then have "live_direct L R c prov l v \<longleftrightarrow> l = live \<and> v = versions \<and> list_all (known_direct L prov versions (active_workers c)) live" for l v
      by (auto simp: live_direct_def)
    moreover have "\<not> none_live L R c" using lv by (simp add: none_live_def)
    moreover note foldl_note [of L prov versions "active_workers c" ?start live]
      foldl_binding [of live L prov versions "active_workers c" ?start]
    ultimately show ?thesis
      using assms False lv
      by (auto simp: declaration_policy_def Let_def policy_distinct list_all_iff list_ex_iff)
  next
    case no: False
    then have "\<not> live_direct L R c prov l v" for l v by (auto simp: live_direct_def)
    with no assms False show ?thesis
      by (auto simp: declaration_policy_def Let_def policy_distinct none_live_def unknown split: sum.split option.split)
  qed
qed (use assms in \<open>auto simp: declaration_policy_def policy_distinct\<close>)

definition demo_image :: ImageVersion where
  "demo_image = \<lparr>git_tag = Some ''v1'', compose_hash = ''c'', os_image_hash = ''o'', v_status = ''supported'', v_notes = None, v_created_at = ''t'',
     image_ref = None, features = []\<rparr>"

definition demo_worker :: WorkerEntry where
  "demo_worker = \<lparr>w_worker_id = ''1'', w_endpoint = ''e'', w_status = ''active'', image_compose_hash = Some ''c'', last_attestation_at = None, attestation_error = None,
     created_at = None, last_seen_at = None, suspended_at = None, next_probe_at = None, suspended_reprobe_attempt = 0,
     consecutive_ok = 0, supported_models = [], provider_slot_status = []\<rparr>"

definition demo_cloud :: cloud_lib where
  "demo_cloud = \<lparr>cli = \<lparr>lower = id, rfc3339 = (\<lambda>_. None), min_utc = 0, decode_versions = (\<lambda>_. Some [demo_image]), b64url_nopad = Some, json_from_slice = (\<lambda>_. None)\<rparr>,
     decode_hotkey = Some, decode_workers = (\<lambda>_. Some [demo_worker])\<rparr>"

definition demo_answers :: registry_answers where
  "demo_answers = \<lparr>get_registry = (\<lambda>_. Some (200, ''h'')), get_public = (\<lambda>_. Some (200, ''v''))\<rparr>"

definition demo_config :: Config where
  "demo_config = \<lparr>networks = [(''mainnet'', \<lparr>entry_api_url = None, tokens = None, workers = [demo_record ''1'' ''a''], registered_hotkey = None,
     legacy_secret = None\<rparr>)], selected_network = None, accepted_terms = None, provider_keys = None, phala_api_key = None, api_url_override = None\<rparr>"

theorem direct_policy_exact_witness:
  "declaration_policy demo_cloud demo_answers demo_config ''openai'' = DIRECT
   \<and> \<not> exclude_from_bulk (declaration_policy demo_cloud demo_answers demo_config ''openai'')"
proof -
  have ws: "active_workers demo_config = [demo_record ''1'' ''a'']"
    by (simp add: active_workers_def active_network_entry_def active_network_def unwrap_or_def demo_config_def)
  have image: "image_of demo_cloud [demo_image] demo_worker = Some demo_image"
    by (simp add: image_of_def demo_worker_def demo_image_def)
  have "provider_keys demo_config = None" "backends (demo_record i n) = Some []" for i n
    by (simp_all add: demo_config_def demo_record_def)
  then have "\<not> has_explicit_cloud_provenance demo_config ''openai''"
    by (simp add: has_explicit_cloud_provenance_def ws configured_cloud_backend_def hm_contains_def)
  moreover have "live_direct demo_cloud demo_answers demo_config ''openai'' [demo_worker] [demo_image]"
    by (simp add: live_direct_def ws known_direct_def image fetch_live_workers_def fetch_supported_versions_def is_success_def
        demo_answers_def Let_def) (simp add: demo_cloud_def demo_worker_def demo_record_def)
  moreover have "list_all (\<lambda>w. \<not> is_some_and cloud_binding_capable (image_of demo_cloud [demo_image] w)) [demo_worker]"
    by (simp add: image) (simp add: demo_image_def cloud_binding_capable_def)
  ultimately show ?thesis
    using direct_policy_exact [of "''openai''" demo_cloud demo_answers demo_config] by blast
qed

end
