(* ===== verification/Streaming_Probe.thy ===== *)
theory Streaming_Probe
  imports Cli_Base Strict_Json "HOL-Library.Log_Nat" "HOL-Library.Sublist"
begin

text \<open>
  The streaming self-test's reading of an answer (\<^verbatim>\<open>cli/src/commands/streaming_check.rs\<close>): the parser that notes when
  content arrives, and the classifier of the arrival times.

  Times are nanoseconds since the request. The parser of serde_json is the parameter \<open>from_str\<close>. A 64-bit
  float is the rational number it holds; \<open>f64\<close> rounds to the nearest float with 53 significant bits, ties to even,
  which is exact for the magnitudes that occur here (no overflow, nothing subnormal).
\<close>

named_theorems probe_simps

section \<open>Lossy decoding\<close>

text \<open>
  \<^verbatim>\<open>String::from_utf8_lossy\<close>: a byte that starts a character, with the ranges its continuation bytes must lie in; the
  longest part of a character that is not completed becomes one replacement character.
\<close>

definition tail_ranges :: "nat \<Rightarrow> (nat \<times> nat) list option" where
  "tail_ranges b =
     (if b < 0x80 then Some []
      else if 0xC2 \<le> b \<and> b \<le> 0xDF then Some [(0x80, 0xBF)]
      else if 0xE0 \<le> b \<and> b \<le> 0xEF then
        Some [(if b = 0xE0 then 0xA0 else 0x80, if b = 0xED then 0x9F else 0xBF), (0x80, 0xBF)]
      else if 0xF0 \<le> b \<and> b \<le> 0xF4 then
        Some [(if b = 0xF0 then 0x90 else 0x80, if b = 0xF4 then 0x8F else 0xBF), (0x80, 0xBF), (0x80, 0xBF)]
      else None)"

fun matched :: "(nat \<times> nat) list \<Rightarrow> string \<Rightarrow> nat" where
  "matched ((lo, hi) # rs) (c # s) = (if cont lo hi c then Suc (matched rs s) else 0)"
| "matched _ _ = 0"

definition REPLACEMENT :: string where
  "REPLACEMENT = [CHR 0xEF, CHR 0xBF, CHR 0xBD]"

function utf8_lossy :: "string \<Rightarrow> string" where
  "utf8_lossy [] = []"
| "utf8_lossy (a # s) =
     (case tail_ranges (byte_of a) of
        None \<Rightarrow> REPLACEMENT @ utf8_lossy s
      | Some rs \<Rightarrow>
          let n = matched rs s in
          (if n = length rs then a # take n s else REPLACEMENT) @ utf8_lossy (drop n s))"
  by pat_completeness auto
termination by (relation "measure length") (auto simp: le_imp_less_Suc)

section \<open>Content of an event\<close>

fun json_has_generated_text :: "json \<Rightarrow> bool"
and value_contains_generated_text :: "json \<Rightarrow> bool"
and any_generated :: "json list \<Rightarrow> bool"
and member_generated :: "(string \<times> json) list \<Rightarrow> bool" where
  "json_has_generated_text (JArray vs) = any_generated vs"
| "json_has_generated_text (JObject m) = member_generated m"
| "json_has_generated_text _ = False"
| "value_contains_generated_text (JString s) = (trim s \<noteq> [])"
| "value_contains_generated_text (JArray vs) = any_generated vs"
| "value_contains_generated_text (JObject m) = member_generated m"
| "value_contains_generated_text _ = False"
| "any_generated [] = False"
| "any_generated (v # vs) = (json_has_generated_text v \<or> any_generated vs)"
| "member_generated [] = False"
| "member_generated ((key, v) # m) =
     ((if key \<in> {''content'', ''text''} then value_contains_generated_text v
       else key \<in> {''choices'', ''delta'', ''message'', ''content_block'', ''candidates'', ''parts''} \<and> json_has_generated_text v)
      \<or> member_generated m)"

definition sse_event_has_content :: "(string \<Rightarrow> json option) \<Rightarrow> string \<Rightarrow> bool" where
  "sse_event_has_content from_str d = is_some_and json_has_generated_text (from_str d)"

section \<open>The parser\<close>

record SseParser =
  pending :: string
  event_data :: string
  content_offsets :: "duration list"
  last_offset :: duration

definition SseParser_default :: SseParser where
  "SseParser_default = \<lparr>pending = [], event_data = [], content_offsets = [], last_offset = 0\<rparr>"

definition finish_event :: "(string \<Rightarrow> json option) \<Rightarrow> duration \<Rightarrow> SseParser \<Rightarrow> SseParser" where
  "finish_event from_str offset p =
     (let d = trim (event_data p) in
      p\<lparr>content_offsets := (if d \<noteq> [] \<and> d \<noteq> ''[DONE]'' \<and> sse_event_has_content from_str d
          then content_offsets p @ [offset] else content_offsets p),
        event_data := []\<rparr>)"

definition push_line :: "(string \<Rightarrow> json option) \<Rightarrow> string \<Rightarrow> duration \<Rightarrow> SseParser \<Rightarrow> SseParser" where
  "push_line from_str l offset p =
     (if l = [] then finish_event from_str offset p
      else case strip_prefix ''data:'' l of
        None \<Rightarrow> p
      | Some d \<Rightarrow> p\<lparr>event_data := (if event_data p \<noteq> [] then event_data p @ [LF] else []) @ trim_start d\<rparr>)"

lemma pending_push_line [simp]: "pending (push_line from_str l offset p) = pending p"
  by (simp add: push_line_def finish_event_def Let_def split: option.split)

text \<open>The loop of \<^verbatim>\<open>push_chunk\<close>: one complete line after the other.\<close>

function drain_pending :: "(string \<Rightarrow> json option) \<Rightarrow> duration \<Rightarrow> SseParser \<Rightarrow> SseParser" where
  "drain_pending from_str offset p =
     (case split_once LF (pending p) of
        None \<Rightarrow> p
      | Some (l, rest) \<Rightarrow>
          drain_pending from_str offset (push_line from_str (trim_end_char CR l) offset (p\<lparr>pending := rest\<rparr>)))"
  by pat_completeness auto
termination
  by (relation "measure (\<lambda>(_, _, p). length (pending p))") (auto simp: split_once_Some)

declare drain_pending.simps [simp del]

definition push_chunk :: "(string \<Rightarrow> json option) \<Rightarrow> string \<times> duration \<Rightarrow> SseParser \<Rightarrow> SseParser" where
  "push_chunk from_str c p =
     drain_pending from_str (snd c) (p\<lparr>last_offset := snd c, pending := pending p @ utf8_lossy (fst c)\<rparr>)"

definition finish :: "(string \<Rightarrow> json option) \<Rightarrow> SseParser \<Rightarrow> duration list" where
  "finish from_str p =
     (let p = (if pending p \<noteq> [] then push_line from_str (trim_end_char CR (pending p)) (last_offset p) (p\<lparr>pending := []\<rparr>) else p)
      in content_offsets (finish_event from_str (last_offset p) p))"

text \<open>The part of \<^verbatim>\<open>run_provider_probe\<close> that reads the body: chunks with the times they came at.\<close>

definition probe_offsets :: "(string \<Rightarrow> json option) \<Rightarrow> (string \<times> duration) list \<Rightarrow> duration list" where
  "probe_offsets from_str chunks = finish from_str (fold (push_chunk from_str) chunks SseParser_default)"

section \<open>Floats\<close>

definition pow2 :: "int \<Rightarrow> rat" where
  "pow2 e = (if 0 \<le> e then 2 ^ nat e else 1 / 2 ^ nat (- e))"

text \<open>The exponent of a positive number: the power of two it lies at or above.\<close>

definition exponent :: "rat \<Rightarrow> int" where
  "exponent x =
     (let (p, q) = quotient_of x; e = int (floorlog 2 (nat p)) - int (floorlog 2 (nat q))
      in if pow2 e \<le> x then e else e - 1)"

definition round_half_even :: "rat \<Rightarrow> int" where
  "round_half_even y =
     (let f = \<lfloor>y\<rfloor>; r = y - of_int f in
      if r < 1 / 2 then f else if r > 1 / 2 then f + 1 else if even f then f else f + 1)"

definition f64 :: "rat \<Rightarrow> rat" where
  "f64 x = (if x \<le> 0 then 0 else let u = pow2 (exponent x - 52) in of_int (round_half_even (x / u)) * u)"

definition as_secs_f64 :: "duration \<Rightarrow> rat" where
  "as_secs_f64 d = f64 (f64 (of_nat (d div 1000000000)) + f64 (f64 (of_nat (d mod 1000000000)) / f64 1000000000))"

section \<open>The classifier\<close>

definition millis :: "nat \<Rightarrow> duration" where
  "millis n = n * 1000000"

definition MIN_CONTENT_CHUNKS :: nat where "MIN_CONTENT_CHUNKS = 4"
definition DISTINCT_BUCKET :: duration where "DISTINCT_BUCKET = millis 150"
definition MIN_STREAMING_SPAN :: duration where "MIN_STREAMING_SPAN = millis 750"
definition MIN_STREAMING_RATIO :: rat where "MIN_STREAMING_RATIO = f64 (35 / 100)"
definition BUFFERED_BURST_SPAN :: duration where "BUFFERED_BURST_SPAN = millis 250"
definition BUFFERED_FIRST_WAIT :: duration where "BUFFERED_FIRST_WAIT = secs 1"
definition BUFFERED_RATIO :: rat where "BUFFERED_RATIO = f64 (20 / 100)"

datatype StreamingVerdict = Streaming | Buffered | Inconclusive

record ProbeTiming =
  t_first :: duration
  t_last :: duration
  t_span :: duration
  t_chunks :: nat

definition probe_timing :: "duration list \<Rightarrow> ProbeTiming option" where
  "probe_timing offsets =
     (if length offsets < 2 then None
      else Some \<lparr>t_first = hd offsets, t_last = last offsets, t_span = last offsets - hd offsets, t_chunks = length offsets\<rparr>)"

fun buckets_from :: "duration option \<Rightarrow> duration list \<Rightarrow> nat" where
  "buckets_from last_bucket [] = 0"
| "buckets_from last_bucket (t # ts) =
     (if is_none_or (\<lambda>l. t - l \<ge> DISTINCT_BUCKET) last_bucket then Suc (buckets_from (Some t) ts)
      else buckets_from last_bucket ts)"

definition distinct_arrival_buckets :: "duration list \<Rightarrow> nat" where
  "distinct_arrival_buckets offsets = buckets_from None offsets"

definition span_ratio :: "ProbeTiming \<Rightarrow> rat" where
  "span_ratio t = f64 (as_secs_f64 (t_span t) / max (as_secs_f64 (t_last t)) (f64 (1 / 1000)))"

definition classify_streaming :: "duration list \<Rightarrow> StreamingVerdict" where
  "classify_streaming offsets =
     (case probe_timing offsets of
        None \<Rightarrow> Inconclusive
      | Some t \<Rightarrow>
          if t_chunks t \<ge> MIN_CONTENT_CHUNKS \<and> t_first t \<ge> BUFFERED_FIRST_WAIT
             \<and> t_span t \<le> BUFFERED_BURST_SPAN \<and> span_ratio t \<le> BUFFERED_RATIO then Buffered
          else if t_chunks t \<ge> MIN_CONTENT_CHUNKS \<and> distinct_arrival_buckets offsets \<ge> 3
             \<and> (t_span t \<ge> MIN_STREAMING_SPAN \<or> span_ratio t \<ge> MIN_STREAMING_RATIO) then Streaming
          else Inconclusive)"

section \<open>Laws of the parser\<close>

text \<open>Two states that differ in times only.\<close>

definition alike :: "SseParser \<Rightarrow> SseParser \<Rightarrow> bool" where
  "alike p q \<longleftrightarrow> pending p = pending q \<and> event_data p = event_data q \<and> length (content_offsets p) = length (content_offsets q)"

lemma alike_push_line: "alike p q \<Longrightarrow> alike (push_line F l t p) (push_line F l u q)"
  by (auto simp: alike_def push_line_def finish_event_def Let_def split: option.split)

lemma alike_pending: "alike p q \<Longrightarrow> alike (p\<lparr>pending := x\<rparr>) (q\<lparr>pending := x\<rparr>)"
  "alike p q \<Longrightarrow> alike (p\<lparr>last_offset := t\<rparr>) q" "alike p p"
  by (simp_all add: alike_def)

lemma alike_trans: "alike p q \<Longrightarrow> alike q r \<Longrightarrow> alike p r"
  by (simp add: alike_def)

lemma alike_drain: "alike p q \<Longrightarrow> alike (drain_pending F t p) (drain_pending F u q)"
proof (induction F t p arbitrary: q rule: drain_pending.induct)
  case (1 F t p)
  then have same: "pending q = pending p" by (simp add: alike_def)
  show ?case
  proof (cases "split_once LF (pending p)")
    case None
    with 1(2) same show ?thesis by (simp add: drain_pending.simps [of F t p] drain_pending.simps [of F u q])
  next
    case (Some lr)
    obtain l rest where lr: "lr = (l, rest)" by (cases lr)
    from 1(1) [OF Some lr [symmetric] alike_push_line [OF alike_pending(1) [OF 1(2)]]] Some lr same show ?thesis
      by (simp add: drain_pending.simps [of F t p] drain_pending.simps [of F u q])
  qed
qed

lemma drain_none: "LF \<notin> set (pending p) \<Longrightarrow> drain_pending F t p = p"
proof -
  assume "LF \<notin> set (pending p)"
  then have "split_once LF (pending p) = None"
    by (cases "split_once LF (pending p)") (auto simp: split_once_Some)
  then show ?thesis by (subst drain_pending.simps) simp
qed

lemma drain_line: "LF \<notin> set l \<Longrightarrow> pending p = l @ LF # rest \<Longrightarrow>
    drain_pending F t p = drain_pending F t (push_line F (trim_end_char CR l) t (p\<lparr>pending := rest\<rparr>))"
proof -
  assume "LF \<notin> set l" "pending p = l @ LF # rest"
  then have "split_once LF (pending p) = Some (l, rest)" by (simp add: split_once_Some)
  then show ?thesis by (subst drain_pending.simps) simp
qed

lemma drained: "LF \<notin> set (pending (drain_pending F t p))"
proof (induction F t p rule: drain_pending.induct)
  case (1 F t p)
  show ?case
  proof (cases "split_once LF (pending p)")
    case None
    then have "LF \<notin> set (pending p)" by (metis split_list_first split_once_Some option.distinct(1))
    with drain_none show ?thesis by metis
  next
    case (Some lr)
    with 1 show ?thesis by (cases lr) (simp add: drain_pending.simps [of F t p])
  qed
qed

lemma push_line_pending: "push_line F l t (p\<lparr>pending := x\<rparr>) = (push_line F l t p)\<lparr>pending := x\<rparr>"
  by (simp add: push_line_def finish_event_def Let_def split: option.split)

lemma drain_append:
  "drain_pending F t (p\<lparr>pending := a @ b\<rparr>)
     = drain_pending F t ((drain_pending F t (p\<lparr>pending := a\<rparr>))\<lparr>pending := pending (drain_pending F t (p\<lparr>pending := a\<rparr>)) @ b\<rparr>)"
proof (induction a arbitrary: p rule: line_induct)
  case (tail a)
  then show ?case by (simp add: drain_none)
next
  case (line l rest)
  have "drain_pending F t (p\<lparr>pending := (l @ LF # rest) @ b\<rparr>)
      = drain_pending F t ((push_line F (trim_end_char CR l) t p)\<lparr>pending := rest @ b\<rparr>)"
    using line(1) drain_line [of l "p\<lparr>pending := (l @ LF # rest) @ b\<rparr>" "rest @ b"] by (simp add: push_line_pending)
  moreover have "drain_pending F t (p\<lparr>pending := l @ LF # rest\<rparr>)
      = drain_pending F t ((push_line F (trim_end_char CR l) t p)\<lparr>pending := rest\<rparr>)"
    using line(1) drain_line [of l "p\<lparr>pending := l @ LF # rest\<rparr>" rest] by (simp add: push_line_pending)
  ultimately show ?case using line(2) [of "push_line F (trim_end_char CR l) t p"] by simp
qed

definition decoded :: "(string \<times> duration) list \<Rightarrow> string" where
  "decoded chunks = concat (map (utf8_lossy \<circ> fst) chunks)"

lemma fold_chunks:
  "LF \<notin> set (pending p) \<Longrightarrow>
     alike (fold (push_chunk F) chunks p) (drain_pending F 0 (p\<lparr>pending := pending p @ decoded chunks\<rparr>))"
proof (induction chunks arbitrary: p)
  case Nil
  then show ?case by (simp add: decoded_def drain_none alike_pending)
next
  case (Cons c cs)
  let ?q = "push_chunk F c p" and ?r = "drain_pending F 0 (p\<lparr>pending := pending p @ utf8_lossy (fst c)\<rparr>)"
  have q: "alike ?q ?r"
    unfolding push_chunk_def by (intro alike_drain) (simp add: alike_def)
  have "alike (fold (push_chunk F) cs ?q) (drain_pending F 0 (?q\<lparr>pending := pending ?q @ decoded cs\<rparr>))"
    by (rule Cons.IH) (simp add: push_chunk_def drained)
  moreover have "alike (drain_pending F 0 (?q\<lparr>pending := pending ?q @ decoded cs\<rparr>)) (drain_pending F 0 (?r\<lparr>pending := pending ?r @ decoded cs\<rparr>))"
    using q by (intro alike_drain) (simp add: alike_def)
  moreover have "drain_pending F 0 (?r\<lparr>pending := pending ?r @ decoded cs\<rparr>)
      = drain_pending F 0 (p\<lparr>pending := (pending p @ utf8_lossy (fst c)) @ decoded cs\<rparr>)"
    by (rule drain_append [symmetric])
  moreover have "decoded (c # cs) = utf8_lossy (fst c) @ decoded cs" by (simp add: decoded_def)
  ultimately have "alike (fold (push_chunk F) cs ?q) (drain_pending F 0 (p\<lparr>pending := pending p @ decoded (c # cs)\<rparr>))"
    using alike_trans by (simp only: append_assoc)
  then show ?case by simp
qed

lemma alike_finish: "alike p q \<Longrightarrow> length (finish F p) = length (finish F q)"
  unfolding finish_def Let_def
  by (auto simp: alike_def push_line_def finish_event_def Let_def split: option.split)

text \<open>How many content events a whole text holds: one pass over it.\<close>

definition content_events :: "(string \<Rightarrow> json option) \<Rightarrow> string \<Rightarrow> nat" where
  "content_events F text = length (finish F (drain_pending F 0 (SseParser_default\<lparr>pending := text\<rparr>)))"

text \<open>Times are noted in order, and only times something came at.\<close>

definition timed_by :: "duration list \<Rightarrow> SseParser \<Rightarrow> bool" where
  "timed_by tms p \<longleftrightarrow> sorted (content_offsets p) \<and> (\<forall>t \<in> set (content_offsets p). t \<in> set tms \<and> t \<le> last_offset p)
     \<and> (tms = [] \<longrightarrow> pending p = [] \<and> event_data p = []) \<and> (tms \<noteq> [] \<longrightarrow> last_offset p \<in> set tms)"

lemma last_offset_push_line [simp]: "last_offset (push_line F l t p) = last_offset p"
  by (simp add: push_line_def finish_event_def Let_def split: option.split)

lemma timed_push_line: "timed_by tms p \<Longrightarrow> tms \<noteq> [] \<Longrightarrow> timed_by tms (push_line F l (last_offset p) p)"
  by (auto simp: timed_by_def push_line_def finish_event_def Let_def sorted_append split: option.split)

lemma timed_drain: "timed_by tms p \<Longrightarrow> tms \<noteq> [] \<Longrightarrow> last_offset p = t \<Longrightarrow> timed_by tms (drain_pending F t p)"
proof (induction F t p rule: drain_pending.induct)
  case (1 F t p)
  show ?case
  proof (cases "split_once LF (pending p)")
    case None
    with 1 show ?thesis by (subst drain_pending.simps) simp
  next
    case (Some lr)
    obtain l rest where lr: "lr = (l, rest)" by (cases lr)
    from 1(2,3) have "timed_by tms (p\<lparr>pending := rest\<rparr>)" by (simp add: timed_by_def)
    from timed_push_line [OF this 1(3)] 1(4) have "timed_by tms (push_line F (trim_end_char CR l) t (p\<lparr>pending := rest\<rparr>))" by simp
    from 1(1) [OF Some lr [symmetric] this 1(3)] 1(4) Some lr show ?thesis by (subst drain_pending.simps) simp
  qed
qed

lemma timed_chunks:
  "timed_by tms p \<Longrightarrow> sorted (map snd cs) \<Longrightarrow> \<forall>c \<in> set cs. last_offset p \<le> snd c \<Longrightarrow>
     timed_by (tms @ map snd cs) (fold (push_chunk F) cs p)"
proof (induction cs arbitrary: p tms)
  case (Cons c cs)
  have "timed_by (tms @ [snd c]) (p\<lparr>last_offset := snd c, pending := pending p @ utf8_lossy (fst c)\<rparr>)"
    using Cons.prems(1,3) by (auto simp: timed_by_def)
  then have "timed_by (tms @ [snd c]) (push_chunk F c p)"
    unfolding push_chunk_def by (rule timed_drain) simp_all
  moreover have "last_offset (drain_pending F t q) = last_offset q" for t q
  proof (induction F t q rule: drain_pending.induct)
    case (1 F t q)
    then show ?case by (subst drain_pending.simps) (auto split: option.split)
  qed
  then have "last_offset (push_chunk F c p) = snd c" by (simp add: push_chunk_def)
  ultimately show ?case using Cons.IH [of "tms @ [snd c]" "push_chunk F c p"] Cons.prems(2) by simp
qed simp

section \<open>Laws of the classifier\<close>

text \<open>Times at least one bucket apart.\<close>

definition spaced :: "duration list \<Rightarrow> bool" where
  "spaced ts \<longleftrightarrow> sorted_wrt (\<lambda>a b. a + DISTINCT_BUCKET \<le> b) ts"

abbreviation after_bucket :: "duration option \<Rightarrow> duration \<Rightarrow> bool" where
  "after_bucket l t \<equiv> is_none_or (\<lambda>l. l + DISTINCT_BUCKET \<le> t) l"

lemma bucket_pos: "0 < DISTINCT_BUCKET"
  by (simp add: DISTINCT_BUCKET_def millis_def)

lemma bucket_gap: "DISTINCT_BUCKET \<le> t - l \<longleftrightarrow> l + DISTINCT_BUCKET \<le> t"
  using bucket_pos by (auto simp: le_diff_conv2) 

lemma buckets_reached: "\<exists>ys. subseq ys ts \<and> spaced ys \<and> list_all (after_bucket l) ys \<and> length ys = buckets_from l ts"
proof (induction ts arbitrary: l)
  case (Cons t ts)
  show ?case
  proof (cases "after_bucket l t")
    case True
    from Cons.IH [of "Some t"] obtain ys where ys: "subseq ys ts" "spaced ys" "list_all (\<lambda>y. t + DISTINCT_BUCKET \<le> y) ys"
      "length ys = buckets_from (Some t) ts" by auto
    have "list_all (after_bucket l) (t # ys)"
      using True ys(3) by (auto simp: is_none_or_def list_all_iff split: option.split)
    with True ys show ?thesis
      by (intro exI [of _ "t # ys"]) (auto simp: spaced_def list_all_iff is_none_or_def bucket_gap split: option.splits)
  next
    case False
    from Cons.IH [of l] False show ?thesis by (auto simp: is_none_or_def bucket_gap split: option.splits)
  qed
qed (simp add: spaced_def)

lemma buckets_most:
  "sorted ts \<Longrightarrow> subseq ys ts \<Longrightarrow> spaced ys \<Longrightarrow> list_all (after_bucket l) ys \<Longrightarrow> length ys \<le> buckets_from l ts"
proof (induction ts arbitrary: l ys)
  case (Cons t ts)
  show ?case
  proof (cases "after_bucket l t")
    case True
    then have b: "buckets_from l (t # ts) = Suc (buckets_from (Some t) ts)"
      by (auto simp: is_none_or_def bucket_gap split: option.splits)
    show ?thesis
    proof (cases ys)
      case (Cons y ys')
      with Cons.prems(1,2) have sub: "subseq ys' ts" and "t \<le> y"
        by (auto simp: subseq_Cons2_iff dest: subseq_Cons' list_emb_set split: if_splits)
      moreover have "list_all (after_bucket (Some t)) ys'"
        using Cons.prems(3) Cons \<open>t \<le> y\<close> by (auto simp: spaced_def list_all_iff)
      ultimately have "length ys' \<le> buckets_from (Some t) ts"
        using Cons.IH [of ys' "Some t"] Cons.prems(1,3) Cons by (simp add: spaced_def)
      with Cons b show ?thesis by simp
    qed simp
  next
    case False
    then have b: "buckets_from l (t # ts) = buckets_from l ts"
      by (auto simp: is_none_or_def bucket_gap split: option.splits)
    have "subseq ys ts"
      using Cons.prems(2,4) False by (cases ys) (auto simp: subseq_Cons2_iff split: if_splits)
    with Cons.IH [of ys l] Cons.prems b show ?thesis by simp
  qed
qed simp

text \<open>Two buckets apart takes longer than a burst, so the verdicts exclude each other.\<close>

lemma three_buckets_span:
  assumes "sorted ts" and "3 \<le> distinct_arrival_buckets ts"
  shows "2 * DISTINCT_BUCKET \<le> last ts - hd ts"
proof -
  from buckets_reached [of ts None] assms(2) obtain ys where ys: "subseq ys ts" "spaced ys" "3 \<le> length ys"
    by (auto simp: distinct_arrival_buckets_def)
  then obtain a b c zs where abc: "ys = a # b # c # zs"
    by (cases ys; cases "tl ys"; cases "tl (tl ys)") auto
  have "set ys \<subseteq> set ts" using ys(1) by (auto dest: list_emb_set)
  with abc have "a \<in> set ts" "c \<in> set ts" by auto
  with assms(1) have "hd ts \<le> a" by (cases ts) auto
  moreover from \<open>c \<in> set ts\<close> obtain i where i: "i < length ts" "ts ! i = c" by (auto simp: in_set_conv_nth)
  then have "ts ! i \<le> ts ! (length ts - 1)" using assms(1) by (intro sorted_nth_mono) auto
  then have "c \<le> last ts" using i by (cases ts) (auto simp: last_conv_nth)
  moreover have "a + DISTINCT_BUCKET \<le> b" "b + DISTINCT_BUCKET \<le> c" using ys(2) abc by (simp_all add: spaced_def)
  ultimately show ?thesis by simp
qed

lemma spans: "BUFFERED_BURST_SPAN < 2 * DISTINCT_BUCKET"
  by (simp add: BUFFERED_BURST_SPAN_def DISTINCT_BUCKET_def millis_def)

lemma trim_empty: "trim [] = []"
  by (simp add: trim_def trim_end_def trim_start_def strip_ws.simps ws_len_def white_space_def)

section \<open>Properties\<close>

text \<open>
  What the parser notes does not depend on how the answer is cut into chunks: as many arrivals as one pass over the
  decoded text finds content events, each at the time a chunk came, in order.
\<close>

theorem probe_offsets_exact:
  assumes "sorted (map snd chunks)"
  shows "length (probe_offsets F chunks) = content_events F (decoded chunks)
    \<and> sorted (probe_offsets F chunks) \<and> set (probe_offsets F chunks) \<subseteq> set (map snd chunks)"
proof -
  let ?p = "fold (push_chunk F) chunks SseParser_default"
  have "alike ?p (drain_pending F 0 (SseParser_default\<lparr>pending := decoded chunks\<rparr>))"
    using fold_chunks [of SseParser_default F chunks] by (simp add: SseParser_default_def)
  then have "length (probe_offsets F chunks) = content_events F (decoded chunks)"
    unfolding probe_offsets_def content_events_def by (rule alike_finish)
  moreover have "timed_by ([] @ map snd chunks) ?p"
    using assms by (intro timed_chunks) (auto simp: timed_by_def SseParser_default_def)
  then have t: "timed_by (map snd chunks) ?p" by simp
  then have "sorted (probe_offsets F chunks) \<and> set (probe_offsets F chunks) \<subseteq> set (map snd chunks)"
  proof (cases "chunks = []")
    case True
    then show ?thesis by (simp add: probe_offsets_def finish_def SseParser_default_def finish_event_def trim_empty)
  next
    case False
    then have ne: "map snd chunks \<noteq> []" by simp
    let ?q = "if pending ?p \<noteq> [] then push_line F (trim_end_char CR (pending ?p)) (last_offset ?p) (?p\<lparr>pending := []\<rparr>) else ?p"
    have "timed_by (map snd chunks) (?p\<lparr>pending := []\<rparr>)" using t by (simp add: timed_by_def)
    from timed_push_line [OF this ne] t have "timed_by (map snd chunks) ?q" by simp
    moreover have "last_offset ?q = last_offset ?p" by simp
    ultimately show ?thesis
      using ne by (auto simp: probe_offsets_def finish_def Let_def finish_event_def timed_by_def sorted_append)
  qed
  ultimately show ?thesis by blast
qed

text \<open>
  C40: The verdict is exact whatever is tested first: buffered for at least four chunks that come in a burst after a long
  wait, streaming for at least four over three buckets and a long enough span, and never both. The number of buckets is
  the largest number of arrivals that are pairwise at least a bucket apart.
\<close>

theorem classify_exact:
  assumes "sorted offsets" and "probe_timing offsets = Some t"
  shows "(classify_streaming offsets = Buffered \<longleftrightarrow> 4 \<le> length offsets \<and> BUFFERED_FIRST_WAIT \<le> t_first t
       \<and> t_span t \<le> BUFFERED_BURST_SPAN \<and> span_ratio t \<le> BUFFERED_RATIO)
    \<and> (classify_streaming offsets = Streaming \<longleftrightarrow> 4 \<le> length offsets \<and> 3 \<le> distinct_arrival_buckets offsets
       \<and> (MIN_STREAMING_SPAN \<le> t_span t \<or> MIN_STREAMING_RATIO \<le> span_ratio t))
    \<and> (\<exists>ys. subseq ys offsets \<and> spaced ys \<and> length ys = distinct_arrival_buckets offsets)
    \<and> (\<forall>ys. subseq ys offsets \<and> spaced ys \<longrightarrow> length ys \<le> distinct_arrival_buckets offsets)"
proof -
  from assms(2) have "t_span t = last offsets - hd offsets" "t_chunks t = length offsets"
    by (auto simp: probe_timing_def split: if_splits)
  moreover from this three_buckets_span [OF assms(1)] spans
  have "3 \<le> distinct_arrival_buckets offsets \<Longrightarrow> \<not> t_span t \<le> BUFFERED_BURST_SPAN" by auto
  ultimately show ?thesis
    using assms buckets_reached [of offsets None] buckets_most [OF assms(1), of _ None]
    by (auto simp: classify_streaming_def MIN_CONTENT_CHUNKS_def distinct_arrival_buckets_def list_all_iff)
qed

definition demo_json :: "string \<Rightarrow> json option" where
  "demo_json d = (if d = ''x'' then Some (JObject [(''content'', JString ''hello'')]) else None)"

theorem probe_offsets_exact_witness:
  "probe_offsets demo_json [(''data: '', 1), (''x'' @ [LF, LF] @ ''data:'', 2), (''x'', 3)] = [2, 3]
   \<and> content_events demo_json (decoded [(''data: '', 1), (''x'' @ [LF, LF] @ ''data:'', 2), (''x'', 3)]) = 2"
proof -
  have "probe_offsets demo_json [(''data: '', 1), (''x'' @ [LF, LF] @ ''data:'', 2), (''x'', 3)] = [2, 3]"
    by code_simp
  moreover from this probe_offsets_exact [of "[(''data: '', 1), (''x'' @ [LF, LF] @ ''data:'', 2), (''x'', 3)]" demo_json]
  show ?thesis by simp
qed

theorem classify_exact_witness:
  "classify_streaming [millis 100, millis 400, millis 700, millis 1000] = Streaming"
proof -
  have "probe_timing [millis 100, millis 400, millis 700, millis 1000]
      = Some \<lparr>t_first = millis 100, t_last = millis 1000, t_span = millis 900, t_chunks = 4\<rparr>"
    by (simp add: probe_timing_def millis_def)
  moreover have "sorted [millis 100, millis 400, millis 700, millis 1000]" by (simp add: millis_def)
  moreover have "distinct_arrival_buckets [millis 100, millis 400, millis 700, millis 1000] = 4"
    by (simp add: distinct_arrival_buckets_def DISTINCT_BUCKET_def millis_def)
  ultimately show ?thesis
    using classify_exact [of "[millis 100, millis 400, millis 700, millis 1000]"]
    by (simp add: MIN_STREAMING_SPAN_def millis_def)
qed

end
