(* ===== verification/Spec2Isabelle.thy ===== *)
theory Spec2Isabelle
  imports Mantle_Proxy Chutes_Client Near_Forward Kubetee_Verify Provider_Keys
    Pricing Bindings_Client Cloud_Policy Streaming_Probe
begin

text \<open>
  A verification development of gm-miner: the enclave daemon \<^verbatim>\<open>attestd/\<close> and its provider adapters, and
  the operator's command line \<^verbatim>\<open>cli/\<close>. A miner runs inside a confidential VM. Its adapters forward
  inference requests to upstream providers and must send a request only to an endpoint whose
  attestation or model binding they have checked.

  \<^bold>\<open>How the parts interact.\<close> The Bedrock Mantle adapter (\<^verbatim>\<open>bedrock_mantle.rs\<close>) keeps a cache of model
  bindings that a background task refreshes from a registry; a request is checked, looked up in the
  cache (waiting for one refresh if it is behind), sent to the bound model, and its answer is streamed
  back through guards that check the model's identity and the shape of the event stream. The Chutes adapter
  (\<^verbatim>\<open>chutes_verify/\<close>) discovers the instances of a chute, admits those whose evidence verifies and issues
  each request a ticket: an admitted instance with a single-use nonce. The request is encrypted to the key the
  evidence of that instance binds, and its answer, complete or streamed, is decrypted and checked before the
  caller sees it. The KubeTEE and NEAR adapters
  (\<^verbatim>\<open>kubetee_verify/\<close>, \<^verbatim>\<open>near_verify.rs\<close>) dial a supplier, bind the live TLS key to fresh TDX evidence, keep
  the connection in a pool (\<^verbatim>\<open>attested_pool.rs\<close>) and send inference only on such connections; KubeTEE evidence
  also replays an event log (\<^verbatim>\<open>eventlog.rs\<close>). Error texts tell the gateway which failures are the account's
  (\<^verbatim>\<open>gateway_contract.rs\<close>). The CLI checks provider keys and turns them into key slots
  (\<^verbatim>\<open>cli/src/config.rs\<close>, \<^verbatim>\<open>slots.rs\<close>), keeps the record of each worker, chooses the image to deploy and compares its
  measured hashes, decides whether a declaration must be fenced to cloud workers (\<^verbatim>\<open>cloud_policy.rs\<close>), prices offers
  (\<^verbatim>\<open>pricing.rs\<close>), and probes the deployed worker for streaming with the binding revisions the registry names
  (\<^verbatim>\<open>commands/streaming_check.rs\<close>, \<^verbatim>\<open>bedrock_bindings.rs\<close>).

  \<^bold>\<open>Theories.\<close>

  \<^item> \<open>Prelude\<close>: results, options, time in nanoseconds, hash maps and ordered maps as association lists.
  \<^item> \<open>Rust_Text\<close>: the string operations of the standard library the sources use, on byte lists.
  \<^item> \<open>Attested_Pool\<close>: \<^verbatim>\<open>attested_pool.rs\<close> and the limits of \<^verbatim>\<open>kubetee_verify/pool.rs\<close>. \<open>Pool\<close>, \<open>pool_take\<close>,
    \<open>give_back\<close> and \<open>Lease\<close> are the structs and methods; a step relation interleaves requests. Every connection
    is in exactly one place, checkouts are most recent first.
  \<^item> \<open>Strict_Json\<close>: \<^verbatim>\<open>strict_json.rs\<close>, the duplicate-refusing visitor over the events serde makes; it accepts
    exactly the documents without a repeated name.
  \<^item> \<open>Binding_Cache\<close>: \<^verbatim>\<open>parse_bindings_payload\<close>, \<^verbatim>\<open>BindingCache\<close>. Served bindings never regress, a re-added
    binding has a new revision, lookups are exact, snapshots round-trip.
  \<^item> \<open>Binding_Refresher\<close>: \<^verbatim>\<open>run_binding_refresher\<close> as a step machine with the waiting request: spacing of
    fetches, no starvation, no lost nudge, and that every run refines the store of accepted snapshots.
  \<^item> \<open>Http_Messages\<close>, \<open>Mantle_Stream\<close>, \<open>Mantle_Proxy\<close>: responses and bounded bodies; the frames of an event
    stream, the identity check of its preamble and the stream guard; the request path with every public error.
  \<^item> \<open>Gateway_Contract\<close>: the drain phrases the gateway looks for.
  \<^item> \<open>Chutes_Types\<close>: targets, errors, discovery documents.
  \<^item> \<open>Chutes_State\<close>: \<^verbatim>\<open>ChuteState\<close> and \<^verbatim>\<open>NonceLedger\<close> of \<^verbatim>\<open>admission.rs\<close>: a nonce is never issued twice while it
    is valid, tickets name live admissions, a stale renewal changes nothing a later verdict decided.
  \<^item> \<open>Chutes_Budget\<close>: \<^verbatim>\<open>Budget\<close> and \<^verbatim>\<open>Discoveries\<close>: per-minute caps over any interleaving of operations with
    bounded clock skew, backoffs that never shorten, refusals that hold.
  \<^item> \<open>Chutes_Issue\<close>: \<^verbatim>\<open>Issuer::issue\<close> and \<^verbatim>\<open>renew_while_warm\<close> as turns between awaits, on shared state any other
    task may change: an issue ends within eleven turns and four calls.
  \<^item> \<open>Chutes_Scopes\<close>: \<^verbatim>\<open>Admissions\<close>: the map of scopes with its reference counts as a step relation; a scope's
    lock is never split and the map stays within its cap.
  \<^item> \<open>Chutes_Crypto\<close>: \<^verbatim>\<open>crypto.rs\<close>: the wire format of the encryption; round trips with the instance's side, whose sizes
    and labels are written out apart: requests, complete answers and streams.
  \<^item> \<open>Chutes_Stream\<close>: \<^verbatim>\<open>StreamDecryptor\<close> of \<^verbatim>\<open>stream.rs\<close>: independent of how the body is cut, releases the
    texts of this body's encrypted chunks in order, and ends well only after a billable usage frame.
  \<^item> \<open>Chutes_Forward\<close>: \<^verbatim>\<open>forward.rs\<close>: the checks of a request, its invocations and retries, its answer.
  \<^item> \<open>Tee_Evidence\<close>: \<^verbatim>\<open>tee_evidence.rs\<close>, \<^verbatim>\<open>nras.rs\<close>: quote appraisal, signed tokens, GPU verdicts.
  \<^item> \<open>Chutes_Evidence\<close>: the evidence rows of \<^verbatim>\<open>evidence.rs\<close>, \<^verbatim>\<open>references.rs\<close>, \<^verbatim>\<open>admit_instance\<close>: what an
    admission rests on.
  \<^item> \<open>Chutes_Client\<close>: \<^verbatim>\<open>client.rs\<close>: bounded answers, error details, the admission batch.
  \<^item> \<open>Upstream_Proxy\<close>, \<open>Attested_Checkout\<close>: \<^verbatim>\<open>upstream_proxy.rs\<close>, the dialling, attestation attempts, header
    rules and listing of a verifying proxy; and the loop both verifiers use to take an idle connection.
  \<^item> \<open>Near_Verify\<close>, \<open>Near_Forward\<close>: \<^verbatim>\<open>near_verify.rs\<close>: what an attested connection has proved; the pools, the
    checkout, and that inference goes out on attested connections only.
  \<^item> \<open>Kubetee_Binding\<close>, \<open>Kubetee_Evidence\<close>, \<open>Kubetee_Verify\<close>: \<^verbatim>\<open>binding.rs\<close>, \<^verbatim>\<open>evidence.rs\<close> and
    \<^verbatim>\<open>mod.rs\<close> of \<^verbatim>\<open>kubetee_verify/\<close>: canonical JSON and the statement over it, the evidence of a connection,
    and the request path.
  \<^item> \<open>Event_Log\<close>: \<^verbatim>\<open>eventlog.rs\<close>: the parser accepts exactly the encodings of well-formed logs, and replay
    extends each register with its own digests in order.
  \<^item> \<open>Provider_Keys\<close>: \<^verbatim>\<open>ProviderKeys\<close>, \<^verbatim>\<open>slots.rs\<close>: pinned Azure hosts, exact slots, exports a POSIX shell
    reads back unchanged.
  \<^item> \<open>Cli_Base\<close>, \<open>Pricing\<close>: \<^verbatim>\<open>network.rs\<close>, \<^verbatim>\<open>table.rs\<close>, \<^verbatim>\<open>pricing.rs\<close>: discounts read back exactly, discounted vectors
    price the same dimensions within the retail price, printed amounts lose nothing.
  \<^item> \<open>Bindings_Client\<close>: \<^verbatim>\<open>bedrock_bindings.rs\<close>, the CLI's own reader of the binding format; it agrees with the
    adapter's.
  \<^item> \<open>Cli_Workers\<close>: worker records, tokens and networks of \<^verbatim>\<open>config.rs\<close>, \<^verbatim>\<open>workers.rs\<close>, \<^verbatim>\<open>deploy/version.rs\<close>,
    \<^verbatim>\<open>deploy/hashes.rs\<close>: what saving a record does, which version is chosen, when hashes match.
  \<^item> \<open>Cloud_Policy\<close>: \<^verbatim>\<open>cloud_policy.rs\<close>: when a declaration is direct, fenced, or left out of bulk declarations.
  \<^item> \<open>Streaming_Probe\<close>: \<^verbatim>\<open>commands/streaming_check.rs\<close>: what arrives when, and the verdict on it, with 64-bit floats
    as the rationals they hold.

  \<^bold>\<open>Interfaces.\<close> \<open>connection_pool\<close>, \<open>versioned_store\<close>, \<open>single_use_register\<close> and \<open>sliding_window\<close> are locales:
    what a client relies on, with its lemmas proved once, each interpreted on the model's own operations
    (the pool, the binding cache, the nonce ledger, and the two queues of a budget).

  \<^bold>\<open>State and effects.\<close> A struct is a record of the same fields, an enum a datatype, a \<^verbatim>\<open>Result\<close> a sum with
  an error type, an operation a function from state to result and state. Asynchronous code is cut at its awaits;
  what a turn reads (clocks, jitter, answers of an API, liveness of a connection) is an argument, and
  concurrent tasks are interleavings of turns or steps of an inductive relation. Hash maps are association
  lists with distinct keys; shared references are named by numbers with their counts. \<^verbatim>\<open>u16\<close>, \<^verbatim>\<open>u32\<close>
  and \<^verbatim>\<open>u64\<close> are words; durations and instants are unbounded nanoseconds, so the overflow panics of
  \<^verbatim>\<open>Instant + Duration\<close> are not modelled. Code of other crates (serde_json, hyper, SHA-2, HMAC, ML-KEM,
  ChaCha20-Poly1305, gzip, DCAP, X.509, ECDSA, base-32)
  is a parameter of the definitions that call it, with its documented law as a named hypothesis.

  \<^bold>\<open>Bounds and fuel.\<close> The loops are total functions with a measure: unused nonces of a pool, bytes left in a
  log or a buffer. \<open>sh_exports\<close>, the reader of shell exports, has fuel: one unit per line.
  Taking an idle connection is a partial function (\<open>take_ready\<close>), since other requests may return connections
  between its turns; it ends when they do not (\<open>take_ready_ends\<close>).
  The eleven turns of an issue are one to return, two per admission and three per discovery allowed.

  \<^bold>\<open>Not modelled.\<close> TLS, sockets, the axum routers, logging and the tokio runtime are I/O; the primitives of the
  cryptographic crates are parameters. The other commands of the CLI (\<^verbatim>\<open>cli/src/commands/\<close>, \<^verbatim>\<open>deploy/\<close>, \<^verbatim>\<open>main.rs\<close>)
  prompt, call HTTP services and the \<^verbatim>\<open>phala\<close> program, write files and print around the checks modelled here; the
  daemon (\<^verbatim>\<open>main.rs\<close>, \<^verbatim>\<open>ratls.rs\<close>, \<^verbatim>\<open>identity.rs\<close>, the binaries) wires the adapters to sockets, keys and certificates; and
  \<^verbatim>\<open>azure-verify/\<close> walks deployed Azure resources over ARM calls. What they compute is the content of those calls, which
  is not under \<^verbatim>\<open>src/\<close>.
\<close>

end
